(* ===== verification/Prelude.thy ===== *)
theory Prelude
  imports
    Main
    "HOL-Library.Word"
    "HOL-Library.Char_ord"
    "HOL-Library.List_Lexorder"
    "HOL-Library.Sublist"
begin

text \<open>
  Shared vocabulary of the development: machine types, Rust's \<open>anyhow::Result\<close> as a sum type,
  the state-and-error actions every stateful function of the program is translated into, two
  small program logics over them (relations kept by every step, and triples with an error
  postcondition), saturating arithmetic, and the ordered map that stands for \<open>BTreeMap\<close>.
\<close>

section \<open>Names of the model's types\<close>

type_synonym byte = "8 word"
type_synonym bytes = "byte list"

text \<open>A path is the list of its components from the file-system root.\<close>

type_synonym path = "string list"

named_theorems quiet_intros \<open>introduction rules for relations kept by actions\<close>
named_theorems triple_intros \<open>introduction rules for triples\<close>
named_theorems layout \<open>facts about the shapes of store paths\<close>

section \<open>Errors\<close>

text \<open>\<open>std::io::ErrorKind\<close>, as far as the program distinguishes kinds.\<close>

datatype errkind =
    NotFound | PermissionDenied | AlreadyExists | WouldBlock | NotADirectory | IsADirectory
  | DirectoryNotEmpty | FilesystemLoop | InvalidInput | UnexpectedEof | OtherIo

text \<open>
  \<open>anyhow::Error\<close>: an operating-system error, an error raised by \<open>anyhow::bail!\<close> (with a tag for
  the site that raised it), or an error wrapped by \<open>with_context\<close>. The context is kept only where
  the program inspects the rendered message.
\<close>

datatype error = Io errkind | Bail string | Ctx string error

type_synonym 'a res = "error + 'a"

fun err_kind :: "error \<Rightarrow> errkind option" where
  "err_kind (Io k) = Some k"
| "err_kind (Bail m) = None"
| "err_kind (Ctx c e) = err_kind e"

section \<open>Actions\<close>

text \<open>
  An action takes a state and returns an outcome with the new state. \<open>Halt\<close> is the outcome of a
  process that was killed or lost power at that point: nothing after it runs, no handler sees it.
\<close>

datatype 'a outcome = Ok 'a | Err error | Halt

type_synonym ('s, 'a) act = "'s \<Rightarrow> 'a outcome \<times> 's"

definition ret :: "'a \<Rightarrow> ('s, 'a) act" where
  "ret a = (\<lambda>s. (Ok a, s))"

definition throw :: "error \<Rightarrow> ('s, 'a) act" where
  "throw e = (\<lambda>s. (Err e, s))"

definition bnd :: "('s, 'a) act \<Rightarrow> ('a \<Rightarrow> ('s, 'b) act) \<Rightarrow> ('s, 'b) act" where
  "bnd m f = (\<lambda>s. case m s of
      (Ok a, t) \<Rightarrow> f a t
    | (Err e, t) \<Rightarrow> (Err e, t)
    | (Halt, t) \<Rightarrow> (Halt, t))"

text \<open>The value of a \<open>Result\<close> that the code matches on instead of propagating with \<open>?\<close>.\<close>

definition attempt :: "('s, 'a) act \<Rightarrow> ('s, 'a res) act" where
  "attempt m = (\<lambda>s. case m s of
      (Ok a, t) \<Rightarrow> (Ok (Inr a), t)
    | (Err e, t) \<Rightarrow> (Ok (Inl e), t)
    | (Halt, t) \<Rightarrow> (Halt, t))"

definition lift :: "'a res \<Rightarrow> ('s, 'a) act" where
  "lift r = (case r of Inl e \<Rightarrow> throw e | Inr a \<Rightarrow> ret a)"

definition in_context :: "string \<Rightarrow> ('s, 'a) act \<Rightarrow> ('s, 'a) act" where
  "in_context c m = (\<lambda>s. case m s of
      (Ok a, t) \<Rightarrow> (Ok a, t)
    | (Err e, t) \<Rightarrow> (Err (Ctx c e), t)
    | (Halt, t) \<Rightarrow> (Halt, t))"

text \<open>A \<open>for\<close> loop that threads an accumulator and stops at the first error.\<close>

fun fold_act :: "('x \<Rightarrow> 'a \<Rightarrow> ('s, 'a) act) \<Rightarrow> 'x list \<Rightarrow> 'a \<Rightarrow> ('s, 'a) act" where
  "fold_act f [] a = ret a"
| "fold_act f (x # xs) a = bnd (f x a) (fold_act f xs)"

definition for_each :: "('x \<Rightarrow> ('s, unit) act) \<Rightarrow> 'x list \<Rightarrow> ('s, unit) act" where
  "for_each f xs = fold_act (\<lambda>x _. f x) xs ()"

text \<open>The same for pure fallible code.\<close>

definition rbind :: "'a res \<Rightarrow> ('a \<Rightarrow> 'b res) \<Rightarrow> 'b res" where
  "rbind r f = (case r of Inl e \<Rightarrow> Inl e | Inr a \<Rightarrow> f a)"

fun rfold :: "('x \<Rightarrow> 'a \<Rightarrow> 'a res) \<Rightarrow> 'x list \<Rightarrow> 'a \<Rightarrow> 'a res" where
  "rfold f [] a = Inr a"
| "rfold f (x # xs) a = rbind (f x a) (rfold f xs)"

definition check :: "bool \<Rightarrow> string \<Rightarrow> unit res" where
  "check b m = (if b then Inr () else Inl (Bail m))"

lemma rbind_Inr [simp]: "rbind (Inr a) f = f a"
  and rbind_Inl [simp]: "rbind (Inl e) f = Inl e"
  by (simp_all add: rbind_def)

lemma rbind_eq_Inr: "rbind r f = Inr b \<longleftrightarrow> (\<exists>a. r = Inr a \<and> f a = Inr b)"
  by (cases r) auto

lemma check_eq_Inr [simp]: "check b m = Inr u \<longleftrightarrow> b"
  by (auto simp: check_def)

lemma rfold_unit_Inr: "rfold (\<lambda>x _. f x) xs () = Inr () \<longleftrightarrow> (\<forall>x \<in> set xs. f x = Inr ())"
  by (induction xs) (auto simp: rbind_eq_Inr)

lemma bnd_Ok: "m s = (Ok a, t) \<Longrightarrow> bnd m f s = f a t"
  and bnd_Err: "m s = (Err e, t) \<Longrightarrow> bnd m f s = (Err e, t)"
  and bnd_Halt: "m s = (Halt, t) \<Longrightarrow> bnd m f s = (Halt, t)"
  by (simp_all add: bnd_def)

text \<open>
  Recursion through \<open>bnd\<close>: the continuation is only entered with a value its first action returned.
\<close>

lemma bnd_cong [fundef_cong]:
  "m = n \<Longrightarrow> (\<And>s a t. n s = (Ok a, t) \<Longrightarrow> f a = g a) \<Longrightarrow> bnd m f = bnd n g"
  by (rule ext) (auto simp: bnd_def split: prod.splits outcome.splits)

lemma ret_bnd [simp]: "bnd (ret a) f = f a"
  by (simp add: bnd_def ret_def)

lemma throw_bnd [simp]: "bnd (throw e) f = throw e"
  by (simp add: bnd_def throw_def)

lemma ret_Ok_iff: "ret a s = (Ok b, t) \<longleftrightarrow> a = b \<and> s = t"
  by (simp add: ret_def)

lemma lift_Ok_iff: "lift r s = (Ok a, t) \<longleftrightarrow> r = Inr a \<and> s = t"
  by (cases r) (auto simp: lift_def ret_def throw_def)

lemma bnd_OkE:
  assumes "bnd m f s = (Ok b, t)"
  obtains a u where "m s = (Ok a, u)" and "f a u = (Ok b, t)"
  using assms by (auto simp: bnd_def split: prod.splits outcome.splits)

lemma bnd_assoc: "bnd (bnd m f) g = bnd m (\<lambda>a. bnd (f a) g)"
  by (rule ext) (auto simp: bnd_def split: prod.splits outcome.splits)

lemma lift_Inr [simp]: "lift (Inr a) = ret a"
  and lift_Inl [simp]: "lift (Inl e) = throw e"
  by (simp_all add: lift_def)

section \<open>Relations every step of an action keeps\<close>

text \<open>\<open>moves R m\<close>: whatever the outcome of \<open>m\<close>, the states before and after are related.\<close>

definition moves :: "('s \<Rightarrow> 's \<Rightarrow> bool) \<Rightarrow> ('s, 'a) act \<Rightarrow> bool" where
  "moves R m \<longleftrightarrow> (\<forall>s. R s (snd (m s)))"

lemma movesD: "moves R m \<Longrightarrow> m s = (r, t) \<Longrightarrow> R s t"
  unfolding moves_def by (metis snd_conv)

lemma movesI: "(\<And>s r t. m s = (r, t) \<Longrightarrow> R s t) \<Longrightarrow> moves R m"
  unfolding moves_def by (metis prod.collapse)

lemma moves_mono: "moves R m \<Longrightarrow> (\<And>s t. R s t \<Longrightarrow> R' s t) \<Longrightarrow> moves R' m"
  by (auto simp: moves_def)

text \<open>
  The interface between the store components and the relation they are proved to keep: any
  preorder on states. Every combinator of the translated code keeps it when its parts do.
\<close>

locale step_preorder =
  fixes R :: "'s \<Rightarrow> 's \<Rightarrow> bool"
  assumes step_refl: "R s s"
    and step_trans: "R s t \<Longrightarrow> R t u \<Longrightarrow> R s u"
begin

lemma moves_ret: "moves R (ret a)"
  by (simp add: moves_def ret_def step_refl)

lemma moves_throw: "moves R (throw e)"
  by (simp add: moves_def throw_def step_refl)

lemma moves_lift: "moves R (lift r)"
  by (cases r) (simp_all add: moves_ret moves_throw)

lemma moves_bnd_val:
  assumes "moves R m" and "\<And>s a t. m s = (Ok a, t) \<Longrightarrow> moves R (f a)"
  shows "moves R (bnd m f)"
proof (rule movesI)
  fix s r t assume b: "bnd m f s = (r, t)"
  obtain o1 u where m: "m s = (o1, u)" by fastforce
  with assms(1) have su: "R s u" by (rule movesD)
  show "R s t"
  proof (cases o1)
    case (Ok a)
    with m b have "f a u = (r, t)" by (simp add: bnd_def)
    moreover have "moves R (f a)" using m Ok assms(2) by simp
    ultimately have "R u t" by (rule movesD [rotated])
    with su show ?thesis by (rule step_trans)
  qed (use m b su in \<open>simp_all add: bnd_def\<close>)
qed

lemma moves_bnd: "moves R m \<Longrightarrow> (\<And>a. moves R (f a)) \<Longrightarrow> moves R (bnd m f)"
  by (rule moves_bnd_val)

lemma moves_attempt: "moves R m \<Longrightarrow> moves R (attempt m)"
  by (auto simp: moves_def attempt_def split: prod.splits outcome.splits) (metis snd_conv)+

lemma moves_context: "moves R m \<Longrightarrow> moves R (in_context c m)"
  by (auto simp: moves_def in_context_def split: prod.splits outcome.splits) (metis snd_conv)+

lemma moves_if: "(b \<Longrightarrow> moves R m) \<Longrightarrow> (\<not> b \<Longrightarrow> moves R n) \<Longrightarrow> moves R (if b then m else n)"
  by simp

lemma moves_fold:
  "(\<And>x a. x \<in> set xs \<Longrightarrow> moves R (f x a)) \<Longrightarrow> moves R (fold_act f xs a)"
  by (induction xs arbitrary: a) (auto intro!: moves_ret moves_bnd)

lemma moves_for_each: "(\<And>x. x \<in> set xs \<Longrightarrow> moves R (f x)) \<Longrightarrow> moves R (for_each f xs)"
  unfolding for_each_def by (rule moves_fold)

lemmas moves_basic =
  moves_ret moves_throw moves_lift moves_bnd moves_attempt moves_context moves_if
  moves_fold moves_for_each

end

section \<open>Triples\<close>

text \<open>
  \<open>triple P m Q E\<close>: from a state with \<open>P\<close>, a normal result leaves \<open>Q\<close>, an error or a halt leaves
  \<open>E\<close>. Crash safety is the statement whose \<open>E\<close> is the store's invariant.
\<close>

definition triple ::
  "('s \<Rightarrow> bool) \<Rightarrow> ('s, 'a) act \<Rightarrow> ('a \<Rightarrow> 's \<Rightarrow> bool) \<Rightarrow> ('s \<Rightarrow> bool) \<Rightarrow> bool" where
  "triple P m Q E \<longleftrightarrow> (\<forall>s. P s \<longrightarrow> (case m s of
      (Ok a, t) \<Rightarrow> Q a t
    | (Err e, t) \<Rightarrow> E t
    | (Halt, t) \<Rightarrow> E t))"

lemma tripleI:
  assumes "\<And>s a t. P s \<Longrightarrow> m s = (Ok a, t) \<Longrightarrow> Q a t"
    and "\<And>s e t. P s \<Longrightarrow> m s = (Err e, t) \<Longrightarrow> E t"
    and "\<And>s t. P s \<Longrightarrow> m s = (Halt, t) \<Longrightarrow> E t"
  shows "triple P m Q E"
  using assms by (fastforce simp: triple_def split: prod.splits outcome.splits)

lemma triple_Ok: "triple P m Q E \<Longrightarrow> P s \<Longrightarrow> m s = (Ok a, t) \<Longrightarrow> Q a t"
  and triple_Err: "triple P m Q E \<Longrightarrow> P s \<Longrightarrow> m s = (Err e, t) \<Longrightarrow> E t"
  and triple_Halt: "triple P m Q E \<Longrightarrow> P s \<Longrightarrow> m s = (Halt, t) \<Longrightarrow> E t"
  by (auto simp: triple_def)

lemma triple_conseq:
  assumes "triple P m Q E" and "\<And>s. P' s \<Longrightarrow> P s" and "\<And>a s. Q a s \<Longrightarrow> Q' a s"
    and "\<And>s. E s \<Longrightarrow> E' s"
  shows "triple P' m Q' E'"
  using assms by (fastforce simp: triple_def split: prod.splits outcome.splits)

lemma triple_pre: "triple P m Q E \<Longrightarrow> (\<And>s. P' s \<Longrightarrow> P s) \<Longrightarrow> triple P' m Q E"
  by (erule triple_conseq)

lemma triple_ret: "(\<And>s. P s \<Longrightarrow> Q a s) \<Longrightarrow> triple P (ret a) Q E"
  by (simp add: triple_def ret_def)

lemma triple_throw: "(\<And>s. P s \<Longrightarrow> E s) \<Longrightarrow> triple P (throw e) Q E"
  by (simp add: triple_def throw_def)

lemma triple_bnd:
  assumes "triple P m Q E" and "\<And>a. triple (Q a) (f a) R E"
  shows "triple P (bnd m f) R E"
  using assms unfolding triple_def bnd_def
  by (fastforce split: prod.splits outcome.splits)

lemma triple_attempt:
  assumes "triple P m Q E"
  shows "triple P (attempt m) (\<lambda>r t. case r of Inl _ \<Rightarrow> E t | Inr a \<Rightarrow> Q a t) E"
  using assms unfolding triple_def attempt_def
  by (fastforce split: prod.splits outcome.splits)

lemma triple_try:
  assumes "triple P m Q F" and "\<And>e. triple F (h e) R E" and "\<And>a. triple (Q a) (k a) R E"
    and "\<And>s. F s \<Longrightarrow> E s"
  shows "triple P (bnd (attempt m) (\<lambda>r. case r of Inl e \<Rightarrow> h e | Inr a \<Rightarrow> k a)) R E"
proof (rule triple_bnd)
  show "triple P (attempt m) (\<lambda>r t. case r of Inl _ \<Rightarrow> F t | Inr a \<Rightarrow> Q a t) E"
    by (rule triple_conseq [OF triple_attempt [OF assms(1)]]) (simp_all add: assms(4))
  show "triple (\<lambda>t. case r of Inl _ \<Rightarrow> F t | Inr a \<Rightarrow> Q a t) (case r of Inl e \<Rightarrow> h e | Inr a \<Rightarrow> k a) R E" for r
    by (cases r) (simp_all add: assms(2,3))
qed

lemma triple_context: "triple P m Q E \<Longrightarrow> triple P (in_context c m) Q E"
  unfolding triple_def in_context_def by (fastforce split: prod.splits outcome.splits)

lemma triple_if:
  assumes "b \<Longrightarrow> triple P m Q E" and "\<not> b \<Longrightarrow> triple P n Q E"
  shows "triple P (if b then m else n) Q E"
  using assms by simp

lemma triple_lift:
  assumes "\<And>a s. r = Inr a \<Longrightarrow> P s \<Longrightarrow> Q a s" and "\<And>s. P s \<Longrightarrow> E s"
  shows "triple P (lift r) Q E"
  using assms by (cases r) (auto intro: triple_ret triple_throw)

lemma triple_fold:
  assumes "\<And>x a. x \<in> set xs \<Longrightarrow> triple (I a) (f x a) I E"
  shows "triple (I a) (fold_act f xs a) I E"
  using assms by (induction xs arbitrary: a) (auto intro: triple_ret triple_bnd)

lemma triple_moves:
  assumes "moves R m" and "\<And>s t. P s \<Longrightarrow> R s t \<Longrightarrow> E t"
  shows "triple P m (\<lambda>_. E) E"
  using assms by (intro tripleI) (blast dest: movesD)+

lemma triple_conj:
  assumes "triple P m Q E" and "triple P m Q' E'"
  shows "triple P m (\<lambda>a s. Q a s \<and> Q' a s) (\<lambda>s. E s \<and> E' s)"
  using assms unfolding triple_def by (fastforce split: prod.splits outcome.splits)

text \<open>A fact about the value read that does not depend on the state, such as a parse result.\<close>

lemma triple_pull: "(F \<Longrightarrow> triple P m Q E) \<Longrightarrow> triple (\<lambda>s. F \<and> P s) m Q E"
  by (auto simp: triple_def)

section \<open>Saturating unsigned arithmetic\<close>

definition U64_MAX :: nat where
  "U64_MAX = 2 ^ 64 - 1"

definition sat_add :: "nat \<Rightarrow> nat \<Rightarrow> nat" where
  "sat_add a b = min U64_MAX (a + b)"

lemma sat_add_le: "sat_add a b \<le> U64_MAX"
  by (simp add: sat_add_def)

lemma sat_add_exact: "a + b \<le> U64_MAX \<Longrightarrow> sat_add a b = a + b"
  by (simp add: sat_add_def)

lemma sat_add_mono: "a \<le> a' \<Longrightarrow> b \<le> b' \<Longrightarrow> sat_add a b \<le> sat_add a' b'"
  by (auto simp: sat_add_def)

end
