(* ===== verification/File_System.thy ===== *)
theory File_System
  imports Prelude "HOL-Library.AList"
begin

text \<open>
  The part of \<open>std::fs\<close> and \<open>std::path\<close> the program uses, over an explicit file system.

  A file system is an association list from absolute paths to nodes. Path resolution follows
  symbolic links in every component (at most forty of them) and interprets \<open>..\<close>, as the kernel does,
  so that code which forgets to validate a path is seen to leave its root. Every call consumes one
  event of an oracle, which decides whether the call fails, whether the process dies there, and
  how much time passes. \<open>Path::exists\<close> and its kin return \<open>false\<close> on any error, so an event can
  also make such a probe blind without making it fail.
\<close>

section \<open>Nodes and path resolution\<close>

datatype node = File (file_bytes: bytes) (file_secs: int) (file_nanos: nat) | Dir | Link path | Special

type_synonym filesystem = "(path \<times> node) list"

definition node_at :: "filesystem \<Rightarrow> path \<Rightarrow> node option" where
  "node_at F p = (if p = [] then Some Dir else map_of F p)"

fun walk :: "filesystem \<Rightarrow> nat \<Rightarrow> path \<Rightarrow> path \<Rightarrow> errkind + path" where
  "walk F k done [] = Inr done"
| "walk F k done (c # cs) =
    (if c = ''..'' then walk F k (butlast done) cs
     else case node_at F (done @ [c]) of
       None \<Rightarrow> if cs = [] then Inr (done @ [c]) else Inl NotFound
     | Some Dir \<Rightarrow> walk F k (done @ [c]) cs
     | Some (Link t) \<Rightarrow> (case k of 0 \<Rightarrow> Inl FilesystemLoop | Suc k' \<Rightarrow> walk F k' [] (t @ cs))
     | Some _ \<Rightarrow> if cs = [] then Inr (done @ [c]) else Inl NotADirectory)"

definition resolve :: "filesystem \<Rightarrow> path \<Rightarrow> errkind + path" where
  "resolve F p = walk F 40 [] p"

text \<open>Resolution that does not follow a link in the last component.\<close>

definition lresolve :: "filesystem \<Rightarrow> path \<Rightarrow> errkind + path" where
  "lresolve F p =
    (if p = [] then Inr []
     else if last p = ''..'' then resolve F p
     else case resolve F (butlast p) of
       Inl e \<Rightarrow> Inl e
     | Inr d \<Rightarrow> (case node_at F d of
         Some Dir \<Rightarrow> Inr (d @ [last p])
       | None \<Rightarrow> Inl NotFound
       | Some _ \<Rightarrow> Inl NotADirectory))"

definition stat :: "filesystem \<Rightarrow> path \<Rightarrow> errkind + node" where
  "stat F p = (case resolve F p of
      Inl e \<Rightarrow> Inl e
    | Inr q \<Rightarrow> (case node_at F q of None \<Rightarrow> Inl NotFound | Some n \<Rightarrow> Inr n))"

definition lstat :: "filesystem \<Rightarrow> path \<Rightarrow> errkind + node" where
  "lstat F p = (case lresolve F p of
      Inl e \<Rightarrow> Inl e
    | Inr q \<Rightarrow> (case node_at F q of None \<Rightarrow> Inl NotFound | Some n \<Rightarrow> Inr n))"

definition present :: "filesystem \<Rightarrow> path \<Rightarrow> bool" where
  "present F p = (case stat F p of Inl _ \<Rightarrow> False | Inr _ \<Rightarrow> True)"

definition present_dir :: "filesystem \<Rightarrow> path \<Rightarrow> bool" where
  "present_dir F p = (case stat F p of Inr Dir \<Rightarrow> True | _ \<Rightarrow> False)"

fun is_file_node :: "node \<Rightarrow> bool" where
  "is_file_node (File b s n) = True"
| "is_file_node _ = False"

fun is_link_node :: "node \<Rightarrow> bool" where
  "is_link_node (Link t) = True"
| "is_link_node _ = False"

definition children :: "filesystem \<Rightarrow> path \<Rightarrow> string list" where
  "children F d = map last (filter (\<lambda>p. p \<noteq> [] \<and> butlast p = d) (map fst F))"

section \<open>The calls, on a file system\<close>

type_synonym 'a fs_result = "errkind + ('a \<times> filesystem)"

definition f_read :: "path \<Rightarrow> filesystem \<Rightarrow> bytes fs_result" where
  "f_read p F = (case stat F p of
      Inl e \<Rightarrow> Inl e
    | Inr (File b s n) \<Rightarrow> Inr (b, F)
    | Inr Dir \<Rightarrow> Inl IsADirectory
    | Inr _ \<Rightarrow> Inl OtherIo)"

definition f_stat :: "path \<Rightarrow> filesystem \<Rightarrow> node fs_result" where
  "f_stat p F = (case stat F p of Inl e \<Rightarrow> Inl e | Inr n \<Rightarrow> Inr (n, F))"

definition f_lstat :: "path \<Rightarrow> filesystem \<Rightarrow> node fs_result" where
  "f_lstat p F = (case lstat F p of Inl e \<Rightarrow> Inl e | Inr n \<Rightarrow> Inr (n, F))"

definition f_mkdir :: "path \<Rightarrow> filesystem \<Rightarrow> unit fs_result" where
  "f_mkdir p F = (case lresolve F p of
      Inl e \<Rightarrow> Inl e
    | Inr q \<Rightarrow> if node_at F q \<noteq> None then Inl AlreadyExists else Inr ((), (q, Dir) # F))"

definition f_create_new :: "path \<Rightarrow> filesystem \<Rightarrow> unit fs_result" where
  "f_create_new p F = (case lresolve F p of
      Inl e \<Rightarrow> Inl e
    | Inr q \<Rightarrow> if node_at F q \<noteq> None then Inl AlreadyExists else Inr ((), (q, File [] 0 0) # F))"

definition f_append :: "path \<Rightarrow> bytes \<Rightarrow> filesystem \<Rightarrow> unit fs_result" where
  "f_append p b F = (case resolve F p of
      Inl e \<Rightarrow> Inl e
    | Inr q \<Rightarrow> (case node_at F q of
        Some (File b0 s n) \<Rightarrow> Inr ((), AList.update q (File (b0 @ b) s n) F)
      | None \<Rightarrow> Inl NotFound
      | Some Dir \<Rightarrow> Inl IsADirectory
      | Some _ \<Rightarrow> Inl OtherIo))"

definition f_set_mtime :: "path \<Rightarrow> int \<Rightarrow> nat \<Rightarrow> filesystem \<Rightarrow> unit fs_result" where
  "f_set_mtime p s n F = (case resolve F p of
      Inl e \<Rightarrow> Inl e
    | Inr q \<Rightarrow> (case node_at F q of
        Some (File b s0 n0) \<Rightarrow> Inr ((), AList.update q (File b s n) F)
      | None \<Rightarrow> Inl NotFound
      | Some _ \<Rightarrow> Inr ((), F)))"

definition f_unlink :: "path \<Rightarrow> filesystem \<Rightarrow> unit fs_result" where
  "f_unlink p F = (case lresolve F p of
      Inl e \<Rightarrow> Inl e
    | Inr q \<Rightarrow> (case node_at F q of
        None \<Rightarrow> Inl NotFound
      | Some Dir \<Rightarrow> Inl IsADirectory
      | Some _ \<Rightarrow> Inr ((), AList.delete q F)))"

definition f_rmdir :: "path \<Rightarrow> filesystem \<Rightarrow> unit fs_result" where
  "f_rmdir p F = (case lresolve F p of
      Inl e \<Rightarrow> Inl e
    | Inr q \<Rightarrow> (case node_at F q of
        None \<Rightarrow> Inl NotFound
      | Some Dir \<Rightarrow> if q = [] then Inl PermissionDenied
          else if children F q \<noteq> [] then Inl DirectoryNotEmpty
          else Inr ((), AList.delete q F)
      | Some _ \<Rightarrow> Inl NotADirectory))"

definition move_key :: "path \<Rightarrow> path \<Rightarrow> path \<Rightarrow> path" where
  "move_key p q r = (if prefix p r then q @ drop (length p) r else r)"

definition f_rename :: "path \<Rightarrow> path \<Rightarrow> filesystem \<Rightarrow> unit fs_result" where
  "f_rename a b F = (case lresolve F a of
      Inl e \<Rightarrow> Inl e
    | Inr p \<Rightarrow> (case lresolve F b of
        Inl e \<Rightarrow> Inl e
      | Inr q \<Rightarrow> (case node_at F p of
          None \<Rightarrow> Inl NotFound
        | Some Dir \<Rightarrow>
            if p = q then Inr ((), F)
            else if prefix p q \<or> p = [] then Inl InvalidInput
            else (case node_at F q of
                None \<Rightarrow> Inr ((), map (\<lambda>(r, n). (move_key p q r, n)) F)
              | Some Dir \<Rightarrow> if children F q \<noteq> [] then Inl DirectoryNotEmpty
                  else Inr ((), map (\<lambda>(r, n). (move_key p q r, n)) (AList.delete q F))
              | Some _ \<Rightarrow> Inl NotADirectory)
        | Some n \<Rightarrow>
            if p = q then Inr ((), F)
            else (case node_at F q of
                Some Dir \<Rightarrow> Inl IsADirectory
              | _ \<Rightarrow> Inr ((), (q, n) # AList.delete q (AList.delete p F))))))"

definition f_read_dir :: "path \<Rightarrow> filesystem \<Rightarrow> string list fs_result" where
  "f_read_dir p F = (case resolve F p of
      Inl e \<Rightarrow> Inl e
    | Inr q \<Rightarrow> (case node_at F q of
        None \<Rightarrow> Inl NotFound
      | Some Dir \<Rightarrow> Inr (children F q, F)
      | Some _ \<Rightarrow> Inl NotADirectory))"

section \<open>The world and its calls\<close>

record event =
  ev_halt :: bool
  ev_fail :: "errkind option"
  ev_blind :: bool
  ev_ns :: nat

definition calm :: event where
  "calm = \<lparr>ev_halt = False, ev_fail = None, ev_blind = False, ev_ns = 0\<rparr>"

record world =
  fs :: filesystem
  events :: "event list"
  now :: nat

type_synonym 'a io = "(world, 'a) act"

definition next_event :: "world \<Rightarrow> event \<times> world" where
  "next_event w = (case events w of
      [] \<Rightarrow> (calm, w)
    | e # es \<Rightarrow> (e, w\<lparr>events := es, now := now w + ev_ns e\<rparr>))"

definition call :: "(filesystem \<Rightarrow> 'a fs_result) \<Rightarrow> 'a io" where
  "call f w = (case next_event w of (e, v) \<Rightarrow>
     if ev_halt e then (Halt, v)
     else case ev_fail e of
       Some k \<Rightarrow> (Err (Io k), v)
     | None \<Rightarrow> (case f (fs v) of
         Inl k \<Rightarrow> (Err (Io k), v)
       | Inr (a, F) \<Rightarrow> (Ok a, v\<lparr>fs := F\<rparr>)))"

definition probe :: "(filesystem \<Rightarrow> bool) \<Rightarrow> bool io" where
  "probe f w = (case next_event w of (e, v) \<Rightarrow>
     if ev_halt e then (Halt, v) else (Ok (\<not> ev_blind e \<and> f (fs v)), v))"

definition get_now :: "nat io" where
  "get_now w = (Ok (now w), w)"

definition sleep_ns :: "nat \<Rightarrow> unit io" where
  "sleep_ns d w = (Ok (), w\<lparr>now := now w + d\<rparr>)"

definition path_exists :: "path \<Rightarrow> bool io" where
  "path_exists p = probe (\<lambda>F. present F p)"

definition path_is_dir :: "path \<Rightarrow> bool io" where
  "path_is_dir p = probe (\<lambda>F. present_dir F p)"

definition read_file :: "path \<Rightarrow> bytes io" where
  "read_file p = call (f_read p)"

definition metadata :: "path \<Rightarrow> node io" where
  "metadata p = call (f_stat p)"

definition symlink_metadata :: "path \<Rightarrow> node io" where
  "symlink_metadata p = call (f_lstat p)"

definition create_dir :: "path \<Rightarrow> unit io" where
  "create_dir p = call (f_mkdir p)"

definition remove_file :: "path \<Rightarrow> unit io" where
  "remove_file p = call (f_unlink p)"

definition remove_dir :: "path \<Rightarrow> unit io" where
  "remove_dir p = call (f_rmdir p)"

definition rename :: "path \<Rightarrow> path \<Rightarrow> unit io" where
  "rename p q = call (f_rename p q)"

definition read_dir :: "path \<Rightarrow> string list io" where
  "read_dir p = call (f_read_dir p)"

definition append_file :: "path \<Rightarrow> bytes \<Rightarrow> unit io" where
  "append_file p b = call (f_append p b)"

definition set_file_mtime :: "path \<Rightarrow> int \<Rightarrow> nat \<Rightarrow> unit io" where
  "set_file_mtime p s n = call (f_set_mtime p s n)"

text \<open>\<open>File::open\<close> followed by \<open>sync_all\<close>: two calls that change nothing a reader can see.\<close>

definition sync_path :: "path \<Rightarrow> unit io" where
  "sync_path p = bnd (metadata p) (\<lambda>_. call (\<lambda>F. Inr ((), F)))"

text \<open>
  \<open>std::fs::create_dir_all\<close>: try the directory itself, then its parent, then the directory again.
  A directory someone else created in the meantime counts as success.
\<close>

definition mkdir_or_dir :: "path \<Rightarrow> unit io" where
  "mkdir_or_dir p = bnd (attempt (create_dir p)) (\<lambda>r. case r of
      Inr _ \<Rightarrow> ret ()
    | Inl e \<Rightarrow> bnd (path_is_dir p) (\<lambda>d. if d then ret () else throw e))"

fun create_dir_all_rev :: "string list \<Rightarrow> unit io" where
  "create_dir_all_rev [] = ret ()"
| "create_dir_all_rev (c # up) = bnd (attempt (create_dir (rev (c # up)))) (\<lambda>r. case r of
      Inr _ \<Rightarrow> ret ()
    | Inl e \<Rightarrow>
        if e = Io NotFound
        then bnd (create_dir_all_rev up) (\<lambda>_. mkdir_or_dir (rev (c # up)))
        else bnd (path_is_dir (rev (c # up))) (\<lambda>d. if d then ret () else throw e))"

definition create_dir_all :: "path \<Rightarrow> unit io" where
  "create_dir_all p = create_dir_all_rev (rev p)"

text \<open>
  \<open>std::fs::remove_dir_all\<close>: everything below the directory, deepest first, then the directory.
\<close>

definition below :: "filesystem \<Rightarrow> path \<Rightarrow> path list" where
  "below F p = rev (sort_key length (filter (\<lambda>q. prefix p q) (map fst F)))"

definition f_list_below :: "path \<Rightarrow> filesystem \<Rightarrow> (path \<times> bool) list fs_result" where
  "f_list_below p F = (case lresolve F p of
      Inl e \<Rightarrow> Inl e
    | Inr q \<Rightarrow> (case node_at F q of
        None \<Rightarrow> Inl NotFound
      | Some Dir \<Rightarrow> Inr (map (\<lambda>r. (r, node_at F r = Some Dir)) (below F q), F)
      | Some _ \<Rightarrow> Inl NotADirectory))"

definition remove_dir_all :: "path \<Rightarrow> unit io" where
  "remove_dir_all p = bnd (call (f_list_below p)) (for_each (\<lambda>(r, d). if d then remove_dir r else remove_file r))"

section \<open>Temporary files\<close>

text \<open>
  \<open>tempfile::NamedTempFile::new_in\<close>: a new file under a generated name (the generator is a
  parameter; the crate's documentation promises a name that starts with \<open>.tmp\<close>). The file is
  deleted when the handle is dropped, so also when the body returns an error; it stays behind when
  the process dies. \<open>persist\<close> renames the file over its target.
\<close>

type_synonym temp_namer = "filesystem \<Rightarrow> path \<Rightarrow> string"

definition is_temp_name :: "string \<Rightarrow> bool" where
  "is_temp_name s = prefix ''.tmp'' s"

definition temp_namer_ok :: "temp_namer \<Rightarrow> bool" where
  "temp_namer_ok tn \<longleftrightarrow> (\<forall>F d. is_temp_name (tn F d) \<and> CHR ''/'' \<notin> set (tn F d))"

definition f_new_temp :: "temp_namer \<Rightarrow> path \<Rightarrow> filesystem \<Rightarrow> path fs_result" where
  "f_new_temp tn d F = (case f_create_new (d @ [tn F d]) F of
      Inl e \<Rightarrow> Inl e
    | Inr (_, F') \<Rightarrow> Inr (d @ [tn F d], F'))"

definition with_temp :: "temp_namer \<Rightarrow> path \<Rightarrow> (path \<Rightarrow> 'a io) \<Rightarrow> 'a io" where
  "with_temp tn d body = bnd (call (f_new_temp tn d)) (\<lambda>t.
     bnd (attempt (body t)) (\<lambda>r. case r of
       Inr a \<Rightarrow> ret a
     | Inl e \<Rightarrow> bnd (attempt (remove_file t)) (\<lambda>_. throw e)))"

definition f_persist :: "path \<Rightarrow> path \<Rightarrow> filesystem \<Rightarrow> unit fs_result" where
  "f_persist t p F = (case lstat F t of
      Inl e \<Rightarrow> Inl e
    | Inr (File b s n) \<Rightarrow> f_rename t p F
    | Inr _ \<Rightarrow> Inl OtherIo)"

definition persist :: "path \<Rightarrow> path \<Rightarrow> unit io" where
  "persist t p = call (f_persist t p)"

end
