(* ===== verification/Fs_Laws.thy ===== *)
theory Fs_Laws
  imports File_System
begin

text \<open>
  Laws of the file-system model: well-formedness, resolution inside a region without symbolic links,
  and the two relations the store components are proved to keep. \<open>still\<close> holds between the states
  around a read-only action; \<open>confined D S\<close> says that, as far as the tree under \<open>D\<close> is free of
  symbolic links, only the files in \<open>S\<close> (and temporary files) have changed.
\<close>

section \<open>Well-formed file systems\<close>

definition good_name :: "string \<Rightarrow> bool" where
  "good_name s \<longleftrightarrow> s \<noteq> [] \<and> s \<noteq> ''.'' \<and> s \<noteq> ''..'' \<and> CHR ''/'' \<notin> set s"

definition good_path :: "path \<Rightarrow> bool" where
  "good_path p \<longleftrightarrow> (\<forall>c \<in> set p. good_name c)"

definition fs_wf :: "filesystem \<Rightarrow> bool" where
  "fs_wf F \<longleftrightarrow> distinct (map fst F) \<and>
     (\<forall>p n. map_of F p = Some n \<longrightarrow>
        p \<noteq> [] \<and> node_at F (butlast p) = Some Dir \<and> good_name (last p))"

definition file_at :: "filesystem \<Rightarrow> path \<Rightarrow> bytes option" where
  "file_at F p = (case node_at F p of Some (File b s n) \<Rightarrow> Some b | _ \<Rightarrow> None)"

lemma good_path_simps [simp]:
  "good_path []"
  "good_path (c # p) \<longleftrightarrow> good_name c \<and> good_path p"
  "good_path (p @ q) \<longleftrightarrow> good_path p \<and> good_path q"
  by (auto simp: good_path_def)

lemma good_path_no_dotdot: "good_path p \<Longrightarrow> ''..'' \<notin> set p"
  by (auto simp: good_path_def good_name_def)

lemma good_path_butlast: "good_path p \<Longrightarrow> good_path (butlast p)"
  by (auto simp: good_path_def dest: in_set_butlastD)

lemma good_path_last: "good_path p \<Longrightarrow> p \<noteq> [] \<Longrightarrow> good_name (last p)"
  by (auto simp: good_path_def)

lemma fs_wf_distinct: "fs_wf F \<Longrightarrow> distinct (map fst F)"
  by (simp add: fs_wf_def)

lemma fs_wf_parent: "fs_wf F \<Longrightarrow> node_at F p = Some n \<Longrightarrow> p \<noteq> [] \<Longrightarrow> node_at F (butlast p) = Some Dir"
  by (auto simp: fs_wf_def node_at_def split: if_splits)

lemma fs_wf_nonempty: "fs_wf F \<Longrightarrow> map_of F p = Some n \<Longrightarrow> p \<noteq> []"
  by (auto simp: fs_wf_def)

lemma fs_wf_name: "fs_wf F \<Longrightarrow> map_of F p = Some n \<Longrightarrow> good_name (last p)"
  by (auto simp: fs_wf_def)

lemma fs_wf_prefix_dir:
  "fs_wf F \<Longrightarrow> node_at F (p @ q) = Some n \<Longrightarrow> q \<noteq> [] \<Longrightarrow> node_at F p = Some Dir"
proof (induction q arbitrary: n rule: rev_induct)
  case Nil
  then show ?case by simp
next
  case (snoc c q)
  from snoc.prems(1,2) have "node_at F (butlast (p @ q @ [c])) = Some Dir"
    by (intro fs_wf_parent) auto
  then have "node_at F (p @ q) = Some Dir" by (simp add: butlast_append)
  then show ?case using snoc.IH [OF snoc.prems(1)] by (cases "q = []") auto
qed

lemma fs_wf_good_path: "fs_wf F \<Longrightarrow> node_at F p = Some n \<Longrightarrow> good_path p"
proof (induction p arbitrary: n rule: rev_induct)
  case Nil
  then show ?case by simp
next
  case (snoc c p)
  from snoc.prems have "good_name c"
    by (auto simp: node_at_def dest: fs_wf_name)
  moreover have "node_at F p = Some Dir"
    using fs_wf_parent [OF snoc.prems] by simp
  then have "good_path p" using snoc.IH [OF snoc.prems(1)] by simp
  ultimately show ?case by simp
qed

lemma node_at_Nil_dir [simp]: "node_at F [] = Some Dir"
  by (simp add: node_at_def)

lemma node_at_child: "node_at F (d @ [c]) = map_of F (d @ [c])"
  by (simp add: node_at_def)

lemma children_iff: "c \<in> set (children F d) \<longleftrightarrow> node_at F (d @ [c]) \<noteq> None"
proof
  assume "c \<in> set (children F d)"
  then obtain p where "p \<in> fst ` set F" "p \<noteq> []" "butlast p = d" "last p = c"
    by (auto simp: children_def)
  then have "p = d @ [c]" by (metis append_butlast_last_id)
  with \<open>p \<in> fst ` set F\<close> show "node_at F (d @ [c]) \<noteq> None"
    by (simp add: node_at_child map_of_eq_None_iff)
next
  assume "node_at F (d @ [c]) \<noteq> None"
  then have "d @ [c] \<in> fst ` set F" by (simp add: node_at_child map_of_eq_None_iff)
  then show "c \<in> set (children F d)"
    by (force simp: children_def)
qed

section \<open>Resolution without links\<close>

definition plain :: "filesystem \<Rightarrow> path \<Rightarrow> bool" where
  "plain F p \<longleftrightarrow> ''..'' \<notin> set p \<and> (\<forall>q t. prefix q p \<longrightarrow> node_at F q \<noteq> Some (Link t))"

lemma plain_butlast: "plain F p \<Longrightarrow> plain F (butlast p)"
  by (auto simp: plain_def dest: in_set_butlastD intro: prefix_order.trans [OF _ prefixeq_butlast])

lemma walk_plain:
  assumes "plain F (d @ p)"
  shows "walk F k d p = Inr q \<Longrightarrow> q = d @ p"
  using assms
proof (induction p arbitrary: d)
  case Nil
  then show ?case by simp
next
  case (Cons c p)
  from Cons.prems(2) have "c \<noteq> ''..''"
    and nolink: "\<And>t. node_at F (d @ [c]) \<noteq> Some (Link t)"
    by (auto simp: plain_def)
  show ?case
  proof (cases "node_at F (d @ [c])")
    case None
    with Cons.prems(1) \<open>c \<noteq> ''..''\<close> show ?thesis by (auto split: if_splits)
  next
    case (Some n)
    show ?thesis
    proof (cases n)
      case Dir
      with Some Cons.prems \<open>c \<noteq> ''..''\<close> Cons.IH [of "d @ [c]"] show ?thesis by simp
    next
      case (Link t)
      with nolink [of t] Some show ?thesis by simp
    qed (use Some Cons.prems(1) \<open>c \<noteq> ''..''\<close> in \<open>auto split: if_splits\<close>)
  qed
qed

lemma resolve_plain: "plain F p \<Longrightarrow> resolve F p = Inr q \<Longrightarrow> q = p"
  unfolding resolve_def using walk_plain [of F "[]" p] by simp

lemma plain_last: "plain F p \<Longrightarrow> p \<noteq> [] \<Longrightarrow> last p \<noteq> ''..''"
  by (metis last_in_set plain_def)

lemma lresolve_plain:
  assumes "plain F p" and "lresolve F p = Inr q"
  shows "q = p" and "p \<noteq> [] \<Longrightarrow> node_at F (butlast p) = Some Dir"
proof -
  show "q = p"
  proof (cases "p = []")
    case False
    then obtain d where d: "resolve F (butlast p) = Inr d" and q: "q = d @ [last p]"
      using assms plain_last by (auto simp: lresolve_def split: sum.splits option.splits node.splits)
    have "d = butlast p" by (rule resolve_plain [OF plain_butlast [OF assms(1)] d])
    with q False show ?thesis by simp
  qed (use assms in \<open>simp add: lresolve_def\<close>)
next
  assume "p \<noteq> []"
  then obtain d where d: "resolve F (butlast p) = Inr d" and "node_at F d = Some Dir"
    using assms plain_last by (auto simp: lresolve_def split: sum.splits option.splits node.splits)
  moreover have "d = butlast p" by (rule resolve_plain [OF plain_butlast [OF assms(1)] d])
  ultimately show "node_at F (butlast p) = Some Dir" by simp
qed

text \<open>Conversely, a node under directories only is found where it is.\<close>

lemma walk_found:
  assumes "fs_wf F" and "plain F (d @ p)" and "node_at F (d @ p) = Some n"
  shows "walk F k d p = Inr (d @ p)"
  using assms
proof (induction p arbitrary: d)
  case Nil
  then show ?case by simp
next
  case (Cons c p)
  from Cons.prems(2) have "c \<noteq> ''..''"
    and nolink: "\<And>t. node_at F (d @ [c]) \<noteq> Some (Link t)"
    by (auto simp: plain_def)
  show ?case
  proof (cases "p = []")
    case True
    with Cons.prems(3) \<open>c \<noteq> ''..''\<close> nolink show ?thesis by (cases n) auto
  next
    case False
    with fs_wf_prefix_dir [OF Cons.prems(1), of "d @ [c]" p n] Cons.prems(3)
    have dir: "node_at F (d @ [c]) = Some Dir" by simp
    have "walk F k (d @ [c]) p = Inr ((d @ [c]) @ p)"
      by (rule Cons.IH) (use Cons.prems in simp_all)
    with dir \<open>c \<noteq> ''..''\<close> show ?thesis by simp
  qed
qed

lemma resolve_found:
  "fs_wf F \<Longrightarrow> plain F p \<Longrightarrow> node_at F p = Some n \<Longrightarrow> resolve F p = Inr p"
  unfolding resolve_def using walk_found [of F "[]" p n 40] by simp

lemma lresolve_found:
  assumes "fs_wf F" and "plain F p" and "node_at F p = Some n"
  shows "lresolve F p = Inr p"
proof (cases "p = []")
  case False
  with assms have dir: "node_at F (butlast p) = Some Dir" by (intro fs_wf_parent)
  then have "resolve F (butlast p) = Inr (butlast p)"
    by (intro resolve_found) (use assms plain_butlast in auto)
  with dir False plain_last [OF assms(2)] show ?thesis by (simp add: lresolve_def)
qed (simp add: lresolve_def)

lemma stat_plain_iff:
  assumes "fs_wf F" and "plain F p"
  shows "stat F p = Inr n \<longleftrightarrow> node_at F p = Some n"
proof
  assume "stat F p = Inr n"
  then obtain q where "resolve F p = Inr q" "node_at F q = Some n"
    by (auto simp: stat_def split: sum.splits option.splits)
  with resolve_plain [OF assms(2)] show "node_at F p = Some n" by auto
next
  assume "node_at F p = Some n"
  with resolve_found [OF assms this] show "stat F p = Inr n" by (simp add: stat_def)
qed

lemma lstat_plain_iff:
  assumes "fs_wf F" and "plain F p"
  shows "lstat F p = Inr n \<longleftrightarrow> node_at F p = Some n"
proof
  assume "lstat F p = Inr n"
  then obtain q where "lresolve F p = Inr q" "node_at F q = Some n"
    by (auto simp: lstat_def split: sum.splits option.splits)
  with lresolve_plain [OF assms(2)] show "node_at F p = Some n" by auto
next
  assume "node_at F p = Some n"
  with lresolve_found [OF assms this] show "lstat F p = Inr n" by (simp add: lstat_def)
qed

lemma present_plain_iff: "fs_wf F \<Longrightarrow> plain F p \<Longrightarrow> present F p \<longleftrightarrow> node_at F p \<noteq> None"
  using stat_plain_iff [of F p]
  by (cases "stat F p") (auto simp: present_def)

section \<open>Read-only actions\<close>

definition still :: "world \<Rightarrow> world \<Rightarrow> bool" where
  "still w v \<longleftrightarrow> fs v = fs w \<and> suffix (events v) (events w)"

interpretation st: step_preorder still
  by unfold_locales (auto simp: still_def intro: suffix_order.trans)

lemma next_event_still: "next_event w = (e, v) \<Longrightarrow> still w v"
  by (auto simp: next_event_def still_def suffix_def split: list.splits)

lemma next_event_fs: "next_event w = (e, v) \<Longrightarrow> fs v = fs w"
  by (drule next_event_still) (simp add: still_def)

lemma moves_still_probe: "moves still (probe f)"
  by (rule movesI) (auto simp: probe_def split: prod.splits if_splits dest: next_event_still)

lemma call_cases:
  assumes "call f w = (r, v)" and "next_event w = (e, u)"
  shows "v = u \<and> (\<forall>a. r \<noteq> Ok a) \<or> (\<exists>a G. f (fs u) = Inr (a, G) \<and> r = Ok a \<and> v = u\<lparr>fs := G\<rparr>)"
proof (cases "ev_halt e \<or> ev_fail e \<noteq> None")
  case True
  with assms show ?thesis by (cases "ev_halt e") (auto simp: call_def)
next
  case False
  with assms show ?thesis by (cases "f (fs u)") (auto simp: call_def)
qed

lemma call_Ok:
  "call f w = (Ok a, v) \<Longrightarrow> \<exists>G. f (fs w) = Inr (a, G) \<and> fs v = G \<and> suffix (events v) (events w)"
  using call_cases [of f w "Ok a" v "fst (next_event w)" "snd (next_event w)"]
    next_event_still [of w "fst (next_event w)" "snd (next_event w)"]
  by (auto simp: still_def)

lemma call_not_Ok:
  "call f w = (r, v) \<Longrightarrow> (\<And>a. r \<noteq> Ok a) \<Longrightarrow> still w v"
  using call_cases [of f w r v "fst (next_event w)" "snd (next_event w)"]
    next_event_still [of w "fst (next_event w)" "snd (next_event w)"]
  by auto

lemma moves_still_call:
  assumes "\<And>F a G. f F = Inr (a, G) \<Longrightarrow> G = F"
  shows "moves still (call f)"
proof (rule movesI)
  fix w r v assume c: "call f w = (r, v)"
  obtain e u where n: "next_event w = (e, u)" by fastforce
  from call_cases [OF c n] assms have "v = u \<or> v = u\<lparr>fs := fs u\<rparr>" by auto
  with next_event_still [OF n] show "still w v" by auto
qed

lemma moves_still_get_now: "moves still get_now"
  by (rule movesI) (auto simp: get_now_def still_def)

lemma moves_still_sleep: "moves still (sleep_ns d)"
  by (rule movesI) (auto simp: sleep_ns_def still_def)

lemma moves_still_prims:
  "moves still (path_exists p)" "moves still (path_is_dir p)" "moves still (read_file p)"
  "moves still (metadata p)" "moves still (symlink_metadata p)" "moves still (read_dir p)"
  "moves still (call (\<lambda>F. Inr (a, F)))" "moves still (call (f_list_below p))"
  unfolding path_exists_def path_is_dir_def read_file_def metadata_def symlink_metadata_def
    read_dir_def
  by (intro moves_still_probe moves_still_call;
      auto simp: f_read_def f_stat_def f_lstat_def f_read_dir_def f_list_below_def
        split: sum.splits node.splits option.splits if_splits)+

lemma moves_still_sync: "moves still (sync_path p)"
  unfolding sync_path_def by (intro st.moves_basic moves_still_prims)

lemmas still_intros =
  moves_still_prims moves_still_probe moves_still_get_now moves_still_sleep moves_still_sync
  st.moves_basic

section \<open>Actions confined to a region\<close>

definition clear_region :: "path \<Rightarrow> filesystem \<Rightarrow> bool" where
  "clear_region D F \<longleftrightarrow> good_path D \<and>
     (\<forall>q t. node_at F q = Some (Link t) \<longrightarrow> \<not> prefix q D \<and> \<not> prefix D q)"

definition tame :: "path \<Rightarrow> filesystem \<Rightarrow> bool" where
  "tame D F \<longleftrightarrow> fs_wf F \<and> clear_region D F"

definition temp_path :: "path \<Rightarrow> bool" where
  "temp_path p \<longleftrightarrow> p \<noteq> [] \<and> is_temp_name (last p)"

definition confined :: "path \<Rightarrow> path set \<Rightarrow> world \<Rightarrow> world \<Rightarrow> bool" where
  "confined D S w v \<longleftrightarrow> suffix (events v) (events w) \<and>
     (tame D (fs w) \<longrightarrow> tame D (fs v) \<and>
        (\<forall>p. p \<notin> S \<longrightarrow> \<not> temp_path p \<longrightarrow> file_at (fs v) p = file_at (fs w) p))"

interpretation wi: step_preorder "confined D S" for D S
  by unfold_locales (auto simp: confined_def intro: suffix_order.trans)

lemma still_within: "still w v \<Longrightarrow> confined D S w v"
  by (auto simp: still_def confined_def)

lemma moves_still_within: "moves still m \<Longrightarrow> moves (confined D S) m"
  by (erule moves_mono) (rule still_within)

lemma within_mono: "confined D S w v \<Longrightarrow> S \<subseteq> T \<Longrightarrow> confined D T w v"
  by (auto simp: confined_def)

lemma moves_within_mono: "moves (confined D S) m \<Longrightarrow> S \<subseteq> T \<Longrightarrow> moves (confined D T) m"
  by (erule moves_mono) (rule within_mono)

text \<open>A path in the region, or on the way to it, made of ordinary names.\<close>

definition in_region :: "path \<Rightarrow> path \<Rightarrow> bool" where
  "in_region D p \<longleftrightarrow> (prefix D p \<or> prefix p D) \<and> good_path p"

lemma in_region_plain:
  assumes "tame D F" and "in_region D p"
  shows "plain F p"
proof -
  have "node_at F q \<noteq> Some (Link t)" if "prefix q p" for q t
  proof -
    from that assms(2) have "prefix q D \<or> prefix D q"
      by (auto simp: in_region_def dest: prefix_same_cases)
    with assms(1) show ?thesis by (auto simp: tame_def clear_region_def)
  qed
  with assms(2) show ?thesis by (auto simp: plain_def in_region_def dest: good_path_no_dotdot)
qed

lemma in_region_below [simp]: "good_path D \<Longrightarrow> good_path p \<Longrightarrow> in_region D (D @ p)"
  by (simp add: in_region_def)

lemma in_region_prefix: "in_region D p \<Longrightarrow> prefix q p \<Longrightarrow> in_region D q"
  by (auto simp: in_region_def good_path_def dest: set_mono_prefix prefix_same_cases
      intro: prefix_order.trans)

text \<open>
  A call keeps \<open>confined D S\<close> when its effect on a tame file system is confined. The remaining lemmas
  of this section establish that for each call that writes.
\<close>

lemma moves_within_call:
  assumes "\<And>F a G. tame D F \<Longrightarrow> f F = Inr (a, G) \<Longrightarrow>
      tame D G \<and> (\<forall>p. p \<notin> S \<longrightarrow> \<not> temp_path p \<longrightarrow> file_at G p = file_at F p)"
  shows "moves (confined D S) (call f)"
proof (rule movesI)
  fix w r v assume c: "call f w = (r, v)"
  obtain e u where n: "next_event w = (e, u)" by fastforce
  from next_event_still [OF n] have u: "fs u = fs w" "suffix (events u) (events w)"
    by (auto simp: still_def)
  from call_cases [OF c n] consider "v = u" | a G where "f (fs u) = Inr (a, G)" "v = u\<lparr>fs := G\<rparr>"
    by blast
  then show "confined D S w v"
  proof cases
    case 1
    with u show ?thesis by (simp add: confined_def)
  next
    case 2
    with u assms [of "fs u" a G] show ?thesis by (auto simp: confined_def)
  qed
qed

lemma node_at_Cons: "node_at ((q, n) # F) p = (if p = [] then Some Dir else if p = q then Some n else node_at F p)"
  by (auto simp: node_at_def)

lemma node_at_update:
  "node_at (AList.update q n F) p = (if p = [] then Some Dir else if p = q then Some n else node_at F p)"
  by (auto simp: node_at_def update_conv')

lemma node_at_delete:
  "node_at (AList.delete q F) p = (if p = [] then Some Dir else if p = q then None else node_at F p)"
  by (auto simp: node_at_def delete_conv')

lemma fs_wf_Cons:
  assumes "fs_wf F" and "node_at F q = None" and "node_at F (butlast q) = Some Dir" and "good_name (last q)"
  shows "fs_wf ((q, n) # F)"
proof -
  from assms(2) have q: "q \<noteq> []" "q \<notin> fst ` set F"
    by (auto simp: node_at_def map_of_eq_None_iff split: if_splits)
  have "node_at ((q, n) # F) r = Some Dir" if "node_at F r = Some Dir" for r
    using that assms(2) by (auto simp: node_at_Cons)
  with assms q show ?thesis by (auto simp: fs_wf_def)
qed

lemma tame_Cons:
  assumes "tame D F" and "node_at F q = None" and "node_at F (butlast q) = Some Dir"
    and "good_name (last q)" and "\<And>t. n \<noteq> Link t"
  shows "tame D ((q, n) # F)"
  using assms fs_wf_Cons [of F q n] by (auto simp: tame_def clear_region_def node_at_Cons split: if_splits)

lemma fs_wf_no_child:
  "fs_wf F \<Longrightarrow> node_at F q = Some n \<Longrightarrow> n \<noteq> Dir \<Longrightarrow> q \<noteq> [] \<Longrightarrow> map_of F p = Some m \<Longrightarrow> butlast p \<noteq> q"
  by (auto simp: fs_wf_def)

lemma fs_wf_update_file:
  assumes "fs_wf F" and "node_at F q = Some m" and "m \<noteq> Dir" and "n \<noteq> Dir"
  shows "fs_wf (AList.update q n F)"
proof -
  have q: "map_of F q = Some m" "q \<noteq> []"
    using assms by (auto simp: node_at_def split: if_splits)
  have dirs: "node_at (AList.update q n F) r = Some Dir" if "node_at F r = Some Dir" for r
    using that assms(2,3) by (auto simp: node_at_update)
  show ?thesis
    unfolding fs_wf_def
    using assms(1) q dirs
    by (auto simp: fs_wf_def update_conv' distinct_update split: if_splits)
qed

lemma tame_update_file:
  assumes "tame D F" and "node_at F q = Some m" and "m \<noteq> Dir" and "n \<noteq> Dir" and "\<And>t. n \<noteq> Link t"
  shows "tame D (AList.update q n F)"
  using assms fs_wf_update_file [of F q m n]
  by (auto simp: tame_def clear_region_def node_at_update split: if_splits)

lemma fs_wf_delete_leaf:
  assumes "fs_wf F" and "\<And>p m. map_of F p = Some m \<Longrightarrow> butlast p \<noteq> q"
  shows "fs_wf (AList.delete q F)"
proof -
  have "node_at (AList.delete q F) (butlast p) = Some Dir"
    if "map_of F p = Some n" for p n
    using assms(1) assms(2) [OF that] that by (auto simp: fs_wf_def node_at_delete)
  with assms(1) show ?thesis
    unfolding fs_wf_def by (metis delete_conv' distinct_delete fun_upd_apply option.distinct(1))
qed

lemma fs_wf_delete_file:
  "fs_wf F \<Longrightarrow> node_at F q = Some n \<Longrightarrow> n \<noteq> Dir \<Longrightarrow> q \<noteq> [] \<Longrightarrow> fs_wf (AList.delete q F)"
  by (rule fs_wf_delete_leaf) (auto dest: fs_wf_no_child)

lemma tame_delete:
  "tame D F \<Longrightarrow> fs_wf (AList.delete q F) \<Longrightarrow> tame D (AList.delete q F)"
  by (auto simp: tame_def clear_region_def node_at_delete split: if_splits)

lemma file_at_cong: "node_at G p = node_at F p \<Longrightarrow> file_at G p = file_at F p"
  by (simp add: file_at_def)

lemma f_mkdir_confined:
  assumes "tame D F" and "in_region D p" and "f_mkdir p F = Inr (a, G)"
  shows "tame D G \<and> file_at G = file_at F"
proof -
  have pl: "plain F p" by (rule in_region_plain [OF assms(1,2)])
  obtain q where q: "lresolve F p = Inr q" and none: "node_at F q = None" and G: "G = (q, Dir) # F"
    using assms(3) by (auto simp: f_mkdir_def split: sum.splits if_splits)
  have "q = p" by (rule lresolve_plain(1) [OF pl q])
  with none have "p \<noteq> []" by (auto simp: node_at_def)
  have "tame D G"
    unfolding G \<open>q = p\<close>
    by (rule tame_Cons [OF assms(1)])
      (use none \<open>q = p\<close> \<open>p \<noteq> []\<close> lresolve_plain(2) [OF pl q] assms(2) good_path_last
        in \<open>auto simp: in_region_def\<close>)
  moreover have "file_at G = file_at F"
    using none by (auto simp: G file_at_def node_at_Cons fun_eq_iff)
  ultimately show ?thesis by simp
qed

lemma f_create_new_confined:
  assumes "tame D F" and "in_region D p" and "f_create_new p F = Inr (a, G)"
  shows "tame D G \<and> file_at G = (file_at F)(p := Some [])"
proof -
  have pl: "plain F p" by (rule in_region_plain [OF assms(1,2)])
  obtain q where q: "lresolve F p = Inr q" and none: "node_at F q = None"
    and G: "G = (q, File [] 0 0) # F"
    using assms(3) by (auto simp: f_create_new_def split: sum.splits if_splits)
  have "q = p" by (rule lresolve_plain(1) [OF pl q])
  with none have "p \<noteq> []" by (auto simp: node_at_def)
  have "tame D G"
    unfolding G \<open>q = p\<close>
    by (rule tame_Cons [OF assms(1)])
      (use none \<open>q = p\<close> \<open>p \<noteq> []\<close> lresolve_plain(2) [OF pl q] assms(2) good_path_last
        in \<open>auto simp: in_region_def\<close>)
  moreover have "file_at G = (file_at F)(p := Some [])"
    using none \<open>q = p\<close> by (auto simp: G file_at_def node_at_Cons fun_eq_iff node_at_def)
  ultimately show ?thesis by simp
qed

lemma f_append_confined:
  assumes "tame D F" and "in_region D p" and "f_append p b F = Inr (a, G)"
  shows "tame D G \<and> (\<exists>b0. file_at F p = Some b0 \<and> file_at G = (file_at F)(p := Some (b0 @ b)))"
proof -
  have pl: "plain F p" by (rule in_region_plain [OF assms(1,2)])
  obtain q b0 s n where q: "resolve F p = Inr q" and at: "node_at F q = Some (File b0 s n)"
    and G: "G = AList.update q (File (b0 @ b) s n) F"
    using assms(3) by (auto simp: f_append_def split: sum.splits option.splits node.splits)
  have "q = p" by (rule resolve_plain [OF pl q])
  with at have "p \<noteq> []" by (auto simp: node_at_def)
  have "tame D G"
    unfolding G by (rule tame_update_file [OF assms(1) at]) auto
  moreover have "file_at G = (file_at F)(p := Some (b0 @ b))"
    using \<open>q = p\<close> \<open>p \<noteq> []\<close> by (auto simp: G file_at_def node_at_update fun_eq_iff node_at_Nil_dir)
  ultimately show ?thesis using at \<open>q = p\<close> by (simp add: file_at_def)
qed

lemma f_set_mtime_confined:
  assumes "tame D F" and "f_set_mtime p s n F = Inr (a, G)"
  shows "tame D G \<and> file_at G = file_at F"
proof -
  obtain q m where q: "resolve F p = Inr q" and m: "node_at F q = Some m"
    using assms(2) by (auto simp: f_set_mtime_def split: sum.splits option.splits)
  show ?thesis
  proof (cases m)
    case (File b s0 n0)
    with assms(2) q m have G: "G = AList.update q (File b s n) F" by (simp add: f_set_mtime_def)
    have "tame D G" unfolding G by (rule tame_update_file [OF assms(1) m]) (use File in auto)
    with m File show ?thesis by (auto simp: G file_at_def node_at_update fun_eq_iff)
  qed (use assms q m in \<open>simp_all add: f_set_mtime_def\<close>)
qed

lemma f_unlink_confined:
  assumes "tame D F" and "in_region D p" and "f_unlink p F = Inr (a, G)"
  shows "tame D G \<and> file_at G = (file_at F)(p := None)"
proof -
  have pl: "plain F p" by (rule in_region_plain [OF assms(1,2)])
  obtain q n where q: "lresolve F p = Inr q" and at: "node_at F q = Some n" "n \<noteq> Dir"
    and G: "G = AList.delete q F"
    using assms(3) by (auto simp: f_unlink_def split: sum.splits option.splits node.splits)
  have "q = p" by (rule lresolve_plain(1) [OF pl q])
  with at have "p \<noteq> []" by (auto simp: node_at_def)
  have "tame D G"
    unfolding G
    by (rule tame_delete [OF assms(1)]) (use at \<open>q = p\<close> \<open>p \<noteq> []\<close> assms(1) fs_wf_delete_file in \<open>auto simp: tame_def\<close>)
  moreover have "file_at G = (file_at F)(p := None)"
    using \<open>q = p\<close> \<open>p \<noteq> []\<close> by (auto simp: G file_at_def node_at_delete fun_eq_iff node_at_Nil_dir)
  ultimately show ?thesis by simp
qed

lemma f_rmdir_confined:
  assumes "tame D F" and "in_region D p" and "f_rmdir p F = Inr (a, G)"
  shows "tame D G \<and> file_at G = file_at F"
proof -
  have pl: "plain F p" by (rule in_region_plain [OF assms(1,2)])
  obtain q where q: "lresolve F p = Inr q" and at: "node_at F q = Some Dir" "q \<noteq> []" "children F q = []"
    and G: "G = AList.delete q F"
    using assms(3) by (auto simp: f_rmdir_def split: sum.splits option.splits node.splits if_splits)
  have leaf: "butlast r \<noteq> q" if "map_of F r = Some m" for r m
  proof
    assume "butlast r = q"
    moreover from that assms(1) have "r \<noteq> []" by (auto simp: tame_def dest: fs_wf_nonempty)
    ultimately have "last r \<in> set (children F q)"
      using that by (metis append_butlast_last_id children_iff node_at_child option.distinct(1))
    with at show False by simp
  qed
  have "tame D G"
    unfolding G
    by (rule tame_delete [OF assms(1)]) (use leaf assms(1) fs_wf_delete_leaf in \<open>auto simp: tame_def\<close>)
  moreover have "file_at G = file_at F"
    using at by (auto simp: G file_at_def node_at_delete fun_eq_iff node_at_Nil_dir)
  ultimately show ?thesis by simp
qed

text \<open>Renaming a file over its target, the atomic replacement every commit relies on.\<close>

lemma f_rename_file_confined:
  assumes "tame D F" and "in_region D t" and "in_region D p" and "t \<noteq> p"
    and "file_at F t = Some b" and "f_rename t p F = Inr (a, G)"
  shows "tame D G \<and> file_at G = (file_at F)(t := None, p := Some b)"
proof -
  have wf: "fs_wf F" using assms(1) by (simp add: tame_def)
  have plt: "plain F t" and plp: "plain F p"
    using in_region_plain [OF assms(1)] assms(2,3) by auto
  obtain n where n: "node_at F t = Some n" "is_file_node n" "file_bytes n = b"
    using assms(5) by (auto simp: file_at_def split: option.splits node.splits)
  obtain q where q: "lresolve F p = Inr q" and nd: "node_at F q \<noteq> Some Dir"
    and G: "G = (q, n) # AList.delete q (AList.delete t F)"
    using assms(4,6) n lresolve_plain(1) [OF plt] lresolve_plain(1) [OF plp]
    by (cases n) (auto simp: f_rename_def split: sum.splits option.splits node.splits if_splits)
  have qp: "q = p" by (rule lresolve_plain(1) [OF plp q])
  have ne: "p \<noteq> []" "t \<noteq> []" using nd qp n(1,2) by (auto simp: node_at_def split: if_splits)
  have par: "node_at F (butlast p) = Some Dir" by (rule lresolve_plain(2) [OF plp q ne(1)])
  let ?H = "AList.delete p (AList.delete t F)"
  have wf1: "fs_wf (AList.delete t F)"
    using wf n(1,2) ne(2) by (intro fs_wf_delete_file [where n = n]) (cases n, auto)
  have wf2: "fs_wf ?H"
  proof (cases "node_at F p")
    case None
    then have "map_of (AList.delete t F) p = None"
      using ne by (simp add: node_at_def delete_conv')
    then have "p \<notin> fst ` set (AList.delete t F)" by (simp only: map_of_eq_None_iff simp_thms)
    then show ?thesis using wf1 by (simp add: delete_id)
  next
    case (Some m)
    with nd qp ne assms(4) show ?thesis
      by (intro fs_wf_delete_file [OF wf1, of p m]) (auto simp: node_at_delete)
  qed
  have "tame D ?H"
    using assms(1) wf1 wf2 by (intro tame_delete) auto
  moreover have "node_at ?H (butlast p) = Some Dir"
    using par nd qp n(1,2) by (cases n) (auto simp: node_at_delete node_at_Nil_dir)
  moreover have "good_name (last p)"
    using assms(3) ne(1) good_path_last by (auto simp: in_region_def)
  ultimately have "tame D ((p, n) # ?H)"
    using n(2) ne(1) by (intro tame_Cons) (auto simp: node_at_delete)
  moreover have "file_at ((p, n) # ?H) = (file_at F)(t := None, p := Some b)"
    using n ne assms(4) by (cases n) (auto simp: file_at_def node_at_Cons node_at_delete fun_eq_iff node_at_Nil_dir)
  ultimately show ?thesis by (simp add: G qp)
qed

section \<open>Confined actions\<close>

lemma moves_within_create_dir: "in_region D p \<Longrightarrow> moves (confined D S) (create_dir p)"
  unfolding create_dir_def
  by (rule moves_within_call) (metis f_mkdir_confined)

lemma moves_within_remove_file: "in_region D p \<Longrightarrow> p \<in> S \<or> temp_path p \<Longrightarrow> moves (confined D S) (remove_file p)"
  unfolding remove_file_def
  by (rule moves_within_call) (metis f_unlink_confined fun_upd_other)

lemma moves_within_remove_dir: "in_region D p \<Longrightarrow> moves (confined D S) (remove_dir p)"
  unfolding remove_dir_def
  by (rule moves_within_call) (metis f_rmdir_confined)

lemma moves_within_append: "in_region D p \<Longrightarrow> p \<in> S \<or> temp_path p \<Longrightarrow> moves (confined D S) (append_file p b)"
  unfolding append_file_def
  by (rule moves_within_call) (metis f_append_confined fun_upd_other)

lemma moves_within_set_mtime: "moves (confined D S) (set_file_mtime p s n)"
  unfolding set_file_mtime_def
  by (rule moves_within_call) (metis f_set_mtime_confined)

lemmas within_still =
  moves_still_prims [THEN moves_still_within] moves_still_get_now [THEN moves_still_within]
  moves_still_sleep [THEN moves_still_within] moves_still_sync [THEN moves_still_within]

lemma moves_case_sum:
  "(\<And>e. r = Inl e \<Longrightarrow> moves R (f e)) \<Longrightarrow> (\<And>a. r = Inr a \<Longrightarrow> moves R (g a)) \<Longrightarrow>
    moves R (case r of Inl e \<Rightarrow> f e | Inr a \<Rightarrow> g a)"
  by (cases r) auto

lemma moves_case_option:
  "(r = None \<Longrightarrow> moves R f) \<Longrightarrow> (\<And>a. r = Some a \<Longrightarrow> moves R (g a)) \<Longrightarrow>
    moves R (case r of None \<Rightarrow> f | Some a \<Rightarrow> g a)"
  by (cases r) auto

lemmas within_intros = wi.moves_basic within_still moves_case_sum moves_case_option
lemmas still_all_intros = still_intros moves_case_sum moves_case_option

lemma moves_within_mkdir_or_dir: "in_region D p \<Longrightarrow> moves (confined D S) (mkdir_or_dir p)"
  unfolding mkdir_or_dir_def
  by (intro within_intros moves_within_create_dir)

lemma moves_within_create_dir_all_rev:
  "in_region D (rev p) \<Longrightarrow> moves (confined D S) (create_dir_all_rev p)"
proof (induction p)
  case Nil
  then show ?case by (auto intro: wi.moves_ret)
next
  case (Cons c up)
  have "in_region D (rev up)" by (rule in_region_prefix [OF Cons.prems]) simp
  then have "moves (confined D S) (create_dir_all_rev up)" by (rule Cons.IH)
  then show ?case
    unfolding create_dir_all_rev.simps
    by (intro within_intros moves_within_create_dir moves_within_mkdir_or_dir Cons.prems)
qed

lemma moves_within_create_dir_all: "in_region D p \<Longrightarrow> moves (confined D S) (create_dir_all p)"
  unfolding create_dir_all_def by (rule moves_within_create_dir_all_rev) simp

section \<open>Temporary files and atomic replacement\<close>

lemma good_temp_name: "is_temp_name s \<Longrightarrow> CHR ''/'' \<notin> set s \<Longrightarrow> good_name s"
  by (auto simp: good_name_def is_temp_name_def prefix_def)

lemma temp_path_snoc [simp]: "temp_path (d @ [c]) \<longleftrightarrow> is_temp_name c"
  by (simp add: temp_path_def)

text \<open>The temporary paths the model can hand out for a directory of the region.\<close>

definition temp_in :: "path \<Rightarrow> path \<Rightarrow> path \<Rightarrow> bool" where
  "temp_in D d t \<longleftrightarrow> temp_path t \<and> butlast t = d \<and> in_region D t"

lemma f_new_temp_confined:
  assumes "temp_namer_ok tn" and "tame D F" and "prefix D d" and "good_path d"
    and "f_new_temp tn d F = Inr (t, G)"
  shows "temp_in D d t \<and> tame D G \<and> file_at G = (file_at F)(t := Some [])"
proof -
  let ?t = "d @ [tn F d]"
  have n: "is_temp_name (tn F d)" "good_name (tn F d)"
    using assms(1) good_temp_name by (auto simp: temp_namer_ok_def)
  have r: "in_region D ?t" using assms(3,4) n by (auto simp: in_region_def)
  from assms(5) have "t = ?t" and "f_create_new ?t F = Inr ((), G)"
    by (auto simp: f_new_temp_def split: sum.splits)
  with f_create_new_confined [OF assms(2) r] n r show ?thesis
    by (auto simp: temp_in_def)
qed

lemma new_temp_value:
  assumes "temp_namer_ok tn" and "prefix D d" and "good_path d"
    and "call (f_new_temp tn d) w = (Ok t, v)"
  shows "temp_in D d t"
proof -
  from call_Ok [OF assms(4)] obtain G where G: "f_new_temp tn d (fs w) = Inr (t, G)" by blast
  then have "t = d @ [tn (fs w) d]" by (auto simp: f_new_temp_def split: sum.splits)
  moreover have "good_name (tn (fs w) d)" "is_temp_name (tn (fs w) d)"
    using assms(1) good_temp_name by (auto simp: temp_namer_ok_def)
  ultimately show ?thesis using assms(2,3) by (auto simp: temp_in_def in_region_def)
qed

lemma moves_within_with_temp:
  assumes "temp_namer_ok tn" and "prefix D d" and "good_path d"
    and "\<And>t. temp_in D d t \<Longrightarrow> moves (confined D S) (body t)"
  shows "moves (confined D S) (with_temp tn d body)"
  unfolding with_temp_def
proof (rule wi.moves_bnd_val)
  show "moves (confined D S) (call (f_new_temp tn d))"
    by (rule moves_within_call)
      (metis assms(1-3) f_new_temp_confined fun_upd_other temp_in_def)
next
  fix w t v assume "call (f_new_temp tn d) w = (Ok t, v)"
  from new_temp_value [OF assms(1-3) this] have t: "temp_in D d t" .
  then have rm: "moves (confined D S) (remove_file t)"
    by (intro moves_within_remove_file) (auto simp: temp_in_def)
  show "moves (confined D S) (bnd (attempt (body t)) (\<lambda>r. case r of
       Inr a \<Rightarrow> ret a | Inl e \<Rightarrow> bnd (attempt (remove_file t)) (\<lambda>_. throw e)))"
    by (intro within_intros assms(4) t rm)
qed

lemma f_persist_confined:
  assumes "tame D F" and "temp_in D d t" and "in_region D p" and "\<not> temp_path p"
    and "f_persist t p F = Inr (a, G)"
  shows "\<exists>b. file_at F t = Some b \<and> tame D G \<and> file_at G = (file_at F)(t := None, p := Some b)"
proof -
  have "plain F t" using assms(1,2) in_region_plain by (auto simp: temp_in_def)
  with assms(1,5) obtain b s n where at: "node_at F t = Some (File b s n)" and "f_rename t p F = Inr (a, G)"
    using lstat_plain_iff [of F t]
    by (auto simp: f_persist_def tame_def split: sum.splits node.splits)
  then have "file_at F t = Some b" by (simp add: file_at_def)
  moreover from this have "tame D G \<and> file_at G = (file_at F)(t := None, p := Some b)"
    by (intro f_rename_file_confined [OF assms(1) _ assms(3)])
      (use assms(2,4) \<open>f_rename t p F = Inr (a, G)\<close> in \<open>auto simp: temp_in_def\<close>)
  ultimately show ?thesis by blast
qed

lemma moves_within_persist:
  assumes "temp_in D d t" and "in_region D p" and "\<not> temp_path p" and "p \<in> S"
  shows "moves (confined D S) (persist t p)"
  unfolding persist_def
  by (rule moves_within_call)
    (metis assms f_persist_confined fun_upd_other temp_in_def)

section \<open>What a reader of the region sees\<close>

definition stable :: "(world \<Rightarrow> bool) \<Rightarrow> bool" where
  "stable P \<longleftrightarrow> (\<forall>w v. P w \<longrightarrow> still w v \<longrightarrow> P v)"

lemma stableD: "stable P \<Longrightarrow> P w \<Longrightarrow> still w v \<Longrightarrow> P v"
  unfolding stable_def by blast

lemma triple_still: "stable P \<Longrightarrow> moves still m \<Longrightarrow> triple P m (\<lambda>_. P) P"
  by (rule triple_moves [where R = still]) (auto simp: stable_def)

lemma triple_still_value:
  assumes "stable P" and "moves still m" and "\<And>s a t. m s = (Ok a, t) \<Longrightarrow> V a"
  shows "triple P m (\<lambda>a w. V a \<and> P w) P"
  by (rule tripleI) (use assms stableD movesD in \<open>metis\<close>)+

definition sees :: "path \<Rightarrow> (path \<Rightarrow> bytes option) \<Rightarrow> world \<Rightarrow> bool" where
  "sees D f w \<longleftrightarrow> tame D (fs w) \<and> (\<forall>q. \<not> temp_path q \<longrightarrow> file_at (fs w) q = f q)"

lemma stable_fs: "stable (\<lambda>w. P (fs w))"
  by (simp add: stable_def still_def)

lemma stable_sees [simp]: "stable (sees D f)"
  by (simp add: stable_def still_def sees_def)

lemma sees_within: "sees D f w \<Longrightarrow> confined D {} w v \<Longrightarrow> sees D f v"
  by (auto simp: sees_def confined_def)

lemma triple_unseen: "moves (confined D {}) m \<Longrightarrow> triple (sees D f) m (\<lambda>_. sees D f) (sees D f)"
  by (erule triple_moves) (rule sees_within)

lemma stable_conj: "stable P \<Longrightarrow> stable Q \<Longrightarrow> stable (\<lambda>w. P w \<and> Q w)"
  by (auto simp: stable_def)

lemma stable_const [simp]: "stable (\<lambda>_. b)"
  by (simp add: stable_def)

text \<open>Probes tell the truth when no event of the oracle makes them blind.\<close>

definition sighted :: "world \<Rightarrow> bool" where
  "sighted w \<longleftrightarrow> (\<forall>e \<in> set (events w). \<not> ev_blind e)"

lemma stable_sighted [simp]: "stable sighted"
  by (auto simp: stable_def still_def sighted_def dest: set_mono_suffix)

lemma sighted_within: "sighted w \<Longrightarrow> confined D S w v \<Longrightarrow> sighted v"
  by (auto simp: sighted_def confined_def dest: set_mono_suffix)

lemma probe_sighted:
  assumes "sighted w" and "probe f w = (Ok b, v)"
  shows "b = f (fs w) \<and> still w v"
proof -
  obtain e u where n: "next_event w = (e, u)" by fastforce
  with assms have "\<not> ev_blind e"
    by (auto simp: next_event_def sighted_def calm_def split: list.splits)
  with assms(2) n next_event_still [OF n] show ?thesis
    by (auto simp: probe_def still_def split: if_splits)
qed

lemma read_file_value:
  assumes "tame D (fs w)" and "in_region D p" and "read_file p w = (Ok b, v)"
  shows "file_at (fs w) p = Some b"
proof -
  from call_Ok [OF assms(3) [unfolded read_file_def]] obtain s n where "stat (fs w) p = Inr (File b s n)"
    by (auto simp: f_read_def split: sum.splits node.splits)
  with assms(1) stat_plain_iff [of "fs w" p "File b s n"] in_region_plain [OF assms(1,2)]
  have "node_at (fs w) p = Some (File b s n)" by (simp add: tame_def)
  then show ?thesis by (simp add: file_at_def)
qed

lemma triple_read_file:
  assumes "stable P" and "\<And>w. P w \<Longrightarrow> tame D (fs w)" and "in_region D p"
  shows "triple P (read_file p) (\<lambda>b w. P w \<and> file_at (fs w) p = Some b) P"
proof (rule tripleI)
  fix w b v assume "P w" and r: "read_file p w = (Ok b, v)"
  have "still w v" by (rule movesD [OF moves_still_prims(3) r])
  with \<open>P w\<close> assms(1) read_file_value [OF assms(2) assms(3) r] show "P v \<and> file_at (fs v) p = Some b"
    by (auto simp: stable_def still_def)
qed (use assms(1) movesD [OF moves_still_prims(3)] in \<open>auto simp: stable_def\<close>)

lemma triple_call:
  assumes "stable P"
    and "\<And>w a G v. P w \<Longrightarrow> f (fs w) = Inr (a, G) \<Longrightarrow> fs v = G \<Longrightarrow> suffix (events v) (events w) \<Longrightarrow> Q a v"
    and "\<And>w. P w \<Longrightarrow> E w"
  shows "triple P (call f) Q E"
proof (rule tripleI)
  fix w a v assume "P w" and "call f w = (Ok a, v)"
  with call_Ok [OF this(2)] assms(2) show "Q a v" by blast
next
  fix w e v assume P: "P w" and "call f w = (Err e, v)"
  then have "still w v" by (auto dest: call_not_Ok)
  with P assms(1,3) show "E v" by (auto simp: stable_def)
next
  fix w v assume P: "P w" and "call f w = (Halt, v)"
  then have "still w v" by (auto dest: call_not_Ok)
  with P assms(1,3) show "E v" by (auto simp: stable_def)
qed

definition sees_temp :: "path \<Rightarrow> (path \<Rightarrow> bytes option) \<Rightarrow> path \<Rightarrow> bytes \<Rightarrow> world \<Rightarrow> bool" where
  "sees_temp D f t b w \<longleftrightarrow> sees D f w \<and> file_at (fs w) t = Some b"

lemma stable_sees_temp [simp]: "stable (sees_temp D f t b)"
  by (simp add: stable_def still_def sees_temp_def sees_def)

lemma triple_append_temp:
  assumes "temp_in D d t"
  shows "triple (sees_temp D f t b0) (append_file t b) (\<lambda>_. sees_temp D f t (b0 @ b)) (sees D f)"
  unfolding append_file_def
proof (rule triple_call)
  fix w a G and v :: world
  assume w: "sees_temp D f t b0 w" and G: "f_append t b (fs w) = Inr (a, G)" and v: "fs v = G"
  from w have tm: "tame D (fs w)" by (simp add: sees_temp_def sees_def)
  from assms have r: "in_region D t" and tt: "temp_path t" by (auto simp: temp_in_def)
  from f_append_confined [OF tm r G] w obtain "tame D G" and "file_at G = (file_at (fs w))(t := Some (b0 @ b))"
    by (auto simp: sees_temp_def)
  with w v tt show "sees_temp D f t (b0 @ b) v"
    by (auto simp: sees_temp_def sees_def)
qed (auto simp: sees_temp_def)

lemma triple_new_temp:
  assumes "temp_namer_ok tn" and "prefix D d" and "good_path d"
  shows "triple (sees D f) (call (f_new_temp tn d)) (\<lambda>t w. temp_in D d t \<and> sees_temp D f t [] w) (sees D f)"
proof (rule triple_call)
  fix w t G and v :: world
  assume w: "sees D f w" and G: "f_new_temp tn d (fs w) = Inr (t, G)" and v: "fs v = G"
  from w have "tame D (fs w)" by (simp add: sees_def)
  from f_new_temp_confined [OF assms(1) this assms(2,3) G] w v
  show "temp_in D d t \<and> sees_temp D f t [] v"
    by (auto simp: sees_temp_def sees_def temp_in_def)
qed auto

text \<open>A reader sees the files \<open>f\<close> with the file at \<open>p\<close> replaced by a content that satisfies \<open>B\<close>.\<close>

definition replaced :: "path \<Rightarrow> (path \<Rightarrow> bytes option) \<Rightarrow> path \<Rightarrow> (bytes \<Rightarrow> bool) \<Rightarrow> world \<Rightarrow> bool" where
  "replaced D f p B w \<longleftrightarrow> (\<exists>b. B b \<and> sees D (f(p := Some b)) w)"

lemma stable_replaced [simp]: "stable (replaced D f p B)"
  by (auto simp: stable_def still_def replaced_def sees_def)

lemma stable_disj: "stable P \<Longrightarrow> stable Q \<Longrightarrow> stable (\<lambda>w. P w \<or> Q w)"
  by (auto simp: stable_def)

lemma stable_ex: "(\<And>x. stable (P x)) \<Longrightarrow> stable (\<lambda>w. \<exists>x. P x w)"
  by (auto simp: stable_def)

lemma replaced_within: "replaced D f p B w \<Longrightarrow> confined D {} w v \<Longrightarrow> replaced D f p B v"
  unfolding replaced_def using sees_within by blast

lemma triple_persist:
  assumes "temp_in D d t" and "in_region D p" and "\<not> temp_path p"
  shows "triple (\<lambda>w. \<exists>b. B b \<and> sees_temp D f t b w) (persist t p) (\<lambda>_. replaced D f p B) (sees D f)"
  unfolding persist_def
proof (rule triple_call)
  fix w a G and v :: world
  assume w: "\<exists>b. B b \<and> sees_temp D f t b w" and G: "f_persist t p (fs w) = Inr (a, G)" and v: "fs v = G"
  from w obtain b where b: "B b" "sees_temp D f t b w" by blast
  then have "tame D (fs w)" by (simp add: sees_temp_def sees_def)
  from f_persist_confined [OF this assms G] b v assms(1,3)
  have "sees D (f(p := Some b)) v"
    by (auto simp: sees_temp_def sees_def temp_in_def)
  with b show "replaced D f p B v" by (auto simp: replaced_def)
qed (auto simp: stable_def still_def sees_temp_def sees_def)

lemma triple_discard:
  assumes "temp_in D d t" and "\<And>w v. P w \<Longrightarrow> confined D {} w v \<Longrightarrow> P v"
  shows "triple P (bnd (attempt (remove_file t)) (\<lambda>_. throw e)) Q P"
proof (rule triple_bnd [where Q = "\<lambda>_. P"])
  have "moves (confined D {}) (remove_file t)"
    by (rule moves_within_remove_file) (use assms(1) in \<open>auto simp: temp_in_def\<close>)
  then show "triple P (attempt (remove_file t)) (\<lambda>_. P) P"
    by (rule triple_moves [OF wi.moves_attempt]) (rule assms(2))
qed (auto intro: triple_throw)

text \<open>
  Atomic replacement: a temporary file is prepared next to the target and renamed over it. Whatever
  happens in between, a reader sees either the old files or the old files with the target replaced by
  a prepared content.
\<close>

lemma triple_replace:
  assumes "temp_namer_ok tn" and "prefix D d" and "good_path d" and "in_region D p" and "\<not> temp_path p"
    and prep: "\<And>t. temp_in D d t \<Longrightarrow>
      triple (sees_temp D f t []) (prep t) (\<lambda>x w. \<exists>b. B x b \<and> sees_temp D f t b w) (sees D f)"
    and post: "\<And>x. moves still (post x)" and val: "\<And>x s r t. post x s = (Ok r, t) \<Longrightarrow> V x r"
  shows "triple (sees D f) (with_temp tn d (\<lambda>t. bnd (prep t) (\<lambda>x. bnd (persist t p) (\<lambda>_. post x))))
    (\<lambda>r w. \<exists>x. V x r \<and> replaced D f p (B x) w)
    (\<lambda>w. sees D f w \<or> (\<exists>x. replaced D f p (B x) w))"
  (is "triple _ _ ?Q ?E")
  unfolding with_temp_def
proof (rule triple_bnd)
  show "triple (sees D f) (call (f_new_temp tn d)) (\<lambda>t w. temp_in D d t \<and> sees_temp D f t [] w) ?E"
    by (rule triple_conseq [OF triple_new_temp [OF assms(1-3)]]) auto
  fix t
  show "triple (\<lambda>w. temp_in D d t \<and> sees_temp D f t [] w)
     (bnd (attempt (bnd (prep t) (\<lambda>x. bnd (persist t p) (\<lambda>_. post x)))) (\<lambda>r. case r of
       Inr a \<Rightarrow> ret a | Inl e \<Rightarrow> bnd (attempt (remove_file t)) (\<lambda>_. throw e))) ?Q ?E"
  proof (rule triple_pull)
    assume t: "temp_in D d t"
    have body: "triple (sees_temp D f t []) (bnd (prep t) (\<lambda>x. bnd (persist t p) (\<lambda>_. post x))) ?Q ?E"
    proof (rule triple_bnd)
      show "triple (sees_temp D f t []) (prep t) (\<lambda>x w. \<exists>b. B x b \<and> sees_temp D f t b w) ?E"
        by (rule triple_conseq [OF prep [OF t]]) auto
      fix x
      have "triple (replaced D f p (B x)) (post x) ?Q ?E"
        by (rule triple_conseq [OF triple_still_value [OF stable_replaced post val]]) auto
      then show "triple (\<lambda>w. \<exists>b. B x b \<and> sees_temp D f t b w) (bnd (persist t p) (\<lambda>_. post x)) ?Q ?E"
        by (rule triple_bnd [rotated]) (rule triple_conseq [OF triple_persist [OF t assms(4,5)]], auto)
    qed
    show "triple (sees_temp D f t [])
     (bnd (attempt (bnd (prep t) (\<lambda>x. bnd (persist t p) (\<lambda>_. post x)))) (\<lambda>r. case r of
       Inr a \<Rightarrow> ret a | Inl e \<Rightarrow> bnd (attempt (remove_file t)) (\<lambda>_. throw e))) ?Q ?E"
    proof (rule triple_try [OF body])
      show "triple ?E (bnd (attempt (remove_file t)) (\<lambda>_. throw e)) ?Q ?E" for e
        by (rule triple_discard [OF t]) (use sees_within replaced_within in blast)
    qed (auto intro: triple_ret)
  qed
qed

end
