(* ===== verification/Ordered_Map.thy ===== *)
theory Ordered_Map
  imports Prelude "HOL-Library.List_Lexorder" "HOL-Library.Char_ord"
begin

text \<open>
  The ordered maps and sets of the standard library (\<open>BTreeMap\<close>, \<open>BTreeSet\<close>): association lists
  with strictly increasing keys. Iteration order is key order. Strings are compared byte by byte, the
  lexicographic order of the library. The operations are used through the interface \<open>ordered_dict\<close>,
  interpreted here on the definitions.
\<close>

type_synonym ('k, 'v) btree = "('k \<times> 'v) list"

definition bt_ok :: "('k :: linorder, 'v) btree \<Rightarrow> bool" where
  "bt_ok m \<longleftrightarrow> sorted_wrt (<) (map fst m)"

definition bt_get :: "('k, 'v) btree \<Rightarrow> 'k \<Rightarrow> 'v option" where
  "bt_get m k = map_of m k"

fun bt_insert :: "'k :: linorder \<Rightarrow> 'v \<Rightarrow> ('k, 'v) btree \<Rightarrow> ('k, 'v) btree" where
  "bt_insert k v [] = [(k, v)]"
| "bt_insert k v ((l, u) # m) =
    (if k < l then (k, v) # (l, u) # m
     else if k = l then (k, v) # m
     else (l, u) # bt_insert k v m)"

definition bt_remove :: "'k \<Rightarrow> ('k, 'v) btree \<Rightarrow> ('k, 'v) btree" where
  "bt_remove k m = filter (\<lambda>e. fst e \<noteq> k) m"

definition bt_values :: "('k, 'v) btree \<Rightarrow> 'v list" where
  "bt_values m = map snd m"

definition bt_or_insert :: "'k :: linorder \<Rightarrow> 'v \<Rightarrow> ('k, 'v) btree \<Rightarrow> ('k, 'v) btree" where
  "bt_or_insert k v m = (case bt_get m k of None \<Rightarrow> bt_insert k v m | Some _ \<Rightarrow> m)"

definition bt_of_list :: "('k :: linorder \<times> 'v) list \<Rightarrow> ('k, 'v) btree" where
  "bt_of_list xs = fold (\<lambda>(k, v). bt_insert k v) xs []"

section \<open>The interface\<close>

locale ordered_dict =
  fixes ok :: "'m \<Rightarrow> bool"
    and empty :: 'm
    and get :: "'m \<Rightarrow> 'k \<Rightarrow> 'v option"
    and put :: "'k \<Rightarrow> 'v \<Rightarrow> 'm \<Rightarrow> 'm"
    and del :: "'k \<Rightarrow> 'm \<Rightarrow> 'm"
  assumes ok_empty: "ok empty"
    and ok_put: "ok m \<Longrightarrow> ok (put k v m)"
    and ok_del: "ok m \<Longrightarrow> ok (del k m)"
    and get_empty: "get empty k = None"
    and get_put: "get (put k v m) l = (if l = k then Some v else get m l)"
    and get_del: "get (del k m) l = (if l = k then None else get m l)"
    and ext: "ok m \<Longrightarrow> ok n \<Longrightarrow> get m = get n \<Longrightarrow> m = n"
begin

lemma put_get: "ok m \<Longrightarrow> get m k = Some v \<Longrightarrow> put k v m = m"
  by (rule ext) (auto simp: get_put ok_put)

lemma put_put: "ok m \<Longrightarrow> put k v (put k u m) = put k v m"
  by (rule ext) (auto simp: get_put ok_put)

lemma put_comm: "ok m \<Longrightarrow> k \<noteq> l \<Longrightarrow> put k v (put l u m) = put l u (put k v m)"
  by (rule ext) (auto simp: get_put ok_put)

lemma del_put: "ok m \<Longrightarrow> get m k = None \<Longrightarrow> del k (put k v m) = m"
  by (rule ext) (auto simp: get_put get_del ok_put ok_del)

lemma ok_fold_put: "ok m \<Longrightarrow> ok (fold (\<lambda>(k, v). put k v) xs m)"
  by (induction xs arbitrary: m) (auto simp: ok_put)

lemma get_fold_put:
  "get (fold (\<lambda>(k, v). put k v) xs m) k = (case map_of (rev xs) k of None \<Rightarrow> get m k | Some v \<Rightarrow> Some v)"
  by (induction xs arbitrary: m) (auto simp: get_put map_add_def split: option.splits)

end

section \<open>The association lists implement it\<close>

lemma bt_insert_keys: "set (map fst (bt_insert k v m)) = insert k (set (map fst m))"
  by (induction k v m rule: bt_insert.induct) auto

lemma bt_ok_Cons: "bt_ok ((k, v) # m) \<longleftrightarrow> (\<forall>l \<in> fst ` set m. k < l) \<and> bt_ok m"
  by (auto simp: bt_ok_def)

lemma bt_ok_insert: "bt_ok m \<Longrightarrow> bt_ok (bt_insert k v m)"
proof (induction k v m rule: bt_insert.induct)
  case (2 k v l u m)
  have "fst ` set (bt_insert k v m) = insert k (fst ` set m)"
    using bt_insert_keys [of k v m] by simp
  with 2 show ?case by (auto simp: bt_ok_Cons)
qed (simp add: bt_ok_def)

lemma bt_get_insert: "bt_get (bt_insert k v m) l = (if l = k then Some v else bt_get m l)"
  by (induction k v m rule: bt_insert.induct) (auto simp: bt_get_def)

lemma bt_ok_remove: "bt_ok m \<Longrightarrow> bt_ok (bt_remove k m)"
  unfolding bt_remove_def by (induction m) (auto simp: bt_ok_Cons)

lemma bt_get_remove: "bt_get (bt_remove k m) l = (if l = k then None else bt_get m l)"
  unfolding bt_remove_def by (induction m) (auto simp: bt_get_def)

lemma bt_ok_distinct: "bt_ok m \<Longrightarrow> distinct (map fst m)"
  unfolding bt_ok_def by (simp add: strict_sorted_iff)

lemma bt_get_iff: "bt_ok m \<Longrightarrow> bt_get m k = Some v \<longleftrightarrow> (k, v) \<in> set m"
  unfolding bt_get_def by (intro map_of_eq_Some_iff bt_ok_distinct)

lemma bt_rebuild: "bt_ok m \<Longrightarrow> map (\<lambda>k. (k, the (bt_get m k))) (map fst m) = m"
  by (auto simp: map_idI bt_get_iff intro!: map_idI) (metis bt_get_iff option.sel)

lemma bt_ext:
  assumes "bt_ok m" and "bt_ok n" and "bt_get m = bt_get n"
  shows "m = n"
proof -
  have "set m = set n"
    using assms bt_get_iff by (metis (no_types, opaque_lifting) prod.exhaust subsetI subset_antisym)
  then have "map fst m = map fst n"
    using assms(1,2) unfolding bt_ok_def by (metis image_set strict_sorted_equal)
  with bt_rebuild [OF assms(1)] bt_rebuild [OF assms(2)] assms(3) show ?thesis by simp
qed

lemma bt_ok_Nil: "bt_ok []"
  and bt_get_Nil: "bt_get [] k = None"
  by (simp_all add: bt_ok_def bt_get_def)

interpretation bt: ordered_dict bt_ok "[]" bt_get bt_insert bt_remove
  by unfold_locales
    (simp_all add: bt_ok_insert bt_ok_remove bt_get_insert bt_get_remove bt_ext bt_ok_Nil bt_get_Nil)

section \<open>Derived facts\<close>

lemma bt_ok_or_insert: "bt_ok m \<Longrightarrow> bt_ok (bt_or_insert k v m)"
  by (simp add: bt_or_insert_def bt.ok_put split: option.splits)

lemma bt_get_or_insert:
  "bt_get (bt_or_insert k v m) l = (if l = k \<and> bt_get m k = None then Some v else bt_get m l)"
  by (auto simp: bt_or_insert_def bt.get_put split: option.splits)

lemma bt_ok_of_list [simp]: "bt_ok (bt_of_list xs)"
  unfolding bt_of_list_def by (rule bt.ok_fold_put) (rule bt.ok_empty)

lemma bt_get_of_list: "bt_get (bt_of_list xs) k = map_of (rev xs) k"
  unfolding bt_of_list_def bt.get_fold_put by (simp add: bt.get_empty split: option.splits)

lemma bt_of_list_ok: "bt_ok m \<Longrightarrow> bt_of_list m = m"
proof (rule bt_ext)
  assume "bt_ok m"
  then have "distinct (map fst m)" by (rule bt_ok_distinct)
  then have "map_of (rev m) = map_of m"
    by (intro map_of_eqI) (auto simp: rev_map [symmetric] intro: ext)
  then show "bt_get (bt_of_list m) = bt_get m"
    by (intro ext) (simp add: bt_get_of_list, simp add: bt_get_def)
qed simp_all

lemma bt_values_iff: "bt_ok m \<Longrightarrow> v \<in> set (bt_values m) \<longleftrightarrow> (\<exists>k. bt_get m k = Some v)"
  by (auto simp: bt_values_def bt_get_iff image_iff) force+

end
