(* ===== verification/Model.thy ===== *)
theory Model
  imports Complex_Main Ordered_Map
begin

text \<open>
  The data the versioned store keeps on disk (\<open>backup/versioned/model.rs\<close>), the parts of the
  configuration its operations read (\<open>config/model\<close>), and the text of paths and errors. A string is
  the list of its bytes in UTF-8; names that are not UTF-8 are outside the model, so that
  \<open>to_string_lossy\<close> is the identity. Unsigned counters are natural numbers, time stamps integers.
\<close>

section \<open>Version index and manifests\<close>

record version_info =
  vi_id :: string
  vi_created_at_unix :: int

record version_index =
  vx_schema_version :: nat
  vx_source_path :: string
  vx_versions :: "version_info list"
  vx_safety_pinned_version_id :: "string option"
  vx_safety_pending_version_id :: "string option"
  vx_safety_pending_first_seen_unix :: "int option"

datatype read_failure_phase = Walk | Metadata | Hash | BlobWrite

record read_failure =
  rf_rel_path :: string
  rf_phase :: read_failure_phase
  rf_attempts :: nat
  rf_message :: string

datatype manifest_entry_kind = FileEntry | DirEntry

record manifest_entry =
  me_kind :: manifest_entry_kind
  me_rel_path :: string
  me_len :: nat
  me_mtime_unix :: int
  me_mtime_nanos :: nat
  me_sha256 :: "string option"

record source_snapshot_info =
  ss_provider :: string
  ss_id :: "string option"
  ss_created_at_unix :: int

record manifest =
  mf_schema_version :: nat
  mf_source_path :: string
  mf_created_at_unix :: int
  mf_source_snapshot :: "source_snapshot_info option"
  mf_source_snapshot_error :: "string option"
  mf_read_failures :: "read_failure list"
  mf_entries :: "(string, manifest_entry) btree"

record last_scan_report =
  lr_schema_version :: nat
  lr_source_path :: string
  lr_created_at_unix :: int
  lr_committed_version_id :: "string option"
  lr_source_snapshot :: "source_snapshot_info option"
  lr_source_snapshot_error :: "string option"
  lr_read_failures :: "read_failure list"

record safety_warning =
  sw_ts :: int
  sw_message :: string
  sw_watched_path :: "string option"
  sw_kept_version_id :: "string option"

text \<open>The markers that identify the trees of the readable view (\<open>browse.rs\<close>).\<close>

record source_marker =
  sm_schema_version :: nat
  sm_source_path :: string

record version_marker =
  vm_schema_version :: nat
  vm_version_id :: string

section \<open>Configuration\<close>

datatype watched_kind = WatchedFile | WatchedDirectory

record destination =
  dest_id :: string
  dest_path :: path
  dest_label :: "string option"
  dest_max_backups_per_file :: "nat option"
  dest_replicate_to :: "string list"

record watched_path =
  wp_path :: path
  wp_kind :: watched_kind
  wp_enabled :: bool
  wp_destination_id :: string
  wp_max_backups_per_file :: "nat option"

record hashing_tuning =
  ht_buffer_bytes :: nat
  ht_timeout_seconds :: nat

record execution_tuning =
  et_copy_buffer_bytes :: nat
  et_copy_timeout_seconds :: nat
  et_free_space_safety_buffer_bytes :: nat
  et_recent_activity_cap :: nat
  et_retry_delays_ms :: "nat list"
  et_retry_jitter_pct :: real
  et_blocking_io_backoff_poll_interval_ms :: nat

record planning_tuning =
  pt_hash_check_interval :: nat
  pt_max_plan_items :: nat
  pt_scan_timeout_seconds :: nat
  pt_scan_capacity_multiplier :: nat

record runtime_tuning =
  rt_prune_interval_cycles :: nat
  rt_force_full_scan_interval_cycles :: nat
  rt_verify_interval_seconds :: nat
  rt_scrub_full_interval_seconds :: nat
  rt_scrub_sample_blobs :: nat
  rt_scrub_sample_versions_per_source :: nat
  rt_watcher_debounce_seconds :: nat
  rt_ipc_timeout_seconds :: nat
  rt_ipc_request_max_bytes :: nat
  rt_ipc_response_max_bytes :: nat
  rt_ipc_read_chunk_bytes :: nat
  rt_daemon_shutdown_join_timeout_seconds :: nat
  rt_service_command_timeout_seconds :: nat
  rt_service_command_retry_delay_ms :: nat
  rt_service_command_poll_interval_ms :: nat
  rt_source_snapshots_enabled :: bool
  rt_source_snapshot_timeout_seconds :: nat
  rt_tray_tooltip_refresh_seconds :: nat
  rt_tray_full_check_min_interval_seconds :: nat
  rt_tray_full_check_timeout_seconds :: nat
  rt_tray_low_space_warning_bytes :: nat
  rt_log_tail_lines :: nat
  rt_log_tail_read_chunk_bytes :: nat
  rt_log_tail_max_bytes :: nat
  rt_simulation_sample_limit :: nat
  rt_hardening_snapshot_probe_timeout_seconds :: nat
  rt_gui_close_final_backup_debounce_ms :: nat
  rt_gui_close_final_backup_reset_delay_seconds :: nat
  rt_gui_quit_final_backup_timeout_seconds :: nat
  rt_gui_daemon_stop_timeout_seconds :: nat
  rt_gui_quit_force_exit_timeout_seconds :: nat
  rt_replication_enabled :: bool
  rt_replication_mirror_manifests :: bool
  rt_replication_max_manifest_deletes_per_cycle :: nat
  rt_large_deletion_keep_extra_threshold_ratio :: real
  rt_gui_start_hidden :: bool

record encryption_config =
  ec_enabled :: bool
  ec_key_path :: "path option"
  ec_key_id :: "string option"
  ec_blob_chunk_bytes :: nat

record compression_config =
  cc_enabled :: bool
  cc_blob_chunk_bytes :: nat
  cc_zstd_level :: int

record config =
  cf_backup_root :: path
  cf_interval_seconds :: nat
  cf_max_backups_per_file :: nat
  cf_skip_hidden :: bool
  cf_ignore_patterns :: "string list"
  cf_max_parallel_copies :: nat
  cf_max_bytes_per_second :: "nat option"
  cf_min_free_space_bytes :: "nat option"
  cf_hashing :: hashing_tuning
  cf_execution :: execution_tuning
  cf_planning :: planning_tuning
  cf_runtime :: runtime_tuning
  cf_safe_mode :: bool
  cf_encryption :: encryption_config
  cf_compression :: compression_config
  cf_watched :: "watched_path list"
  cf_destinations :: "destination list"

section \<open>Text\<close>

definition str_bytes :: "string \<Rightarrow> bytes" where
  "str_bytes s = map (\<lambda>c. word_of_nat (of_char c)) s"

fun digit :: "nat \<Rightarrow> char" where
  "digit n = char_of (48 + n)"

fun show_nat :: "nat \<Rightarrow> string" where
  "show_nat n = (if n < 10 then [digit n] else show_nat (n div 10) @ [digit (n mod 10)])"

declare show_nat.simps [simp del]

fun join_with :: "string \<Rightarrow> string list \<Rightarrow> string" where
  "join_with sep [] = []"
| "join_with sep [s] = s"
| "join_with sep (s # t # r) = s @ sep @ join_with sep (t # r)"

text \<open>An absolute path, a relative path, and the \<open>{:?}\<close> rendering of an absolute path.\<close>

definition path_text :: "path \<Rightarrow> string" where
  "path_text p = (if p = [] then ''/'' else concat (map (\<lambda>c. CHR ''/'' # c) p))"

definition rel_text :: "path \<Rightarrow> string" where
  "rel_text p = join_with ''/'' p"

fun escape_debug :: "string \<Rightarrow> string" where
  "escape_debug [] = []"
| "escape_debug (c # s) =
    (if c = CHR 0x22 \<or> c = CHR 0x5C then CHR 0x5C # c # escape_debug s else c # escape_debug s)"

definition path_debug :: "path \<Rightarrow> string" where
  "path_debug p = CHR 0x22 # escape_debug (path_text p) @ [CHR 0x22]"

text \<open>The \<open>{:#}\<close> rendering of an error: the chain of contexts down to the cause.\<close>

fun io_text :: "errkind \<Rightarrow> string" where
  "io_text NotFound = ''No such file or directory (os error 2)''"
| "io_text PermissionDenied = ''Permission denied (os error 13)''"
| "io_text AlreadyExists = ''File exists (os error 17)''"
| "io_text WouldBlock = ''Resource temporarily unavailable (os error 11)''"
| "io_text NotADirectory = ''Not a directory (os error 20)''"
| "io_text IsADirectory = ''Is a directory (os error 21)''"
| "io_text DirectoryNotEmpty = ''Directory not empty (os error 39)''"
| "io_text FilesystemLoop = ''Too many levels of symbolic links (os error 40)''"
| "io_text InvalidInput = ''Invalid argument (os error 22)''"
| "io_text UnexpectedEof = ''failed to fill whole buffer''"
| "io_text OtherIo = ''Input/output error (os error 5)''"

fun render :: "error \<Rightarrow> string" where
  "render (Io k) = io_text k"
| "render (Bail m) = m"
| "render (Ctx c e) = c @ '': '' @ render e"

definition contains :: "string \<Rightarrow> string \<Rightarrow> bool" where
  "contains s t \<longleftrightarrow> list_ex (\<lambda>i. take (length t) (drop i s) = t) [0..<Suc (length s)]"

lemma contains_append: "contains (a @ t @ b) t"
  unfolding contains_def list_ex_iff by (rule bexI [of _ "length a"]) auto

section \<open>Components of a relative path\<close>

text \<open>\<open>std::path::Component\<close> on Unix: there are no prefixes, and only the slash separates.\<close>

datatype component = RootDir | CurDir | ParentDir | Normal string

fun split_slash :: "string \<Rightarrow> string list" where
  "split_slash [] = [[]]"
| "split_slash (c # s) =
    (if c = CHR ''/'' then [] # split_slash s
     else case split_slash s of [] \<Rightarrow> [[c]] | w # ws \<Rightarrow> (c # w) # ws)"

definition component_of :: "string \<Rightarrow> component" where
  "component_of s = (if s = ''..'' then ParentDir else Normal s)"

definition tail_components :: "string list \<Rightarrow> component list" where
  "tail_components ws = map component_of (filter (\<lambda>w. w \<noteq> [] \<and> w \<noteq> ''.'') ws)"

definition components :: "string \<Rightarrow> component list" where
  "components s = (case s of
      [] \<Rightarrow> []
    | c # r \<Rightarrow>
        if c = CHR ''/'' then RootDir # tail_components (split_slash r)
        else if hd (split_slash s) = ''.'' then CurDir # tail_components (tl (split_slash s))
        else tail_components (split_slash s))"

fun component_text :: "component \<Rightarrow> string" where
  "component_text RootDir = ''/''"
| "component_text CurDir = ''.''"
| "component_text ParentDir = ''..''"
| "component_text (Normal s) = s"

text \<open>
  \<open>Path::join\<close> followed by resolution: an absolute argument replaces the base; the current
  directory adds nothing.
\<close>

definition push_component :: "path \<Rightarrow> component \<Rightarrow> path" where
  "push_component p c = (case c of RootDir \<Rightarrow> [] | CurDir \<Rightarrow> p | ParentDir \<Rightarrow> p @ [''..''] | Normal s \<Rightarrow> p @ [s])"

definition join_rel :: "path \<Rightarrow> string \<Rightarrow> path" where
  "join_rel p s = foldl push_component p (components s)"

lemma split_slash_ne [simp]: "split_slash s \<noteq> []"
  by (cases s) (auto split: list.splits)

lemma split_slash_no_slash: "w \<in> set (split_slash s) \<Longrightarrow> CHR ''/'' \<notin> set w"
  by (induction s arbitrary: w) (auto split: list.splits if_splits)

lemma join_split_slash: "join_with ''/'' (split_slash s) = s"
proof (induction s)
  case (Cons c s)
  then show ?case by (cases "split_slash s"; cases "tl (split_slash s)") auto
qed simp

lemma tail_components_names:
  "Normal w \<in> set (tail_components ws) \<Longrightarrow> w \<in> set ws \<and> w \<noteq> [] \<and> w \<noteq> ''.'' \<and> w \<noteq> ''..''"
  by (auto simp: tail_components_def component_of_def split: if_splits)

lemma components_names:
  assumes "Normal w \<in> set (components s)"
  shows "w \<noteq> [] \<and> w \<noteq> ''.'' \<and> w \<noteq> ''..'' \<and> CHR ''/'' \<notin> set w"
proof -
  obtain c r where s: "s = c # r" using assms by (cases s) (auto simp: components_def)
  with assms have "Normal w \<in> set (tail_components (split_slash r))
      \<or> Normal w \<in> set (tail_components (tl (split_slash s)))
      \<or> Normal w \<in> set (tail_components (split_slash s))"
    unfolding components_def by (simp del: split_slash.simps split: if_splits)
  then have w: "w \<noteq> [] \<and> w \<noteq> ''.'' \<and> w \<noteq> ''..''"
    and "w \<in> set (split_slash r) \<or> w \<in> set (tl (split_slash s)) \<or> w \<in> set (split_slash s)"
    by (blast dest: tail_components_names)+
  then have "w \<in> set (split_slash r) \<or> w \<in> set (split_slash s)"
    using list.set_sel(2) [OF split_slash_ne] by blast
  with w show ?thesis using split_slash_no_slash by blast
qed

lemma foldl_push_normal:
  "(\<And>c. c \<in> set cs \<Longrightarrow> \<exists>w. c = Normal w) \<Longrightarrow> foldl push_component p cs = p @ map component_text cs"
proof (induction cs arbitrary: p)
  case (Cons c cs)
  from Cons.prems [of c] obtain w where "c = Normal w" by auto
  with Cons.IH [of "p @ [w]"] Cons.prems show ?case by (simp add: push_component_def)
qed simp

end
