(* ===== verification/Externals.thy ===== *)
theory Externals
  imports Fs_Laws Model
begin

text \<open>
  The libraries the program calls, as a record of functions, and what the program relies on of each.
  Nothing here is defined: every definition that uses a library takes the record as an argument.

  \<^item> \<open>x_sha256\<close> (\<open>sha2\<close>): the digest of a byte string. Feeding a hasher piece by piece is hashing
    the concatenation.
  \<^item> \<open>x_zstd_compress\<close>, \<open>x_zstd_decompress\<close> (\<open>zstd::bulk\<close>): compression at a level, decompression
    into a buffer of a given capacity.
  \<^item> \<open>x_seal\<close>, \<open>x_open\<close> (\<open>chacha20poly1305\<close>, the \<open>StreamBE32\<close> construction): one segment of an
    authenticated stream under a key and a nonce, at a position, marked last or not.
  \<^item> \<open>x_random\<close>: the operating system's random bytes.
  \<^item> \<open>x_read_len\<close>: how many bytes a \<open>read\<close> returns when more are available; short reads are legal.
  \<^item> \<open>x_index_enc\<close> to \<open>x_report_enc\<close> (\<open>serde_json\<close>): the JSON text of the records of the store.
  \<^item> \<open>x_temp\<close> (\<open>tempfile\<close>): the name of a fresh temporary file in a directory.
  \<^item> \<open>x_walk\<close> (\<open>walkdir\<close>): the items a recursive walk without following links yields.
  \<^item> \<open>x_glob\<close>, \<open>x_globset\<close> (\<open>globset\<close>): a compiled pattern, and a set of them.
  \<^item> \<open>x_free_space\<close> (\<open>fs2\<close>): the free bytes of the file system that holds a path.
  \<^item> \<open>x_version_stamp\<close> (\<open>chrono\<close>): the text \<open>%Y%m%d-%H%M%S-%f\<close> of an instant.
  \<^item> \<open>x_rnd\<close>: rounding of a real to a \<open>f64\<close>.
  \<^item> \<open>x_default_key_path\<close> (\<open>directories\<close>): the key file of the user's configuration directory.
  \<^item> \<open>x_tempdir\<close> (\<open>tempfile\<close>): the name of a fresh temporary directory, given the prefix asked for.
  \<^item> \<open>x_walk_flat\<close> (\<open>walkdir\<close>): the items of a walk that lists one directory only.
  \<^item> \<open>x_source_marker_enc\<close> to \<open>x_version_marker_dec\<close> (\<open>serde_json\<close>): the markers of the readable view.
  \<^item> \<open>x_local_stamp\<close> (\<open>chrono\<close>): the local time of an instant as \<open>%Y-%m-%d at %H.%M.%S\<close>, if it has one.
  \<^item> \<open>x_pid\<close>, \<open>x_cwd\<close>: the number and the working directory of the process.
\<close>

datatype walk_item = WalkErr "path option" string | WalkEntry path node

record ext =
  x_sha256 :: "bytes \<Rightarrow> bytes"
  x_zstd_compress :: "int \<Rightarrow> bytes \<Rightarrow> bytes option"
  x_zstd_decompress :: "bytes \<Rightarrow> nat \<Rightarrow> bytes option"
  x_seal :: "bytes \<Rightarrow> bytes \<Rightarrow> nat \<Rightarrow> bool \<Rightarrow> bytes \<Rightarrow> bytes option"
  x_open :: "bytes \<Rightarrow> bytes \<Rightarrow> nat \<Rightarrow> bool \<Rightarrow> bytes \<Rightarrow> bytes option"
  x_random :: "nat \<Rightarrow> nat \<Rightarrow> bytes"
  x_read_len :: "nat \<Rightarrow> bytes \<Rightarrow> nat"
  x_index_enc :: "version_index \<Rightarrow> bytes"
  x_index_dec :: "bytes \<Rightarrow> version_index option"
  x_manifest_enc :: "manifest \<Rightarrow> bytes"
  x_manifest_dec :: "bytes \<Rightarrow> manifest option"
  x_report_enc :: "last_scan_report \<Rightarrow> bytes"
  x_temp :: temp_namer
  x_walk :: "world \<Rightarrow> path \<Rightarrow> walk_item list"
  x_glob :: "string \<Rightarrow> (path \<Rightarrow> bool) option"
  x_globset :: "(path \<Rightarrow> bool) list \<Rightarrow> (path \<Rightarrow> bool) option"
  x_free_space :: "world \<Rightarrow> path \<Rightarrow> errkind + nat"
  x_version_stamp :: "nat \<Rightarrow> string"
  x_rnd :: "real \<Rightarrow> real"
  x_default_key_path :: "path res"
  x_tempdir :: "string \<Rightarrow> temp_namer"
  x_walk_flat :: "world \<Rightarrow> path \<Rightarrow> walk_item list"
  x_source_marker_enc :: "source_marker \<Rightarrow> bytes"
  x_source_marker_dec :: "bytes \<Rightarrow> source_marker option"
  x_version_marker_enc :: "version_marker \<Rightarrow> bytes"
  x_version_marker_dec :: "bytes \<Rightarrow> version_marker option"
  x_local_stamp :: "int \<Rightarrow> string option"
  x_pid :: nat
  x_cwd :: path

section \<open>What is relied on\<close>

definition sha_ok :: "ext \<Rightarrow> bool" where
  "sha_ok x \<longleftrightarrow> (\<forall>b. length (x_sha256 x b) = 32)"

definition zstd_ok :: "ext \<Rightarrow> bool" where
  "zstd_ok x \<longleftrightarrow> (\<forall>l b z c. x_zstd_compress x l b = Some z \<longrightarrow> length b \<le> c \<longrightarrow> x_zstd_decompress x z c = Some b)"

definition aead_ok :: "ext \<Rightarrow> bool" where
  "aead_ok x \<longleftrightarrow> (\<forall>k n i l b c. x_seal x k n i l b = Some c \<longrightarrow> x_open x k n i l c = Some b)"

definition random_ok :: "ext \<Rightarrow> bool" where
  "random_ok x \<longleftrightarrow> (\<forall>t n. length (x_random x t n) = n)"

definition index_json_ok :: "ext \<Rightarrow> bool" where
  "index_json_ok x \<longleftrightarrow> (\<forall>i. x_index_dec x (x_index_enc x i) = Some i)"

definition manifest_json_ok :: "ext \<Rightarrow> bool" where
  "manifest_json_ok x \<longleftrightarrow> (\<forall>m. bt_ok (mf_entries m) \<longrightarrow> x_manifest_dec x (x_manifest_enc x m) = Some m)"

definition temp_ok :: "ext \<Rightarrow> bool" where
  "temp_ok x \<longleftrightarrow> temp_namer_ok (x_temp x)"

definition rnd_ok :: "ext \<Rightarrow> bool" where
  "rnd_ok x \<longleftrightarrow> mono (x_rnd x) \<and> x_rnd x 0 = 0 \<and> x_rnd x 1 = 1"

text \<open>The time stamp consists of digits and dashes and is not long.\<close>

definition stamp_ok :: "ext \<Rightarrow> bool" where
  "stamp_ok x \<longleftrightarrow> (\<forall>t. x_version_stamp x t \<noteq> [] \<and> length (x_version_stamp x t) \<le> 64 \<and>
    (\<forall>c \<in> set (x_version_stamp x t). c = CHR ''-'' \<or> 48 \<le> (of_char c :: nat) \<and> (of_char c :: nat) \<le> 57))"

text \<open>A temporary directory's name starts with the prefix asked for and is a single component.\<close>

definition tempdir_ok :: "ext \<Rightarrow> bool" where
  "tempdir_ok x \<longleftrightarrow> (\<forall>p F d. prefix p (x_tempdir x p F d) \<and> CHR ''/'' \<notin> set (drop (length p) (x_tempdir x p F d)))"

text \<open>A marker that was written with its newline reads back.\<close>

definition marker_json_ok :: "ext \<Rightarrow> bool" where
  "marker_json_ok x \<longleftrightarrow> (\<forall>m. x_source_marker_dec x (x_source_marker_enc x m @ [10]) = Some m)
    \<and> (\<forall>m. x_version_marker_dec x (x_version_marker_enc x m @ [10]) = Some m)"

section \<open>Reading an open file\<close>

text \<open>
  An open file is the bytes not yet read. A \<open>read\<close> into a buffer of \<open>n\<close> bytes returns at least one
  byte unless the buffer or the file is empty, and may return fewer than asked for.
\<close>

definition read_len :: "ext \<Rightarrow> nat \<Rightarrow> bytes \<Rightarrow> nat" where
  "read_len x n h = (if n = 0 \<or> h = [] then 0 else min (min n (length h)) (max 1 (x_read_len x n h)))"

definition read_some :: "ext \<Rightarrow> nat \<Rightarrow> bytes \<Rightarrow> (bytes \<times> bytes) io" where
  "read_some x n h = call (\<lambda>F. Inr ((take (read_len x n h) h, drop (read_len x n h) h), F))"

definition secs :: "nat \<Rightarrow> nat" where
  "secs n = n * 1000000000"

definition millis :: "nat \<Rightarrow> nat" where
  "millis n = n * 1000000"

lemma read_len_zero: "read_len x n h = 0 \<longleftrightarrow> n = 0 \<or> h = []"
  by (auto simp: read_len_def min_def max_def)

lemma read_len_le: "read_len x n h \<le> n" "read_len x n h \<le> length h"
  by (auto simp: read_len_def)

lemma moves_still_read_some [simp, intro]: "moves still (read_some x n h)"
  unfolding read_some_def by (rule moves_still_prims(7))

lemma read_some_value:
  assumes "read_some x n h s = (Ok (c, r), t)"
  shows "h = c @ r \<and> length c \<le> n \<and> (c = [] \<longleftrightarrow> n = 0 \<or> h = [])"
proof -
  from call_Ok [OF assms [unfolded read_some_def]]
  have "c = take (read_len x n h) h" "r = drop (read_len x n h) h" by auto
  with read_len_zero [of x n h] read_len_le [of x n h] show ?thesis by auto
qed

lemma read_some_shrinks:
  assumes "read_some x n h s = (Ok (c, r), t)" and "c \<noteq> []"
  shows "length r < length h"
proof -
  from read_some_value [OF assms(1)] have "length h = length c + length r" by auto
  with assms(2) show ?thesis by simp
qed

lemma triple_read_some:
  assumes "stable P"
  shows "triple P (read_some x n h) (\<lambda>a w. (h = fst a @ snd a \<and> length (fst a) \<le> n
    \<and> (fst a = [] \<longleftrightarrow> n = 0 \<or> h = [])) \<and> P w) P"
  by (rule triple_still_value [OF assms moves_still_read_some])
    (metis prod.collapse read_some_value)

lemma triple_get_now: "stable P \<Longrightarrow> triple P get_now (\<lambda>_. P) E"
  by (rule tripleI) (auto simp: get_now_def)

text \<open>A world in which every call succeeds at once.\<close>

definition quiet :: "world \<Rightarrow> bool" where
  "quiet w \<longleftrightarrow> events w = []"

lemma quiet_next: "quiet w \<Longrightarrow> next_event w = (calm, w)"
  by (simp add: quiet_def next_event_def)

lemma quiet_call:
  "quiet w \<Longrightarrow> call f w = (case f (fs w) of Inl k \<Rightarrow> (Err (Io k), w) | Inr (a, F) \<Rightarrow> (Ok a, w\<lparr>fs := F\<rparr>))"
  by (simp add: call_def quiet_next calm_def)

lemma quiet_probe: "quiet w \<Longrightarrow> probe f w = (Ok (f (fs w)), w)"
  by (simp add: probe_def quiet_next calm_def)

lemma quiet_upd [simp]: "quiet (w\<lparr>fs := F\<rparr>) = quiet w" "quiet (w\<lparr>now := n\<rparr>) = quiet w"
  by (simp_all add: quiet_def)

lemma quiet_read_some:
  "quiet w \<Longrightarrow> read_some x n h w = (Ok (take (read_len x n h) h, drop (read_len x n h) h), w)"
  by (simp add: read_some_def quiet_call)

end
