(* ===== verification/Config_Defaults.thy ===== *)
theory Config_Defaults
  imports Model
begin

text \<open>
  The default of every configuration knob (\<open>config/model/defaults\<close>) and the \<open>Default\<close> instances of the
  tuning records, as the configuration uses them for absent fields.
\<close>

section \<open>Defaults of single knobs\<close>

subsection \<open>\<open>defaults/general.rs\<close>\<close>

definition default_destination_id :: string where
  "default_destination_id = ''default''"

definition default_interval_seconds :: nat where
  "default_interval_seconds = 3600"

definition default_max_backups_per_file :: nat where
  "default_max_backups_per_file = 4"

definition default_skip_hidden :: bool where
  "default_skip_hidden = True"

definition default_ignore_patterns :: "string list" where
  "default_ignore_patterns = [''**/.DS_Store'', ''**/node_modules/**'', ''**/target/**'', ''**/tmp/**'', ''**/~$*'']"

definition default_blob_encryption_chunk_bytes :: nat where
  "default_blob_encryption_chunk_bytes = 64 * 1024"

definition default_blob_compression_chunk_bytes :: nat where
  "default_blob_compression_chunk_bytes = 64 * 1024"

definition default_blob_compression_zstd_level :: int where
  "default_blob_compression_zstd_level = 3"

subsection \<open>\<open>defaults/execution.rs\<close>\<close>

definition default_max_parallel_copies :: nat where
  "default_max_parallel_copies = 1"

definition default_max_bytes_per_second :: "nat option" where
  "default_max_bytes_per_second = None"

definition default_min_free_space_bytes :: "nat option" where
  "default_min_free_space_bytes = None"

definition default_copy_buffer_bytes :: nat where
  "default_copy_buffer_bytes = 64 * 1024"

definition default_copy_timeout_seconds :: nat where
  "default_copy_timeout_seconds = 300"

definition default_free_space_safety_buffer_bytes :: nat where
  "default_free_space_safety_buffer_bytes = 10 * 1024 * 1024"

definition default_recent_activity_cap :: nat where
  "default_recent_activity_cap = 50"

definition default_retry_delays_ms :: "nat list" where
  "default_retry_delays_ms = [100, 200, 400, 800]"

definition default_retry_jitter_pct :: real where
  "default_retry_jitter_pct = 1 / 5"

definition default_blocking_io_backoff_poll_interval_ms :: nat where
  "default_blocking_io_backoff_poll_interval_ms = 50"

subsection \<open>\<open>defaults/hashing.rs\<close>\<close>

definition default_hash_buffer_bytes :: nat where
  "default_hash_buffer_bytes = 64 * 1024"

definition default_hash_timeout_seconds :: nat where
  "default_hash_timeout_seconds = 30"

subsection \<open>\<open>defaults/planning.rs\<close>\<close>

definition default_hash_check_interval :: nat where
  "default_hash_check_interval = 5"

definition default_max_plan_items :: nat where
  "default_max_plan_items = 20000"

definition default_scan_timeout_seconds :: nat where
  "default_scan_timeout_seconds = 300"

definition default_scan_capacity_multiplier :: nat where
  "default_scan_capacity_multiplier = 16"

subsection \<open>\<open>defaults/runtime.rs\<close>\<close>

definition default_prune_interval_cycles :: nat where
  "default_prune_interval_cycles = 10"

definition default_force_full_scan_interval_cycles :: nat where
  "default_force_full_scan_interval_cycles = 24"

definition default_verify_interval_seconds :: nat where
  "default_verify_interval_seconds = 24 * 3600"

definition default_scrub_full_interval_seconds :: nat where
  "default_scrub_full_interval_seconds = 7 * 24 * 3600"

definition default_scrub_sample_blobs :: nat where
  "default_scrub_sample_blobs = 200"

definition default_scrub_sample_versions_per_source :: nat where
  "default_scrub_sample_versions_per_source = 2"

definition default_watcher_debounce_seconds :: nat where
  "default_watcher_debounce_seconds = 2"

definition default_ipc_timeout_seconds :: nat where
  "default_ipc_timeout_seconds = 5"

definition default_ipc_request_max_bytes :: nat where
  "default_ipc_request_max_bytes = 64 * 1024"

definition default_ipc_response_max_bytes :: nat where
  "default_ipc_response_max_bytes = 4 * 1024 * 1024"

definition default_ipc_read_chunk_bytes :: nat where
  "default_ipc_read_chunk_bytes = 8192"

definition default_daemon_shutdown_join_timeout_seconds :: nat where
  "default_daemon_shutdown_join_timeout_seconds = 30"

definition default_service_command_timeout_seconds :: nat where
  "default_service_command_timeout_seconds = 15"

definition default_service_command_retry_delay_ms :: nat where
  "default_service_command_retry_delay_ms = 300"

definition default_service_command_poll_interval_ms :: nat where
  "default_service_command_poll_interval_ms = 50"

definition default_source_snapshots_enabled :: bool where
  "default_source_snapshots_enabled = False"

definition default_source_snapshot_timeout_seconds :: nat where
  "default_source_snapshot_timeout_seconds = 20"

definition default_replication_enabled :: bool where
  "default_replication_enabled = True"

definition default_replication_mirror_manifests :: bool where
  "default_replication_mirror_manifests = True"

definition default_replication_max_manifest_deletes_per_cycle :: nat where
  "default_replication_max_manifest_deletes_per_cycle = 500"

definition default_large_deletion_keep_extra_threshold_ratio :: real where
  "default_large_deletion_keep_extra_threshold_ratio = 1 / 2"

subsection \<open>\<open>defaults/gui.rs\<close>\<close>

definition default_tray_tooltip_refresh_seconds :: nat where
  "default_tray_tooltip_refresh_seconds = 10"

definition default_tray_full_check_min_interval_seconds :: nat where
  "default_tray_full_check_min_interval_seconds = 20"

definition default_tray_full_check_timeout_seconds :: nat where
  "default_tray_full_check_timeout_seconds = 8"

definition default_tray_low_space_warning_bytes :: nat where
  "default_tray_low_space_warning_bytes = 2 * 1024 * 1024 * 1024"

definition default_log_tail_lines :: nat where
  "default_log_tail_lines = 200"

definition default_log_tail_read_chunk_bytes :: nat where
  "default_log_tail_read_chunk_bytes = 8192"

definition default_log_tail_max_bytes :: nat where
  "default_log_tail_max_bytes = 512 * 1024"

definition default_simulation_sample_limit :: nat where
  "default_simulation_sample_limit = 10"

definition default_hardening_snapshot_probe_timeout_seconds :: nat where
  "default_hardening_snapshot_probe_timeout_seconds = 5"

definition default_gui_close_final_backup_debounce_ms :: nat where
  "default_gui_close_final_backup_debounce_ms = 300"

definition default_gui_close_final_backup_reset_delay_seconds :: nat where
  "default_gui_close_final_backup_reset_delay_seconds = 2"

definition default_gui_quit_final_backup_timeout_seconds :: nat where
  "default_gui_quit_final_backup_timeout_seconds = 3"

definition default_gui_daemon_stop_timeout_seconds :: nat where
  "default_gui_daemon_stop_timeout_seconds = 3"

definition default_gui_quit_force_exit_timeout_seconds :: nat where
  "default_gui_quit_force_exit_timeout_seconds = 8"

section \<open>The \<open>Default\<close> instances\<close>

definition default_hashing_tuning :: hashing_tuning where
  "default_hashing_tuning = \<lparr>ht_buffer_bytes = default_hash_buffer_bytes,
    ht_timeout_seconds = default_hash_timeout_seconds\<rparr>"

definition default_execution_tuning :: execution_tuning where
  "default_execution_tuning = \<lparr>et_copy_buffer_bytes = default_copy_buffer_bytes,
    et_copy_timeout_seconds = default_copy_timeout_seconds,
    et_free_space_safety_buffer_bytes = default_free_space_safety_buffer_bytes,
    et_recent_activity_cap = default_recent_activity_cap,
    et_retry_delays_ms = default_retry_delays_ms,
    et_retry_jitter_pct = default_retry_jitter_pct,
    et_blocking_io_backoff_poll_interval_ms = default_blocking_io_backoff_poll_interval_ms\<rparr>"

definition default_planning_tuning :: planning_tuning where
  "default_planning_tuning = \<lparr>pt_hash_check_interval = default_hash_check_interval,
    pt_max_plan_items = default_max_plan_items,
    pt_scan_timeout_seconds = default_scan_timeout_seconds,
    pt_scan_capacity_multiplier = default_scan_capacity_multiplier\<rparr>"

definition default_runtime_tuning :: runtime_tuning where
  "default_runtime_tuning = \<lparr>rt_prune_interval_cycles = default_prune_interval_cycles,
    rt_force_full_scan_interval_cycles = default_force_full_scan_interval_cycles,
    rt_verify_interval_seconds = default_verify_interval_seconds,
    rt_scrub_full_interval_seconds = default_scrub_full_interval_seconds,
    rt_scrub_sample_blobs = default_scrub_sample_blobs,
    rt_scrub_sample_versions_per_source = default_scrub_sample_versions_per_source,
    rt_watcher_debounce_seconds = default_watcher_debounce_seconds,
    rt_ipc_timeout_seconds = default_ipc_timeout_seconds,
    rt_ipc_request_max_bytes = default_ipc_request_max_bytes,
    rt_ipc_response_max_bytes = default_ipc_response_max_bytes,
    rt_ipc_read_chunk_bytes = default_ipc_read_chunk_bytes,
    rt_daemon_shutdown_join_timeout_seconds = default_daemon_shutdown_join_timeout_seconds,
    rt_service_command_timeout_seconds = default_service_command_timeout_seconds,
    rt_service_command_retry_delay_ms = default_service_command_retry_delay_ms,
    rt_service_command_poll_interval_ms = default_service_command_poll_interval_ms,
    rt_source_snapshots_enabled = default_source_snapshots_enabled,
    rt_source_snapshot_timeout_seconds = default_source_snapshot_timeout_seconds,
    rt_tray_tooltip_refresh_seconds = default_tray_tooltip_refresh_seconds,
    rt_tray_full_check_min_interval_seconds = default_tray_full_check_min_interval_seconds,
    rt_tray_full_check_timeout_seconds = default_tray_full_check_timeout_seconds,
    rt_tray_low_space_warning_bytes = default_tray_low_space_warning_bytes,
    rt_log_tail_lines = default_log_tail_lines,
    rt_log_tail_read_chunk_bytes = default_log_tail_read_chunk_bytes,
    rt_log_tail_max_bytes = default_log_tail_max_bytes,
    rt_simulation_sample_limit = default_simulation_sample_limit,
    rt_hardening_snapshot_probe_timeout_seconds = default_hardening_snapshot_probe_timeout_seconds,
    rt_gui_close_final_backup_debounce_ms = default_gui_close_final_backup_debounce_ms,
    rt_gui_close_final_backup_reset_delay_seconds = default_gui_close_final_backup_reset_delay_seconds,
    rt_gui_quit_final_backup_timeout_seconds = default_gui_quit_final_backup_timeout_seconds,
    rt_gui_daemon_stop_timeout_seconds = default_gui_daemon_stop_timeout_seconds,
    rt_gui_quit_force_exit_timeout_seconds = default_gui_quit_force_exit_timeout_seconds,
    rt_replication_enabled = default_replication_enabled,
    rt_replication_mirror_manifests = default_replication_mirror_manifests,
    rt_replication_max_manifest_deletes_per_cycle = default_replication_max_manifest_deletes_per_cycle,
    rt_large_deletion_keep_extra_threshold_ratio = default_large_deletion_keep_extra_threshold_ratio,
    rt_gui_start_hidden = False\<rparr>"

definition default_encryption_config :: encryption_config where
  "default_encryption_config = \<lparr>ec_enabled = False,
    ec_key_path = None,
    ec_key_id = None,
    ec_blob_chunk_bytes = default_blob_encryption_chunk_bytes\<rparr>"

definition default_compression_config :: compression_config where
  "default_compression_config = \<lparr>cc_enabled = False,
    cc_blob_chunk_bytes = default_blob_compression_chunk_bytes,
    cc_zstd_level = default_blob_compression_zstd_level\<rparr>"

end
