(* ===== verification/Io_Policy.thy ===== *)
theory Io_Policy
  imports Externals Config_Defaults
begin

text \<open>
  Time limits and retries: \<open>BlockingIoPolicy\<close> and \<open>run_with_policy\<close> (\<open>io/mod.rs\<close>), the jittered
  delays of \<open>ExecutionTuning\<close>, and the store's own \<open>retry_with_backoff\<close>. Durations are
  nanoseconds. The lemmas bound the time a policy can take, whatever the operation does.
\<close>

record blocking_io_policy =
  bp_timeout :: nat
  bp_retry_delays :: "nat list"
  bp_backoff_poll_interval :: nat

section \<open>Delays\<close>

text \<open>\<open>f64\<close> arithmetic rounds after every operation; a duration is rounded to whole nanoseconds.\<close>

definition jitter_duration :: "ext \<Rightarrow> nat \<Rightarrow> nat \<Rightarrow> real \<Rightarrow> nat" where
  "jitter_duration x t delay jitter_pct =
    (if jitter_pct \<le> 0 then delay
     else let pct = min 1 (max 0 jitter_pct);
              nanos = t mod 1000000000;
              rand = x_rnd x (real (nanos mod 1000) / 1000);
              factor = x_rnd x (x_rnd x (1 - pct) + x_rnd x (x_rnd x (2 * pct) * rand));
              seconds = x_rnd x (real delay / 1000000000)
          in nat (round (x_rnd x (seconds * factor) * 1000000000)))"

definition retry_delays :: "ext \<Rightarrow> execution_tuning \<Rightarrow> nat \<Rightarrow> nat list" where
  "retry_delays x tun t = map (\<lambda>ms. jitter_duration x t (millis ms) (et_retry_jitter_pct tun)) (et_retry_delays_ms tun)"

definition single_attempt :: "nat \<Rightarrow> blocking_io_policy" where
  "single_attempt timeout = \<lparr>bp_timeout = max timeout (secs 1), bp_retry_delays = [],
    bp_backoff_poll_interval = millis default_blocking_io_backoff_poll_interval_ms\<rparr>"

definition from_execution_tuning :: "ext \<Rightarrow> execution_tuning \<Rightarrow> nat \<Rightarrow> blocking_io_policy" where
  "from_execution_tuning x tun t = \<lparr>bp_timeout = secs (max (et_copy_timeout_seconds tun) 1),
    bp_retry_delays = retry_delays x tun t,
    bp_backoff_poll_interval = millis (max (et_blocking_io_backoff_poll_interval_ms tun) 1)\<rparr>"

definition bootstrap_defaults :: blocking_io_policy where
  "bootstrap_defaults = \<lparr>bp_timeout = secs (max default_copy_timeout_seconds 1),
    bp_retry_delays = map millis default_retry_delays_ms,
    bp_backoff_poll_interval = millis default_blocking_io_backoff_poll_interval_ms\<rparr>"

section \<open>Running under a policy\<close>

text \<open>The cancellation flag is shared memory: reading it is a function of the state.\<close>

type_synonym cancellation_flag = "(world \<Rightarrow> bool) option"

definition is_cancelled :: "cancellation_flag \<Rightarrow> bool io" where
  "is_cancelled c w = (Ok (case c of None \<Rightarrow> False | Some f \<Rightarrow> f w), w)"

definition ensure_active :: "blocking_io_policy \<Rightarrow> nat \<Rightarrow> cancellation_flag \<Rightarrow> unit io" where
  "ensure_active pol start c =
    bnd (is_cancelled c) (\<lambda>b.
    if b then throw (Bail ''cancelled'')
    else bnd get_now (\<lambda>t.
    if bp_timeout pol < t - start then throw (Bail ''timed out'') else ret ()))"

text \<open>
  The loop of \<open>sleep_with_checks\<close>, with the time slept so far as an argument: between its sleeps no
  time passes.
\<close>

function sleep_loop :: "blocking_io_policy \<Rightarrow> nat \<Rightarrow> cancellation_flag \<Rightarrow> nat \<Rightarrow> nat \<Rightarrow> unit io" where
  "sleep_loop pol start c delay slept =
    (if slept < delay
     then bnd (ensure_active pol start c) (\<lambda>_.
       let nap = min (delay - slept) (max (bp_backoff_poll_interval pol) (millis 1))
       in bnd (sleep_ns nap) (\<lambda>_. sleep_loop pol start c delay (slept + nap)))
     else ret ())"
  by pat_completeness auto
termination
  by (relation "measure (\<lambda>(_, _, _, delay, slept). delay - slept)") (auto simp: millis_def)

declare sleep_loop.simps [simp del]

definition sleep_with_checks :: "blocking_io_policy \<Rightarrow> nat \<Rightarrow> cancellation_flag \<Rightarrow> nat \<Rightarrow> unit io" where
  "sleep_with_checks pol start c delay = sleep_loop pol start c delay 0"

fun run_attempts :: "blocking_io_policy \<Rightarrow> nat \<Rightarrow> cancellation_flag \<Rightarrow> 'a io \<Rightarrow> nat list \<Rightarrow> 'a io" where
  "run_attempts pol start c op [] =
    bnd (ensure_active pol start c) (\<lambda>_.
    bnd (attempt op) (\<lambda>r. case r of
      Inr v \<Rightarrow> ret v
    | Inl e \<Rightarrow> throw (Ctx ''failed after all attempts'' e)))"
| "run_attempts pol start c op (d # ds) =
    bnd (ensure_active pol start c) (\<lambda>_.
    bnd (attempt op) (\<lambda>r. case r of
      Inr v \<Rightarrow> ret v
    | Inl e \<Rightarrow> bnd (sleep_with_checks pol start c d) (\<lambda>_. run_attempts pol start c op ds)))"

definition run_with_policy :: "blocking_io_policy \<Rightarrow> cancellation_flag \<Rightarrow> 'a io \<Rightarrow> 'a io" where
  "run_with_policy pol c op = bnd get_now (\<lambda>start. run_attempts pol start c op (bp_retry_delays pol))"

section \<open>Retry with backoff\<close>

text \<open>
  \<open>retry_with_backoff\<close> of the store: attempts are numbered from zero, the remaining delays are those
  not yet slept. A success also returns the number of attempts.
\<close>

fun retry_from :: "string \<Rightarrow> nat \<Rightarrow> nat \<Rightarrow> nat \<Rightarrow> 'a io \<Rightarrow> nat list \<Rightarrow> nat \<Rightarrow> ('a \<times> nat) io" where
  "retry_from label timeout start max_attempts op ds i =
    bnd get_now (\<lambda>t.
    if 0 < timeout \<and> timeout < (t - start) div 1000000000
    then throw (Bail (label @ '' timed out after '' @ show_nat timeout @ ''s (attempts='' @ show_nat (max i 1) @ '')''))
    else bnd (attempt op) (\<lambda>r. case r of
      Inr v \<Rightarrow> ret (v, i + 1)
    | Inl e \<Rightarrow> (case ds of
        [] \<Rightarrow> throw (Ctx (label @ '' failed after '' @ show_nat max_attempts @ '' attempts'') e)
      | d # ds' \<Rightarrow> bnd (sleep_ns d) (\<lambda>_. retry_from label timeout start max_attempts op ds' (i + 1)))))"

declare retry_from.simps [simp del]

definition retry_with_backoff :: "string \<Rightarrow> nat \<Rightarrow> nat list \<Rightarrow> 'a io \<Rightarrow> ('a \<times> nat) io" where
  "retry_with_backoff label timeout delays op =
    bnd get_now (\<lambda>start. retry_from label timeout start (length delays + 1) op delays 0)"

section \<open>What retrying keeps\<close>

text \<open>
  The interface a retried operation is used through: any preorder on states that ignores the passing
  of time and the consumption of events.
\<close>

locale time_preorder = step_preorder R for R :: "world \<Rightarrow> world \<Rightarrow> bool" +
  assumes still_step: "still w v \<Longrightarrow> R w v"
begin

lemma moves_still_step: "moves still m \<Longrightarrow> moves R m"
  by (auto simp: moves_def intro: still_step)

lemma moves_ensure_active: "moves R (ensure_active pol start c)"
proof -
  have "moves still (is_cancelled c)" by (rule movesI) (auto simp: is_cancelled_def still_def)
  then show ?thesis
    unfolding ensure_active_def
    by (intro moves_still_step) (intro still_intros)
qed

lemma moves_sleep_loop: "moves R (sleep_loop pol start c delay slept)"
proof (induction pol start c delay slept rule: sleep_loop.induct)
  case (1 pol start c delay slept)
  let ?nap = "min (delay - slept) (max (bp_backoff_poll_interval pol) (millis 1))"
  show ?case
    unfolding sleep_loop.simps [of pol start c delay slept] Let_def
  proof (intro moves_if moves_ret moves_bnd_val moves_ensure_active moves_still_step [OF moves_still_sleep])
    fix s a t u b v
    assume "slept < delay" and "ensure_active pol start c s = (Ok a, t)" and "sleep_ns ?nap u = (Ok b, v)"
    then show "moves R (sleep_loop pol start c delay (slept + ?nap))" using 1 by blast
  qed
qed

lemma moves_sleep_with_checks: "moves R (sleep_with_checks pol start c delay)"
  unfolding sleep_with_checks_def by (rule moves_sleep_loop)

lemma moves_run_attempts: "moves R op \<Longrightarrow> moves R (run_attempts pol start c op ds)"
  by (induction ds)
    (auto intro!: moves_bnd moves_ensure_active moves_attempt moves_case_sum moves_ret moves_throw
      moves_sleep_with_checks)

lemma moves_run_with_policy: "moves R op \<Longrightarrow> moves R (run_with_policy pol c op)"
  unfolding run_with_policy_def
  by (intro moves_bnd moves_still_step [OF moves_still_get_now] moves_run_attempts)

lemma moves_retry_from: "moves R op \<Longrightarrow> moves R (retry_from label timeout start n op ds i)"
proof (induction ds arbitrary: i)
  case Nil
  then show ?case
    unfolding retry_from.simps [of label timeout start n op "[]"]
    by (auto intro!: moves_basic moves_case_sum moves_still_step [OF moves_still_get_now])
next
  case (Cons d ds)
  then show ?case
    unfolding retry_from.simps [of label timeout start n op "d # ds"]
    by (auto intro!: moves_basic moves_case_sum moves_still_step [OF moves_still_get_now]
        moves_still_step [OF moves_still_sleep])
qed

lemma moves_retry: "moves R op \<Longrightarrow> moves R (retry_with_backoff label timeout delays op)"
  unfolding retry_with_backoff_def
  by (intro moves_bnd moves_still_step [OF moves_still_get_now] moves_retry_from)

end

interpretation still_time: time_preorder still
  by unfold_locales

interpretation within_time: time_preorder "confined D S" for D S
  by unfold_locales (rule still_within)

lemma triple_retry_from:
  assumes "stable P" and "triple P op Q P"
  shows "triple P (retry_from label timeout start n op ds i) (\<lambda>a. Q (fst a)) P"
proof (induction ds arbitrary: i)
  case Nil
  show ?case
    unfolding retry_from.simps [of label timeout start n op "[]"] list.case
    by (rule triple_bnd [OF triple_get_now [OF assms(1)]], rule triple_if, rule triple_throw, assumption,
        rule triple_try [OF assms(2)]) (auto intro: triple_ret triple_throw)
next
  case (Cons d ds)
  have s: "triple P (bnd (sleep_ns d) (\<lambda>_. retry_from label timeout start n op ds (i + 1))) (\<lambda>a. Q (fst a)) P"
    by (rule triple_bnd [OF triple_still [OF assms(1) moves_still_sleep]]) (rule Cons.IH)
  show ?case
    unfolding retry_from.simps [of label timeout start n op "d # ds"] list.case
    by (rule triple_bnd [OF triple_get_now [OF assms(1)]], rule triple_if, rule triple_throw, assumption,
        rule triple_try [OF assms(2) s]) (auto intro: triple_ret)
qed

lemma triple_retry:
  assumes "stable P" and "triple P op Q P"
  shows "triple P (retry_with_backoff label timeout delays op) (\<lambda>a. Q (fst a)) P"
  unfolding retry_with_backoff_def
  by (rule triple_bnd [OF triple_get_now [OF assms(1)]]) (rule triple_retry_from [OF assms])

lemma triple_run_single:
  assumes "stable P" and "triple P op Q E" and "\<And>w. P w \<Longrightarrow> E w"
  shows "triple P (run_with_policy (single_attempt n) c op) Q E"
proof -
  have act: "triple P (ensure_active pol start c) (\<lambda>_. P) E" for pol start
    by (rule triple_conseq [OF triple_still [OF assms(1) still_time.moves_ensure_active]])
      (simp_all add: assms(3))
  have body: "triple P (bnd (attempt op) (\<lambda>r. case r of
      Inr v \<Rightarrow> ret v | Inl e \<Rightarrow> throw (Ctx ''failed after all attempts'' e))) Q E"
    by (rule triple_try [OF assms(2)]) (auto intro: triple_ret triple_throw)
  show ?thesis
    unfolding run_with_policy_def
    by (rule triple_bnd [OF triple_get_now [OF assms(1)]])
      (simp add: single_attempt_def triple_bnd [OF act body])
qed

section \<open>How long a policy can take\<close>

lemma ensure_active_Ok: "ensure_active pol start c w = (Ok a, v) \<Longrightarrow> v = w \<and> now w \<le> start + bp_timeout pol"
  by (auto simp: ensure_active_def is_cancelled_def bnd_def get_now_def throw_def ret_def split: if_splits)

lemma ensure_active_now: "ensure_active pol start c w = (r, v) \<Longrightarrow> v = w"
  by (auto simp: ensure_active_def is_cancelled_def bnd_def get_now_def throw_def ret_def split: if_splits)


lemma sleep_loop_now:
  "sleep_loop pol start c delay slept w = (r, v) \<Longrightarrow>
    now v \<le> max (now w) (start + bp_timeout pol + max (bp_backoff_poll_interval pol) (millis 1))"
proof (induction pol start c delay slept arbitrary: w rule: sleep_loop.induct)
  case (1 pol start c delay slept)
  let ?nap = "min (delay - slept) (max (bp_backoff_poll_interval pol) (millis 1))"
  show ?case
  proof (cases "slept < delay")
    case False
    with "1.prems" show ?thesis by (subst (asm) sleep_loop.simps) (simp add: ret_def)
  next
    case True
    obtain a u where e: "ensure_active pol start c w = (a, u)" by fastforce
    show ?thesis
    proof (cases a)
      case (Ok b)
      with ensure_active_Ok e have u: "u = w" and le: "now w \<le> start + bp_timeout pol" by auto
      have "sleep_loop pol start c delay (slept + ?nap) (w\<lparr>now := now w + ?nap\<rparr>) = (r, v)"
        using "1.prems" True e Ok u
        by (subst (asm) sleep_loop.simps) (simp add: bnd_def sleep_ns_def Let_def)
      moreover have "sleep_ns ?nap w = (Ok (), w\<lparr>now := now w + ?nap\<rparr>)"
        by (simp add: sleep_ns_def)
      ultimately have "now v \<le> max (now (w\<lparr>now := now w + ?nap\<rparr>))
          (start + bp_timeout pol + max (bp_backoff_poll_interval pol) (millis 1))"
        using "1.IH" [OF True e [unfolded Ok] refl] by blast
      with le show ?thesis by auto
    qed (use "1.prems" True e ensure_active_now [OF e] in
      \<open>simp_all add: sleep_loop.simps [of pol start c delay slept] bnd_def\<close>)
  qed
qed

lemma run_attempts_now:
  assumes op: "\<And>w r v. op w = (r, v) \<Longrightarrow> now v \<le> now w + T"
  shows "run_attempts pol start c op ds w = (r, v) \<Longrightarrow>
    now v \<le> max (now w) (start + bp_timeout pol + max T (max (bp_backoff_poll_interval pol) (millis 1)))"
proof (induction ds arbitrary: w)
  case Nil
  obtain a u where e: "ensure_active pol start c w = (a, u)" by fastforce
  from ensure_active_now [OF e] have u: "u = w" .
  obtain q x where o: "op w = (q, x)" by fastforce
  from op [OF o] have x: "now x \<le> now w + T" .
  show ?case
  proof (cases a)
    case (Ok b)
    with ensure_active_Ok e have "now w \<le> start + bp_timeout pol" by auto
    moreover from Nil.prems e u Ok o have "v = x"
      by (cases q) (simp_all add: bnd_def attempt_def ret_def throw_def)
    ultimately show ?thesis using x by auto
  qed (use Nil.prems e u in \<open>simp_all add: bnd_def\<close>)
next
  case (Cons d ds)
  obtain a u where e: "ensure_active pol start c w = (a, u)" by fastforce
  from ensure_active_now [OF e] have u: "u = w" .
  show ?case
  proof (cases a)
    case (Ok b)
    with ensure_active_Ok e have le: "now w \<le> start + bp_timeout pol" by auto
    obtain q x where o: "op w = (q, x)" by fastforce
    from op [OF o] have x: "now x \<le> now w + T" .
    show ?thesis
    proof (cases q)
      case (Err err)
      obtain s y where sl: "sleep_with_checks pol start c d x = (s, y)" by fastforce
      from sleep_loop_now [OF sl [unfolded sleep_with_checks_def]]
      have y: "now y \<le> max (now x) (start + bp_timeout pol + max (bp_backoff_poll_interval pol) (millis 1))" .
      show ?thesis
      proof (cases s)
        case (Ok k)
        with Cons.prems e u \<open>a = Ok b\<close> o Err sl
        have "run_attempts pol start c op ds y = (r, v)"
          by (simp add: bnd_def attempt_def)
        from Cons.IH [OF this] x y le show ?thesis by auto
      qed (use Cons.prems e u \<open>a = Ok b\<close> o Err sl x y le in \<open>simp_all add: bnd_def attempt_def\<close>)
    qed (use Cons.prems e u Ok o x le in \<open>simp_all add: bnd_def attempt_def ret_def\<close>)
  qed (use Cons.prems e u in \<open>simp_all add: bnd_def\<close>)
qed

text \<open>
  C18: a deadline. If every run of the operation takes at most \<open>T\<close>, then running it under a policy
  ends no later than the policy's time limit plus one operation or one poll interval, however many
  attempts fail and however long the configured delays are.
\<close>

theorem run_with_policy_deadline:
  assumes "\<And>w. now (snd (op w)) \<le> now w + T"
  shows "now (snd (run_with_policy pol c op w))
    \<le> now w + bp_timeout pol + max T (max (bp_backoff_poll_interval pol) (millis 1))"
proof -
  have op: "now v \<le> now w + T" if "op w = (r, v)" for w r v
    using assms [of w] that by simp
  obtain r v where "run_attempts pol (now w) c op (bp_retry_delays pol) w = (r, v)" by fastforce
  with run_attempts_now [OF op this] show ?thesis
    by (simp add: run_with_policy_def bnd_def get_now_def)
qed

theorem run_with_policy_deadline_witness:
  "now (snd (run_with_policy bootstrap_defaults None (throw (Io NotFound) :: unit io)
      \<lparr>fs = [], events = [], now = 7\<rparr>)) \<le> 300050000007"
  using run_with_policy_deadline
    [of "throw (Io NotFound) :: unit io" 0 bootstrap_defaults None "\<lparr>fs = [], events = [], now = 7\<rparr>"]
  by (simp add: throw_def bootstrap_defaults_def default_copy_timeout_seconds_def secs_def millis_def
      default_blocking_io_backoff_poll_interval_ms_def)

end
