(* ===== verification/Hashing.thy ===== *)
theory Hashing
  imports Externals
begin

text \<open>
  Content hashes (\<open>hashing.rs\<close>): the lower-case hexadecimal text of a SHA-256 digest, and the hash of
  a file read through a bounded buffer under a time limit.
\<close>

definition hex_digit :: "nat \<Rightarrow> char" where
  "hex_digit n = (if n < 10 then char_of (48 + n) else char_of (87 + n))"

definition hex_byte :: "byte \<Rightarrow> string" where
  "hex_byte b = [hex_digit (unat b div 16), hex_digit (unat b mod 16)]"

definition hex_lower :: "bytes \<Rightarrow> string" where
  "hex_lower bs = concat (map hex_byte bs)"

definition sha256_hex :: "ext \<Rightarrow> bytes \<Rightarrow> string" where
  "sha256_hex x b = hex_lower (x_sha256 x b)"

definition is_hex_char :: "char \<Rightarrow> bool" where
  "is_hex_char c \<longleftrightarrow> (of_char c :: nat) \<in> {48..57} \<or> (of_char c :: nat) \<in> {97..102}"

definition is_lower_hex_sha256 :: "string \<Rightarrow> bool" where
  "is_lower_hex_sha256 h \<longleftrightarrow> length h = 64 \<and> list_all is_hex_char h"

text \<open>The read loop of \<open>sha256_file_hex_with_tuning\<close>: the hasher is the bytes fed to it so far.\<close>

function hash_loop :: "ext \<Rightarrow> nat \<Rightarrow> nat \<Rightarrow> nat \<Rightarrow> bytes \<Rightarrow> bytes \<Rightarrow> bytes io" where
  "hash_loop x n timeout start acc h =
    bnd get_now (\<lambda>t.
      if secs timeout < t - start then throw (Bail ''hashing::sha256_file_hex_with_tuning timed out'')
      else bnd (read_some x n h) (\<lambda>a.
        if fst a = [] then ret acc
        else hash_loop x n timeout start (acc @ fst a) (snd a)))"
  by pat_completeness auto
termination
  by (relation "measure (\<lambda>(_, _, _, _, _, h). length h)") (auto dest: read_some_shrinks)

declare hash_loop.simps [simp del]

definition sha256_file_hex_with_tuning :: "ext \<Rightarrow> hashing_tuning \<Rightarrow> path \<Rightarrow> string io" where
  "sha256_file_hex_with_tuning x tun p =
    (if ht_buffer_bytes tun = 0 then throw (Bail ''hashing::sha256_file_hex_with_tuning buffer_bytes must be > 0'')
     else if ht_timeout_seconds tun = 0 then throw (Bail ''hashing::sha256_file_hex_with_tuning timeout_seconds must be > 0'')
     else bnd (in_context (''hashing::sha256_file_hex_with_tuning failed to open file for hashing: '' @ path_debug p) (read_file p)) (\<lambda>h.
       bnd get_now (\<lambda>start.
       bnd (hash_loop x (ht_buffer_bytes tun) (ht_timeout_seconds tun) start [] h) (\<lambda>b.
       ret (hex_lower (x_sha256 x b))))))"

section \<open>Hexadecimal text\<close>

lemma of_char_hex_digit: "n < 16 \<Longrightarrow> (of_char (hex_digit n) :: nat) = (if n < 10 then 48 + n else 87 + n)"
  by (simp add: hex_digit_def)

lemma hex_digit_is_hex: "n < 16 \<Longrightarrow> is_hex_char (hex_digit n)"
  by (auto simp: is_hex_char_def of_char_hex_digit)

lemma hex_digit_inj:
  assumes "m < 16" and "n < 16" and "hex_digit m = hex_digit n"
  shows "m = n"
proof -
  have "(of_char (hex_digit m) :: nat) = of_char (hex_digit n)" using assms(3) by simp
  with assms(1,2) show ?thesis by (simp add: of_char_hex_digit split: if_splits)
qed

lemma byte_nibbles: "unat (b :: byte) div 16 < 16" "unat b mod 16 < 16"
  using unsigned_less [of b, where ?'a = nat] by auto

lemma hex_byte_inj: "hex_byte a = hex_byte b \<Longrightarrow> a = b"
  unfolding hex_byte_def
  by (metis (no_types, lifting) byte_nibbles div_mult_mod_eq hex_digit_inj list.inject unsigned_word_eqI)

lemma length_hex_lower [simp]: "length (hex_lower bs) = 2 * length bs"
  by (induction bs) (auto simp: hex_lower_def hex_byte_def)

lemma hex_lower_is_hex: "list_all is_hex_char (hex_lower bs)"
  by (induction bs) (auto simp: hex_lower_def hex_byte_def hex_digit_is_hex byte_nibbles)

lemma hex_lower_inj: "hex_lower as = hex_lower bs \<Longrightarrow> as = bs"
proof (induction as arbitrary: bs)
  case Nil
  then have "length (hex_lower bs) = 0" by (simp add: hex_lower_def)
  then show ?case by simp
next
  case (Cons a as)
  then obtain b bs' where bs: "bs = b # bs'"
    by (cases bs) (auto simp: hex_lower_def hex_byte_def)
  with Cons.prems have "hex_byte a = hex_byte b" and "hex_lower as = hex_lower bs'"
    by (auto simp: hex_lower_def hex_byte_def)
  with Cons.IH hex_byte_inj bs show ?case by blast
qed

lemma is_lower_hex_sha256_hex: "sha_ok x \<Longrightarrow> is_lower_hex_sha256 (sha256_hex x b)"
  by (simp add: is_lower_hex_sha256_def sha256_hex_def sha_ok_def hex_lower_is_hex)

section \<open>Hashing a file\<close>

lemma moves_still_hash_loop: "moves still (hash_loop x n tmo start acc h)"
proof (induction x n tmo start acc h rule: hash_loop.induct)
  case (1 x n tmo start acc h)
  show ?case
    unfolding hash_loop.simps [of x n tmo start acc h]
    by (intro st.moves_bnd_val st.moves_if st.moves_ret st.moves_throw moves_still_get_now
        moves_still_read_some) (use 1 in \<open>auto split: if_splits\<close>)
qed

lemma hash_loop_value: "0 < n \<Longrightarrow> hash_loop x n tmo start acc h s = (Ok b, t) \<Longrightarrow> b = acc @ h"
proof (induction x n tmo start acc h arbitrary: s rule: hash_loop.induct)
  case (1 x n tmo start acc h)
  from "1.prems"(2) obtain a u where a: "read_some x n h s = (Ok a, u)"
    and k: "(if fst a = [] then ret acc else hash_loop x n tmo start (acc @ fst a) (snd a)) u = (Ok b, t)"
    and now: "\<not> secs tmo < now s - start"
    unfolding hash_loop.simps [of x n tmo start acc h]
    by (auto simp: bnd_def get_now_def throw_def split: prod.splits outcome.splits if_splits)
  obtain c r where cr: "a = (c, r)" by fastforce
  note v = read_some_value [OF a [unfolded cr]]
  show ?case
  proof (cases "c = []")
    case True
    with k v "1.prems"(1) cr show ?thesis by (auto simp: ret_def)
  next
    case False
    with k cr have "hash_loop x n tmo start (acc @ c) r u = (Ok b, t)" by simp
    with "1.IH" [OF _ now a] False cr "1.prems"(1) have "b = (acc @ c) @ r"
      by (simp add: get_now_def)
    with v show ?thesis by simp
  qed
qed

lemma moves_still_sha256_file: "moves still (sha256_file_hex_with_tuning x tun p)"
  unfolding sha256_file_hex_with_tuning_def
  by (intro still_all_intros moves_still_hash_loop)

end
