(* ===== verification/Validation.thy ===== *)
theory Validation
  imports Hashing
begin

text \<open>
  Everything read back from a store is untrusted: the checks on version identifiers
  (\<open>validation.rs\<close>), on manifest paths and hashes (\<open>restore.rs\<close>), the layout of the store
  (\<open>store.rs\<close>), and the text under which a walked file enters a manifest. The lemmas show that
  accepted text only ever names paths inside the directory it is joined to.
\<close>

section \<open>Version identifiers\<close>

definition is_ascii_alphanumeric :: "char \<Rightarrow> bool" where
  "is_ascii_alphanumeric c \<longleftrightarrow>
    (let n = of_char c :: nat in (48 \<le> n \<and> n \<le> 57) \<or> (65 \<le> n \<and> n \<le> 90) \<or> (97 \<le> n \<and> n \<le> 122))"

definition is_ascii_alphabetic :: "char \<Rightarrow> bool" where
  "is_ascii_alphabetic c \<longleftrightarrow> (let n = of_char c :: nat in (65 \<le> n \<and> n \<le> 90) \<or> (97 \<le> n \<and> n \<le> 122))"

definition validate_version_id :: "string \<Rightarrow> unit res" where
  "validate_version_id v =
    (if v = [] \<or> length v > 255
        \<or> \<not> list_all (\<lambda>c. is_ascii_alphanumeric c \<or> c = CHR ''-'' \<or> c = CHR ''_'') v
     then Inl (Bail ''versioned::validate_version_id invalid version identifier'') else Inr ())"

definition validate_version_index :: "version_index \<Rightarrow> unit res" where
  "validate_version_index ix =
    rbind (rfold (\<lambda>v _. validate_version_id (vi_id v)) (vx_versions ix) ()) (\<lambda>_.
    rbind (case vx_safety_pinned_version_id ix of None \<Rightarrow> Inr () | Some v \<Rightarrow> validate_version_id v) (\<lambda>_.
    (case vx_safety_pending_version_id ix of None \<Rightarrow> Inr () | Some v \<Rightarrow> validate_version_id v)))"

section \<open>Store layout\<close>

definition STORE_DIR :: string where
  "STORE_DIR = ''.backup_sync''"

definition STORE_SCHEMA_VERSION :: nat where
  "STORE_SCHEMA_VERSION = 1"

definition store_root :: "path \<Rightarrow> path" where
  "store_root d = d @ [STORE_DIR, ''v1'']"

definition sources_root :: "path \<Rightarrow> path" where
  "sources_root st = st @ [''sources'']"

definition blobs_root :: "path \<Rightarrow> path" where
  "blobs_root st = st @ [''blobs'', ''sha256'']"

definition blob_path :: "ext \<Rightarrow> path \<Rightarrow> string \<Rightarrow> path" where
  "blob_path x br h =
    (if is_lower_hex_sha256 h then br @ [take 2 h, h]
     else br @ [''__invalid__'', sha256_hex x (str_bytes h)])"

definition validate_expected_blob_hash :: "string \<Rightarrow> path \<Rightarrow> unit res" where
  "validate_expected_blob_hash h bp =
    rbind (check (is_lower_hex_sha256 h) ''versioned::write_blob invalid expected plaintext sha256'') (\<lambda>_.
    check (bp \<noteq> [] \<and> last bp = h) ''versioned::write_blob destination name does not match expected plaintext sha256'')"

definition source_id :: "ext \<Rightarrow> path \<Rightarrow> string" where
  "source_id x src = sha256_hex x (str_bytes (path_text src))"

definition source_root :: "ext \<Rightarrow> path \<Rightarrow> path \<Rightarrow> path" where
  "source_root x d src = sources_root (store_root d) @ [source_id x src]"

definition json_name :: "string \<Rightarrow> string" where
  "json_name v = v @ ''.json''"

definition version_index_path :: "ext \<Rightarrow> path \<Rightarrow> path \<Rightarrow> path" where
  "version_index_path x d src = source_root x d src @ [''index.json'']"

section \<open>Manifest paths and hashes\<close>

definition has_windows_drive_prefix :: "string \<Rightarrow> bool" where
  "has_windows_drive_prefix s \<longleftrightarrow> length s \<ge> 2 \<and> is_ascii_alphabetic (s ! 0) \<and> s ! 1 = CHR '':''"

definition is_normal :: "component \<Rightarrow> bool" where
  "is_normal c \<longleftrightarrow> (case c of Normal _ \<Rightarrow> True | _ \<Rightarrow> False)"

definition validate_relative_path :: "string \<Rightarrow> unit res" where
  "validate_relative_path s =
    rbind (check (\<not> (s = [] \<or> CHR 0x5C \<in> set s \<or> has_windows_drive_prefix s))
      ''versioned::validate_relative_path unsafe manifest path'') (\<lambda>_.
    check (list_all is_normal (components s)) ''versioned::validate_relative_path unsafe manifest path'')"

definition validate_content_hash :: "string \<Rightarrow> unit res" where
  "validate_content_hash h =
    check (length h = 64 \<and> list_all is_hex_char h) ''versioned::validate_content_hash invalid sha256''"

definition validate_entry :: "string \<times> manifest_entry \<Rightarrow> unit res" where
  "validate_entry e =
    rbind (validate_relative_path (fst e)) (\<lambda>_.
    rbind (validate_relative_path (me_rel_path (snd e))) (\<lambda>_.
    rbind (check (fst e = me_rel_path (snd e)) ''versioned::validate_manifest entry key does not match rel_path'') (\<lambda>_.
    (case me_sha256 (snd e) of None \<Rightarrow> Inr () | Some h \<Rightarrow> validate_content_hash h))))"

definition validate_manifest :: "manifest \<Rightarrow> unit res" where
  "validate_manifest m = rfold (\<lambda>e _. validate_entry e) (mf_entries m) ()"

section \<open>From walked paths to manifest text\<close>

function trim_dot_slash :: "string \<Rightarrow> string" where
  "trim_dot_slash s = (if prefix ''./'' s then trim_dot_slash (drop 2 s) else s)"
  by pat_completeness auto
termination
  by (relation "measure length") (auto simp: prefix_def)

declare trim_dot_slash.simps [simp del]

definition normalize_rel :: "path \<Rightarrow> string" where
  "normalize_rel p =
    (let s = map (\<lambda>c. if c = CHR 0x5C then CHR ''/'' else c) (rel_text p)
     in if prefix ''./'' s then trim_dot_slash s else s)"

definition is_hidden :: "path \<Rightarrow> bool" where
  "is_hidden p \<longleftrightarrow> list_ex (\<lambda>c. prefix ''.'' c) p"

section \<open>Accepted identifiers name files of the directory they are joined to\<close>

lemma version_id_chars:
  assumes "validate_version_id v = Inr ()"
  shows "v \<noteq> [] \<and> CHR ''/'' \<notin> set v \<and> CHR ''.'' \<notin> set v"
proof -
  have "\<not> is_ascii_alphanumeric CHR ''/''" "\<not> is_ascii_alphanumeric CHR ''.''"
    by (simp_all add: is_ascii_alphanumeric_def)
  with assms show ?thesis
    by (auto simp: validate_version_id_def list_all_iff split: if_splits)
qed

lemma version_id_file:
  assumes "validate_version_id v = Inr ()"
  shows "good_name (json_name v)" and "\<not> is_temp_name (json_name v)" and "json_name v \<noteq> ''index.json''
    \<or> v = ''index''"
proof -
  obtain c r where v: "v = c # r" using version_id_chars [OF assms] by (cases v) auto
  with version_id_chars [OF assms] show "good_name (json_name v)" "\<not> is_temp_name (json_name v)"
    by (auto simp: good_name_def json_name_def is_temp_name_def)
qed (auto simp: json_name_def)

lemma json_name_inj [simp]: "json_name u = json_name v \<longleftrightarrow> u = v"
  by (simp add: json_name_def)

lemma validate_version_index_iff:
  "validate_version_index ix = Inr () \<longleftrightarrow>
    (\<forall>v \<in> set (vx_versions ix). validate_version_id (vi_id v) = Inr ())
    \<and> (\<forall>v. vx_safety_pinned_version_id ix = Some v \<longrightarrow> validate_version_id v = Inr ())
    \<and> (\<forall>v. vx_safety_pending_version_id ix = Some v \<longrightarrow> validate_version_id v = Inr ())"
  unfolding validate_version_index_def
  by (auto simp: rbind_eq_Inr rfold_unit_Inr split: option.splits)

lemma is_normal_iff: "is_normal c \<longleftrightarrow> (\<exists>w. c = Normal w)"
  by (cases c) (auto simp: is_normal_def)

lemma validate_relative_path_iff:
  "validate_relative_path s = Inr () \<longleftrightarrow>
    s \<noteq> [] \<and> CHR 0x5C \<notin> set s \<and> \<not> has_windows_drive_prefix s \<and> list_all is_normal (components s)"
  unfolding validate_relative_path_def by (auto simp: rbind_eq_Inr)

lemma components_empty: "s \<noteq> [] \<Longrightarrow> components s = [] \<Longrightarrow> False"
proof -
  assume s: "s \<noteq> []" and c: "components s = []"
  then obtain a r where ar: "s = a # r" by (cases s) auto
  with c have a: "a \<noteq> CHR ''/''" and t: "tail_components (split_slash s) = []"
    by (auto simp: components_def split: if_splits simp del: split_slash.simps)
  then obtain w where "a # w = hd (split_slash s)"
    by (simp add: ar split: list.splits)
  then have "hd (split_slash s) \<noteq> []" by auto
  moreover have "hd (split_slash s) \<noteq> ''.''"
    using c a ar by (auto simp: components_def simp del: split_slash.simps)
  moreover have "hd (split_slash s) \<in> set (split_slash s)" by simp
  ultimately show False
    using t unfolding tail_components_def map_is_Nil_conv filter_empty_conv by blast
qed

lemma valid_rel_names:
  assumes "validate_relative_path s = Inr ()"
  shows "join_rel d s = d @ map component_text (components s)"
    and "components s \<noteq> []" and "good_path (map component_text (components s))"
proof -
  have n: "\<exists>w. c = Normal w" if "c \<in> set (components s)" for c
    using assms that by (auto simp: validate_relative_path_iff list_all_iff is_normal_iff)
  show "join_rel d s = d @ map component_text (components s)"
    unfolding join_rel_def by (rule foldl_push_normal) (rule n)
  show "components s \<noteq> []"
    using assms components_empty by (auto simp: validate_relative_path_iff)
  have "good_name (component_text c)" if c: "c \<in> set (components s)" for c
  proof -
    from n [OF c] obtain w where "c = Normal w" by blast
    with components_names [of w s] c show ?thesis by (simp add: good_name_def)
  qed
  then show "good_path (map component_text (components s))"
    by (auto simp: good_path_def list_all_iff)
qed

lemma validate_content_hash_iff: "validate_content_hash h = Inr () \<longleftrightarrow> is_lower_hex_sha256 h"
  by (simp add: validate_content_hash_def is_lower_hex_sha256_def)

lemma validate_manifest_iff:
  "validate_manifest m = Inr () \<longleftrightarrow> (\<forall>(k, e) \<in> set (mf_entries m).
    validate_relative_path k = Inr () \<and> me_rel_path e = k
    \<and> (\<forall>h. me_sha256 e = Some h \<longrightarrow> is_lower_hex_sha256 h))"
  unfolding validate_manifest_def
  by (auto simp: rfold_unit_Inr validate_entry_def rbind_eq_Inr validate_content_hash_iff split: option.splits)

section \<open>Blob paths\<close>

lemma hex_char_plain: "is_hex_char c \<Longrightarrow> c \<noteq> CHR ''/'' \<and> c \<noteq> CHR ''.'' \<and> c \<noteq> CHR ''_''"
  by (auto simp: is_hex_char_def)

lemma hex_name:
  assumes "list_all is_hex_char h" and "h \<noteq> []"
  shows "good_name h" and "\<not> is_temp_name h" and "h \<noteq> ''__invalid__''"
proof -
  obtain c r where h: "h = c # r" using assms(2) by (cases h) auto
  with assms(1) hex_char_plain have "c \<noteq> CHR ''.''" "c \<noteq> CHR ''_''" "CHR ''/'' \<notin> set h"
    by (auto simp: list_all_iff)
  with h show "good_name h" "\<not> is_temp_name h" "h \<noteq> ''__invalid__''"
    by (auto simp: good_name_def is_temp_name_def)
qed

lemma hash_names:
  assumes "is_lower_hex_sha256 h"
  shows "good_name h" "\<not> is_temp_name h" "good_name (take 2 h)" "take 2 h \<noteq> ''__invalid__''"
proof -
  have "list_all is_hex_char (take 2 h)"
    using assms by (auto simp: is_lower_hex_sha256_def list_all_iff dest: in_set_takeD)
  moreover have "h \<noteq> []" "take 2 h \<noteq> []"
    using assms by (auto simp: is_lower_hex_sha256_def)
  ultimately show "good_name h" "\<not> is_temp_name h" "good_name (take 2 h)" "take 2 h \<noteq> ''__invalid__''"
    using assms hex_name by (auto simp: is_lower_hex_sha256_def)
qed

lemma good_blob_path:
  assumes "sha_ok x" and "good_path br"
  shows "good_path (blob_path x br h)" and "\<not> temp_path (blob_path x br h)"
proof -
  have i: "good_name ''__invalid__''" by (simp add: good_name_def)
  note s = hash_names [OF is_lower_hex_sha256_hex [OF assms(1), of "str_bytes h"]]
  show "good_path (blob_path x br h)" "\<not> temp_path (blob_path x br h)"
    using i s assms(2) hash_names [of h] by (auto simp: blob_path_def temp_path_def)
qed

lemma blob_path_inj:
  assumes "is_lower_hex_sha256 g" and "blob_path x br g = blob_path x br h"
  shows "g = h"
  using assms hash_names(4) [OF assms(1)] by (auto simp: blob_path_def split: if_splits)

lemma str_bytes_inj: "str_bytes s = str_bytes t \<Longrightarrow> s = t"
proof (induction s arbitrary: t)
  case (Cons c s)
  then obtain d u where t: "t = d # u" by (cases t) (auto simp: str_bytes_def)
  have "(of_char c :: nat) < 256" "(of_char d :: nat) < 256" by simp_all
  moreover from Cons.prems t have "(word_of_nat (of_char c) :: byte) = word_of_nat (of_char d)"
    by (simp add: str_bytes_def)
  ultimately have "(of_char c :: nat) = of_char d"
    by (simp add: word_of_nat_eq_iff take_bit_eq_mod)
  then have "c = d" by (simp only: of_char_eq_iff)
  with Cons t show ?case by (simp add: str_bytes_def)
qed (simp add: str_bytes_def)

end
