(* ===== verification/Sample.thy ===== *)
theory Sample
  imports Externals Config_Defaults
begin

text \<open>
  A concrete instance of the library functions, used by the witnesses: it shows that what is relied on
  can hold, with functions that compute. Records are written field by field in a self-delimiting
  format; compression and encryption are the identity; the digest pads or cuts to thirty-two bytes.
\<close>

section \<open>A self-delimiting format\<close>

definition delimits :: "('a \<Rightarrow> bytes) \<Rightarrow> (bytes \<Rightarrow> ('a \<times> bytes) option) \<Rightarrow> bool" where
  "delimits s d \<longleftrightarrow> (\<forall>a r. d (s a @ r) = Some (a, r))"

lemma delimitsD: "delimits s d \<Longrightarrow> d (s a @ r) = Some (a, r)"
  by (simp add: delimits_def)

definition ser_nat :: "nat \<Rightarrow> bytes" where
  "ser_nat n = replicate n 1 @ [0]"

fun des_nat :: "bytes \<Rightarrow> (nat \<times> bytes) option" where
  "des_nat [] = None"
| "des_nat (b # bs) = (if b = 0 then Some (0, bs) else map_option (\<lambda>(n, r). (Suc n, r)) (des_nat bs))"

lemma delimits_nat: "delimits ser_nat des_nat"
proof -
  have "des_nat (replicate n 1 @ 0 # r) = Some (n, r)" for n r
    by (induction n) auto
  then show ?thesis by (simp add: delimits_def ser_nat_def)
qed

definition ser_map :: "('b \<Rightarrow> 'a) \<Rightarrow> ('a \<Rightarrow> bytes) \<Rightarrow> 'b \<Rightarrow> bytes" where
  "ser_map f s b = s (f b)"

definition des_map :: "('a \<Rightarrow> 'b) \<Rightarrow> (bytes \<Rightarrow> ('a \<times> bytes) option) \<Rightarrow> bytes \<Rightarrow> ('b \<times> bytes) option" where
  "des_map g d bs = map_option (\<lambda>(a, r). (g a, r)) (d bs)"

lemma delimits_map: "delimits s d \<Longrightarrow> (\<And>b. g (f b) = b) \<Longrightarrow> delimits (ser_map f s) (des_map g d)"
  by (simp add: delimits_def ser_map_def des_map_def)

definition ser_pair :: "('a \<Rightarrow> bytes) \<Rightarrow> ('b \<Rightarrow> bytes) \<Rightarrow> 'a \<times> 'b \<Rightarrow> bytes" where
  "ser_pair s t p = s (fst p) @ t (snd p)"

definition des_pair ::
  "(bytes \<Rightarrow> ('a \<times> bytes) option) \<Rightarrow> (bytes \<Rightarrow> ('b \<times> bytes) option) \<Rightarrow> bytes \<Rightarrow> (('a \<times> 'b) \<times> bytes) option" where
  "des_pair d e bs = (case d bs of None \<Rightarrow> None | Some (a, r) \<Rightarrow> (case e r of None \<Rightarrow> None | Some (b, q) \<Rightarrow> Some ((a, b), q)))"

lemma delimits_pair: "delimits s d \<Longrightarrow> delimits t e \<Longrightarrow> delimits (ser_pair s t) (des_pair d e)"
  by (simp add: delimits_def ser_pair_def des_pair_def)

definition ser_list :: "('a \<Rightarrow> bytes) \<Rightarrow> 'a list \<Rightarrow> bytes" where
  "ser_list s xs = ser_nat (length xs) @ concat (map s xs)"

fun des_times :: "(bytes \<Rightarrow> ('a \<times> bytes) option) \<Rightarrow> nat \<Rightarrow> bytes \<Rightarrow> ('a list \<times> bytes) option" where
  "des_times d 0 bs = Some ([], bs)"
| "des_times d (Suc n) bs = (case d bs of None \<Rightarrow> None | Some (a, r) \<Rightarrow>
    map_option (\<lambda>(as, q). (a # as, q)) (des_times d n r))"

definition des_list :: "(bytes \<Rightarrow> ('a \<times> bytes) option) \<Rightarrow> bytes \<Rightarrow> ('a list \<times> bytes) option" where
  "des_list d bs = (case des_nat bs of None \<Rightarrow> None | Some (n, r) \<Rightarrow> des_times d n r)"

lemma delimits_list:
  assumes "delimits s d"
  shows "delimits (ser_list s) (des_list d)"
proof -
  have "des_times d (length xs) (concat (map s xs) @ r) = Some (xs, r)" for xs r
    by (induction xs) (simp_all add: delimitsD [OF assms])
  then show ?thesis
    by (simp add: delimits_def ser_list_def des_list_def delimitsD [OF delimits_nat])
qed

definition ser_option :: "('a \<Rightarrow> bytes) \<Rightarrow> 'a option \<Rightarrow> bytes" where
  "ser_option s = ser_map (\<lambda>a. case a of None \<Rightarrow> [] | Some b \<Rightarrow> [b]) (ser_list s)"

definition des_option :: "(bytes \<Rightarrow> ('a \<times> bytes) option) \<Rightarrow> bytes \<Rightarrow> ('a option \<times> bytes) option" where
  "des_option d = des_map (\<lambda>as. case as of [] \<Rightarrow> None | a # _ \<Rightarrow> Some a) (des_list d)"

lemma delimits_option: "delimits s d \<Longrightarrow> delimits (ser_option s) (des_option d)"
  unfolding ser_option_def des_option_def
  by (intro delimits_map delimits_list) (auto split: option.splits)

definition ser_int :: "int \<Rightarrow> bytes" where
  "ser_int = ser_map (\<lambda>i. (nat i, nat (- i))) (ser_pair ser_nat ser_nat)"

definition des_int :: "bytes \<Rightarrow> (int \<times> bytes) option" where
  "des_int = des_map (\<lambda>(a, b). int a - int b) (des_pair des_nat des_nat)"

lemma delimits_int: "delimits ser_int des_int"
  unfolding ser_int_def des_int_def by (intro delimits_map delimits_pair delimits_nat) auto

definition ser_string :: "string \<Rightarrow> bytes" where
  "ser_string = ser_list (\<lambda>c. [word_of_nat (of_char c)])"

definition des_string :: "bytes \<Rightarrow> (string \<times> bytes) option" where
  "des_string = des_list (\<lambda>bs. case bs of [] \<Rightarrow> None | b # r \<Rightarrow> Some (char_of (unat b), r))"

lemma delimits_string: "delimits ser_string des_string"
proof -
  have "(of_char c :: nat) < 256" for c by simp
  then have "unat (word_of_nat (of_char c) :: byte) = of_char c" for c
    by (simp add: unat_of_nat take_bit_eq_mod)
  then show ?thesis
    unfolding ser_string_def des_string_def
    by (intro delimits_list) (simp add: delimits_def)
qed

section \<open>The records of the store\<close>

definition ser_version :: "version_info \<Rightarrow> bytes" where
  "ser_version = ser_map (\<lambda>r. (vi_id r, vi_created_at_unix r))
    (ser_pair ser_string ser_int)"

definition des_version :: "bytes \<Rightarrow> (version_info \<times> bytes) option" where
  "des_version = des_map (\<lambda>(a0, a1). \<lparr>vi_id = a0, vi_created_at_unix = a1\<rparr>)
    (des_pair des_string des_int)"

definition ser_index :: "version_index \<Rightarrow> bytes" where
  "ser_index = ser_map (\<lambda>r. (vx_schema_version r, vx_source_path r, vx_versions r, vx_safety_pinned_version_id r, vx_safety_pending_version_id r, vx_safety_pending_first_seen_unix r))
    (ser_pair ser_nat (ser_pair ser_string (ser_pair (ser_list ser_version) (ser_pair (ser_option ser_string) (ser_pair (ser_option ser_string) (ser_option ser_int))))))"

definition des_index :: "bytes \<Rightarrow> (version_index \<times> bytes) option" where
  "des_index = des_map (\<lambda>(a0, a1, a2, a3, a4, a5). \<lparr>vx_schema_version = a0, vx_source_path = a1, vx_versions = a2, vx_safety_pinned_version_id = a3, vx_safety_pending_version_id = a4, vx_safety_pending_first_seen_unix = a5\<rparr>)
    (des_pair des_nat (des_pair des_string (des_pair (des_list des_version) (des_pair (des_option des_string) (des_pair (des_option des_string) (des_option des_int))))))"

definition ser_phase :: "read_failure_phase \<Rightarrow> bytes" where
  "ser_phase = ser_map (\<lambda>p. case p of Walk \<Rightarrow> 0 | Metadata \<Rightarrow> 1 | Hash \<Rightarrow> 2 | BlobWrite \<Rightarrow> 3) ser_nat"

definition des_phase :: "bytes \<Rightarrow> (read_failure_phase \<times> bytes) option" where
  "des_phase = des_map (\<lambda>n. if n = 0 then Walk else if n = 1 then Metadata else if n = 2 then Hash else BlobWrite) des_nat"

definition ser_kind :: "manifest_entry_kind \<Rightarrow> bytes" where
  "ser_kind = ser_map (\<lambda>k. case k of FileEntry \<Rightarrow> 0 | DirEntry \<Rightarrow> 1) ser_nat"

definition des_kind :: "bytes \<Rightarrow> (manifest_entry_kind \<times> bytes) option" where
  "des_kind = des_map (\<lambda>n. if n = 0 then FileEntry else DirEntry) des_nat"

definition ser_failure :: "read_failure \<Rightarrow> bytes" where
  "ser_failure = ser_map (\<lambda>r. (rf_rel_path r, rf_phase r, rf_attempts r, rf_message r))
    (ser_pair ser_string (ser_pair ser_phase (ser_pair ser_nat ser_string)))"

definition des_failure :: "bytes \<Rightarrow> (read_failure \<times> bytes) option" where
  "des_failure = des_map (\<lambda>(a0, a1, a2, a3). \<lparr>rf_rel_path = a0, rf_phase = a1, rf_attempts = a2, rf_message = a3\<rparr>)
    (des_pair des_string (des_pair des_phase (des_pair des_nat des_string)))"

definition ser_entry :: "manifest_entry \<Rightarrow> bytes" where
  "ser_entry = ser_map (\<lambda>r. (me_kind r, me_rel_path r, me_len r, me_mtime_unix r, me_mtime_nanos r, me_sha256 r))
    (ser_pair ser_kind (ser_pair ser_string (ser_pair ser_nat (ser_pair ser_int (ser_pair ser_nat (ser_option ser_string))))))"

definition des_entry :: "bytes \<Rightarrow> (manifest_entry \<times> bytes) option" where
  "des_entry = des_map (\<lambda>(a0, a1, a2, a3, a4, a5). \<lparr>me_kind = a0, me_rel_path = a1, me_len = a2, me_mtime_unix = a3, me_mtime_nanos = a4, me_sha256 = a5\<rparr>)
    (des_pair des_kind (des_pair des_string (des_pair des_nat (des_pair des_int (des_pair des_nat (des_option des_string))))))"

definition ser_snapshot :: "source_snapshot_info \<Rightarrow> bytes" where
  "ser_snapshot = ser_map (\<lambda>r. (ss_provider r, ss_id r, ss_created_at_unix r))
    (ser_pair ser_string (ser_pair (ser_option ser_string) ser_int))"

definition des_snapshot :: "bytes \<Rightarrow> (source_snapshot_info \<times> bytes) option" where
  "des_snapshot = des_map (\<lambda>(a0, a1, a2). \<lparr>ss_provider = a0, ss_id = a1, ss_created_at_unix = a2\<rparr>)
    (des_pair des_string (des_pair (des_option des_string) des_int))"

definition ser_manifest :: "manifest \<Rightarrow> bytes" where
  "ser_manifest = ser_map (\<lambda>r. (mf_schema_version r, mf_source_path r, mf_created_at_unix r, mf_source_snapshot r, mf_source_snapshot_error r, mf_read_failures r, mf_entries r))
    (ser_pair ser_nat (ser_pair ser_string (ser_pair ser_int (ser_pair (ser_option ser_snapshot) (ser_pair (ser_option ser_string) (ser_pair (ser_list ser_failure) (ser_list (ser_pair ser_string ser_entry))))))))"

definition des_manifest :: "bytes \<Rightarrow> (manifest \<times> bytes) option" where
  "des_manifest = des_map (\<lambda>(a0, a1, a2, a3, a4, a5, a6). \<lparr>mf_schema_version = a0, mf_source_path = a1, mf_created_at_unix = a2, mf_source_snapshot = a3, mf_source_snapshot_error = a4, mf_read_failures = a5, mf_entries = a6\<rparr>)
    (des_pair des_nat (des_pair des_string (des_pair des_int (des_pair (des_option des_snapshot) (des_pair (des_option des_string) (des_pair (des_list des_failure) (des_list (des_pair des_string des_entry))))))))"

definition ser_source_marker :: "source_marker \<Rightarrow> bytes" where
  "ser_source_marker = ser_map (\<lambda>r. (sm_schema_version r, sm_source_path r)) (ser_pair ser_nat ser_string)"

definition des_source_marker :: "bytes \<Rightarrow> (source_marker \<times> bytes) option" where
  "des_source_marker = des_map (\<lambda>(a0, a1). \<lparr>sm_schema_version = a0, sm_source_path = a1\<rparr>) (des_pair des_nat des_string)"

definition ser_version_marker :: "version_marker \<Rightarrow> bytes" where
  "ser_version_marker = ser_map (\<lambda>r. (vm_schema_version r, vm_version_id r)) (ser_pair ser_nat ser_string)"

definition des_version_marker :: "bytes \<Rightarrow> (version_marker \<times> bytes) option" where
  "des_version_marker = des_map (\<lambda>(a0, a1). \<lparr>vm_schema_version = a0, vm_version_id = a1\<rparr>) (des_pair des_nat des_string)"

lemmas delimits_base =
  delimits_nat delimits_int delimits_string delimits_option delimits_list delimits_pair

lemma delimits_version: "delimits ser_version des_version"
  unfolding ser_version_def des_version_def by (intro delimits_map delimits_base) simp

lemma delimits_index: "delimits ser_index des_index"
  unfolding ser_index_def des_index_def by (intro delimits_map delimits_base delimits_version) simp

lemma delimits_phase: "delimits ser_phase des_phase"
  unfolding ser_phase_def des_phase_def
  by (intro delimits_map delimits_base) (simp split: read_failure_phase.splits)

lemma delimits_kind: "delimits ser_kind des_kind"
  unfolding ser_kind_def des_kind_def
  by (intro delimits_map delimits_base) (simp split: manifest_entry_kind.splits)

lemma delimits_failure: "delimits ser_failure des_failure"
  unfolding ser_failure_def des_failure_def by (intro delimits_map delimits_base delimits_phase) simp

lemma delimits_entry: "delimits ser_entry des_entry"
  unfolding ser_entry_def des_entry_def by (intro delimits_map delimits_base delimits_kind) simp

lemma delimits_snapshot: "delimits ser_snapshot des_snapshot"
  unfolding ser_snapshot_def des_snapshot_def by (intro delimits_map delimits_base) simp

lemma delimits_manifest: "delimits ser_manifest des_manifest"
  unfolding ser_manifest_def des_manifest_def
  by (intro delimits_map delimits_base delimits_snapshot delimits_failure delimits_entry) simp

lemma delimits_markers: "delimits ser_source_marker des_source_marker" "delimits ser_version_marker des_version_marker"
  unfolding ser_source_marker_def des_source_marker_def ser_version_marker_def des_version_marker_def
  by (intro delimits_map delimits_base, simp)+

section \<open>The instance\<close>

definition sample_walk :: "world \<Rightarrow> path \<Rightarrow> walk_item list" where
  "sample_walk w p = (case node_at (fs w) p of
      None \<Rightarrow> [WalkErr (Some p) ''No such file or directory (os error 2)'']
    | Some n \<Rightarrow> WalkEntry p n # map (\<lambda>(q, m). WalkEntry q m) (filter (\<lambda>(q, m). strict_prefix p q) (rev (fs w))))"

definition sample_walk_flat :: "world \<Rightarrow> path \<Rightarrow> walk_item list" where
  "sample_walk_flat w p = (case node_at (fs w) p of
      None \<Rightarrow> [WalkErr (Some p) ''No such file or directory (os error 2)'']
    | Some n \<Rightarrow> map (\<lambda>(q, m). WalkEntry q m) (filter (\<lambda>(q, m). q \<noteq> [] \<and> butlast q = p \<and> CHR ''/'' \<notin> set (last q)) (rev (fs w))))"

definition sample_ext :: ext where
  "sample_ext = \<lparr>
    x_sha256 = (\<lambda>b. take 32 (b @ replicate 32 0)),
    x_zstd_compress = (\<lambda>l b. Some b),
    x_zstd_decompress = (\<lambda>z c. if length z \<le> c then Some z else None),
    x_seal = (\<lambda>k n i l b. Some b),
    x_open = (\<lambda>k n i l c. Some c),
    x_random = (\<lambda>t n. replicate n 7),
    x_read_len = (\<lambda>n h. n),
    x_index_enc = ser_index,
    x_index_dec = (\<lambda>b. map_option fst (des_index b)),
    x_manifest_enc = ser_manifest,
    x_manifest_dec = (\<lambda>b. map_option fst (des_manifest b)),
    x_report_enc = (\<lambda>r. ser_string (lr_source_path r)),
    x_temp = (\<lambda>F d. ''.tmpA''),
    x_walk = sample_walk,
    x_glob = (\<lambda>s. None),
    x_globset = (\<lambda>gs. Some (\<lambda>p. list_ex (\<lambda>g. g p) gs)),
    x_free_space = (\<lambda>w p. Inr 1000000000000),
    x_version_stamp = (\<lambda>t. ''1-'' @ take 9 (show_nat t)),
    x_rnd = (\<lambda>r. r),
    x_default_key_path = Inr [''key''],
    x_tempdir = (\<lambda>p F d. p @ ''A''),
    x_walk_flat = sample_walk_flat,
    x_source_marker_enc = ser_source_marker,
    x_source_marker_dec = (\<lambda>b. map_option fst (des_source_marker b)),
    x_version_marker_enc = ser_version_marker,
    x_version_marker_dec = (\<lambda>b. map_option fst (des_version_marker b)),
    x_local_stamp = (\<lambda>t. Some (''at '' @ show_nat (nat t))),
    x_pid = 1,
    x_cwd = []\<rparr>"

lemma show_nat_digits: "c \<in> set (show_nat n) \<Longrightarrow> 48 \<le> (of_char c :: nat) \<and> (of_char c :: nat) \<le> 57"
proof (induction n rule: show_nat.induct)
  case (1 n)
  have "48 \<le> (of_char (digit k) :: nat) \<and> (of_char (digit k) :: nat) \<le> 57" if "k < 10" for k
    using that by (simp add: of_char_of)
  with 1 show ?case
    by (cases "n < 10") (auto simp: show_nat.simps [of n] simp del: digit.simps)
qed

lemma sample_laws [simp]:
  "sha_ok sample_ext" "zstd_ok sample_ext" "aead_ok sample_ext" "random_ok sample_ext"
  "index_json_ok sample_ext" "manifest_json_ok sample_ext" "temp_ok sample_ext" "rnd_ok sample_ext"
  "stamp_ok sample_ext" "tempdir_ok sample_ext" "marker_json_ok sample_ext"
proof -
  show "index_json_ok sample_ext" "manifest_json_ok sample_ext"
    using delimitsD [OF delimits_index, of _ "[]"] delimitsD [OF delimits_manifest, of _ "[]"]
    by (simp_all add: index_json_ok_def manifest_json_ok_def sample_ext_def)
  show "marker_json_ok sample_ext"
    using delimitsD [OF delimits_markers(1), of _ "[10]"] delimitsD [OF delimits_markers(2), of _ "[10]"]
    by (simp add: marker_json_ok_def sample_ext_def)
  show "sha_ok sample_ext" by (auto simp: sha_ok_def sample_ext_def)
  show "stamp_ok sample_ext" by (auto simp: stamp_ok_def sample_ext_def dest!: in_set_takeD show_nat_digits)
qed (simp_all add: tempdir_ok_def zstd_ok_def aead_ok_def random_ok_def temp_ok_def temp_namer_ok_def
    is_temp_name_def rnd_ok_def mono_def sample_ext_def)

section \<open>A configuration\<close>

definition sample_watched :: watched_path where
  "sample_watched = \<lparr>wp_path = [''src''], wp_kind = WatchedDirectory, wp_enabled = True,
    wp_destination_id = default_destination_id, wp_max_backups_per_file = None\<rparr>"

definition sample_destination :: destination where
  "sample_destination = \<lparr>dest_id = default_destination_id, dest_path = [''dst''], dest_label = None,
    dest_max_backups_per_file = None, dest_replicate_to = []\<rparr>"

definition sample_config :: config where
  "sample_config = \<lparr>cf_backup_root = [''dst''], cf_interval_seconds = default_interval_seconds,
    cf_max_backups_per_file = default_max_backups_per_file, cf_skip_hidden = default_skip_hidden,
    cf_ignore_patterns = default_ignore_patterns, cf_max_parallel_copies = default_max_parallel_copies,
    cf_max_bytes_per_second = default_max_bytes_per_second,
    cf_min_free_space_bytes = default_min_free_space_bytes,
    cf_hashing = default_hashing_tuning, cf_execution = default_execution_tuning,
    cf_planning = default_planning_tuning, cf_runtime = default_runtime_tuning, cf_safe_mode = False,
    cf_encryption = default_encryption_config, cf_compression = default_compression_config,
    cf_watched = [sample_watched], cf_destinations = [sample_destination]\<rparr>"

end
