(* ===== verification/Key_File.thy ===== *)
theory Key_File
  imports Io_Policy Validation Sample
begin

text \<open>
  The encryption key file (\<open>encryption/keyfile.rs\<close>): magic, version, thirty-two key bytes. Creation
  refuses to replace an existing key unless forced and replaces atomically; loading is strict.
\<close>

definition KEY_MAGIC :: bytes where
  "KEY_MAGIC = str_bytes ''BSYNCKEY''"

definition KEY_VERSION :: byte where
  "KEY_VERSION = 1"

definition KEY_LEN :: nat where
  "KEY_LEN = 32"

record key_info =
  ki_key_id :: string
  ki_key :: bytes

definition key_id :: "ext \<Rightarrow> bytes \<Rightarrow> string" where
  "key_id x key = sha256_hex x key"

definition resolve_key_path :: "ext \<Rightarrow> config \<Rightarrow> path res" where
  "resolve_key_path x cfg = (case ec_key_path (cf_encryption cfg) of Some p \<Rightarrow> Inr p | None \<Rightarrow> x_default_key_path x)"

text \<open>The parent of the file-system root is absent; every other path has one.\<close>

definition parent_of :: "path \<Rightarrow> path option" where
  "parent_of p = (if p = [] then None else Some (butlast p))"

text \<open>\<open>set_permissions\<close> is a call that may fail; modes are not modelled.\<close>

definition set_permissions :: "path \<Rightarrow> unit io" where
  "set_permissions p = call (\<lambda>F. Inr ((), F))"

definition create_key_file :: "ext \<Rightarrow> path \<Rightarrow> bool \<Rightarrow> key_info io" where
  "create_key_file x p force =
    bnd (path_exists p) (\<lambda>there.
    if there \<and> \<not> force then throw (Bail ''encryption::keyfile::create_key_file refusing to overwrite existing key file'')
    else bnd (case parent_of p of
        None \<Rightarrow> ret ()
      | Some d \<Rightarrow> run_with_policy bootstrap_defaults None (create_dir_all d)) (\<lambda>_.
    bnd get_now (\<lambda>t.
    let key = x_random x t KEY_LEN in
    (case parent_of p of
      None \<Rightarrow> throw (Bail ''encryption::keyfile::create_key_file missing parent directory'')
    | Some d \<Rightarrow> with_temp (x_temp x) d (\<lambda>tmp.
        bnd (run_with_policy (single_attempt (bp_timeout bootstrap_defaults)) None
          (bnd (append_file tmp KEY_MAGIC) (\<lambda>_.
           bnd (append_file tmp [KEY_VERSION]) (\<lambda>_.
           bnd (append_file tmp key) (\<lambda>_. sync_path tmp))))) (\<lambda>_.
        bnd (set_permissions tmp) (\<lambda>_.
        bnd (persist tmp p) (\<lambda>_.
        ret \<lparr>ki_key_id = key_id x key, ki_key = key\<rparr>))))))))"

definition parse_key_file :: "ext \<Rightarrow> bytes \<Rightarrow> key_info res" where
  "parse_key_file x raw =
    rbind (check (length KEY_MAGIC + 1 + KEY_LEN \<le> length raw) ''encryption::keyfile::load_key_file invalid key file length'') (\<lambda>_.
    rbind (check (take (length KEY_MAGIC) raw = KEY_MAGIC) ''encryption::keyfile::load_key_file invalid key file magic'') (\<lambda>_.
    rbind (check (raw ! length KEY_MAGIC = KEY_VERSION) ''encryption::keyfile::load_key_file unsupported key file version'') (\<lambda>_.
    let key = take KEY_LEN (drop (length KEY_MAGIC + 1) raw)
    in Inr \<lparr>ki_key_id = key_id x key, ki_key = key\<rparr>)))"

definition load_key_file :: "ext \<Rightarrow> path \<Rightarrow> key_info io" where
  "load_key_file x p =
    bnd (run_with_policy bootstrap_defaults None (read_file p)) (\<lambda>raw. lift (parse_key_file x raw))"

section \<open>Strict loading\<close>

lemma length_KEY_MAGIC [simp]: "length KEY_MAGIC = 8"
  by (simp add: KEY_MAGIC_def str_bytes_def)

lemma parse_key_file_iff:
  "parse_key_file x raw = Inr k \<longleftrightarrow>
    (\<exists>key rest. length key = 32 \<and> raw = KEY_MAGIC @ [KEY_VERSION] @ key @ rest
      \<and> k = \<lparr>ki_key_id = key_id x key, ki_key = key\<rparr>)" (is "?l \<longleftrightarrow> ?r")
proof
  assume ?l
  then have len: "41 \<le> length raw" and m: "take 8 raw = KEY_MAGIC" and v: "raw ! 8 = KEY_VERSION"
    and k: "k = \<lparr>ki_key_id = key_id x (take 32 (drop 9 raw)), ki_key = take 32 (drop 9 raw)\<rparr>"
    by (auto simp: parse_key_file_def rbind_eq_Inr Let_def KEY_LEN_def)
  have "raw = take 8 raw @ raw ! 8 # drop 9 raw"
    using len id_take_nth_drop [of 8 raw] by simp
  also have "drop 9 raw = take 32 (drop 9 raw) @ drop 32 (drop 9 raw)"
    by (rule append_take_drop_id [symmetric])
  finally have "raw = KEY_MAGIC @ [KEY_VERSION] @ take 32 (drop 9 raw) @ drop 32 (drop 9 raw)"
    by (simp add: m v)
  with len k show ?r by (intro exI conjI) auto
next
  assume ?r
  then show ?l by (auto simp: parse_key_file_def Let_def KEY_LEN_def check_def nth_append)
qed

lemma moves_still_load_key_file: "moves still (load_key_file x p)"
  unfolding load_key_file_def
  by (intro st.moves_bnd st.moves_lift still_time.moves_run_with_policy moves_still_prims)

section \<open>Creation\<close>

lemma triple_write_key:
  assumes "temp_in D d t"
  shows "triple (sees_temp D f t [])
    (bnd (run_with_policy (single_attempt n) None
      (bnd (append_file t KEY_MAGIC) (\<lambda>_.
       bnd (append_file t [KEY_VERSION]) (\<lambda>_.
       bnd (append_file t key) (\<lambda>_. sync_path t))))) (\<lambda>_. set_permissions t))
    (\<lambda>_ w. \<exists>b. b = KEY_MAGIC @ [KEY_VERSION] @ key \<and> sees_temp D f t b w) (sees D f)"
proof -
  have s: "triple (sees_temp D f t b) m (\<lambda>_. sees_temp D f t b) (sees D f)" if "moves still m" for b m
    by (rule triple_conseq [OF triple_still [OF stable_sees_temp that]]) (auto simp: sees_temp_def)
  note app = triple_append_temp [OF assms]
  have op: "triple (sees_temp D f t [])
      (bnd (append_file t KEY_MAGIC) (\<lambda>_. bnd (append_file t [KEY_VERSION]) (\<lambda>_.
       bnd (append_file t key) (\<lambda>_. sync_path t))))
      (\<lambda>_. sees_temp D f t ((([] @ KEY_MAGIC) @ [KEY_VERSION]) @ key)) (sees D f)"
    by (intro triple_bnd [OF app] s moves_still_sync)
  have "moves still (set_permissions t)" unfolding set_permissions_def by (rule moves_still_prims)
  note perm = s [OF this, of "(([] @ KEY_MAGIC) @ [KEY_VERSION]) @ key"]
  have "sees D f w" if "sees_temp D f t [] w" for w using that by (simp add: sees_temp_def)
  from triple_bnd [OF triple_run_single [OF stable_sees_temp op this] perm] show ?thesis by simp
qed

lemma triple_create_key_file:
  assumes "temp_ok x" and "random_ok x" and "good_path d" and "good_name n" and "\<not> is_temp_name n"
  shows "triple (sees d f) (create_key_file x (d @ [n]) force)
    (\<lambda>k w. \<exists>raw. parse_key_file x raw = Inr k \<and> sees d (f(d @ [n] := Some raw)) w)
    (\<lambda>w. sees d f w \<or> (\<exists>raw k. parse_key_file x raw = Inr k \<and> sees d (f(d @ [n] := Some raw)) w))"
  (is "triple _ _ ?Q ?E")
proof -
  let ?raw = "\<lambda>key. KEY_MAGIC @ [KEY_VERSION] @ key"
  let ?k = "\<lambda>key. \<lparr>ki_key_id = key_id x key, ki_key = key\<rparr>"
  have tn: "temp_namer_ok (x_temp x)" using assms(1) by (simp add: temp_ok_def)
  have reg: "in_region d (d @ [n])" "in_region d d" using assms(3,4) by (simp_all add: in_region_def)
  have parse: "length key = 32 \<Longrightarrow> parse_key_file x (?raw key) = Inr (?k key)" for key
    unfolding parse_key_file_iff by (intro exI [of _ key] exI [of _ "[]"]) simp
  have main: "triple (sees d f) (with_temp (x_temp x) d (\<lambda>t.
      bnd (bnd (run_with_policy (single_attempt m) None
        (bnd (append_file t KEY_MAGIC) (\<lambda>_. bnd (append_file t [KEY_VERSION]) (\<lambda>_.
         bnd (append_file t key) (\<lambda>_. sync_path t))))) (\<lambda>_. set_permissions t))
      (\<lambda>_. bnd (persist t (d @ [n])) (\<lambda>_. ret (?k key))))) ?Q ?E"
    if "length key = 32" for m key
    by (rule triple_conseq [OF triple_replace
          [OF tn prefix_order.refl assms(3) reg(1) _ triple_write_key st.moves_ret, where V = "\<lambda>_ k. k = ?k key"]])
      (use assms(5) parse [OF that] in \<open>auto simp: ret_def replaced_def\<close>)
  have r: "length (x_random x t KEY_LEN) = 32" for t using assms(2) by (simp add: random_ok_def KEY_LEN_def)
  have still: "triple (sees d f) m (\<lambda>_. sees d f) ?E" if "moves still m" for m
    by (rule triple_conseq [OF triple_still [OF stable_sees that]]) auto
  have dirs: "triple (sees d f) (run_with_policy bootstrap_defaults None (create_dir_all d)) (\<lambda>_. sees d f) ?E"
    by (rule triple_conseq [OF triple_unseen
          [OF within_time.moves_run_with_policy [OF moves_within_create_dir_all [OF reg(2)]]]]) auto
  have parent: "parent_of (d @ [n]) = Some d" by (simp add: parent_of_def)
  show ?thesis
    unfolding create_key_file_def parent option.case Let_def
    by (intro triple_bnd [OF still] triple_bnd [OF dirs] triple_if triple_throw main [unfolded bnd_assoc]
        r moves_still_prims moves_still_get_now) auto
qed

text \<open>
  C17: creating a key file is all or nothing and its result is what loading returns. If creation
  reports success, the file holds a content that strict parsing accepts as exactly the returned key;
  whatever else happens (an I/O error, a time-out, a power loss at any call), either no visible file
  of the directory changed or the key file was replaced by a complete, loadable one.
\<close>

theorem create_key_file_atomic:
  assumes "temp_ok x" and "random_ok x" and "good_path d" and "good_name n" and "\<not> is_temp_name n"
    and "sees d f w" and "create_key_file x (d @ [n]) force w = (r, v)"
  shows "(\<forall>k. r = Ok k \<longrightarrow> (\<exists>raw. parse_key_file x raw = Inr k \<and> sees d (f(d @ [n] := Some raw)) v))
    \<and> (sees d f v \<or> (\<exists>raw k. parse_key_file x raw = Inr k \<and> sees d (f(d @ [n] := Some raw)) v))"
  using triple_create_key_file [OF assms(1-5), of f force] assms(6,7)
  by (cases r) (auto dest: triple_Ok triple_Err triple_Halt)

definition key_world :: world where
  "key_world = \<lparr>fs = [([''d''], Dir)], events = [], now = 0\<rparr>"

lemma key_world_sees: "sees [''d''] (\<lambda>_. None) key_world"
  by (auto simp: sees_def key_world_def tame_def fs_wf_def clear_region_def node_at_def file_at_def
      good_name_def split: if_splits)

theorem create_key_file_atomic_witness:
  "sees [''d''] (\<lambda>_. None) key_world \<and>
   (let v = snd (create_key_file sample_ext [''d'', ''k''] False key_world) in
     sees [''d''] (\<lambda>_. None) v
     \<or> (\<exists>raw k. parse_key_file sample_ext raw = Inr k \<and> sees [''d''] ((\<lambda>_. None)([''d'', ''k''] := Some raw)) v))"
  using create_key_file_atomic [of sample_ext "[''d'']" "''k''" "\<lambda>_. None" key_world False, OF _ _ _ _ _ key_world_sees prod.collapse [symmetric]]
    key_world_sees
  by (simp add: good_name_def is_temp_name_def)

end
