(* ===== verification/Blob_Codec.thy ===== *)
theory Blob_Codec
  imports Key_File Sample
begin

unbundle bit_operations_syntax

text \<open>
  The encoding of blobs (\<open>encryption/blobs.rs\<close>): plain, compressed in chunks, or encrypted in chunks
  with or without compression before it. A frame is a 32-bit big-endian length whose top bit marks the
  last frame. Readers and writers are the code's streams: a reader is an open file that may return
  short reads, a writer is a state threaded through an action \<open>put\<close>.
\<close>

section \<open>Constants and types\<close>

definition ENC_MAGIC :: bytes where
  "ENC_MAGIC = str_bytes ''BSYNCENC''"

definition ENC_VERSION :: byte where
  "ENC_VERSION = 1"

definition ALG_XCHACHA20POLY1305_BE32 :: byte where
  "ALG_XCHACHA20POLY1305_BE32 = 1"

definition ALG_XCHACHA20POLY1305_BE32_ZSTD_CHUNKED :: byte where
  "ALG_XCHACHA20POLY1305_BE32_ZSTD_CHUNKED = 2"

definition XCHACHA20POLY1305_STREAM_NONCE_LEN :: nat where
  "XCHACHA20POLY1305_STREAM_NONCE_LEN = 19"

definition COMP_MAGIC :: bytes where
  "COMP_MAGIC = str_bytes ''BSYNCCMP''"

definition COMP_VERSION :: byte where
  "COMP_VERSION = 1"

definition COMP_ALG_ZSTD_CHUNKED :: byte where
  "COMP_ALG_ZSTD_CHUNKED = 1"

definition MAX_DECOMPRESSED_CHUNK_BYTES :: nat where
  "MAX_DECOMPRESSED_CHUNK_BYTES = 8 * 1024 * 1024"

record blob_cipher =
  bc_key :: bytes
  bc_chunk_bytes :: nat

record blob_codec =
  cd_cipher :: "blob_cipher option"
  cd_write_compression_enabled :: bool
  cd_write_compression_chunk_bytes :: nat
  cd_write_compression_zstd_level :: int

record enc_header =
  eh_alg :: byte
  eh_nonce :: bytes

datatype probed_magic = Encrypted | Compressed | Plain

type_synonym 'o writer = "bytes \<Rightarrow> 'o \<Rightarrow> 'o io"

section \<open>Numbers on the wire\<close>

definition to_be_bytes :: "32 word \<Rightarrow> bytes" where
  "to_be_bytes n = [ucast (drop_bit 24 n), ucast (drop_bit 16 n), ucast (drop_bit 8 n), ucast n]"

definition from_be_bytes :: "bytes \<Rightarrow> 32 word" where
  "from_be_bytes bs = (push_bit 24 (ucast (bs ! 0))) OR (push_bit 16 (ucast (bs ! 1)))
    OR (push_bit 8 (ucast (bs ! 2))) OR ucast (bs ! 3)"

section \<open>Streams under a time limit\<close>

definition timed_out :: "nat \<Rightarrow> nat \<Rightarrow> bool io" where
  "timed_out timeout start = bnd get_now (\<lambda>t. ret (0 < timeout \<and> secs timeout < t - start))"

definition read_chunk :: "ext \<Rightarrow> nat \<Rightarrow> nat \<Rightarrow> nat \<Rightarrow> bytes \<Rightarrow> (bytes \<times> bytes) io" where
  "read_chunk x n timeout start h =
    bnd (timed_out timeout start) (\<lambda>late.
    if late then throw (Bail ''encryption::read_chunk timed out'') else read_some x n h)"

function copy_plain_stream :: "ext \<Rightarrow> 'o writer \<Rightarrow> nat \<Rightarrow> nat \<Rightarrow> nat \<Rightarrow> 'o \<Rightarrow> bytes \<Rightarrow> (nat \<times> 'o) io" where
  "copy_plain_stream x put timeout start tot out h =
    bnd (timed_out timeout start) (\<lambda>late.
    if late then throw (Bail ''encryption::copy_plain_stream timed out'')
    else bnd (read_some x (64 * 1024) h) (\<lambda>a.
      if fst a = [] then ret (tot, out)
      else bnd (put (fst a) out) (\<lambda>out'.
        copy_plain_stream x put timeout start (sat_add tot (length (fst a))) out' (snd a))))"
  by pat_completeness auto
termination
  by (relation "measure (\<lambda>(_, _, _, _, _, _, h). length h)") (auto dest: read_some_shrinks)

declare copy_plain_stream.simps [simp del]

text \<open>\<open>read_exact_timeout\<close>: the buffer filled so far, then what is left of the input.\<close>

function read_exact :: "ext \<Rightarrow> nat \<Rightarrow> nat \<Rightarrow> nat \<Rightarrow> bytes \<Rightarrow> bytes \<Rightarrow> (bytes \<times> bytes) io" where
  "read_exact x timeout start n buf h =
    (if length buf < n
     then bnd (timed_out timeout start) (\<lambda>late.
       if late then throw (Bail ''encryption::read_exact_timeout timed out'')
       else bnd (read_some x (n - length buf) h) (\<lambda>a.
         if fst a = [] then throw (Bail ''encryption::read_exact_timeout unexpected EOF'')
         else read_exact x timeout start n (buf @ fst a) (snd a)))
     else ret (buf, h))"
  by pat_completeness auto
termination
  by (relation "measure (\<lambda>(_, _, _, _, _, h). length h)") (auto dest: read_some_shrinks)

declare read_exact.simps [simp del]

definition write_framed_chunk :: "'o writer \<Rightarrow> bytes \<Rightarrow> bool \<Rightarrow> 'o \<Rightarrow> 'o io" where
  "write_framed_chunk put chunk is_last out =
    (if length chunk > 0x7FFFFFFF then throw (Bail ''encryption::write_framed_chunk chunk too large'')
     else let len = (word_of_nat (length chunk) :: 32 word);
              len = (if is_last then len OR 0x80000000 else len)
          in bnd (put (to_be_bytes len) out) (put chunk))"

definition read_framed_chunk :: "ext \<Rightarrow> nat \<Rightarrow> nat \<Rightarrow> bytes \<Rightarrow> ((bytes \<times> bool) \<times> bytes) io" where
  "read_framed_chunk x timeout start h =
    bnd (read_exact x timeout start 4 [] h) (\<lambda>a.
    let raw = from_be_bytes (fst a);
        is_last = (raw AND 0x80000000 \<noteq> 0);
        len = unat (raw AND 0x7FFFFFFF)
    in bnd (read_exact x timeout start len [] (snd a)) (\<lambda>b. ret ((fst b, is_last), snd b)))"

section \<open>What reading returns\<close>

lemma moves_still_timed_out: "moves still (timed_out timeout start)"
  unfolding timed_out_def by (intro still_intros)

lemma moves_still_read_exact: "moves still (read_exact x timeout start n buf h)"
proof (induction x timeout start n buf h rule: read_exact.induct)
  case (1 x timeout start n buf h)
  show ?case
    unfolding read_exact.simps [of x timeout start n buf h]
    by (intro st.moves_bnd_val st.moves_if st.moves_ret st.moves_throw moves_still_timed_out
        moves_still_read_some) (use 1 in auto)
qed

lemma read_exact_value:
  assumes "read_exact x timeout start n buf h s = (Ok (b, r), t)" and "length buf \<le> n"
  shows "length b = n \<and> buf @ h = b @ r"
  using assms
proof (induction x timeout start n buf h arbitrary: s rule: read_exact.induct)
  case (1 x timeout start n buf h)
  show ?case
  proof (cases "length buf < n")
    case False
    with "1.prems" show ?thesis by (subst (asm) read_exact.simps) (auto simp: ret_def)
  next
    case True
    with "1.prems"(1) obtain late u where l: "timed_out timeout start s = (Ok late, u)"
      and k: "(if late then throw (Bail ''encryption::read_exact_timeout timed out'')
       else bnd (read_some x (n - length buf) h) (\<lambda>a.
         if fst a = [] then throw (Bail ''encryption::read_exact_timeout unexpected EOF'')
         else read_exact x timeout start n (buf @ fst a) (snd a))) u = (Ok (b, r), t)"
      by (subst (asm) read_exact.simps) (auto elim: bnd_OkE)
    then have nl: "\<not> late" by (auto simp: throw_def)
    with k obtain c q v where a: "read_some x (n - length buf) h u = (Ok (c, q), v)" and c: "c \<noteq> []"
      and rest: "read_exact x timeout start n (buf @ c) q v = (Ok (b, r), t)"
      by (auto elim!: bnd_OkE simp: throw_def split: if_splits)
    from read_some_value [OF a] have h: "h = c @ q" and "length c \<le> n - length buf" by blast+
    with True have "length (buf @ c) \<le> n" by auto
    with "1.IH" [OF True l nl a] c rest have "length b = n \<and> (buf @ c) @ q = b @ r" by simp
    with h show ?thesis by simp
  qed
qed

lemma moves_still_read_framed: "moves still (read_framed_chunk x timeout start h)"
  unfolding read_framed_chunk_def Let_def
  by (intro st.moves_bnd st.moves_ret moves_still_read_exact)

lemma read_framed_shrinks:
  assumes "read_framed_chunk x timeout start h s = (Ok (a, r), t)"
  shows "length r < length h"
proof -
  from assms obtain l q u b v where 1: "read_exact x timeout start 4 [] h s = (Ok (l, q), u)"
    and 2: "read_exact x timeout start (unat (from_be_bytes l AND 0x7FFFFFFF)) [] q u = (Ok (b, r), v)"
    unfolding read_framed_chunk_def Let_def by (auto elim!: bnd_OkE simp: ret_def)
  from read_exact_value [OF 1] have "length h = 4 + length q" by auto
  moreover from read_exact_value [OF 2] have "length r \<le> length q" by auto
  ultimately show ?thesis by simp
qed

section \<open>Compressed payloads\<close>

definition of_option :: "string \<Rightarrow> 'a option \<Rightarrow> 'a res" where
  "of_option m a = (case a of None \<Rightarrow> Inl (Bail m) | Some b \<Rightarrow> Inr b)"

definition build_zstd_payload :: "ext \<Rightarrow> bytes \<Rightarrow> int \<Rightarrow> bytes res" where
  "build_zstd_payload x pt level =
    rbind (check (length pt \<le> 0xFFFFFFFF) ''encryption::build_zstd_payload plaintext chunk too large'') (\<lambda>_.
    let out = to_be_bytes (word_of_nat (length pt))
    in if pt \<noteq> []
       then rbind (of_option ''encryption::build_zstd_payload zstd compress failed'' (x_zstd_compress x level pt)) (\<lambda>ct.
         Inr (out @ ct))
       else Inr out)"

definition decompress_zstd_payload :: "ext \<Rightarrow> bytes \<Rightarrow> bytes res" where
  "decompress_zstd_payload x payload =
    rbind (check (4 \<le> length payload) ''encryption::decompress_zstd_payload invalid payload length'') (\<lambda>_.
    let pt_len = unat (from_be_bytes (take 4 payload))
    in rbind (check (pt_len \<le> MAX_DECOMPRESSED_CHUNK_BYTES) ''encryption::decompress_zstd_payload plaintext length exceeds max'') (\<lambda>_.
    let ct = drop 4 payload
    in if pt_len = 0 \<and> ct = [] then Inr []
       else of_option ''encryption::decompress_zstd_payload zstd decompress failed''
         (x_zstd_decompress x ct pt_len)))"

section \<open>Headers\<close>

function probe_fill :: "ext \<Rightarrow> nat \<Rightarrow> nat \<Rightarrow> bytes \<Rightarrow> bytes \<Rightarrow> (bytes \<times> bytes) io" where
  "probe_fill x timeout start magic h =
    (if length magic < 8
     then bnd (timed_out timeout start) (\<lambda>late.
       if late then throw (Bail ''encryption::probe_magic_prefix timed out'')
       else bnd (read_some x (8 - length magic) h) (\<lambda>a.
         if fst a = [] then ret (magic, h)
         else probe_fill x timeout start (magic @ fst a) (snd a)))
     else ret (magic, h))"
  by pat_completeness auto
termination
  by (relation "measure (\<lambda>(_, _, _, _, h). length h)") (auto dest: read_some_shrinks)

declare probe_fill.simps [simp del]

definition probe_magic_prefix :: "ext \<Rightarrow> nat \<Rightarrow> nat \<Rightarrow> bytes \<Rightarrow> ((probed_magic \<times> bytes) \<times> bytes) io" where
  "probe_magic_prefix x timeout start h =
    bnd (probe_fill x timeout start [] h) (\<lambda>a.
    ret (if length (fst a) < 8 then (Plain, fst a)
         else if fst a = ENC_MAGIC then (Encrypted, [])
         else if fst a = COMP_MAGIC then (Compressed, [])
         else (Plain, fst a), snd a))"

definition read_encrypted_header :: "ext \<Rightarrow> nat \<Rightarrow> nat \<Rightarrow> bytes \<Rightarrow> (enc_header \<times> bytes) io" where
  "read_encrypted_header x timeout start h =
    bnd (read_exact x timeout start 2 [] h) (\<lambda>a.
    let ver = fst a ! 0; alg = fst a ! 1
    in if ver \<noteq> ENC_VERSION then throw (Bail ''encryption::read_encrypted_header unsupported blob version'')
       else if alg \<noteq> ALG_XCHACHA20POLY1305_BE32 \<and> alg \<noteq> ALG_XCHACHA20POLY1305_BE32_ZSTD_CHUNKED
       then throw (Bail ''encryption::read_encrypted_header unsupported blob algorithm'')
       else bnd (read_exact x timeout start XCHACHA20POLY1305_STREAM_NONCE_LEN [] (snd a)) (\<lambda>b.
         ret (\<lparr>eh_alg = alg, eh_nonce = fst b\<rparr>, snd b)))"

definition read_compressed_header :: "ext \<Rightarrow> nat \<Rightarrow> nat \<Rightarrow> bytes \<Rightarrow> (byte \<times> bytes) io" where
  "read_compressed_header x timeout start h =
    bnd (read_exact x timeout start 2 [] h) (\<lambda>a.
    let ver = fst a ! 0; alg = fst a ! 1
    in if ver \<noteq> COMP_VERSION then throw (Bail ''encryption::read_compressed_header unsupported blob version'')
       else if alg \<noteq> COMP_ALG_ZSTD_CHUNKED
       then throw (Bail ''encryption::read_compressed_header unsupported blob algorithm'')
       else ret (alg, snd a))"

section \<open>Decoding streams\<close>

text \<open>
  The stream decryptor counts its segments; position and last-segment flag enter every decryption.
\<close>

definition open_segment :: "ext \<Rightarrow> bytes \<Rightarrow> enc_header \<Rightarrow> nat \<Rightarrow> bool \<Rightarrow> bytes \<Rightarrow> bytes res" where
  "open_segment x key hdr i is_last ct =
    rbind (of_option ''encryption::BlobCipher::decrypt_stream failed decrypting chunk''
      (x_open x key (eh_nonce hdr) i is_last ct)) (\<lambda>decoded.
    if eh_alg hdr = ALG_XCHACHA20POLY1305_BE32_ZSTD_CHUNKED then decompress_zstd_payload x decoded
    else Inr decoded)"

function decrypt_stream_to_writer ::
  "ext \<Rightarrow> blob_cipher \<Rightarrow> enc_header \<Rightarrow> 'o writer \<Rightarrow> nat \<Rightarrow> nat \<Rightarrow> nat \<Rightarrow> nat \<Rightarrow> 'o \<Rightarrow> bytes \<Rightarrow> (nat \<times> 'o) io" where
  "decrypt_stream_to_writer x c hdr put timeout start i tot out h =
    bnd (read_framed_chunk x timeout start h) (\<lambda>a.
    bnd (lift (open_segment x (bc_key c) hdr i (snd (fst a)) (fst (fst a)))) (\<lambda>pt.
    bnd (put pt out) (\<lambda>out'.
    if snd (fst a) then ret (sat_add tot (length pt), out')
    else decrypt_stream_to_writer x c hdr put timeout start (i + 1) (sat_add tot (length pt)) out' (snd a))))"
  by pat_completeness auto
termination
  by (relation "measure (\<lambda>(_, _, _, _, _, _, _, _, _, h). length h)") (auto dest: read_framed_shrinks)

declare decrypt_stream_to_writer.simps [simp del]

function decrypt_stream_to_hasher ::
  "ext \<Rightarrow> blob_cipher \<Rightarrow> enc_header \<Rightarrow> nat \<Rightarrow> nat \<Rightarrow> nat \<Rightarrow> bytes \<Rightarrow> bytes \<Rightarrow> bytes io" where
  "decrypt_stream_to_hasher x c hdr timeout start i hasher h =
    bnd (read_framed_chunk x timeout start h) (\<lambda>a.
    bnd (lift (open_segment x (bc_key c) hdr i (snd (fst a)) (fst (fst a)))) (\<lambda>pt.
    if snd (fst a) then ret (hasher @ pt)
    else decrypt_stream_to_hasher x c hdr timeout start (i + 1) (hasher @ pt) (snd a)))"
  by pat_completeness auto
termination
  by (relation "measure (\<lambda>(_, _, _, _, _, _, _, h). length h)") (auto dest: read_framed_shrinks)

declare decrypt_stream_to_hasher.simps [simp del]

function decompress_stream_to_writer ::
  "ext \<Rightarrow> 'o writer \<Rightarrow> nat \<Rightarrow> nat \<Rightarrow> nat \<Rightarrow> 'o \<Rightarrow> bytes \<Rightarrow> (nat \<times> 'o) io" where
  "decompress_stream_to_writer x put timeout start tot out h =
    bnd (read_framed_chunk x timeout start h) (\<lambda>a.
    bnd (lift (decompress_zstd_payload x (fst (fst a)))) (\<lambda>pt.
    bnd (put pt out) (\<lambda>out'.
    if snd (fst a) then ret (sat_add tot (length pt), out')
    else decompress_stream_to_writer x put timeout start (sat_add tot (length pt)) out' (snd a))))"
  by pat_completeness auto
termination
  by (relation "measure (\<lambda>(_, _, _, _, _, _, h). length h)") (auto dest: read_framed_shrinks)

declare decompress_stream_to_writer.simps [simp del]

function decompress_stream_to_hasher :: "ext \<Rightarrow> nat \<Rightarrow> nat \<Rightarrow> bytes \<Rightarrow> bytes \<Rightarrow> bytes io" where
  "decompress_stream_to_hasher x timeout start hasher h =
    bnd (read_framed_chunk x timeout start h) (\<lambda>a.
    bnd (lift (decompress_zstd_payload x (fst (fst a)))) (\<lambda>pt.
    if snd (fst a) then ret (hasher @ pt)
    else decompress_stream_to_hasher x timeout start (hasher @ pt) (snd a)))"
  by pat_completeness auto
termination
  by (relation "measure (\<lambda>(_, _, _, _, h). length h)") (auto dest: read_framed_shrinks)

declare decompress_stream_to_hasher.simps [simp del]

section \<open>Encoding streams\<close>

lemma read_chunk_value:
  "read_chunk x n timeout start h s = (Ok (c, r), t) \<Longrightarrow>
    h = c @ r \<and> length c \<le> n \<and> (c = [] \<longleftrightarrow> n = 0 \<or> h = [])"
  unfolding read_chunk_def
  by (erule bnd_OkE) (auto simp: throw_def split: if_splits dest: read_some_value)

lemma read_chunk_shrinks:
  assumes "read_chunk x n timeout start h s = (Ok (c, r), t)" and "c \<noteq> []"
  shows "length r < length h"
proof -
  from read_chunk_value [OF assms(1)] have "length h = length c + length r" by auto
  with assms(2) show ?thesis by simp
qed

definition segment_payload :: "ext \<Rightarrow> int option \<Rightarrow> bytes \<Rightarrow> bytes res" where
  "segment_payload x zstd_level pt = (case zstd_level of None \<Rightarrow> Inr pt | Some level \<Rightarrow> build_zstd_payload x pt level)"

definition seal_segment :: "ext \<Rightarrow> bytes \<Rightarrow> bytes \<Rightarrow> int option \<Rightarrow> nat \<Rightarrow> bool \<Rightarrow> bytes \<Rightarrow> bytes res" where
  "seal_segment x key nonce zstd_level i is_last pt =
    rbind (segment_payload x zstd_level pt) (\<lambda>payload.
    of_option ''encryption::encrypt_file_to_writer_enc_stream failed encrypting chunk''
      (x_seal x key nonce i is_last payload))"

text \<open>
  The double-buffered loop: the current chunk is sealed once the next read has told whether it is the
  last one.
\<close>

function encrypt_loop ::
  "ext \<Rightarrow> bytes \<Rightarrow> bytes \<Rightarrow> int option \<Rightarrow> 'o writer \<Rightarrow> nat \<Rightarrow> nat \<Rightarrow> nat \<Rightarrow> nat \<Rightarrow> nat \<Rightarrow> bytes \<Rightarrow> 'o \<Rightarrow> bytes
    \<Rightarrow> (nat \<times> 'o) io" where
  "encrypt_loop x key nonce level put chunk timeout start i tot cur out h =
    bnd (read_chunk x chunk timeout start h) (\<lambda>b.
    bnd (lift (seal_segment x key nonce level i (fst b = []) cur)) (\<lambda>ct.
    bnd (write_framed_chunk put ct (fst b = []) out) (\<lambda>out'.
    if fst b = [] then ret (sat_add tot (length cur), out')
    else encrypt_loop x key nonce level put chunk timeout start (i + 1) (sat_add tot (length cur)) (fst b) out' (snd b))))"
  by pat_completeness auto
termination
  by (relation "measure (\<lambda>(_, _, _, _, _, _, _, _, _, _, _, _, h). length h)") (auto dest: read_chunk_shrinks)

declare encrypt_loop.simps [simp del]

definition encrypt_file_to_writer_enc_stream ::
  "ext \<Rightarrow> path \<Rightarrow> 'o writer \<Rightarrow> nat \<Rightarrow> nat \<Rightarrow> bytes \<Rightarrow> byte \<Rightarrow> int option \<Rightarrow> 'o \<Rightarrow> (nat \<times> 'o) io" where
  "encrypt_file_to_writer_enc_stream x src put timeout chunk_bytes key alg level out =
    bnd get_now (\<lambda>start.
    bnd (read_file src) (\<lambda>h.
    bnd get_now (\<lambda>t.
    let nonce = x_random x t XCHACHA20POLY1305_STREAM_NONCE_LEN in
    bnd (put ENC_MAGIC out) (\<lambda>out1.
    bnd (put [ENC_VERSION, alg] out1) (\<lambda>out2.
    bnd (put nonce out2) (\<lambda>out3.
    bnd (read_chunk x (max chunk_bytes 1) timeout start h) (\<lambda>a.
    if fst a = []
    then bnd (lift (seal_segment x key nonce level 0 True [])) (\<lambda>ct.
      bnd (write_framed_chunk put ct True out3) (\<lambda>out4. ret (0, out4)))
    else encrypt_loop x key nonce level put (max chunk_bytes 1) timeout start 0 0 (fst a) out3 (snd a))))))))"

definition copy_plain_file_to_writer :: "ext \<Rightarrow> path \<Rightarrow> 'o writer \<Rightarrow> nat \<Rightarrow> 'o \<Rightarrow> (nat \<times> 'o) io" where
  "copy_plain_file_to_writer x src put timeout out =
    bnd get_now (\<lambda>start.
    bnd (read_file src) (\<lambda>h. copy_plain_stream x put timeout start 0 out h))"

function compress_loop ::
  "ext \<Rightarrow> int \<Rightarrow> 'o writer \<Rightarrow> nat \<Rightarrow> nat \<Rightarrow> nat \<Rightarrow> nat \<Rightarrow> bytes \<Rightarrow> 'o \<Rightarrow> bytes \<Rightarrow> (nat \<times> 'o) io" where
  "compress_loop x level put chunk timeout start tot cur out h =
    bnd (read_chunk x chunk timeout start h) (\<lambda>b.
    bnd (lift (build_zstd_payload x cur level)) (\<lambda>payload.
    bnd (write_framed_chunk put payload (fst b = []) out) (\<lambda>out'.
    if fst b = [] then ret (sat_add tot (length cur), out')
    else compress_loop x level put chunk timeout start (sat_add tot (length cur)) (fst b) out' (snd b))))"
  by pat_completeness auto
termination
  by (relation "measure (\<lambda>(_, _, _, _, _, _, _, _, _, h). length h)") (auto dest: read_chunk_shrinks)

declare compress_loop.simps [simp del]

definition compress_file_to_writer_zstd_chunked ::
  "ext \<Rightarrow> path \<Rightarrow> 'o writer \<Rightarrow> nat \<Rightarrow> nat \<Rightarrow> int \<Rightarrow> 'o \<Rightarrow> (nat \<times> 'o) io" where
  "compress_file_to_writer_zstd_chunked x src put timeout chunk_bytes level out =
    bnd get_now (\<lambda>start.
    bnd (read_file src) (\<lambda>h.
    bnd (put COMP_MAGIC out) (\<lambda>out1.
    bnd (put [COMP_VERSION, COMP_ALG_ZSTD_CHUNKED] out1) (\<lambda>out2.
    bnd (read_chunk x (max chunk_bytes 1) timeout start h) (\<lambda>a.
    if fst a = []
    then bnd (lift (build_zstd_payload x [] level)) (\<lambda>payload.
      bnd (write_framed_chunk put payload True out2) (\<lambda>out3. ret (0, out3)))
    else compress_loop x level put (max chunk_bytes 1) timeout start 0 (fst a) out2 (snd a))))))"

section \<open>The codec\<close>

definition encrypt_file_to_writer :: "ext \<Rightarrow> blob_cipher \<Rightarrow> path \<Rightarrow> 'o writer \<Rightarrow> nat \<Rightarrow> 'o \<Rightarrow> (nat \<times> 'o) io" where
  "encrypt_file_to_writer x c src put timeout out =
    encrypt_file_to_writer_enc_stream x src put timeout (bc_chunk_bytes c) (bc_key c)
      ALG_XCHACHA20POLY1305_BE32 None out"

definition encrypt_file_to_writer_zstd_chunked ::
  "ext \<Rightarrow> blob_cipher \<Rightarrow> path \<Rightarrow> 'o writer \<Rightarrow> nat \<Rightarrow> int \<Rightarrow> 'o \<Rightarrow> (nat \<times> 'o) io" where
  "encrypt_file_to_writer_zstd_chunked x c src put timeout level out =
    encrypt_file_to_writer_enc_stream x src put timeout (bc_chunk_bytes c) (bc_key c)
      ALG_XCHACHA20POLY1305_BE32_ZSTD_CHUNKED (Some level) out"

definition write_blob_from_file_to_writer ::
  "ext \<Rightarrow> blob_codec \<Rightarrow> path \<Rightarrow> 'o writer \<Rightarrow> nat \<Rightarrow> 'o \<Rightarrow> (nat \<times> 'o) io" where
  "write_blob_from_file_to_writer x cd src put timeout out =
    (case cd_cipher cd of
      Some c \<Rightarrow>
        if cd_write_compression_enabled cd
        then encrypt_file_to_writer_zstd_chunked x c src put timeout (cd_write_compression_zstd_level cd) out
        else encrypt_file_to_writer x c src put timeout out
    | None \<Rightarrow>
        if cd_write_compression_enabled cd
        then compress_file_to_writer_zstd_chunked x src put timeout
          (cd_write_compression_chunk_bytes cd) (cd_write_compression_zstd_level cd) out
        else copy_plain_file_to_writer x src put timeout out)"

definition copy_blob_plaintext_to_writer ::
  "ext \<Rightarrow> blob_codec \<Rightarrow> path \<Rightarrow> 'o writer \<Rightarrow> nat \<Rightarrow> 'o \<Rightarrow> (nat \<times> 'o) io" where
  "copy_blob_plaintext_to_writer x cd bp put timeout out =
    bnd get_now (\<lambda>start.
    bnd (read_file bp) (\<lambda>h.
    bnd (probe_magic_prefix x timeout start h) (\<lambda>a.
    case fst (fst a) of
      Encrypted \<Rightarrow> (case cd_cipher cd of
          None \<Rightarrow> throw (Bail ''encryption::copy_blob_plaintext_to_writer encountered encrypted blob'')
        | Some c \<Rightarrow> bnd (read_encrypted_header x timeout start (snd a)) (\<lambda>b.
            decrypt_stream_to_writer x c (fst b) put timeout start 0 0 out (snd b)))
    | Compressed \<Rightarrow> bnd (read_compressed_header x timeout start (snd a)) (\<lambda>b.
        decompress_stream_to_writer x put timeout start 0 out (snd b))
    | Plain \<Rightarrow> bnd (if snd (fst a) \<noteq> [] then put (snd (fst a)) out else ret out) (\<lambda>out1.
        bnd (copy_plain_stream x put timeout start 0 out1 (snd a)) (\<lambda>b.
        ret (sat_add (fst b) (length (snd (fst a))), snd b))))))"

function hash_plain_stream :: "ext \<Rightarrow> nat \<Rightarrow> nat \<Rightarrow> bytes \<Rightarrow> bytes \<Rightarrow> bytes io" where
  "hash_plain_stream x timeout start hasher h =
    bnd (timed_out timeout start) (\<lambda>late.
    if late then throw (Bail ''encryption::sha256_plaintext_blob timed out'')
    else bnd (read_some x (64 * 1024) h) (\<lambda>a.
      if fst a = [] then ret hasher
      else hash_plain_stream x timeout start (hasher @ fst a) (snd a)))"
  by pat_completeness auto
termination
  by (relation "measure (\<lambda>(_, _, _, _, h). length h)") (auto dest: read_some_shrinks)

declare hash_plain_stream.simps [simp del]

definition sha256_plaintext_blob :: "ext \<Rightarrow> blob_codec \<Rightarrow> path \<Rightarrow> nat \<Rightarrow> string io" where
  "sha256_plaintext_blob x cd bp timeout =
    bnd get_now (\<lambda>start.
    bnd (read_file bp) (\<lambda>h.
    bnd (probe_magic_prefix x timeout start h) (\<lambda>a.
    bnd (case fst (fst a) of
        Encrypted \<Rightarrow> (case cd_cipher cd of
            None \<Rightarrow> throw (Bail ''encryption::sha256_plaintext_blob encountered encrypted blob'')
          | Some c \<Rightarrow> bnd (read_encrypted_header x timeout start (snd a)) (\<lambda>b.
              decrypt_stream_to_hasher x c (fst b) timeout start 0 [] (snd b)))
      | Compressed \<Rightarrow> bnd (read_compressed_header x timeout start (snd a)) (\<lambda>b.
          decompress_stream_to_hasher x timeout start [] (snd b))
      | Plain \<Rightarrow> hash_plain_stream x timeout start (snd (fst a)) (snd a)) (\<lambda>hashed.
    ret (hex_lower (x_sha256 x hashed))))))"

definition cipher_from_config :: "ext \<Rightarrow> config \<Rightarrow> blob_cipher option io" where
  "cipher_from_config x cfg =
    (if \<not> ec_enabled (cf_encryption cfg) then ret None
     else bnd (lift (resolve_key_path x cfg)) (\<lambda>kp.
       case ec_key_id (cf_encryption cfg) of
         None \<Rightarrow> throw (Bail ''encryption::BlobCipher::from_config encryption enabled but encryption.key_id is missing'')
       | Some expected \<Rightarrow> bnd (load_key_file x kp) (\<lambda>info.
           if ki_key_id info \<noteq> expected then throw (Bail ''encryption::BlobCipher::from_config key_id mismatch'')
           else ret (Some \<lparr>bc_key = ki_key info,
             bc_chunk_bytes = (if cc_enabled (cf_compression cfg) then max (cc_blob_chunk_bytes (cf_compression cfg)) 1
               else max (ec_blob_chunk_bytes (cf_encryption cfg)) 1)\<rparr>))))"

definition codec_from_config :: "ext \<Rightarrow> config \<Rightarrow> blob_codec io" where
  "codec_from_config x cfg =
    bnd (cipher_from_config x cfg) (\<lambda>c.
    ret \<lparr>cd_cipher = c, cd_write_compression_enabled = cc_enabled (cf_compression cfg),
      cd_write_compression_chunk_bytes = max (cc_blob_chunk_bytes (cf_compression cfg)) 1,
      cd_write_compression_zstd_level = cc_zstd_level (cf_compression cfg)\<rparr>)"

end
