(* ===== verification/Codec_Laws.thy ===== *)
theory Codec_Laws
  imports Blob_Codec
begin

unbundle bit_operations_syntax

text \<open>
  What the blob codec promises. \<open>decode_blob\<close> is the specification: the plaintext an encoded blob
  stands for, as a pure function of its bytes. Every reader of the code computes it, whatever the sizes
  of the reads it gets; every writer produces bytes that decode to the source. The readers and writers
  are verified once, against the interface \<open>byte_writer\<close> of the stream they write to.
\<close>

section \<open>Frames\<close>

lemma be_roundtrip: "from_be_bytes (to_be_bytes n) = n"
proof (rule bit_word_eqI)
  fix i assume i: "i < LENGTH(32)"
  consider "i < 8" | "8 \<le> i" "i < 16" | "16 \<le> i" "i < 24" | "24 \<le> i" by linarith
  then show "bit (from_be_bytes (to_be_bytes n)) i = bit n i"
    by cases (use i in \<open>auto simp: from_be_bytes_def to_be_bytes_def bit_simps\<close>)
qed

lemma bit_flag: "bit (0x80000000 :: 32 word) i \<longleftrightarrow> i = 31"
proof -
  have "(0x80000000 :: 32 word) = 2 ^ 31" by simp
  then show ?thesis by (simp only: bit_exp_iff) auto
qed

lemma bit_rest: "bit (0x7FFFFFFF :: 32 word) i \<longleftrightarrow> i < 31"
proof -
  have "(0x7FFFFFFF :: 32 word) = mask 31" by (simp add: mask_eq_exp_minus_1)
  then show ?thesis by (simp only: bit_mask_iff) auto
qed

lemma flag_bits:
  fixes n :: "32 word"
  assumes "take_bit 31 n = n"
  shows "(n OR 0x80000000) AND 0x7FFFFFFF = n" "n AND 0x7FFFFFFF = n"
    "(n OR 0x80000000) AND 0x80000000 \<noteq> 0" "n AND 0x80000000 = 0"
proof -
  have b: "bit n i \<Longrightarrow> i < 31" for i using assms by (metis bit_take_bit_iff)
  note bits = bit_and_iff bit_or_iff bit_flag bit_rest
  show "(n OR 0x80000000) AND 0x7FFFFFFF = n" "n AND 0x7FFFFFFF = n" "n AND 0x80000000 = 0"
    by (rule bit_word_eqI, simp only: bits bit_0_eq bot_apply bot_bool_def, use b in blast)+
  have "bit ((n OR 0x80000000) AND 0x80000000) 31" by (simp only: bits) simp
  then show "(n OR 0x80000000) AND 0x80000000 \<noteq> 0" by (metis bit_0_eq bot_apply bot_bool_def)
qed

lemma len31:
  assumes "k \<le> 0x7FFFFFFF"
  shows "take_bit 31 (word_of_nat k :: 32 word) = word_of_nat k" "unat (word_of_nat k :: 32 word) = k"
proof -
  show k: "unat (word_of_nat k :: 32 word) = k" using assms by (simp add: unat_of_nat take_bit_eq_mod)
  show "take_bit 31 (word_of_nat k :: 32 word) = word_of_nat k"
    by (rule unsigned_word_eqI [where ?'a = nat]) (use assms k in \<open>simp only: unsigned_take_bit_eq k\<close>, simp add: take_bit_eq_mod)
qed

definition frame :: "bytes \<Rightarrow> bool \<Rightarrow> bytes" where
  "frame c l = to_be_bytes (if l then word_of_nat (length c) OR 0x80000000 else word_of_nat (length c)) @ c"

definition parse_frame :: "bytes \<Rightarrow> ((bytes \<times> bool) \<times> bytes) option" where
  "parse_frame h =
    (let raw = from_be_bytes (take 4 h); len = unat (raw AND 0x7FFFFFFF); body = drop 4 h
     in if length h < 4 \<or> length body < len then None
        else Some ((take len body, raw AND 0x80000000 \<noteq> 0), drop len body))"

lemma length_to_be_bytes [simp]: "length (to_be_bytes n) = 4"
  by (simp add: to_be_bytes_def)

lemma parse_frame_frame:
  assumes "length c \<le> 0x7FFFFFFF"
  shows "parse_frame (frame c l @ r) = Some ((c, l), r)"
proof -
  let ?n = "if l then word_of_nat (length c) OR 0x80000000 else word_of_nat (length c) :: 32 word"
  note b = flag_bits [OF len31(1) [OF assms]] and u = len31(2) [OF assms]
  have "take 4 (frame c l @ r) = to_be_bytes ?n" "drop 4 (frame c l @ r) = c @ r"
    by (simp_all add: frame_def)
  moreover have "unat (?n AND 0x7FFFFFFF) = length c" "(?n AND 0x80000000 \<noteq> 0) = l"
    using b u by simp_all
  ultimately show ?thesis
    unfolding parse_frame_def Let_def be_roundtrip by (simp add: be_roundtrip frame_def)
qed

lemma parse_frame_shrinks: "parse_frame h = Some (a, r) \<Longrightarrow> length r < length h"
  by (auto simp: parse_frame_def Let_def split: if_splits)

lemma parse_frame_rest: "parse_frame h = Some a \<Longrightarrow> length (snd a) < length h"
  by (rule parse_frame_shrinks [of h "fst a"]) simp

lemma read_framed_value:
  assumes "read_framed_chunk x timeout start h s = (Ok a, t)"
  shows "parse_frame h = Some a"
proof -
  from assms [unfolded read_framed_chunk_def Let_def] obtain m u
    where 1: "read_exact x timeout start 4 [] h s = (Ok m, u)"
      and k: "bnd (read_exact x timeout start (unat (from_be_bytes (fst m) AND 0x7FFFFFFF)) [] (snd m))
        (\<lambda>b. ret ((fst b, from_be_bytes (fst m) AND 0x80000000 \<noteq> 0), snd b)) u = (Ok a, t)"
    by (rule bnd_OkE)
  from k obtain b v
    where 2: "read_exact x timeout start (unat (from_be_bytes (fst m) AND 0x7FFFFFFF)) [] (snd m) u = (Ok b, v)"
      and "ret ((fst b, from_be_bytes (fst m) AND 0x80000000 \<noteq> 0), snd b) v = (Ok a, t)"
    by (rule bnd_OkE)
  then have a: "a = ((fst b, from_be_bytes (fst m) AND 0x80000000 \<noteq> 0), snd b)" by (simp add: ret_def)
  from read_exact_value [of x timeout start 4 "[]" h s "fst m" "snd m" u] 1
  have h: "h = fst m @ snd m" "length (fst m) = 4" by simp_all
  from read_exact_value [of x timeout start _ "[]" "snd m" u "fst b" "snd b" v] 2
  have q: "snd m = fst b @ snd b" "length (fst b) = unat (from_be_bytes (fst m) AND 0x7FFFFFFF)"
    by simp_all
  show ?thesis unfolding parse_frame_def Let_def a using h q by simp
qed

section \<open>The specification\<close>

function decode_frames :: "(nat \<Rightarrow> bool \<Rightarrow> bytes \<Rightarrow> bytes res) \<Rightarrow> nat \<Rightarrow> bytes \<Rightarrow> bytes option" where
  "decode_frames dec i h = (case parse_frame h of
      None \<Rightarrow> None
    | Some (a, r) \<Rightarrow> (case dec i (snd a) (fst a) of
        Inl _ \<Rightarrow> None
      | Inr pt \<Rightarrow> if snd a then Some pt else map_option ((@) pt) (decode_frames dec (i + 1) r)))"
  by pat_completeness auto
termination
  by (relation "measure (\<lambda>(_, _, h). length h)") (auto dest: parse_frame_shrinks)

declare decode_frames.simps [simp del]

definition decode_blob :: "ext \<Rightarrow> blob_cipher option \<Rightarrow> bytes \<Rightarrow> bytes option" where
  "decode_blob x c h =
    (if take 8 h = ENC_MAGIC then (case c of
        None \<Rightarrow> None
      | Some c \<Rightarrow>
          if length h < 29 \<or> h ! 8 \<noteq> ENC_VERSION
            \<or> (h ! 9 \<noteq> ALG_XCHACHA20POLY1305_BE32 \<and> h ! 9 \<noteq> ALG_XCHACHA20POLY1305_BE32_ZSTD_CHUNKED)
          then None
          else decode_frames (open_segment x (bc_key c) \<lparr>eh_alg = h ! 9, eh_nonce = take 19 (drop 10 h)\<rparr>) 0 (drop 29 h))
     else if take 8 h = COMP_MAGIC then
       if length h < 10 \<or> h ! 8 \<noteq> COMP_VERSION \<or> h ! 9 \<noteq> COMP_ALG_ZSTD_CHUNKED then None
       else decode_frames (\<lambda>_ _. decompress_zstd_payload x) 0 (drop 10 h)
     else Some h)"

lemma length_magic [simp]: "length ENC_MAGIC = 8" "length COMP_MAGIC = 8"
  by (simp_all add: ENC_MAGIC_def COMP_MAGIC_def str_bytes_def)

lemma magic_differ: "ENC_MAGIC \<noteq> COMP_MAGIC"
proof
  assume "ENC_MAGIC = COMP_MAGIC"
  from str_bytes_inj [OF this [unfolded ENC_MAGIC_def COMP_MAGIC_def]] show False by simp
qed

section \<open>Headers\<close>

lemma moves_still_probe_fill: "moves still (probe_fill x timeout start magic h)"
proof (induction x timeout start magic h rule: probe_fill.induct)
  case (1 x timeout start magic h)
  show ?case
    unfolding probe_fill.simps [of x timeout start magic h]
    by (intro st.moves_bnd_val st.moves_if st.moves_ret st.moves_throw moves_still_timed_out
        moves_still_read_some) (use 1 in auto)
qed

lemma probe_fill_value:
  assumes "probe_fill x timeout start magic h s = (Ok (m, r), t)" and "length magic \<le> 8"
  shows "m = take 8 (magic @ h) \<and> r = drop 8 (magic @ h)"
  using assms
proof (induction x timeout start magic h arbitrary: s rule: probe_fill.induct)
  case (1 x timeout start magic h)
  show ?case
  proof (cases "length magic < 8")
    case False
    with "1.prems" show ?thesis by (subst (asm) probe_fill.simps) (simp add: ret_def)
  next
    case True
    with "1.prems"(1) obtain late u where l: "timed_out timeout start s = (Ok late, u)"
      and k: "(if late then throw (Bail ''encryption::probe_magic_prefix timed out'')
       else bnd (read_some x (8 - length magic) h) (\<lambda>a.
         if fst a = [] then ret (magic, h)
         else probe_fill x timeout start (magic @ fst a) (snd a))) u = (Ok (m, r), t)"
      by (subst (asm) probe_fill.simps) (auto elim: bnd_OkE)
    then have nl: "\<not> late" by (auto simp: throw_def)
    with k obtain c q v where a: "read_some x (8 - length magic) h u = (Ok (c, q), v)"
      and rest: "(if c = [] then ret (magic, h) else probe_fill x timeout start (magic @ c) q) v = (Ok (m, r), t)"
      by (auto elim!: bnd_OkE cong: if_cong)
    from read_some_value [OF a] have h: "h = c @ q" "length c \<le> 8 - length magic"
      and e: "c = [] \<longleftrightarrow> 8 - length magic = 0 \<or> h = []" by blast+
    show ?thesis
    proof (cases "c = []")
      case c: True
      with e True have "h = []" by simp
      with rest c True show ?thesis by (simp add: ret_def)
    next
      case False
      with rest have "probe_fill x timeout start (magic @ c) q v = (Ok (m, r), t)" by simp
      moreover have "length (magic @ c) \<le> 8" using h(2) True by simp
      ultimately have "m = take 8 ((magic @ c) @ q) \<and> r = drop 8 ((magic @ c) @ q)"
        using "1.IH" [OF True l nl a] False unfolding fst_conv snd_conv by blast
      then show ?thesis unfolding h(1) append_assoc .
    qed
  qed
qed

lemma moves_still_probe_magic: "moves still (probe_magic_prefix x timeout start h)"
  unfolding probe_magic_prefix_def by (intro st.moves_bnd st.moves_ret moves_still_probe_fill)

lemma probe_magic_value:
  assumes "probe_magic_prefix x timeout start h s = (Ok ((k, p), r), t)"
  shows "(k = Encrypted \<and> p = [] \<and> take 8 h = ENC_MAGIC \<and> r = drop 8 h)
    \<or> (k = Compressed \<and> p = [] \<and> take 8 h = COMP_MAGIC \<and> r = drop 8 h)
    \<or> (k = Plain \<and> take 8 h \<noteq> ENC_MAGIC \<and> take 8 h \<noteq> COMP_MAGIC \<and> p @ r = h)"
proof -
  from assms [unfolded probe_magic_prefix_def] obtain a u where f: "probe_fill x timeout start [] h s = (Ok a, u)"
    and e: "ret (if length (fst a) < 8 then (Plain, fst a) else if fst a = ENC_MAGIC then (Encrypted, [])
         else if fst a = COMP_MAGIC then (Compressed, []) else (Plain, fst a), snd a) u = (Ok ((k, p), r), t)"
    by (rule bnd_OkE)
  from probe_fill_value [of x timeout start "[]" h s "fst a" "snd a" u] f
  have m: "fst a = take 8 h" "snd a = drop 8 h" by simp_all
  have short: "length (take 8 h) < 8 \<Longrightarrow> take 8 h \<noteq> ENC_MAGIC \<and> take 8 h \<noteq> COMP_MAGIC"
    by (metis length_magic less_irrefl)
  note c = e [unfolded m ret_Ok_iff prod.inject, THEN conjunct1]
  note k = c [THEN conjunct1] and r = c [THEN conjunct2, symmetric]
  show ?thesis
  proof (cases "take 8 h = ENC_MAGIC \<or> take 8 h = COMP_MAGIC")
    case True
    with short k r magic_differ show ?thesis by (metis (full_types) prod.inject)
  next
    case False
    with k have "k = Plain" "p = take 8 h" by (auto split: if_splits)
    with False r show ?thesis by simp
  qed
qed

lemma moves_still_headers:
  "moves still (read_encrypted_header x timeout start h)"
  "moves still (read_compressed_header x timeout start h)"
  unfolding read_encrypted_header_def read_compressed_header_def Let_def
  by (intro st.moves_bnd st.moves_if st.moves_ret st.moves_throw moves_still_read_exact)+

lemma two_bytes: "length m = 2 \<Longrightarrow> h = m @ q \<Longrightarrow> m ! 0 = h ! 0 \<and> m ! 1 = h ! 1 \<and> q = drop 2 h"
  by (auto simp: nth_append)

lemma encrypted_header_value:
  assumes "read_encrypted_header x timeout start h s = (Ok (eh, r), t)"
  shows "21 \<le> length h \<and> h ! 0 = ENC_VERSION \<and> eh = \<lparr>eh_alg = h ! 1, eh_nonce = take 19 (drop 2 h)\<rparr>
    \<and> (h ! 1 = ALG_XCHACHA20POLY1305_BE32 \<or> h ! 1 = ALG_XCHACHA20POLY1305_BE32_ZSTD_CHUNKED) \<and> r = drop 21 h"
proof -
  from assms obtain m q u n v where 1: "read_exact x timeout start 2 [] h s = (Ok (m, q), u)"
    and 2: "read_exact x timeout start 19 [] q u = (Ok (n, r), v)"
    and ok: "m ! 0 = ENC_VERSION" "m ! 1 = ALG_XCHACHA20POLY1305_BE32 \<or> m ! 1 = ALG_XCHACHA20POLY1305_BE32_ZSTD_CHUNKED"
    and eh: "eh = \<lparr>eh_alg = m ! 1, eh_nonce = n\<rparr>"
    unfolding read_encrypted_header_def Let_def XCHACHA20POLY1305_STREAM_NONCE_LEN_def
    by (auto elim!: bnd_OkE simp: ret_def throw_def split: if_splits)
  from read_exact_value [OF 1] have m: "length m = 2" "h = m @ q" by simp_all
  from read_exact_value [OF 2] have n: "length n = 19" "q = n @ r" by simp_all
  from two_bytes [OF m] have i: "m ! 0 = h ! 0" "m ! 1 = h ! 1" "q = drop 2 h" by blast+
  have "n = take 19 q" "r = drop 19 q" using n by simp_all
  with i(3) have "n = take 19 (drop 2 h)" "r = drop 21 h" by simp_all
  moreover have "21 \<le> length h" using m n by simp
  ultimately show ?thesis using i(1,2) ok eh by simp
qed

lemma compressed_header_value:
  assumes "read_compressed_header x timeout start h s = (Ok (a, r), t)"
  shows "2 \<le> length h \<and> h ! 0 = COMP_VERSION \<and> h ! 1 = COMP_ALG_ZSTD_CHUNKED \<and> r = drop 2 h"
proof -
  from assms obtain m u where 1: "read_exact x timeout start 2 [] h s = (Ok (m, r), u)"
    and ok: "m ! 0 = COMP_VERSION" "m ! 1 = COMP_ALG_ZSTD_CHUNKED"
    unfolding read_compressed_header_def Let_def
    by (auto elim!: bnd_OkE simp: ret_def throw_def split: if_splits)
  from read_exact_value [OF 1] have m: "length m = 2" "h = m @ r" by simp_all
  from two_bytes [OF m] ok m show ?thesis by auto
qed

section \<open>Hashing readers\<close>

lemma decode_frames_step:
  "parse_frame h = Some (a, r) \<Longrightarrow> dec i (snd a) (fst a) = Inr pt \<Longrightarrow>
    decode_frames dec i h = (if snd a then Some pt else map_option ((@) pt) (decode_frames dec (i + 1) r))"
  by (subst decode_frames.simps) simp

lemma decode_frames_SomeE:
  assumes "decode_frames dec i h = Some pt"
  obtains a p where "parse_frame h = Some a" and "dec i (snd (fst a)) (fst (fst a)) = Inr p"
    and "(if snd (fst a) then Some p else map_option ((@) p) (decode_frames dec (i + 1) (snd a))) = Some pt"
proof (cases "parse_frame h")
  case None
  with assms show thesis by (simp add: decode_frames.simps [of dec i h])
next
  case (Some a)
  show thesis
  proof (cases "dec i (snd (fst a)) (fst (fst a))")
    case (Inl e)
    with assms Some show thesis by (simp add: decode_frames.simps [of dec i h] split: prod.splits)
  next
    case (Inr p)
    with decode_frames_step [of h "fst a" "snd a" dec i p] Some assms show thesis
      by (intro that [of a p]) simp_all
  qed
qed

lemma decrypt_hasher_value:
  "decrypt_stream_to_hasher x c hdr timeout start i acc h s = (Ok b, t) \<Longrightarrow>
    \<exists>pt. decode_frames (open_segment x (bc_key c) hdr) i h = Some pt \<and> b = acc @ pt"
proof (induction x c hdr timeout start i acc h arbitrary: s rule: decrypt_stream_to_hasher.induct)
  case (1 x c hdr timeout start i acc h)
  from "1.prems" [unfolded decrypt_stream_to_hasher.simps [of x c hdr timeout start i acc h]]
  obtain a u where a: "read_framed_chunk x timeout start h s = (Ok a, u)"
    and k: "bnd (lift (open_segment x (bc_key c) hdr i (snd (fst a)) (fst (fst a)))) (\<lambda>pt.
      if snd (fst a) then ret (acc @ pt)
      else decrypt_stream_to_hasher x c hdr timeout start (i + 1) (acc @ pt) (snd a)) u = (Ok b, t)"
    by (rule bnd_OkE)
  from k obtain pt v where l: "lift (open_segment x (bc_key c) hdr i (snd (fst a)) (fst (fst a))) u = (Ok pt, v)"
    and m: "(if snd (fst a) then ret (acc @ pt)
      else decrypt_stream_to_hasher x c hdr timeout start (i + 1) (acc @ pt) (snd a)) v = (Ok b, t)"
    by (rule bnd_OkE)
  have "parse_frame h = Some (fst a, snd a)" using read_framed_value [OF a] by simp
  note step = decode_frames_step [OF this, where dec = "open_segment x (bc_key c) hdr" and i = i and pt = pt]
  show ?case
  proof (cases "snd (fst a)")
    case True
    with m l step show ?thesis by (simp add: ret_Ok_iff lift_Ok_iff)
  next
    case False
    with m have "decrypt_stream_to_hasher x c hdr timeout start (i + 1) (acc @ pt) (snd a) v = (Ok b, t)" by simp
    from "1.IH" [OF a l False this] obtain q
      where "decode_frames (open_segment x (bc_key c) hdr) (i + 1) (snd a) = Some q" "b = (acc @ pt) @ q" by blast
    with step l False show ?thesis by (simp add: lift_Ok_iff)
  qed
qed

lemma decompress_hasher_value:
  "decompress_stream_to_hasher x timeout start acc h s = (Ok b, t) \<Longrightarrow>
    \<exists>pt. decode_frames (\<lambda>_ _. decompress_zstd_payload x) i h = Some pt \<and> b = acc @ pt"
proof (induction x timeout start acc h arbitrary: s i rule: decompress_stream_to_hasher.induct)
  case (1 x timeout start acc h)
  from "1.prems" [unfolded decompress_stream_to_hasher.simps [of x timeout start acc h]]
  obtain a u where a: "read_framed_chunk x timeout start h s = (Ok a, u)"
    and k: "bnd (lift (decompress_zstd_payload x (fst (fst a)))) (\<lambda>pt.
      if snd (fst a) then ret (acc @ pt)
      else decompress_stream_to_hasher x timeout start (acc @ pt) (snd a)) u = (Ok b, t)"
    by (rule bnd_OkE)
  from k obtain pt v where l: "lift (decompress_zstd_payload x (fst (fst a))) u = (Ok pt, v)"
    and m: "(if snd (fst a) then ret (acc @ pt)
      else decompress_stream_to_hasher x timeout start (acc @ pt) (snd a)) v = (Ok b, t)"
    by (rule bnd_OkE)
  have "parse_frame h = Some (fst a, snd a)" using read_framed_value [OF a] by simp
  note step = decode_frames_step [OF this, where dec = "\<lambda>_ _. decompress_zstd_payload x" and i = i and pt = pt]
  show ?case
  proof (cases "snd (fst a)")
    case True
    with m l step show ?thesis by (simp add: ret_Ok_iff lift_Ok_iff)
  next
    case False
    with m have "decompress_stream_to_hasher x timeout start (acc @ pt) (snd a) v = (Ok b, t)" by simp
    from "1.IH" [OF a l False this] obtain q
      where "decode_frames (\<lambda>_ _. decompress_zstd_payload x) (i + 1) (snd a) = Some q" "b = (acc @ pt) @ q" by blast
    with step l False show ?thesis by (simp add: lift_Ok_iff)
  qed
qed

lemma hash_plain_value: "hash_plain_stream x timeout start acc h s = (Ok b, t) \<Longrightarrow> b = acc @ h"
proof (induction x timeout start acc h arbitrary: s rule: hash_plain_stream.induct)
  case (1 x timeout start acc h)
  from "1.prems" [unfolded hash_plain_stream.simps [of x timeout start acc h]]
  obtain late u where l: "timed_out timeout start s = (Ok late, u)"
    and k: "(if late then throw (Bail ''encryption::sha256_plaintext_blob timed out'')
      else bnd (read_some x (64 * 1024) h) (\<lambda>a. if fst a = [] then ret acc
        else hash_plain_stream x timeout start (acc @ fst a) (snd a))) u = (Ok b, t)"
    by (rule bnd_OkE)
  have nl: "\<not> late" using k by (auto simp: throw_def)
  with k have "bnd (read_some x (64 * 1024) h) (\<lambda>a. if fst a = [] then ret acc
        else hash_plain_stream x timeout start (acc @ fst a) (snd a)) u = (Ok b, t)" by simp
  then obtain a v where a: "read_some x (64 * 1024) h u = (Ok a, v)"
    and m: "(if fst a = [] then ret acc
        else hash_plain_stream x timeout start (acc @ fst a) (snd a)) v = (Ok b, t)" by (rule bnd_OkE)
  from read_some_value [of x _ h u "fst a" "snd a" v] a
  have h: "h = fst a @ snd a" and e: "fst a = [] \<longleftrightarrow> h = []" by auto
  show ?case
  proof (cases "fst a = []")
    case True
    with m e show ?thesis by (simp add: ret_Ok_iff)
  next
    case False
    with "1.IH" [OF l nl a False] m have "b = (acc @ fst a) @ snd a" by simp
    with h show ?thesis by simp
  qed
qed

lemma moves_still_decrypt_hasher: "moves still (decrypt_stream_to_hasher x c hdr timeout start i acc h)"
proof (induction x c hdr timeout start i acc h rule: decrypt_stream_to_hasher.induct)
  case (1 x c hdr timeout start i acc h)
  show ?case
    unfolding decrypt_stream_to_hasher.simps [of x c hdr timeout start i acc h]
    by (intro st.moves_bnd_val st.moves_if st.moves_ret st.moves_lift moves_still_read_framed)
      (use 1 in blast)
qed

lemma moves_still_decompress_hasher: "moves still (decompress_stream_to_hasher x timeout start acc h)"
proof (induction x timeout start acc h rule: decompress_stream_to_hasher.induct)
  case (1 x timeout start acc h)
  show ?case
    unfolding decompress_stream_to_hasher.simps [of x timeout start acc h]
    by (intro st.moves_bnd_val st.moves_if st.moves_ret st.moves_lift moves_still_read_framed)
      (use 1 in blast)
qed

lemma moves_still_hash_plain: "moves still (hash_plain_stream x timeout start acc h)"
proof (induction x timeout start acc h rule: hash_plain_stream.induct)
  case (1 x timeout start acc h)
  show ?case
    unfolding hash_plain_stream.simps [of x timeout start acc h]
    by (intro st.moves_bnd_val st.moves_if st.moves_ret st.moves_throw moves_still_timed_out
        moves_still_read_some) (use 1 in blast)
qed

lemma moves_case_magic:
  "(k = Encrypted \<Longrightarrow> moves R e) \<Longrightarrow> (k = Compressed \<Longrightarrow> moves R c) \<Longrightarrow> (k = Plain \<Longrightarrow> moves R p) \<Longrightarrow>
    moves R (case k of Encrypted \<Rightarrow> e | Compressed \<Rightarrow> c | Plain \<Rightarrow> p)"
  by (cases k) auto

lemma moves_still_sha256_plaintext: "moves still (sha256_plaintext_blob x cd bp timeout)"
  unfolding sha256_plaintext_blob_def
  by (intro still_intros moves_case_option moves_case_magic moves_still_probe_magic moves_still_headers
      moves_still_decrypt_hasher moves_still_decompress_hasher moves_still_hash_plain)

lemma sha256_plaintext_value:
  assumes "sha256_plaintext_blob x cd bp timeout s = (Ok hx, t)"
  shows "\<exists>raw pt u. read_file bp s = (Ok raw, u) \<and> decode_blob x (cd_cipher cd) raw = Some pt \<and> hx = sha256_hex x pt"
proof -
  from assms obtain raw u a v b w where raw: "read_file bp s = (Ok raw, u)"
    and a: "probe_magic_prefix x timeout (now s) raw u = (Ok a, v)"
    and b: "(case fst (fst a) of
        Encrypted \<Rightarrow> (case cd_cipher cd of
            None \<Rightarrow> throw (Bail ''encryption::sha256_plaintext_blob encountered encrypted blob'')
          | Some c \<Rightarrow> bnd (read_encrypted_header x timeout (now s) (snd a)) (\<lambda>b.
              decrypt_stream_to_hasher x c (fst b) timeout (now s) 0 [] (snd b)))
      | Compressed \<Rightarrow> bnd (read_compressed_header x timeout (now s) (snd a)) (\<lambda>b.
          decompress_stream_to_hasher x timeout (now s) [] (snd b))
      | Plain \<Rightarrow> hash_plain_stream x timeout (now s) (snd (fst a)) (snd a)) v = (Ok b, w)"
    and hx: "hx = hex_lower (x_sha256 x b)"
    unfolding sha256_plaintext_blob_def by (elim bnd_OkE) (auto simp: get_now_def ret_Ok_iff)
  have "probe_magic_prefix x timeout (now s) raw u = (Ok ((fst (fst a), snd (fst a)), snd a), v)"
    using a by simp
  from probe_magic_value [OF this] have "decode_blob x (cd_cipher cd) raw = Some b"
  proof (elim disjE conjE)
    assume k: "fst (fst a) = Encrypted" "take 8 raw = ENC_MAGIC" "snd a = drop 8 raw"
    with b obtain c e r z where c: "cd_cipher cd = Some c"
      and e: "read_encrypted_header x timeout (now s) (drop 8 raw) v = (Ok (e, r), z)"
      and d: "decrypt_stream_to_hasher x c e timeout (now s) 0 [] r z = (Ok b, w)"
      by (auto simp: throw_def elim!: bnd_OkE split: option.splits)
    from encrypted_header_value [OF e] decrypt_hasher_value [OF d] k c show ?thesis
      by (auto simp: decode_blob_def add.commute)
  next
    assume k: "fst (fst a) = Compressed" "take 8 raw = COMP_MAGIC" "snd a = drop 8 raw"
    with b obtain e r z where e: "read_compressed_header x timeout (now s) (drop 8 raw) v = (Ok (e, r), z)"
      and d: "decompress_stream_to_hasher x timeout (now s) [] r z = (Ok b, w)"
      by (auto elim!: bnd_OkE)
    from compressed_header_value [OF e] decompress_hasher_value [OF d, of 0] k magic_differ show ?thesis
      by (auto simp: decode_blob_def)
  next
    assume k: "fst (fst a) = Plain" "take 8 raw \<noteq> ENC_MAGIC" "take 8 raw \<noteq> COMP_MAGIC" "snd (fst a) @ snd a = raw"
    with b hash_plain_value [of x timeout "now s" "snd (fst a)" "snd a" v b w] show ?thesis
      by (simp add: decode_blob_def)
  qed
  with raw hx show ?thesis by (auto simp: sha256_hex_def)
qed

section \<open>Segments can be read back\<close>

lemma payload_roundtrip:
  assumes "zstd_ok x" and "length pt \<le> MAX_DECOMPRESSED_CHUNK_BYTES" and "build_zstd_payload x pt level = Inr p"
  shows "decompress_zstd_payload x p = Inr pt"
proof -
  have len: "unat (word_of_nat (length pt) :: 32 word) = length pt"
    by (rule len31) (use assms(2) in \<open>simp add: MAX_DECOMPRESSED_CHUNK_BYTES_def\<close>)
  show ?thesis
  proof (cases "pt = []")
    case True
    with assms(3) have "p = to_be_bytes 0" by (auto simp: build_zstd_payload_def rbind_eq_Inr)
    with be_roundtrip [of 0] True show ?thesis
      by (simp add: decompress_zstd_payload_def check_def MAX_DECOMPRESSED_CHUNK_BYTES_def)
  next
    case False
    with assms(3) obtain z where z: "x_zstd_compress x level pt = Some z"
      and p: "p = to_be_bytes (word_of_nat (length pt)) @ z"
      by (auto simp: build_zstd_payload_def rbind_eq_Inr of_option_def split: option.splits)
    from assms(1) z have "x_zstd_decompress x z (length pt) = Some pt" by (auto simp: zstd_ok_def)
    with p len assms(2) False show ?thesis
      by (simp add: decompress_zstd_payload_def check_def be_roundtrip of_option_def Let_def)
  qed
qed

text \<open>The header's algorithm byte records whether segments were compressed.\<close>

definition segment_ok :: "ext \<Rightarrow> byte \<Rightarrow> int option \<Rightarrow> bytes \<Rightarrow> bool" where
  "segment_ok x alg level pt \<longleftrightarrow> aead_ok x \<and>
    (case level of
      None \<Rightarrow> alg = ALG_XCHACHA20POLY1305_BE32
    | Some _ \<Rightarrow> alg = ALG_XCHACHA20POLY1305_BE32_ZSTD_CHUNKED \<and> zstd_ok x \<and> length pt \<le> MAX_DECOMPRESSED_CHUNK_BYTES)"

lemma seal_open:
  assumes "segment_ok x alg level pt" and "seal_segment x key nonce level i l pt = Inr ct"
  shows "open_segment x key \<lparr>eh_alg = alg, eh_nonce = nonce\<rparr> i l ct = Inr pt"
proof -
  from assms(2) obtain p where p: "segment_payload x level pt = Inr p" and c: "x_seal x key nonce i l p = Some ct"
    by (auto simp: seal_segment_def rbind_eq_Inr of_option_def split: option.splits)
  from assms(1) c have "x_open x key nonce i l ct = Some p" by (auto simp: segment_ok_def aead_ok_def)
  with p assms(1) payload_roundtrip [of x pt _ p] show ?thesis
    by (auto simp: open_segment_def of_option_def segment_payload_def segment_ok_def
        ALG_XCHACHA20POLY1305_BE32_def ALG_XCHACHA20POLY1305_BE32_ZSTD_CHUNKED_def split: option.splits)
qed

section \<open>Streams written to\<close>

text \<open>
  The interface of a writer: \<open>W b out w\<close> says that the stream, in state \<open>out\<close> of world \<open>w\<close>, has been
  given the bytes \<open>b\<close>. Putting bytes appends them, time and events do not change what was written, and
  whatever goes wrong leaves \<open>E\<close>.
\<close>

locale byte_writer =
  fixes put :: "'o writer"
    and W :: "bytes \<Rightarrow> 'o \<Rightarrow> world \<Rightarrow> bool"
    and E :: "world \<Rightarrow> bool"
  assumes put_law: "triple (W b out) (put c out) (\<lambda>out'. W (b @ c) out') E"
    and W_stable: "stable (W b out)"
    and W_E: "W b out w \<Longrightarrow> E w"
begin

lemma pass: "moves still m \<Longrightarrow> triple (W b out) m (\<lambda>_. W b out) E"
  by (rule triple_conseq [OF triple_still [OF W_stable]]) (auto intro: W_E)

lemma pass_value:
  "moves still m \<Longrightarrow> (\<And>s a t. m s = (Ok a, t) \<Longrightarrow> V a) \<Longrightarrow> triple (W b out) m (\<lambda>a w. V a \<and> W b out w) E"
  by (rule triple_conseq [OF triple_still_value [OF W_stable]]) (auto intro: W_E)

lemma stop: "triple (W b out) (throw e) Q E"
  by (rule triple_throw) (rule W_E)

lemma lifted: "triple (W b out) (lift r) (\<lambda>a w. r = Inr a \<and> W b out w) E"
  by (rule triple_lift) (auto intro: W_E)

lemma read_some_step:
  assumes "\<And>a. h = fst a @ snd a \<Longrightarrow> length (fst a) \<le> n \<Longrightarrow> (fst a = [] \<longleftrightarrow> n = 0 \<or> h = []) \<Longrightarrow>
    triple (W b out) (k a) Q E"
  shows "triple (W b out) (bnd (read_some x n h) k) Q E"
proof (rule triple_bnd)
  show "triple (W b out) (read_some x n h) (\<lambda>a w. (h = fst a @ snd a \<and> length (fst a) \<le> n
      \<and> (fst a = [] \<longleftrightarrow> n = 0 \<or> h = [])) \<and> W b out w) E"
    by (rule pass_value [OF moves_still_read_some]) (metis prod.collapse read_some_value)
qed (rule triple_pull, use assms in blast)

lemma timeout_step:
  assumes "triple (W b out) m Q E"
  shows "triple (W b out) (bnd (timed_out timeout start) (\<lambda>late. if late then throw e else m)) Q E"
  by (rule triple_bnd [OF pass [OF moves_still_timed_out]]) (intro triple_if stop assms)

lemma copy_plain:
  "triple (W b out) (copy_plain_stream x put timeout start tot out h) (\<lambda>r. W (b @ h) (snd r)) E"
proof (induction h arbitrary: tot out b rule: length_induct)
  case (1 h)
  show ?case
    unfolding copy_plain_stream.simps [of x put timeout start tot out h]
  proof (intro timeout_step read_some_step triple_if)
    fix a assume "fst a = [] \<longleftrightarrow> 64 * 1024 = (0 :: nat) \<or> h = []" and "fst a = []"
    then show "triple (W b out) (ret (tot, out)) (\<lambda>r. W (b @ h) (snd r)) E" by (simp add: triple_ret)
  next
    fix a assume h: "h = fst a @ snd a" and "fst a \<noteq> []"
    then have "length (snd a) < length h" by simp
    then have "triple (W (b @ fst a) out')
        (copy_plain_stream x put timeout start (sat_add tot (length (fst a))) out' (snd a))
        (\<lambda>r. W ((b @ fst a) @ snd a) (snd r)) E" for out'
      using 1 by blast
    with h show "triple (W b out) (bnd (put (fst a) out) (\<lambda>out'.
        copy_plain_stream x put timeout start (sat_add tot (length (fst a))) out' (snd a)))
        (\<lambda>r. W (b @ h) (snd r)) E"
      by (intro triple_bnd [OF put_law]) simp
  qed
qed

text \<open>One frame of a decoding loop.\<close>

lemma frame_step:
  assumes "\<And>a pt out'. parse_frame h = Some a \<Longrightarrow> triple (W (b @ pt) out') (k a pt out')
      (\<lambda>r w. \<exists>q. decode_frames dec (i + 1) (snd a) = Some q \<and> W ((b @ pt) @ q) (snd r) w) E"
  shows "triple (W b out) (bnd (read_framed_chunk x timeout start h) (\<lambda>a.
      bnd (lift (dec i (snd (fst a)) (fst (fst a)))) (\<lambda>pt.
      bnd (put pt out) (\<lambda>out'. if snd (fst a) then ret (f pt, out') else k a pt out'))))
    (\<lambda>r w. \<exists>q. decode_frames dec i h = Some q \<and> W (b @ q) (snd r) w) E" (is "triple _ _ ?Q E")
proof (rule triple_bnd [OF pass_value [where V = "\<lambda>a. parse_frame h = Some a"]], rule moves_still_read_framed,
    erule read_framed_value, rule triple_pull)
  fix a assume a: "parse_frame h = Some a"
  then have a': "parse_frame h = Some (fst a, snd a)" by simp
  show "triple (W b out) (bnd (lift (dec i (snd (fst a)) (fst (fst a)))) (\<lambda>pt.
      bnd (put pt out) (\<lambda>out'. if snd (fst a) then ret (f pt, out') else k a pt out'))) ?Q E"
  proof (rule triple_bnd [OF lifted], rule triple_pull, rule triple_bnd [OF put_law], rule triple_if)
    fix pt out' assume pt: "dec i (snd (fst a)) (fst (fst a)) = Inr pt"
    note step = decode_frames_step [OF a', where dec = dec and i = i, OF pt]
    show "triple (W (b @ pt) out') (ret (f pt, out')) ?Q E" if "snd (fst a)"
      using step that by (simp add: triple_ret)
    show "triple (W (b @ pt) out') (k a pt out') ?Q E" if "\<not> snd (fst a)"
      by (rule triple_conseq [OF assms [OF a]]) (use step that in auto)
  qed
qed

lemma decrypt:
  "triple (W b out) (decrypt_stream_to_writer x c hdr put timeout start i tot out h)
    (\<lambda>r w. \<exists>q. decode_frames (open_segment x (bc_key c) hdr) i h = Some q \<and> W (b @ q) (snd r) w) E"
proof (induction h arbitrary: i tot out b rule: length_induct)
  case (1 h)
  show ?case
    unfolding decrypt_stream_to_writer.simps [of x c hdr put timeout start i tot out h]
    by (rule frame_step) (rule 1 [rule_format, OF parse_frame_rest])
qed

lemma decompress:
  "triple (W b out) (decompress_stream_to_writer x put timeout start tot out h)
    (\<lambda>r w. \<exists>q. decode_frames (\<lambda>_ _. decompress_zstd_payload x) i h = Some q \<and> W (b @ q) (snd r) w) E"
proof (induction h arbitrary: i tot out b rule: length_induct)
  case (1 h)
  show ?case
    unfolding decompress_stream_to_writer.simps [of x put timeout start tot out h]
    by (rule frame_step) (rule 1 [rule_format, OF parse_frame_rest])
qed

lemma read_content:
  assumes "\<And>w raw v. W b out w \<Longrightarrow> read_file p w = (Ok raw, v) \<Longrightarrow> R raw"
  shows "triple (W b out) (read_file p) (\<lambda>raw w. R raw \<and> W b out w) E"
proof (rule tripleI)
  fix s raw t assume "W b out s" and r: "read_file p s = (Ok raw, t)"
  moreover have "still s t" by (rule movesD [OF moves_still_prims(3) r])
  ultimately show "R raw \<and> W b out t" using assms stableD [OF W_stable] by blast
qed (use movesD [OF moves_still_prims(3)] stableD [OF W_stable] W_E in blast)+

lemma decrypt_blob:
  assumes "R raw" and "take 8 raw = ENC_MAGIC"
  shows "triple (W b out) (bnd (read_encrypted_header x timeout start (drop 8 raw)) (\<lambda>a.
      decrypt_stream_to_writer x c (fst a) put timeout start 0 0 out (snd a)))
    (\<lambda>r w. \<exists>raw pt. R raw \<and> decode_blob x (Some c) raw = Some pt \<and> W (b @ pt) (snd r) w) E"
proof (rule triple_bnd [OF pass_value], rule moves_still_headers)
  let ?h = "drop 8 raw"
  let ?V = "\<lambda>a. 21 \<le> length ?h \<and> ?h ! 0 = ENC_VERSION \<and> fst a = \<lparr>eh_alg = ?h ! 1, eh_nonce = take 19 (drop 2 ?h)\<rparr>
    \<and> (?h ! 1 = ALG_XCHACHA20POLY1305_BE32 \<or> ?h ! 1 = ALG_XCHACHA20POLY1305_BE32_ZSTD_CHUNKED) \<and> snd a = drop 21 ?h"
  show "?V a" if "read_encrypted_header x timeout start ?h s = (Ok a, t)" for s a t
    by (rule encrypted_header_value) (use that in simp)
  show "triple (\<lambda>w. ?V a \<and> W b out w) (decrypt_stream_to_writer x c (fst a) put timeout start 0 0 out (snd a))
    (\<lambda>r w. \<exists>raw pt. R raw \<and> decode_blob x (Some c) raw = Some pt \<and> W (b @ pt) (snd r) w) E" for a
  proof (rule triple_pull)
    assume v: "?V a"
    then have "decode_blob x (Some c) raw = decode_frames (open_segment x (bc_key c) (fst a)) 0 (snd a)"
      using assms(2) by (auto simp: decode_blob_def add.commute)
    then show "triple (W b out) (decrypt_stream_to_writer x c (fst a) put timeout start 0 0 out (snd a))
      (\<lambda>r w. \<exists>raw pt. R raw \<and> decode_blob x (Some c) raw = Some pt \<and> W (b @ pt) (snd r) w) E"
      by (intro triple_conseq [OF decrypt]) (use assms(1) in auto)
  qed
qed

lemma decompress_blob:
  assumes "R raw" and "take 8 raw = COMP_MAGIC"
  shows "triple (W b out) (bnd (read_compressed_header x timeout start (drop 8 raw)) (\<lambda>a.
      decompress_stream_to_writer x put timeout start 0 out (snd a)))
    (\<lambda>r w. \<exists>raw pt. R raw \<and> decode_blob x c raw = Some pt \<and> W (b @ pt) (snd r) w) E"
proof (rule triple_bnd [OF pass_value], rule moves_still_headers)
  let ?h = "drop 8 raw"
  let ?V = "\<lambda>a. 2 \<le> length ?h \<and> ?h ! 0 = COMP_VERSION \<and> ?h ! 1 = COMP_ALG_ZSTD_CHUNKED \<and> snd a = drop 2 ?h"
  show "?V a" if "read_compressed_header x timeout start ?h s = (Ok a, t)" for s a t
    by (rule compressed_header_value [where a = "fst a"]) (use that in simp)
  show "triple (\<lambda>w. ?V a \<and> W b out w) (decompress_stream_to_writer x put timeout start 0 out (snd a))
    (\<lambda>r w. \<exists>raw pt. R raw \<and> decode_blob x c raw = Some pt \<and> W (b @ pt) (snd r) w) E" for a
  proof (rule triple_pull)
    assume v: "?V a"
    then have "decode_blob x c raw = decode_frames (\<lambda>_ _. decompress_zstd_payload x) 0 (snd a)"
      using assms(2) magic_differ by (auto simp: decode_blob_def)
    then show "triple (W b out) (decompress_stream_to_writer x put timeout start 0 out (snd a))
      (\<lambda>r w. \<exists>raw pt. R raw \<and> decode_blob x c raw = Some pt \<and> W (b @ pt) (snd r) w) E"
      by (intro triple_conseq [OF decompress [where i = 0]]) (use assms(1) in auto)
  qed
qed

lemma plain_blob:
  assumes "R raw" and "take 8 raw \<noteq> ENC_MAGIC" and "take 8 raw \<noteq> COMP_MAGIC" and "p @ r = raw"
  shows "triple (W b out) (bnd (if p \<noteq> [] then put p out else ret out) (\<lambda>out1.
      bnd (copy_plain_stream x put timeout start 0 out1 r) (\<lambda>a. ret (sat_add (fst a) (length p), snd a))))
    (\<lambda>r w. \<exists>raw pt. R raw \<and> decode_blob x c raw = Some pt \<and> W (b @ pt) (snd r) w) E"
proof -
  have d: "decode_blob x c raw = Some raw" using assms(2,3) by (simp add: decode_blob_def)
  have "triple (W b out) (if p \<noteq> [] then put p out else ret out) (\<lambda>out1. W (b @ p) out1) E"
    by (intro triple_if put_law) (simp add: triple_ret)
  then show ?thesis
    by (rule triple_bnd, intro triple_bnd [OF copy_plain] triple_ret)
      (use d assms(1,4) in auto)
qed

lemma copy_blob:
  assumes "\<And>w raw v. W b out w \<Longrightarrow> read_file bp w = (Ok raw, v) \<Longrightarrow> R raw"
  shows "triple (W b out) (copy_blob_plaintext_to_writer x cd bp put timeout out)
    (\<lambda>r w. \<exists>raw pt. R raw \<and> decode_blob x (cd_cipher cd) raw = Some pt \<and> W (b @ pt) (snd r) w) E"
  unfolding copy_blob_plaintext_to_writer_def
proof (rule triple_bnd [OF pass [OF moves_still_get_now]], rule triple_bnd [OF read_content [OF assms]],
    assumption, assumption, rule triple_pull)
  fix start raw assume raw: "R raw"
  let ?Q = "\<lambda>r w. \<exists>raw pt. R raw \<and> decode_blob x (cd_cipher cd) raw = Some pt \<and> W (b @ pt) (snd r) w"
  let ?V = "\<lambda>a. (fst (fst a) = Encrypted \<and> snd (fst a) = [] \<and> take 8 raw = ENC_MAGIC \<and> snd a = drop 8 raw)
    \<or> (fst (fst a) = Compressed \<and> snd (fst a) = [] \<and> take 8 raw = COMP_MAGIC \<and> snd a = drop 8 raw)
    \<or> (fst (fst a) = Plain \<and> take 8 raw \<noteq> ENC_MAGIC \<and> take 8 raw \<noteq> COMP_MAGIC \<and> snd (fst a) @ snd a = raw)"
  have V: "?V a" if "probe_magic_prefix x timeout start raw s = (Ok a, t)" for s a t
    by (rule probe_magic_value) (use that in simp)
  show "triple (W b out) (bnd (probe_magic_prefix x timeout start raw) (\<lambda>a. case fst (fst a) of
      Encrypted \<Rightarrow> (case cd_cipher cd of
          None \<Rightarrow> throw (Bail ''encryption::copy_blob_plaintext_to_writer encountered encrypted blob'')
        | Some c \<Rightarrow> bnd (read_encrypted_header x timeout start (snd a)) (\<lambda>b.
            decrypt_stream_to_writer x c (fst b) put timeout start 0 0 out (snd b)))
    | Compressed \<Rightarrow> bnd (read_compressed_header x timeout start (snd a)) (\<lambda>b.
        decompress_stream_to_writer x put timeout start 0 out (snd b))
    | Plain \<Rightarrow> bnd (if snd (fst a) \<noteq> [] then put (snd (fst a)) out else ret out) (\<lambda>out1.
        bnd (copy_plain_stream x put timeout start 0 out1 (snd a)) (\<lambda>b.
        ret (sat_add (fst b) (length (snd (fst a))), snd b))))) ?Q E" (is "triple _ (bnd _ ?k) _ _")
  proof (rule triple_bnd [OF pass_value [where V = ?V, OF moves_still_probe_magic V]], assumption, rule triple_pull)
    fix a assume "?V a"
    then show "triple (W b out) (?k a) ?Q E"
    proof (elim disjE conjE)
      assume k: "fst (fst a) = Encrypted" "take 8 raw = ENC_MAGIC" "snd a = drop 8 raw"
      show ?thesis
      proof (cases "cd_cipher cd")
        case None
        with k show ?thesis by (simp add: stop)
      next
        case (Some c)
        show ?thesis
          unfolding k Some probed_magic.case option.case
          by (rule decrypt_blob [where R = R, OF raw k(2)])
      qed
    next
      assume k: "fst (fst a) = Compressed" "take 8 raw = COMP_MAGIC" "snd a = drop 8 raw"
      show ?thesis unfolding k probed_magic.case by (rule decompress_blob [where R = R, OF raw k(2)])
    next
      assume k: "fst (fst a) = Plain" "take 8 raw \<noteq> ENC_MAGIC" "take 8 raw \<noteq> COMP_MAGIC" "snd (fst a) @ snd a = raw"
      show ?thesis unfolding k probed_magic.case by (rule plain_blob [where R = R, OF raw k(2-4)])
    qed
  qed
qed

text \<open>One frame of an encoding loop.\<close>

lemma write_frame:
  "triple (W b out) (write_framed_chunk put c l out) (\<lambda>out' w. length c \<le> 0x7FFFFFFF \<and> W (b @ frame c l) out' w) E"
proof (cases "length c \<le> 0x7FFFFFFF")
  case False
  then show ?thesis by (simp add: write_framed_chunk_def stop)
next
  case True
  let ?n = "to_be_bytes (if l then word_of_nat (length c) OR 0x80000000 else word_of_nat (length c))"
  have "triple (W b out) (bnd (put ?n out) (put c)) (\<lambda>out'. W ((b @ ?n) @ c) out') E"
    by (intro triple_bnd [OF put_law] put_law)
  with True show ?thesis
    unfolding write_framed_chunk_def Let_def frame_def by (simp split del: if_split)
qed

lemma read_chunk_step:
  assumes "\<And>a. h = fst a @ snd a \<Longrightarrow> length (fst a) \<le> n \<Longrightarrow> (fst a = [] \<longleftrightarrow> n = 0 \<or> h = []) \<Longrightarrow>
    triple (W b out) (k a) Q E"
  shows "triple (W b out) (bnd (read_chunk x n timeout start h) k) Q E"
proof (rule triple_bnd)
  have "moves still (read_chunk x n timeout start h)"
    unfolding read_chunk_def by (intro still_intros moves_still_timed_out moves_still_read_some)
  then show "triple (W b out) (read_chunk x n timeout start h) (\<lambda>a w. (h = fst a @ snd a \<and> length (fst a) \<le> n
      \<and> (fst a = [] \<longleftrightarrow> n = 0 \<or> h = [])) \<and> W b out w) E"
    by (rule pass_value) (metis prod.collapse read_chunk_value)
qed (rule triple_pull, use assms in blast)

lemma seal_step:
  fixes k :: "bytes \<times> bytes \<Rightarrow> bytes \<Rightarrow> 'o \<Rightarrow> (nat \<times> 'o) io"
  assumes inv: "\<And>l c. enc l = Inr c \<Longrightarrow> dec i l c = Inr cur"
    and rest: "\<And>a c out' b'. h = fst a @ snd a \<Longrightarrow> fst a \<noteq> [] \<Longrightarrow> length (fst a) \<le> n \<Longrightarrow>
      triple (W b' out') (k a c out') (\<lambda>r w. \<exists>raw. decode_frames dec (i + 1) raw = Some h \<and> W (b' @ raw) (snd r) w) E"
    and "0 < n"
  shows "triple (W b out) (bnd (read_chunk x n timeout start h) (\<lambda>a.
      bnd (lift (enc (fst a = []))) (\<lambda>c.
      bnd (write_framed_chunk put c (fst a = []) out) (\<lambda>out'.
      if fst a = [] then ret (f a, out') else k a c out'))))
    (\<lambda>r w. \<exists>raw. decode_frames dec i raw = Some (cur @ h) \<and> W (b @ raw) (snd r) w) E" (is "triple _ _ ?Q E")
proof (rule read_chunk_step, rule triple_bnd [OF lifted], rule triple_pull,
    rule triple_bnd [OF write_frame], rule triple_pull, rule triple_if)
  fix a c out'
  assume h: "h = fst a @ snd a" and n: "length (fst a) \<le> n" and e: "fst a = [] \<longleftrightarrow> n = 0 \<or> h = []"
    and c: "enc (fst a = []) = Inr c" and len: "length c \<le> 0x7FFFFFFF"
  note pf = parse_frame_frame [OF len, of "fst a = []"]
  have step: "decode_frames dec i (frame c (fst a = []) @ r)
      = (if fst a = [] then Some cur else map_option ((@) cur) (decode_frames dec (i + 1) r))" for r
    using decode_frames_step [OF pf, where dec = dec and i = i] inv [OF c] by simp
  show "triple (W (b @ frame c (fst a = [])) out') (ret (f a, out')) ?Q E" if "fst a = []"
    using step [of "[]"] that e assms(3) by (auto intro!: triple_ret)
  show "triple (W (b @ frame c (fst a = [])) out') (k a c out') ?Q E" if ne: "fst a \<noteq> []"
  proof (rule triple_conseq [OF rest [OF h ne n]])
    fix r :: "nat \<times> 'o" and w
    assume "\<exists>raw. decode_frames dec (i + 1) raw = Some h \<and> W ((b @ frame c (fst a = [])) @ raw) (snd r) w"
    then obtain raw where "decode_frames dec (i + 1) raw = Some h" "W (b @ frame c (fst a = []) @ raw) (snd r) w" by auto
    with step [of raw] ne show "?Q r w" by (intro exI [of _ "frame c (fst a = []) @ raw"]) simp
  qed auto
qed

lemma encrypt_frames:
  assumes "\<And>pt. length pt \<le> n \<Longrightarrow> segment_ok x alg level pt" and "0 < n" and "length cur \<le> n"
  shows "triple (W b out) (encrypt_loop x key nonce level put n timeout start i tot cur out h)
    (\<lambda>r w. \<exists>raw. decode_frames (open_segment x key \<lparr>eh_alg = alg, eh_nonce = nonce\<rparr>) i raw = Some (cur @ h)
      \<and> W (b @ raw) (snd r) w) E"
  using assms(3)
proof (induction h arbitrary: i tot cur out b rule: length_induct)
  case (1 h)
  show ?case
    unfolding encrypt_loop.simps [of x key nonce level put n timeout start i tot cur out h]
  proof (rule seal_step)
    show "seal_segment x key nonce level i l cur = Inr c \<Longrightarrow>
        open_segment x key \<lparr>eh_alg = alg, eh_nonce = nonce\<rparr> i l c = Inr cur" for l c
      by (rule seal_open [OF assms(1) [OF "1.prems"]])
    fix a :: "bytes \<times> bytes" and c :: bytes and out' b'
    assume h: "h = fst a @ snd a" "fst a \<noteq> []" "length (fst a) \<le> n"
    then have lt: "length (snd a) < length h" by simp
    show "triple (W b' out')
        (encrypt_loop x key nonce level put n timeout start (i + 1) (sat_add tot (length cur)) (fst a) out' (snd a))
        (\<lambda>r w. \<exists>raw. decode_frames (open_segment x key \<lparr>eh_alg = alg, eh_nonce = nonce\<rparr>) (i + 1) raw = Some h
          \<and> W (b' @ raw) (snd r) w) E"
      by (rule "1.IH" [rule_format, OF lt h(3), folded h(1)])
  qed (rule assms(2))
qed

lemma compress_frames:
  assumes "zstd_ok x" and "n \<le> MAX_DECOMPRESSED_CHUNK_BYTES" and "0 < n" and "length cur \<le> n"
  shows "triple (W b out) (compress_loop x level put n timeout start tot cur out h)
    (\<lambda>r w. \<exists>raw. decode_frames (\<lambda>_ _. decompress_zstd_payload x) i raw = Some (cur @ h)
      \<and> W (b @ raw) (snd r) w) E"
  using assms(4)
proof (induction h arbitrary: i tot cur out b rule: length_induct)
  case (1 h)
  show ?case
    unfolding compress_loop.simps [of x level put n timeout start tot cur out h]
  proof (rule seal_step [where enc = "\<lambda>_. build_zstd_payload x cur level"])
    show "build_zstd_payload x cur level = Inr c \<Longrightarrow> decompress_zstd_payload x c = Inr cur" for c
      by (rule payload_roundtrip [OF assms(1)]) (use "1.prems" assms(2) in auto)
    fix a :: "bytes \<times> bytes" and c :: bytes and out' b'
    assume h: "h = fst a @ snd a" "fst a \<noteq> []" "length (fst a) \<le> n"
    then have lt: "length (snd a) < length h" by simp
    show "triple (W b' out')
        (compress_loop x level put n timeout start (sat_add tot (length cur)) (fst a) out' (snd a))
        (\<lambda>r w. \<exists>raw. decode_frames (\<lambda>_ _. decompress_zstd_payload x) (i + 1) raw = Some h
          \<and> W (b' @ raw) (snd r) w) E"
      by (rule "1.IH" [rule_format, OF lt h(3), folded h(1)])
  qed (rule assms(3))
qed

text \<open>The one frame of an empty source.\<close>

lemma empty_frame:
  assumes "\<And>c. enc = Inr c \<Longrightarrow> dec 0 True c = Inr []"
  shows "triple (W b out) (bnd (lift enc) (\<lambda>c. bnd (write_framed_chunk put c True out) (\<lambda>out'. ret (0 :: nat, out'))))
    (\<lambda>r w. \<exists>raw. decode_frames dec 0 raw = Some [] \<and> W (b @ raw) (snd r) w) E"
proof (rule triple_bnd [OF lifted], rule triple_pull, rule triple_bnd [OF write_frame], rule triple_pull, rule triple_ret)
  fix c out' s assume c: "enc = Inr c" and len: "length c \<le> 0x7FFFFFFF" and w: "W (b @ frame c True) out' s"
  have "decode_frames dec 0 (frame c True @ []) = Some []"
    using decode_frames_step [OF parse_frame_frame [OF len, of True "[]"], where dec = dec and i = 0] assms [OF c]
    by simp
  with w show "\<exists>raw. decode_frames dec 0 raw = Some [] \<and> W (b @ raw) (snd (0 :: nat, out')) s" by auto
qed

lemma with_header:
  assumes "\<And>fr. decode_blob x c (hdr @ fr) = decode_frames dec 0 fr" and "R h" and "b' = b @ hdr"
    and "triple (W b' out) m (\<lambda>r w. \<exists>fr. decode_frames dec 0 fr = Some h \<and> W (b' @ fr) (snd r) w) E"
  shows "triple (W b' out) m (\<lambda>r w. \<exists>pt raw. R pt \<and> decode_blob x c raw = Some pt \<and> W (b @ raw) (snd r) w) E"
proof (rule triple_conseq [OF assms(4)])
  fix r w assume "\<exists>fr. decode_frames dec 0 fr = Some h \<and> W (b' @ fr) (snd r) w"
  then obtain fr where "decode_frames dec 0 fr = Some h" "W (b @ hdr @ fr) (snd r) w" using assms(3) by auto
  with assms(1) [of fr] assms(2) show "\<exists>pt raw. R pt \<and> decode_blob x c raw = Some pt \<and> W (b @ raw) (snd r) w"
    by (intro exI [of _ h] exI [of _ "hdr @ fr"]) simp
qed

lemma encrypt_file:
  assumes "\<And>w raw v. W b out w \<Longrightarrow> read_file src w = (Ok raw, v) \<Longrightarrow> R raw"
    and ok: "\<And>pt. length pt \<le> max n 1 \<Longrightarrow> segment_ok x alg level pt" and "random_ok x"
  shows "triple (W b out) (encrypt_file_to_writer_enc_stream x src put timeout n (bc_key c) alg level out)
    (\<lambda>r w. \<exists>pt raw. R pt \<and> decode_blob x (Some c) raw = Some pt \<and> W (b @ raw) (snd r) w) E" (is "triple _ _ ?Q E")
  unfolding encrypt_file_to_writer_enc_stream_def Let_def
proof (rule triple_bnd [OF pass [OF moves_still_get_now]], rule triple_bnd [OF read_content [OF assms(1)]],
    assumption, assumption, rule triple_pull, rule triple_bnd [OF pass [OF moves_still_get_now]],
    rule triple_bnd [OF put_law], rule triple_bnd [OF put_law], rule triple_bnd [OF put_law],
    rule read_chunk_step, rule triple_if)
  fix start h t out1 out2 out3 and a :: "bytes \<times> bytes"
  assume R: "R h" and h: "h = fst a @ snd a" "length (fst a) \<le> max n 1"
    and e: "fst a = [] \<longleftrightarrow> max n 1 = 0 \<or> h = []"
  let ?nonce = "x_random x t XCHACHA20POLY1305_STREAM_NONCE_LEN"
  let ?dec = "open_segment x (bc_key c) \<lparr>eh_alg = alg, eh_nonce = ?nonce\<rparr>"
  let ?b = "((b @ ENC_MAGIC) @ [ENC_VERSION, alg]) @ ?nonce"
  have "alg = ALG_XCHACHA20POLY1305_BE32 \<or> alg = ALG_XCHACHA20POLY1305_BE32_ZSTD_CHUNKED"
    using ok [of "[]"] by (auto simp: segment_ok_def split: option.splits)
  moreover have "length ?nonce = 19"
    using assms(3) by (simp add: random_ok_def XCHACHA20POLY1305_STREAM_NONCE_LEN_def)
  ultimately have dec: "decode_blob x (Some c) ((ENC_MAGIC @ [ENC_VERSION, alg] @ ?nonce) @ fr) = decode_frames ?dec 0 fr" for fr
    by (auto simp: decode_blob_def nth_append)
  have b: "?b = b @ ENC_MAGIC @ [ENC_VERSION, alg] @ ?nonce" by simp
  show "triple (W ?b out3) (bnd (lift (seal_segment x (bc_key c) ?nonce level 0 True [])) (\<lambda>ct.
      bnd (write_framed_chunk put ct True out3) (\<lambda>out4. ret (0 :: nat, out4)))) ?Q E" if "fst a = []"
  proof (rule with_header [where R = R, OF dec _ b])
    show "R []" using R that e by simp
    show "triple (W ?b out3) (bnd (lift (seal_segment x (bc_key c) ?nonce level 0 True [])) (\<lambda>ct.
      bnd (write_framed_chunk put ct True out3) (\<lambda>out4. ret (0 :: nat, out4))))
      (\<lambda>r w. \<exists>fr. decode_frames ?dec 0 fr = Some [] \<and> W (?b @ fr) (snd r) w) E"
      by (rule empty_frame, rule seal_open [OF ok]) simp
  qed
  show "triple (W ?b out3) (encrypt_loop x (bc_key c) ?nonce level put (max n 1) timeout start 0 0 (fst a) out3 (snd a)) ?Q E"
    if "fst a \<noteq> []"
    by (rule with_header [where R = R, OF dec R b]) (rule encrypt_frames [where h = "snd a", OF ok _ h(2), folded h(1)], simp_all)
qed

lemma compress_file:
  assumes "\<And>w raw v. W b out w \<Longrightarrow> read_file src w = (Ok raw, v) \<Longrightarrow> R raw"
    and "zstd_ok x" and "max n 1 \<le> MAX_DECOMPRESSED_CHUNK_BYTES"
  shows "triple (W b out) (compress_file_to_writer_zstd_chunked x src put timeout n level out)
    (\<lambda>r w. \<exists>pt raw. R pt \<and> decode_blob x c raw = Some pt \<and> W (b @ raw) (snd r) w) E" (is "triple _ _ ?Q E")
  unfolding compress_file_to_writer_zstd_chunked_def
proof (rule triple_bnd [OF pass [OF moves_still_get_now]], rule triple_bnd [OF read_content [OF assms(1)]],
    assumption, assumption, rule triple_pull,
    rule triple_bnd [OF put_law], rule triple_bnd [OF put_law], rule read_chunk_step, rule triple_if)
  fix start h out1 out2 and a :: "bytes \<times> bytes"
  assume R: "R h" and h: "h = fst a @ snd a" "length (fst a) \<le> max n 1"
    and e: "fst a = [] \<longleftrightarrow> max n 1 = 0 \<or> h = []"
  let ?dec = "\<lambda>_ _. decompress_zstd_payload x"
  let ?b = "(b @ COMP_MAGIC) @ [COMP_VERSION, COMP_ALG_ZSTD_CHUNKED]"
  have dec: "decode_blob x c ((COMP_MAGIC @ [COMP_VERSION, COMP_ALG_ZSTD_CHUNKED]) @ fr) = decode_frames ?dec 0 fr" for fr
    using magic_differ by (auto simp: decode_blob_def nth_append)
  have b: "?b = b @ COMP_MAGIC @ [COMP_VERSION, COMP_ALG_ZSTD_CHUNKED]" by simp
  show "triple (W ?b out2) (bnd (lift (build_zstd_payload x [] level)) (\<lambda>payload.
      bnd (write_framed_chunk put payload True out2) (\<lambda>out3. ret (0 :: nat, out3)))) ?Q E" if "fst a = []"
  proof (rule with_header [where R = R, OF dec _ b])
    show "R []" using R that e by simp
    show "triple (W ?b out2) (bnd (lift (build_zstd_payload x [] level)) (\<lambda>payload.
      bnd (write_framed_chunk put payload True out2) (\<lambda>out3. ret (0 :: nat, out3))))
      (\<lambda>r w. \<exists>fr. decode_frames ?dec 0 fr = Some [] \<and> W (?b @ fr) (snd r) w) E"
      by (rule empty_frame, rule payload_roundtrip [OF assms(2)]) simp_all
  qed
  show "triple (W ?b out2) (compress_loop x level put (max n 1) timeout start 0 (fst a) out2 (snd a)) ?Q E"
    if "fst a \<noteq> []"
    by (rule with_header [where R = R, OF dec R b])
      (rule compress_frames [where h = "snd a", OF assms(2,3) _ h(2), folded h(1)], simp)
qed

lemma copy_plain_file:
  assumes "\<And>w raw v. W b out w \<Longrightarrow> read_file src w = (Ok raw, v) \<Longrightarrow> R raw"
  shows "triple (W b out) (copy_plain_file_to_writer x src put timeout out)
    (\<lambda>r w. \<exists>pt. R pt \<and> W (b @ pt) (snd r) w) E"
  unfolding copy_plain_file_to_writer_def
  by (rule triple_bnd [OF pass [OF moves_still_get_now]], rule triple_bnd [OF read_content [OF assms]],
      assumption, assumption, rule triple_pull, rule triple_conseq [OF copy_plain]) auto

end

section \<open>What a codec writes can be read back\<close>

text \<open>
  The chunk bound of the decompressor; a source that starts like an encoded blob; and what writing
  relies on of the libraries for the given settings.
\<close>

definition chunks_ok :: "blob_codec \<Rightarrow> bool" where
  "chunks_ok cd \<longleftrightarrow> (cd_write_compression_enabled cd \<longrightarrow>
    max (case cd_cipher cd of Some c \<Rightarrow> bc_chunk_bytes c | None \<Rightarrow> cd_write_compression_chunk_bytes cd) 1
      \<le> MAX_DECOMPRESSED_CHUNK_BYTES)"

definition looks_encoded :: "bytes \<Rightarrow> bool" where
  "looks_encoded pt \<longleftrightarrow> take 8 pt = ENC_MAGIC \<or> take 8 pt = COMP_MAGIC"

definition encodes :: "blob_codec \<Rightarrow> bool" where
  "encodes cd \<longleftrightarrow> cd_cipher cd \<noteq> None \<or> cd_write_compression_enabled cd"

definition written_form :: "ext \<Rightarrow> blob_codec \<Rightarrow> bytes \<Rightarrow> bytes \<Rightarrow> bool" where
  "written_form x cd pt raw \<longleftrightarrow> (if encodes cd then decode_blob x (cd_cipher cd) raw = Some pt else raw = pt)"

context byte_writer
begin

lemma write_blob:
  assumes "\<And>w raw v. W b out w \<Longrightarrow> read_file src w = (Ok raw, v) \<Longrightarrow> R raw"
    and "zstd_ok x" and "aead_ok x" and "random_ok x" and "chunks_ok cd"
  shows "triple (W b out) (write_blob_from_file_to_writer x cd src put timeout out)
    (\<lambda>r w. \<exists>pt raw. R pt \<and> written_form x cd pt raw \<and> W (b @ raw) (snd r) w) E" (is "triple _ _ ?Q E")
proof -
  have seg: "segment_ok x ALG_XCHACHA20POLY1305_BE32 None pt" for pt
    using assms(3) by (simp add: segment_ok_def)
  have segz: "segment_ok x ALG_XCHACHA20POLY1305_BE32_ZSTD_CHUNKED (Some l) pt"
    if "length pt \<le> MAX_DECOMPRESSED_CHUNK_BYTES" for l pt
    using assms(2,3) that by (simp add: segment_ok_def)
  note defs = write_blob_from_file_to_writer_def encrypt_file_to_writer_zstd_chunked_def encrypt_file_to_writer_def
  show ?thesis
  proof (cases "cd_cipher cd")
    case (Some c)
    have "triple (W b out) (write_blob_from_file_to_writer x cd src put timeout out)
        (\<lambda>r w. \<exists>pt raw. R pt \<and> decode_blob x (Some c) raw = Some pt \<and> W (b @ raw) (snd r) w) E"
      unfolding defs Some option.case
      by (intro triple_if; rule encrypt_file [where R = R, OF assms(1) _ assms(4)])
        (use assms(5) Some in \<open>auto simp: chunks_ok_def intro!: seg segz\<close>)
    then show ?thesis
      by (rule triple_conseq) (use Some in \<open>auto simp: written_form_def encodes_def\<close>)
  next
    case None
    show ?thesis
    proof (cases "cd_write_compression_enabled cd")
      case True
      have "triple (W b out) (write_blob_from_file_to_writer x cd src put timeout out)
          (\<lambda>r w. \<exists>pt raw. R pt \<and> decode_blob x None raw = Some pt \<and> W (b @ raw) (snd r) w) E"
        unfolding defs None option.case if_P [OF True]
        by (rule compress_file [where R = R, OF assms(1,2)])
          (use assms(5) None True in \<open>auto simp: chunks_ok_def\<close>)
      then show ?thesis
        by (rule triple_conseq) (use None True in \<open>auto simp: written_form_def encodes_def\<close>)
    next
      case False
      then show ?thesis
        unfolding defs None option.case if_not_P [OF False]
        by (intro triple_conseq [OF copy_plain_file [where R = R, OF assms(1)]])
          (use None in \<open>auto simp: written_form_def encodes_def\<close>)
    qed
  qed
qed

end

lemma written_form_decodes:
  "written_form x cd pt raw \<Longrightarrow> encodes cd \<or> \<not> looks_encoded pt \<Longrightarrow> decode_blob x (cd_cipher cd) raw = Some pt"
  by (auto simp: written_form_def looks_encoded_def decode_blob_def split: if_splits)

section \<open>The writers of the program\<close>

text \<open>A temporary file of the store, and a buffer in memory while the file system stays as it is.\<close>

definition temp_put :: "path \<Rightarrow> unit writer" where
  "temp_put t c u = append_file t c"

definition mem_put :: "bytes writer" where
  "mem_put c acc = ret (acc @ c)"

interpretation tmpw: byte_writer "temp_put t" "\<lambda>b _ w. temp_in D d t \<and> sees_temp D f t b w" "sees D f"
  for D d f t
proof
  show "triple (\<lambda>w. temp_in D d t \<and> sees_temp D f t b w) (temp_put t c out)
      (\<lambda>_ w. temp_in D d t \<and> sees_temp D f t (b @ c) w) (sees D f)" for b c out
  proof (rule triple_pull)
    assume t: "temp_in D d t"
    show "triple (sees_temp D f t b) (temp_put t c out) (\<lambda>_ w. temp_in D d t \<and> sees_temp D f t (b @ c) w) (sees D f)"
      unfolding temp_put_def by (rule triple_conseq [OF triple_append_temp [OF t]]) (use t in auto)
  qed
  show "stable (\<lambda>w. temp_in D d t \<and> sees_temp D f t b w)" for b
    by (intro stable_conj stable_const stable_sees_temp)
qed (simp add: sees_temp_def)

interpretation memw: byte_writer mem_put "\<lambda>b acc w. acc = b \<and> fs w = F" "\<lambda>_. True" for F
  by unfold_locales
    (auto simp: mem_put_def stable_def still_def intro: triple_ret)

section \<open>Reading in a quiet world\<close>

lemma quiet_timed_out: "timed_out timeout (now w) w = (Ok False, w)"
  by (simp add: timed_out_def bnd_def get_now_def ret_def)

lemma quiet_read_exact:
  "quiet w \<Longrightarrow> length buf \<le> n \<Longrightarrow> n - length buf \<le> length h \<Longrightarrow>
    read_exact x timeout (now w) n buf h w = (Ok (buf @ take (n - length buf) h, drop (n - length buf) h), w)"
proof (induction h arbitrary: buf rule: length_induct)
  case (1 h)
  show ?case
  proof (cases "length buf < n")
    case False
    with "1.prems"(2) show ?thesis by (subst read_exact.simps) (simp add: ret_def)
  next
    case True
    let ?k = "read_len x (n - length buf) h"
    have h: "h \<noteq> []" using True "1.prems"(3) by auto
    then have k: "0 < ?k" "?k \<le> n - length buf" "?k \<le> length h"
      using read_len_zero [of x "n - length buf" h] read_len_le [of x "n - length buf" h] True by auto
    have "read_exact x timeout (now w) n (buf @ take ?k h) (drop ?k h) w
        = (Ok ((buf @ take ?k h) @ take (n - length (buf @ take ?k h)) (drop ?k h),
            drop (n - length (buf @ take ?k h)) (drop ?k h)), w)"
      using "1.IH" [rule_format, of "drop ?k h" "buf @ take ?k h"] "1.prems" k h True by auto
    moreover have "take ?k h @ take (n - length buf - ?k) (drop ?k h) = take (n - length buf) h"
      using k by (metis le_add_diff_inverse take_add)
    moreover have "take ?k h \<noteq> []" using k h by auto
    ultimately show ?thesis
      using True k
      by (subst read_exact.simps)
        (simp add: bnd_def quiet_timed_out quiet_read_some [OF "1.prems"(1)] min_def)
  qed
qed

lemma quiet_read_all:
  "quiet w \<Longrightarrow> n \<le> length h \<Longrightarrow> read_exact x timeout (now w) n [] h w = (Ok (take n h, drop n h), w)"
  using quiet_read_exact [of w "[]" n h x timeout] by simp

lemma quiet_read_framed:
  assumes "quiet w" and "parse_frame h = Some a"
  shows "read_framed_chunk x timeout (now w) h w = (Ok a, w)"
proof -
  let ?raw = "from_be_bytes (take 4 h)"
  from assms(2) have h: "4 \<le> length h" and len: "unat (?raw AND 0x7FFFFFFF) \<le> length (drop 4 h)"
    and a: "a = ((take (unat (?raw AND 0x7FFFFFFF)) (drop 4 h), ?raw AND 0x80000000 \<noteq> 0),
      drop (unat (?raw AND 0x7FFFFFFF)) (drop 4 h))"
    unfolding parse_frame_def Let_def by (auto split: if_splits)
  from quiet_read_all [OF assms(1) h] quiet_read_all [OF assms(1) len] show ?thesis
    unfolding read_framed_chunk_def Let_def a by (simp add: bnd_def ret_def)
qed

lemma quiet_probe_fill:
  "quiet w \<Longrightarrow> length m \<le> 8 \<Longrightarrow> probe_fill x timeout (now w) m h w = (Ok (take 8 (m @ h), drop 8 (m @ h)), w)"
proof (induction h arbitrary: m rule: length_induct)
  case (1 h)
  show ?case
  proof (cases "length m < 8 \<and> h \<noteq> []")
    case False
    with "1.prems" show ?thesis
      by (subst probe_fill.simps)
        (auto simp: ret_def bnd_def quiet_timed_out quiet_read_some read_len_def)
  next
    case True
    let ?k = "read_len x (8 - length m) h"
    have k: "0 < ?k" "?k \<le> 8 - length m" "?k \<le> length h"
      using read_len_zero [of x "8 - length m" h] read_len_le [of x "8 - length m" h] True by auto
    have "probe_fill x timeout (now w) (m @ take ?k h) (drop ?k h) w
        = (Ok (take 8 ((m @ take ?k h) @ drop ?k h), drop 8 ((m @ take ?k h) @ drop ?k h)), w)"
      using "1.IH" [rule_format, of "drop ?k h" "m @ take ?k h"] "1.prems" k True by auto
    moreover have "take ?k h \<noteq> []" using k True by auto
    ultimately show ?thesis
      using True
      by (subst probe_fill.simps)
        (simp add: bnd_def quiet_timed_out quiet_read_some [OF "1.prems"(1)] del: take_append drop_append)
  qed
qed

lemma quiet_decrypt_hasher:
  "quiet w \<Longrightarrow> decode_frames (open_segment x (bc_key c) hdr) i h = Some pt \<Longrightarrow>
    decrypt_stream_to_hasher x c hdr timeout (now w) i acc h w = (Ok (acc @ pt), w)"
proof (induction h arbitrary: i acc pt rule: length_induct)
  case (1 h)
  from "1.prems"(2) obtain a p where a: "parse_frame h = Some a"
    and p: "open_segment x (bc_key c) hdr i (snd (fst a)) (fst (fst a)) = Inr p"
    and pt: "(if snd (fst a) then Some p
      else map_option ((@) p) (decode_frames (open_segment x (bc_key c) hdr) (i + 1) (snd a))) = Some pt"
    by (rule decode_frames_SomeE)
  show ?case
    using "1.IH" [rule_format, OF parse_frame_rest [OF a] "1.prems"(1)] pt
    by (subst decrypt_stream_to_hasher.simps)
      (auto simp: bnd_def quiet_read_framed [OF "1.prems"(1) a] p ret_def split: if_splits)
qed

lemma quiet_decompress_hasher:
  "quiet w \<Longrightarrow> decode_frames (\<lambda>_ _. decompress_zstd_payload x) i h = Some pt \<Longrightarrow>
    decompress_stream_to_hasher x timeout (now w) acc h w = (Ok (acc @ pt), w)"
proof (induction h arbitrary: i acc pt rule: length_induct)
  case (1 h)
  from "1.prems"(2) obtain a p where a: "parse_frame h = Some a"
    and p: "decompress_zstd_payload x (fst (fst a)) = Inr p"
    and pt: "(if snd (fst a) then Some p
      else map_option ((@) p) (decode_frames (\<lambda>_ _. decompress_zstd_payload x) (i + 1) (snd a))) = Some pt"
    by (rule decode_frames_SomeE)
  show ?case
    using "1.IH" [rule_format, OF parse_frame_rest [OF a] "1.prems"(1)] pt
    by (subst decompress_stream_to_hasher.simps)
      (auto simp: bnd_def quiet_read_framed [OF "1.prems"(1) a] p ret_def split: if_splits)
qed

lemma quiet_hash_plain: "quiet w \<Longrightarrow> hash_plain_stream x timeout (now w) acc h w = (Ok (acc @ h), w)"
proof (induction h arbitrary: acc rule: length_induct)
  case (1 h)
  show ?case
  proof (cases "h = []")
    case True
    with "1.prems" show ?thesis
      by (subst hash_plain_stream.simps)
        (simp add: bnd_def quiet_timed_out quiet_read_some read_len_def ret_def)
  next
    case False
    let ?k = "read_len x (64 * 1024) h"
    have "0 < ?k" using read_len_zero [of x "64 * 1024" h] False by simp
    with False have "take ?k h \<noteq> []" "length (drop ?k h) < length h" by auto
    with "1.IH" [rule_format, of "drop ?k h" "acc @ take ?k h"] "1.prems" show ?thesis
      by (subst hash_plain_stream.simps) (simp add: bnd_def quiet_timed_out quiet_read_some)
  qed
qed

end
