(* ===== verification/Codec_Theorems.thy ===== *)
theory Codec_Theorems
  imports Codec_Laws
begin

text \<open>
  The properties of the blob codec: its readers compute \<open>decode_blob\<close>, its writers produce blobs that
  decode to their source, and the one case in which a blob stored verbatim cannot be read back.
\<close>

lemma quiet_encrypted_header:
  assumes "quiet w" and "21 \<le> length h" and "h ! 0 = ENC_VERSION"
    and "h ! 1 = ALG_XCHACHA20POLY1305_BE32 \<or> h ! 1 = ALG_XCHACHA20POLY1305_BE32_ZSTD_CHUNKED"
  shows "read_encrypted_header x timeout (now w) h w
    = (Ok (\<lparr>eh_alg = h ! 1, eh_nonce = take 19 (drop 2 h)\<rparr>, drop 21 h), w)"
proof -
  have 1: "read_exact x timeout (now w) 2 [] h w = (Ok (take 2 h, drop 2 h), w)"
    by (rule quiet_read_all) (use assms(1,2) in auto)
  have 2: "read_exact x timeout (now w) 19 [] (drop 2 h) w = (Ok (take 19 (drop 2 h), drop 19 (drop 2 h)), w)"
    by (rule quiet_read_all) (use assms(1,2) in auto)
  show ?thesis
    using assms(2-4) 1 2
    by (auto simp: read_encrypted_header_def bnd_def ret_def XCHACHA20POLY1305_STREAM_NONCE_LEN_def add.commute)
qed

lemma quiet_compressed_header:
  assumes "quiet w" and "2 \<le> length h" and "h ! 0 = COMP_VERSION" and "h ! 1 = COMP_ALG_ZSTD_CHUNKED"
  shows "read_compressed_header x timeout (now w) h w = (Ok (h ! 1, drop 2 h), w)"
  using assms quiet_read_all [OF assms(1,2), of x timeout]
  by (simp add: read_compressed_header_def bnd_def ret_def)

lemma quiet_probe_magic:
  assumes "quiet w"
  shows "probe_magic_prefix x timeout (now w) h w =
    (Ok (if take 8 h = ENC_MAGIC then (Encrypted, []) else if take 8 h = COMP_MAGIC then (Compressed, [])
       else (Plain, take 8 h), drop 8 h), w)"
proof -
  have "take 8 h \<noteq> ENC_MAGIC \<and> take 8 h \<noteq> COMP_MAGIC" if "length (take 8 h) < 8"
    using that length_magic by (metis less_irrefl)
  then show ?thesis
    using quiet_probe_fill [OF assms, of "[]" x timeout h]
    by (auto simp: probe_magic_prefix_def bnd_def ret_def)
qed

lemma quiet_sha256_plaintext:
  assumes "quiet w" and "read_file bp w = (Ok raw, w)" and "decode_blob x (cd_cipher cd) raw = Some pt"
  shows "sha256_plaintext_blob x cd bp timeout w = (Ok (sha256_hex x pt), w)"
proof -
  note probe = quiet_probe_magic [OF assms(1), of x timeout raw]
  note base = sha256_plaintext_blob_def bnd_def get_now_def ret_def sha256_hex_def assms(2) probe
  consider "take 8 raw = ENC_MAGIC" | "take 8 raw = COMP_MAGIC" "take 8 raw \<noteq> ENC_MAGIC"
    | "take 8 raw \<noteq> ENC_MAGIC" "take 8 raw \<noteq> COMP_MAGIC" by blast
  then show ?thesis
  proof cases
    case 1
    with assms(3) obtain c where c: "cd_cipher cd = Some c" and l: "29 \<le> length raw"
      and v: "drop 8 raw ! 0 = ENC_VERSION"
      and al: "drop 8 raw ! 1 = ALG_XCHACHA20POLY1305_BE32 \<or> drop 8 raw ! 1 = ALG_XCHACHA20POLY1305_BE32_ZSTD_CHUNKED"
      and d: "decode_frames (open_segment x (bc_key c) \<lparr>eh_alg = drop 8 raw ! 1, eh_nonce = take 19 (drop 2 (drop 8 raw))\<rparr>) 0
        (drop 21 (drop 8 raw)) = Some pt"
      by (auto simp: decode_blob_def add.commute split: option.splits if_splits)
    from l have "21 \<le> length (drop 8 raw)" by simp
    from quiet_encrypted_header [OF assms(1) this v al] quiet_decrypt_hasher [OF assms(1) d, of timeout "[]"] 1 c
    show ?thesis by (simp add: base)
  next
    case 2
    with assms(3) have l: "2 \<le> length (drop 8 raw)" and v: "drop 8 raw ! 0 = COMP_VERSION"
      and al: "drop 8 raw ! 1 = COMP_ALG_ZSTD_CHUNKED"
      and d: "decode_frames (\<lambda>_ _. decompress_zstd_payload x) 0 (drop 2 (drop 8 raw)) = Some pt"
      by (auto simp: decode_blob_def split: if_splits)
    from quiet_compressed_header [OF assms(1) l v al] quiet_decompress_hasher [OF assms(1) d, of timeout "[]"] 2
    show ?thesis by (simp add: base)
  next
    case 3
    with assms(3) have "pt = raw" by (simp add: decode_blob_def)
    with 3 quiet_hash_plain [OF assms(1), of x timeout "take 8 raw" "drop 8 raw"] show ?thesis by (simp add: base)
  qed
qed

lemma sha256_plaintext_sound:
  assumes "f_read bp (fs w) = Inr (raw, fs w)" and "sha256_plaintext_blob x cd bp timeout w = (Ok h, v)"
  shows "(\<exists>pt. decode_blob x (cd_cipher cd) raw = Some pt \<and> h = sha256_hex x pt) \<and> fs v = fs w"
proof -
  from sha256_plaintext_value [OF assms(2)] obtain r pt u where r: "read_file bp w = (Ok r, u)"
    and "decode_blob x (cd_cipher cd) r = Some pt" "h = sha256_hex x pt" by blast
  moreover have "r = raw" using call_Ok [OF r [unfolded read_file_def]] assms(1) by simp
  moreover have "still w v" by (rule movesD [OF moves_still_sha256_plaintext assms(2)])
  ultimately show ?thesis by (auto simp: still_def)
qed

text \<open>
  C15: the hash the store verifies blobs with is the hash of what the blob decodes to. In every world,
  with any pattern of short reads, delays and I/O errors, a hash that is returned is the SHA-256 of the
  plaintext the blob file stands for, and nothing on disk changed. In a world without failures the
  hash is returned exactly when the blob decodes.
\<close>

theorem sha256_plaintext_blob_refines:
  assumes "f_read bp (fs w) = Inr (raw, fs w)"
  shows "(\<forall>h v. sha256_plaintext_blob x cd bp timeout w = (Ok h, v) \<longrightarrow>
      (\<exists>pt. decode_blob x (cd_cipher cd) raw = Some pt \<and> h = sha256_hex x pt) \<and> fs v = fs w)
    \<and> (quiet w \<longrightarrow> (\<exists>h. sha256_plaintext_blob x cd bp timeout w = (Ok h, w))
        \<longleftrightarrow> decode_blob x (cd_cipher cd) raw \<noteq> None)"
proof -
  have q: "quiet w \<Longrightarrow> read_file bp w = (Ok raw, w)"
    using assms by (simp add: read_file_def quiet_call)
  show ?thesis
    using sha256_plaintext_sound [OF assms] quiet_sha256_plaintext [OF _ q, of x cd _ timeout] by fastforce
qed

section \<open>A concrete blob\<close>

text \<open>A source of two bytes, its encrypted blob, and a world that holds both.\<close>

definition sample_cipher :: blob_cipher where
  "sample_cipher = \<lparr>bc_key = replicate 32 5, bc_chunk_bytes = 4\<rparr>"

definition sample_codec :: blob_codec where
  "sample_codec = \<lparr>cd_cipher = Some sample_cipher, cd_write_compression_enabled = True,
    cd_write_compression_chunk_bytes = 4, cd_write_compression_zstd_level = 3\<rparr>"

definition sample_source :: bytes where
  "sample_source = [104, 105, 106, 107, 108]"

definition sample_blob :: bytes where
  "sample_blob = ENC_MAGIC @ [ENC_VERSION, ALG_XCHACHA20POLY1305_BE32_ZSTD_CHUNKED] @ replicate 19 7
    @ frame (to_be_bytes 4 @ [104, 105, 106, 107]) False @ frame (to_be_bytes 1 @ [108]) True"

definition sample_world :: world where
  "sample_world = \<lparr>fs = [([''s''], File sample_source 1 0), ([''b''], File sample_blob 1 0)], events = [], now = 9\<rparr>"

lemma sample_world_quiet [simp]: "quiet sample_world"
  by (simp add: quiet_def sample_world_def)

lemma sample_payload: "decompress_zstd_payload sample_ext (to_be_bytes (word_of_nat (length pt)) @ pt) = Inr pt"
  if "0 < length pt" and "length pt \<le> 4" for pt
proof -
  have "unat (word_of_nat (length pt) :: 32 word) = length pt" by (rule len31) (use that in simp)
  with that show ?thesis
    by (simp add: decompress_zstd_payload_def sample_ext_def be_roundtrip of_option_def check_def Let_def
        MAX_DECOMPRESSED_CHUNK_BYTES_def)
qed

lemma sample_decode: "decode_blob sample_ext (Some sample_cipher) sample_blob = Some sample_source"
proof -
  let ?hdr = "\<lparr>eh_alg = ALG_XCHACHA20POLY1305_BE32_ZSTD_CHUNKED, eh_nonce = replicate 19 7\<rparr>"
  let ?dec = "open_segment sample_ext (bc_key sample_cipher) ?hdr"
  have seg: "?dec i l c = decompress_zstd_payload sample_ext c" for i l c
    by (simp add: open_segment_def of_option_def sample_ext_def)
  have p: "decompress_zstd_payload sample_ext (to_be_bytes 4 @ [104, 105, 106, 107]) = Inr [104, 105, 106, 107]"
    "decompress_zstd_payload sample_ext (to_be_bytes 1 @ [108]) = Inr [108]"
    using sample_payload [of "[104, 105, 106, 107]"] sample_payload [of "[108]"] by simp_all
  have "decode_frames ?dec (0 + 1) (frame (to_be_bytes 1 @ [108]) True @ []) = Some [108]"
    by (subst decode_frames_step [OF parse_frame_frame]) (simp_all add: seg p)
  then have "decode_frames ?dec 0 (frame (to_be_bytes 4 @ [104, 105, 106, 107]) False
      @ frame (to_be_bytes 1 @ [108]) True) = Some sample_source"
    by (subst decode_frames_step [OF parse_frame_frame]) (simp_all add: seg p sample_source_def)
  then show ?thesis
    by (simp add: decode_blob_def sample_blob_def nth_append)
qed

lemma sample_read:
  "f_read [''b''] (fs sample_world) = Inr (sample_blob, fs sample_world)"
  "f_read [''s''] (fs sample_world) = Inr (sample_source, fs sample_world)"
  by (simp_all add: f_read_def stat_def resolve_def node_at_def sample_world_def)

theorem sha256_plaintext_blob_refines_witness:
  "\<exists>h. sha256_plaintext_blob sample_ext sample_codec [''b''] 30 sample_world = (Ok h, sample_world)
    \<and> (\<exists>pt. decode_blob sample_ext (Some sample_cipher) sample_blob = Some pt \<and> h = sha256_hex sample_ext pt)"
  using sha256_plaintext_blob_refines [OF sample_read(1), of sample_ext sample_codec 30] sample_decode
  by (auto simp: sample_codec_def)

section \<open>Round trip\<close>

lemma copy_blob_memory:
  assumes "f_read bp (fs w) = Inr (raw, fs w)"
    and "copy_blob_plaintext_to_writer x cd bp mem_put timeout [] w = (Ok (n, out), v)"
  shows "decode_blob x (cd_cipher cd) raw = Some out"
proof -
  have "r = raw" if "fs u = fs w" "read_file bp u = (Ok r, t)" for u r t
    using call_Ok [OF that(2) [unfolded read_file_def]] that(1) assms(1) by simp
  then have "triple (\<lambda>v. ([] :: bytes) = [] \<and> fs v = fs w) (copy_blob_plaintext_to_writer x cd bp mem_put timeout [])
      (\<lambda>r v. \<exists>raw' pt. raw' = raw \<and> decode_blob x (cd_cipher cd) raw' = Some pt \<and> snd r = [] @ pt \<and> fs v = fs w)
      (\<lambda>_. True)"
    by (intro memw.copy_blob [where b = "[]" and out = "[]" and R = "\<lambda>r. r = raw"]) simp
  from triple_Ok [OF this _ assms(2)] show ?thesis by auto
qed

lemma write_blob_memory:
  assumes "zstd_ok x" and "aead_ok x" and "random_ok x" and "chunks_ok cd"
    and "f_read src (fs w) = Inr (pt, fs w)"
    and "write_blob_from_file_to_writer x cd src mem_put timeout [] w = (Ok (n, raw), v)"
  shows "written_form x cd pt raw"
proof -
  have "r = pt" if "fs u = fs w" "read_file src u = (Ok r, t)" for u r t
    using call_Ok [OF that(2) [unfolded read_file_def]] that(1) assms(5) by simp
  then have "triple (\<lambda>v. ([] :: bytes) = [] \<and> fs v = fs w) (write_blob_from_file_to_writer x cd src mem_put timeout [])
      (\<lambda>r v. \<exists>pt' raw. pt' = pt \<and> written_form x cd pt' raw \<and> snd r = [] @ raw \<and> fs v = fs w) (\<lambda>_. True)"
    by (intro memw.write_blob [where b = "[]" and out = "[]" and R = "\<lambda>r. r = pt"] assms(1-4)) simp
  from triple_Ok [OF this _ assms(6)] show ?thesis by auto
qed

text \<open>
  C14: what the codec writes, it reads back. If a source file was encoded under any settings (plain,
  compressed, encrypted, both) and the result is stored as a blob, then decoding the blob gives the
  source's bytes back and its verification hash is the source's hash, whatever the sizes of the reads
  on either side. The one exception is a source stored verbatim that itself starts with one of the two
  magic values.
\<close>

theorem blob_roundtrip:
  assumes "zstd_ok x" and "aead_ok x" and "random_ok x" and "chunks_ok cd"
    and "encodes cd \<or> \<not> looks_encoded pt"
    and "f_read src (fs w) = Inr (pt, fs w)"
    and "write_blob_from_file_to_writer x cd src mem_put timeout [] w = (Ok (n, raw), v)"
    and "f_read bp (fs w') = Inr (raw, fs w')"
  shows "(\<forall>m out v'. copy_blob_plaintext_to_writer x cd bp mem_put timeout' [] w' = (Ok (m, out), v') \<longrightarrow> out = pt)
    \<and> (quiet w' \<longrightarrow> sha256_plaintext_blob x cd bp timeout' w' = (Ok (sha256_hex x pt), w'))"
proof -
  have d: "decode_blob x (cd_cipher cd) raw = Some pt"
    using written_form_decodes [OF write_blob_memory [OF assms(1-4,6,7)] assms(5)] .
  have "quiet w' \<Longrightarrow> read_file bp w' = (Ok raw, w')"
    using assms(8) by (simp add: read_file_def quiet_call)
  with d quiet_sha256_plaintext copy_blob_memory [OF assms(8)] show ?thesis by fastforce
qed

lemma sample_write:
  "write_blob_from_file_to_writer sample_ext sample_codec [''s''] mem_put 30 [] sample_world
    = (Ok (5, sample_blob), sample_world)"
proof -
  have r: "read_file [''s''] sample_world = (Ok sample_source, sample_world)"
    using sample_read(2) by (simp add: read_file_def quiet_call)
  have c: "read_chunk sample_ext 4 30 (now sample_world) h sample_world = (Ok (take 4 h, drop 4 h), sample_world)" for h
    by (simp add: read_chunk_def bnd_def quiet_timed_out quiet_read_some read_len_def sample_ext_def min_def max_def)
  have f: "write_framed_chunk mem_put ct l out sample_world = (Ok (out @ frame ct l), sample_world)"
    if "length ct \<le> 8" for ct l out
    using that by (simp add: write_framed_chunk_def mem_put_def bnd_def ret_def frame_def)
  have s: "seal_segment sample_ext k n (Some 3) i l pt = Inr (to_be_bytes (word_of_nat (length pt)) @ pt)"
    if "pt \<noteq> []" "length pt \<le> 4" for k n i l pt
    using that by (simp add: seal_segment_def segment_payload_def build_zstd_payload_def of_option_def
        sample_ext_def check_def Let_def)
  have n: "x_random sample_ext t m = replicate m 7" for t m by (simp add: sample_ext_def)
  show ?thesis
    unfolding write_blob_from_file_to_writer_def encrypt_file_to_writer_zstd_chunked_def
      encrypt_file_to_writer_enc_stream_def
    by (simp add: sample_codec_def sample_cipher_def bnd_def get_now_def r c n mem_put_def ret_def Let_def
        sample_source_def encrypt_loop.simps s f sample_blob_def XCHACHA20POLY1305_STREAM_NONCE_LEN_def
        sat_add_def U64_MAX_def)
qed

theorem blob_roundtrip_witness:
  "sha256_plaintext_blob sample_ext sample_codec [''b''] 30 sample_world
    = (Ok (sha256_hex sample_ext sample_source), sample_world)"
  using blob_roundtrip [OF sample_laws(2-4) _ _ sample_read(2) sample_write sample_read(1), of 30]
  by (simp add: chunks_ok_def encodes_def sample_codec_def sample_cipher_def MAX_DECOMPRESSED_CHUNK_BYTES_def)



end
