(* ===== verification/Store_Io.thy ===== *)
theory Store_Io
  imports Codec_Theorems
begin

text \<open>
  The durable writes and the reads of the store (\<open>store.rs\<close>): directories that are synced up to the
  durability root, JSON documents and blobs that are prepared in a temporary file and renamed into
  place, and the version index with its manifests read back. The lemmas state each write as an atomic
  replacement: whatever fails, and wherever the process dies, a reader sees the old file or the new
  one, and a blob under a hash is only ever one that decodes to content with that hash.
\<close>

section \<open>Directories\<close>

definition sync_dir :: "path \<Rightarrow> unit io" where
  "sync_dir p = sync_path p"

text \<open>The loop that syncs a directory and its ancestors; the argument is the reversed path.\<close>

fun sync_up :: "path \<Rightarrow> string list \<Rightarrow> unit io" where
  "sync_up base [] =
    bnd (path_exists []) (\<lambda>e. if e then sync_dir [] else ret ())"
| "sync_up base (c # up) =
    bnd (path_exists (rev (c # up))) (\<lambda>e.
    bnd (if e then sync_dir (rev (c # up)) else ret ()) (\<lambda>_.
    if rev (c # up) = base then ret () else sync_up base up))"

definition create_dir_all_durable :: "path \<Rightarrow> path \<Rightarrow> unit io" where
  "create_dir_all_durable p base =
    (if p \<noteq> base \<and> \<not> prefix base p
     then throw (Bail ''versioned::create_dir_all_durable invalid durability root'')
     else bnd (path_exists p) (\<lambda>e.
       if e
       then bnd (path_is_dir p) (\<lambda>d.
         if \<not> d then throw (Bail ''versioned::create_dir_all_durable expected directory'') else ret ())
       else bnd (create_dir_all p) (\<lambda>_. sync_up base (rev p))))"

section \<open>JSON documents\<close>

text \<open>\<open>sync_all\<close> on an open handle.\<close>

definition sync_file :: "unit io" where
  "sync_file = call (\<lambda>F. Inr ((), F))"

definition write_json_atomic_durable :: "ext \<Rightarrow> path \<Rightarrow> bytes \<Rightarrow> path \<Rightarrow> unit io" where
  "write_json_atomic_durable x p raw base = (case parent_of p of
      None \<Rightarrow> throw (Bail ''versioned::write_json_atomic_durable missing parent directory'')
    | Some d \<Rightarrow>
        bnd (create_dir_all_durable d base) (\<lambda>_.
        bnd (with_temp (x_temp x) d (\<lambda>t.
          bnd (bnd (append_file t raw) (\<lambda>_. sync_file)) (\<lambda>u.
          bnd (persist t p) (\<lambda>_. ret u)))) (\<lambda>_.
        sync_dir d)))"

text \<open>
  \<open>serde_json::from_str\<close> into the records; a map read from JSON keeps the last of repeated keys and
  is sorted like every \<open>BTreeMap\<close>.
\<close>

definition parse_index :: "ext \<Rightarrow> bytes \<Rightarrow> version_index option" where
  "parse_index x raw = x_index_dec x raw"

definition parse_manifest :: "ext \<Rightarrow> bytes \<Rightarrow> manifest option" where
  "parse_manifest x raw = map_option (\<lambda>m. m\<lparr>mf_entries := bt_of_list (mf_entries m)\<rparr>) (x_manifest_dec x raw)"

definition load_index :: "ext \<Rightarrow> path \<Rightarrow> path \<Rightarrow> version_index io" where
  "load_index x sr src =
    bnd (path_exists (sr @ [''index.json''])) (\<lambda>e.
    if \<not> e
    then ret \<lparr>vx_schema_version = STORE_SCHEMA_VERSION, vx_source_path = path_text src, vx_versions = [],
      vx_safety_pinned_version_id = None, vx_safety_pending_version_id = None,
      vx_safety_pending_first_seen_unix = None\<rparr>
    else bnd (read_file (sr @ [''index.json''])) (\<lambda>raw.
      case parse_index x raw of
        None \<Rightarrow> throw (Bail ''versioned::load_index failed to parse'')
      | Some ix \<Rightarrow> bnd (lift (validate_version_index ix)) (\<lambda>_. ret ix)))"

definition write_index :: "ext \<Rightarrow> path \<Rightarrow> version_index \<Rightarrow> path \<Rightarrow> unit io" where
  "write_index x sr ix base = write_json_atomic_durable x (sr @ [''index.json'']) (x_index_enc x ix) base"

definition write_scan_report :: "ext \<Rightarrow> path \<Rightarrow> manifest \<Rightarrow> string option \<Rightarrow> path \<Rightarrow> unit io" where
  "write_scan_report x sr m committed base =
    write_json_atomic_durable x (sr @ [''last_scan_report.json''])
      (x_report_enc x \<lparr>lr_schema_version = mf_schema_version m, lr_source_path = mf_source_path m,
        lr_created_at_unix = mf_created_at_unix m, lr_committed_version_id = committed,
        lr_source_snapshot = mf_source_snapshot m, lr_source_snapshot_error = mf_source_snapshot_error m,
        lr_read_failures = mf_read_failures m\<rparr>) base"

definition manifest_path :: "path \<Rightarrow> string \<Rightarrow> path" where
  "manifest_path mr v = mr @ [json_name v]"

definition latest_manifest :: "ext \<Rightarrow> path \<Rightarrow> version_index \<Rightarrow> manifest option io" where
  "latest_manifest x mr ix = (if vx_versions ix = [] then ret None
     else let p = manifest_path mr (vi_id (last (vx_versions ix))) in
       bnd (path_exists p) (\<lambda>e.
       if \<not> e then ret None
       else bnd (read_file p) (\<lambda>raw. case parse_manifest x raw of
           None \<Rightarrow> throw (Bail ''versioned::latest_manifest failed to parse'')
         | Some m \<Rightarrow> ret (Some m))))"

section \<open>Blobs\<close>

text \<open>\<open>start.elapsed().as_secs() > timeout_seconds\<close>, with zero for no limit.\<close>

definition late_secs :: "nat \<Rightarrow> nat \<Rightarrow> bool io" where
  "late_secs timeout start = bnd get_now (\<lambda>t. ret (0 < timeout \<and> timeout < (t - start) div 1000000000))"

text \<open>\<open>metadata().map(|m| m.len()).unwrap_or(0)\<close> of a file.\<close>

definition file_len :: "path \<Rightarrow> nat io" where
  "file_len p = bnd (attempt (metadata p)) (\<lambda>r. ret (case r of Inr (File b s n) \<Rightarrow> length b | _ \<Rightarrow> 0))"

definition encode_blob :: "ext \<Rightarrow> blob_codec \<Rightarrow> path \<Rightarrow> string \<Rightarrow> nat \<Rightarrow> nat \<Rightarrow> path \<Rightarrow> nat io" where
  "encode_blob x cd src expected timeout start t =
    bnd (late_secs timeout start) (\<lambda>late.
    if late then throw (Bail ''versioned::write_blob_once timed out'')
    else bnd (write_blob_from_file_to_writer x cd src (temp_put t) timeout ()) (\<lambda>_.
      bnd (file_len t) (\<lambda>written.
      bnd (sha256_plaintext_blob x cd t timeout) (\<lambda>actual.
      if actual \<noteq> expected
      then throw (Bail ''versioned::write_blob_once source changed or blob integrity check failed'')
      else bnd sync_file (\<lambda>_. ret written)))))"

definition write_blob_once :: "ext \<Rightarrow> blob_codec \<Rightarrow> path \<Rightarrow> path \<Rightarrow> string \<Rightarrow> nat \<Rightarrow> nat io" where
  "write_blob_once x cd src bp expected timeout =
    bnd (lift (validate_expected_blob_hash expected bp)) (\<lambda>_.
    bnd get_now (\<lambda>start.
    case parent_of bp of
      None \<Rightarrow> throw (Bail ''versioned::write_blob_once missing blob parent'')
    | Some d \<Rightarrow>
        bnd (with_temp (x_temp x) d (\<lambda>t.
          bnd (encode_blob x cd src expected timeout start t) (\<lambda>written.
          bnd (persist t bp) (\<lambda>_. ret written)))) (\<lambda>written.
        bnd (sync_dir d) (\<lambda>_. ret written))))"

definition write_blob :: "ext \<Rightarrow> blob_codec \<Rightarrow> path \<Rightarrow> path \<Rightarrow> string \<Rightarrow> nat \<Rightarrow> nat list \<Rightarrow> path \<Rightarrow> (nat \<times> nat) io" where
  "write_blob x cd src bp expected timeout delays base =
    bnd (lift (validate_expected_blob_hash expected bp)) (\<lambda>_.
    case parent_of bp of
      None \<Rightarrow> throw (Bail ''versioned::write_blob missing blob parent'')
    | Some d \<Rightarrow>
        bnd (create_dir_all_durable d base) (\<lambda>_.
        bnd (retry_with_backoff (''versioned::write_blob '' @ path_debug src @ '' -> '' @ path_debug bp)
            timeout delays (write_blob_once x cd src bp expected timeout)) (\<lambda>r.
        ret (1, fst r))))"

section \<open>Events are only ever consumed\<close>

definition spends :: "world \<Rightarrow> world \<Rightarrow> bool" where
  "spends w v \<longleftrightarrow> suffix (events v) (events w)"

interpretation sp: time_preorder spends
  by unfold_locales (auto simp: spends_def still_def intro: suffix_order.trans)

lemma moves_spends_call: "moves spends (call f)"
proof (rule movesI)
  fix w r v assume c: "call f w = (r, v)"
  obtain e u where n: "next_event w = (e, u)" by fastforce
  from call_cases [OF c n] next_event_still [OF n] show "spends w v"
    by (auto simp: spends_def still_def)
qed

lemma moves_spends_prims:
  "moves spends (create_dir p)" "moves spends (remove_file p)" "moves spends (remove_dir p)"
  "moves spends (rename p q)" "moves spends (append_file p b)" "moves spends (set_file_mtime p s n)"
  "moves spends (persist t p)" "moves spends (call f)"
  unfolding create_dir_def remove_file_def remove_dir_def rename_def append_file_def set_file_mtime_def
    persist_def by (rule moves_spends_call)+

lemmas spends_still = still_all_intros(1-12) [THEN sp.moves_still_step]

lemmas spends_intros = sp.moves_basic moves_spends_prims spends_still moves_case_sum moves_case_option

lemma moves_spends_create_dir_all: "moves spends (create_dir_all p)"
proof -
  have "moves spends (create_dir_all_rev q)" for q
    by (induction q) (auto simp: mkdir_or_dir_def intro!: spends_intros)
  then show ?thesis by (simp add: create_dir_all_def)
qed

lemma moves_spends_with_temp: "(\<And>t. moves spends (body t)) \<Longrightarrow> moves spends (with_temp tn d body)"
  unfolding with_temp_def by (intro spends_intros)

lemma triple_sighted:
  assumes "triple P m Q E" and "moves spends m"
  shows "triple (\<lambda>w. P w \<and> sighted w) m (\<lambda>a w. Q a w \<and> sighted w) (\<lambda>w. E w \<and> sighted w)"
proof -
  have "triple sighted m (\<lambda>_. sighted) sighted"
    by (rule triple_moves [OF assms(2)]) (auto simp: sighted_def spends_def dest: set_mono_suffix)
  note tr = this
  show ?thesis by (rule triple_conj [OF triple_pre [OF assms(1)] triple_pre [OF tr]]) simp_all
qed

section \<open>What writing a blob touches\<close>

text \<open>
  Encoding a file keeps every time preorder that the writer keeps, whatever the libraries do.
\<close>

context time_preorder
begin

lemma moves_timed_out: "moves R (timed_out timeout start)"
  by (intro moves_still_step moves_still_timed_out)

lemma moves_read_chunk: "moves R (read_chunk x n timeout start h)"
  unfolding read_chunk_def
  by (intro moves_basic moves_timed_out moves_still_step [OF moves_still_read_some])

lemma moves_write_framed: "(\<And>c out. moves R (put c out)) \<Longrightarrow> moves R (write_framed_chunk put c l out)"
  unfolding write_framed_chunk_def Let_def by (intro moves_basic) auto

lemma moves_copy_plain:
  assumes "\<And>c out. moves R (put c out)"
  shows "moves R (copy_plain_stream x put timeout start tot out h)"
proof (induction h arbitrary: tot out rule: length_induct)
  case (1 h)
  show ?case
    unfolding copy_plain_stream.simps [of x put timeout start tot out h]
  proof (intro moves_bnd_val moves_timed_out moves_basic(7) moves_throw moves_ret assms
      moves_still_step [OF moves_still_read_some])
    fix s a t assume "read_some x (64 * 1024) h s = (Ok a, t)" and "fst a \<noteq> []"
    then have "length (snd a) < length h" using read_some_shrinks [of x _ h s "fst a" "snd a" t] by simp
    then show "moves R (copy_plain_stream x put timeout start tot' out' (snd a))" for tot' out'
      using 1 by blast
  qed
qed

lemma moves_encrypt_loop:
  assumes "\<And>c out. moves R (put c out)"
  shows "moves R (encrypt_loop x key nonce level put chunk timeout start i tot cur out h)"
proof (induction h arbitrary: i tot cur out rule: length_induct)
  case (1 h)
  show ?case
    unfolding encrypt_loop.simps [of x key nonce level put chunk timeout start i tot cur out h]
  proof (intro moves_bnd_val moves_read_chunk moves_lift moves_write_framed assms moves_if moves_ret)
    fix s b t assume "read_chunk x chunk timeout start h s = (Ok b, t)" and "fst b \<noteq> []"
    then have "length (snd b) < length h" using read_chunk_shrinks [of x _ _ _ h s "fst b" "snd b" t] by simp
    then show "moves R (encrypt_loop x key nonce level put chunk timeout start i' tot' (fst b) out' (snd b))"
      for i' tot' out' using 1 by blast
  qed
qed

lemma moves_compress_loop:
  assumes "\<And>c out. moves R (put c out)"
  shows "moves R (compress_loop x level put chunk timeout start tot cur out h)"
proof (induction h arbitrary: tot cur out rule: length_induct)
  case (1 h)
  show ?case
    unfolding compress_loop.simps [of x level put chunk timeout start tot cur out h]
  proof (intro moves_bnd_val moves_read_chunk moves_lift moves_write_framed assms moves_if moves_ret)
    fix s b t assume "read_chunk x chunk timeout start h s = (Ok b, t)" and "fst b \<noteq> []"
    then have "length (snd b) < length h" using read_chunk_shrinks [of x _ _ _ h s "fst b" "snd b" t] by simp
    then show "moves R (compress_loop x level put chunk timeout start tot' (fst b) out' (snd b))"
      for tot' out' using 1 by blast
  qed
qed

lemma moves_write_blob_from_file:
  assumes "\<And>c out. moves R (put c out)"
  shows "moves R (write_blob_from_file_to_writer x cd src put timeout out)"
  unfolding write_blob_from_file_to_writer_def encrypt_file_to_writer_zstd_chunked_def
    encrypt_file_to_writer_def encrypt_file_to_writer_enc_stream_def copy_plain_file_to_writer_def
    compress_file_to_writer_zstd_chunked_def Let_def
  by (intro moves_case_option moves_basic moves_still_step [OF moves_still_get_now] assms
      moves_still_step [OF moves_still_prims(3)] moves_read_chunk moves_write_framed
      moves_encrypt_loop moves_compress_loop moves_copy_plain)

end

section \<open>Directories and documents, as steps\<close>

lemma moves_still_sync_dir: "moves still (sync_dir p)"
  unfolding sync_dir_def by (rule moves_still_sync)

lemma moves_still_sync_up: "moves still (sync_up base p)"
  by (induction p) (auto intro!: still_intros moves_still_sync_dir)

lemma moves_still_sync_file: "moves still sync_file"
  unfolding sync_file_def by (rule moves_still_prims)

lemmas store_still = moves_still_sync_dir moves_still_sync_up moves_still_sync_file

lemma moves_within_create_dir_all_durable:
  "in_region D p \<Longrightarrow> moves (confined D S) (create_dir_all_durable p base)"
  unfolding create_dir_all_durable_def
  by (intro within_intros moves_within_create_dir_all store_still [THEN moves_still_within])

lemma moves_spends_create_dir_all_durable: "moves spends (create_dir_all_durable p base)"
  unfolding create_dir_all_durable_def
  by (intro spends_intros moves_spends_create_dir_all store_still [THEN sp.moves_still_step])

lemma moves_spends_write_json: "moves spends (write_json_atomic_durable x p raw base)"
  unfolding write_json_atomic_durable_def
  by (intro spends_intros moves_spends_create_dir_all_durable moves_spends_with_temp
      store_still [THEN sp.moves_still_step])

text \<open>A file of the region that the store may replace.\<close>

definition target :: "path \<Rightarrow> path \<Rightarrow> bool" where
  "target D p \<longleftrightarrow> p \<noteq> [] \<and> prefix D (butlast p) \<and> good_path p \<and> \<not> temp_path p"

lemma targetD:
  assumes "target D p"
  shows "parent_of p = Some (butlast p)" "prefix D (butlast p)" "good_path (butlast p)"
    "in_region D p" "in_region D (butlast p)" "\<not> temp_path p"
proof -
  have "prefix D p" using assms by (auto simp: target_def intro: prefix_order.trans [OF _ prefixeq_butlast])
  then show "parent_of p = Some (butlast p)" "prefix D (butlast p)" "good_path (butlast p)"
    "in_region D p" "in_region D (butlast p)" "\<not> temp_path p"
    using assms good_path_butlast by (auto simp: target_def parent_of_def in_region_def)
qed

lemma triple_after_replace:
  assumes "moves still m"
  shows "triple (replaced D f p B) m (\<lambda>_. replaced D f p B) (\<lambda>w. sees D f w \<or> replaced D f p B w)"
  by (rule triple_conseq [OF triple_still [OF stable_replaced assms]]) auto

lemma triple_mkdirs:
  assumes "in_region D d"
  shows "triple (sees D f) (create_dir_all_durable d base) (\<lambda>_. sees D f) (\<lambda>w. sees D f w \<or> Z w)"
  by (rule triple_conseq [OF triple_unseen [OF moves_within_create_dir_all_durable [OF assms]]]) auto

lemma triple_write_json:
  assumes "temp_ok x" and "target D p"
  shows "triple (sees D f) (write_json_atomic_durable x p raw base)
    (\<lambda>_. sees D (f(p := Some raw))) (\<lambda>w. sees D f w \<or> sees D (f(p := Some raw)) w)"
proof -
  note T = targetD [OF assms(2)]
  have tn: "temp_namer_ok (x_temp x)" using assms(1) by (simp add: temp_ok_def)
  have prep: "triple (sees_temp D f t []) (bnd (append_file t raw) (\<lambda>_. sync_file))
      (\<lambda>_ w. \<exists>b. b = raw \<and> sees_temp D f t b w) (sees D f)" if t: "temp_in D (butlast p) t" for t
    using triple_bnd [OF triple_append_temp [OF t, of f "[]" raw]
        triple_conseq [OF triple_still [OF stable_sees_temp moves_still_sync_file], of _ D f t "[] @ raw"]]
    by (auto simp: sees_temp_def)
  note rep = triple_replace [where post = ret and V = "\<lambda>_ _. True", OF tn T(2,3,4,6) prep st.moves_ret]
  have sees: "replaced D f p (\<lambda>b. b = raw) = sees D (f(p := Some raw))" by (auto simp: replaced_def fun_eq_iff)
  have main: "triple (sees D f) (with_temp (x_temp x) (butlast p) (\<lambda>t.
      bnd (bnd (append_file t raw) (\<lambda>_. sync_file)) (\<lambda>u. bnd (persist t p) (\<lambda>_. ret u))))
    (\<lambda>_. sees D (f(p := Some raw))) (\<lambda>w. sees D f w \<or> sees D (f(p := Some raw)) w)"
    by (rule triple_conseq [OF rep]) (auto simp: sees)
  note post = triple_after_replace [OF moves_still_sync_dir, of D f p "\<lambda>b. b = raw", unfolded sees]
  show ?thesis
    unfolding write_json_atomic_durable_def T(1) option.case
    by (rule triple_bnd [OF triple_mkdirs [OF T(5)] triple_bnd [OF main post]])
qed

section \<open>Blobs, as steps\<close>

text \<open>A stored content that decodes to a plaintext with the given hash.\<close>

definition holds_hash :: "ext \<Rightarrow> blob_codec \<Rightarrow> string \<Rightarrow> bytes \<Rightarrow> bool" where
  "holds_hash x cd h raw \<longleftrightarrow> (\<exists>pt. decode_blob x (cd_cipher cd) raw = Some pt \<and> sha256_hex x pt = h)"

lemma moves_still_late_secs: "moves still (late_secs timeout start)"
  unfolding late_secs_def by (intro still_intros)

lemma moves_still_file_len: "moves still (file_len p)"
  unfolding file_len_def by (intro still_intros)

lemma moves_spends_write_blob: "moves spends (write_blob x cd src bp h timeout delays base)"
  unfolding write_blob_def write_blob_once_def encode_blob_def temp_put_def
  by (intro spends_intros moves_spends_create_dir_all_durable sp.moves_retry moves_spends_with_temp
      sp.moves_write_blob_from_file
      sp.moves_still_step [OF moves_still_late_secs] sp.moves_still_step [OF moves_still_file_len]
      sp.moves_still_step [OF moves_still_sha256_plaintext] store_still [THEN sp.moves_still_step])

lemma triple_verify_temp:
  assumes "temp_in D d t"
  shows "triple (sees D f) (sha256_plaintext_blob x cd t timeout)
    (\<lambda>h w. \<exists>raw. holds_hash x cd h raw \<and> sees_temp D f t raw w) (sees D f)"
proof (rule tripleI)
  fix w h v assume w: "sees D f w" and ok: "sha256_plaintext_blob x cd t timeout w = (Ok h, v)"
  from sha256_plaintext_value [OF ok] obtain raw pt u where r: "read_file t w = (Ok raw, u)"
    and d: "decode_blob x (cd_cipher cd) raw = Some pt" "h = sha256_hex x pt" by blast
  have "file_at (fs w) t = Some raw"
    by (rule read_file_value [OF _ _ r]) (use w assms in \<open>auto simp: sees_def temp_in_def\<close>)
  moreover have "still w v" by (rule movesD [OF moves_still_sha256_plaintext ok])
  ultimately have "sees_temp D f t raw v" using w by (auto simp: sees_temp_def sees_def still_def)
  with d show "\<exists>raw. holds_hash x cd h raw \<and> sees_temp D f t raw v" by (auto simp: holds_hash_def)
next
  fix w e v assume "sees D f w" and "sha256_plaintext_blob x cd t timeout w = (Err e, v)"
  then show "sees D f v" using movesD [OF moves_still_sha256_plaintext] stableD [OF stable_sees] by metis
next
  fix w v assume "sees D f w" and "sha256_plaintext_blob x cd t timeout w = (Halt, v)"
  then show "sees D f v" using movesD [OF moves_still_sha256_plaintext] stableD [OF stable_sees] by metis
qed

lemma triple_encode_blob:
  assumes t: "temp_in D d t"
  shows "triple (sees_temp D f t []) (encode_blob x cd src h timeout start t)
    (\<lambda>_ w. \<exists>raw. holds_hash x cd h raw \<and> sees_temp D f t raw w) (sees D f)"
proof -
  have s: "triple (sees D f) m (\<lambda>_. sees D f) (sees D f)" if "moves still m" for m :: "'a io"
    by (rule triple_still [OF stable_sees that])
  have put: "moves (confined D {}) (temp_put t c out)" for c out
    unfolding temp_put_def by (rule moves_within_append) (use t in \<open>auto simp: temp_in_def\<close>)
  have enc: "triple (sees D f) (write_blob_from_file_to_writer x cd src (temp_put t) timeout ()) (\<lambda>_. sees D f) (sees D f)"
    by (rule triple_unseen [OF within_time.moves_write_blob_from_file [OF put]])
  have stab: "stable (\<lambda>w. \<exists>raw. holds_hash x cd a raw \<and> sees_temp D f t raw w)" for a
    by (intro stable_ex stable_conj stable_const stable_sees_temp)
  have sync: "triple (\<lambda>w. \<exists>raw. holds_hash x cd h raw \<and> sees_temp D f t raw w) (bnd sync_file (\<lambda>_. ret n))
      (\<lambda>_ w. \<exists>raw. holds_hash x cd h raw \<and> sees_temp D f t raw w) (sees D f)" for n :: nat
    by (rule triple_conseq [OF triple_still [OF stab st.moves_bnd [OF moves_still_sync_file st.moves_ret]]])
      (auto simp: sees_temp_def)
  have fin: "triple (\<lambda>w. \<exists>raw. holds_hash x cd a raw \<and> sees_temp D f t raw w)
      (if a \<noteq> h then throw e else bnd sync_file (\<lambda>_. ret n))
      (\<lambda>_ w. \<exists>raw. holds_hash x cd h raw \<and> sees_temp D f t raw w) (sees D f)" for a e and n :: nat
    using sync by (intro triple_if triple_throw) (auto simp: sees_temp_def)
  have "triple (sees D f) (encode_blob x cd src h timeout start t)
    (\<lambda>_ w. \<exists>raw. holds_hash x cd h raw \<and> sees_temp D f t raw w) (sees D f)"
    unfolding encode_blob_def
    by (intro triple_bnd [OF s [OF moves_still_late_secs]] triple_if triple_throw
        triple_bnd [OF enc] triple_bnd [OF s [OF moves_still_file_len]] triple_bnd [OF triple_verify_temp [OF t] fin])
  then show ?thesis by (rule triple_pre) (simp add: sees_temp_def)
qed

lemma triple_write_blob_once:
  assumes "temp_ok x" and "target D bp"
  shows "triple (sees D f) (write_blob_once x cd src bp h timeout)
    (\<lambda>_ . replaced D f bp (holds_hash x cd h)) (\<lambda>w. sees D f w \<or> replaced D f bp (holds_hash x cd h) w)"
proof -
  note T = targetD [OF assms(2)]
  have tn: "temp_namer_ok (x_temp x)" using assms(1) by (simp add: temp_ok_def)
  note rep = triple_replace [where post = ret and V = "\<lambda>_ _. True", OF tn T(2,3,4,6) triple_encode_blob st.moves_ret]
  have main: "triple (sees D f) (with_temp (x_temp x) (butlast bp) (\<lambda>t.
      bnd (encode_blob x cd src h timeout start t) (\<lambda>n. bnd (persist t bp) (\<lambda>_. ret n))))
    (\<lambda>_. replaced D f bp (holds_hash x cd h)) (\<lambda>w. sees D f w \<or> replaced D f bp (holds_hash x cd h) w)" for start
    by (rule triple_conseq [OF rep]) auto
  have s: "triple (sees D f) m (\<lambda>_. sees D f) (\<lambda>w. sees D f w \<or> Z w)" if "moves still m" for m :: "'a io" and Z
    by (rule triple_conseq [OF triple_still [OF stable_sees that]]) auto
  show ?thesis
    unfolding write_blob_once_def T(1) option.case
    by (intro triple_bnd [OF s [OF st.moves_lift]] triple_bnd [OF s [OF moves_still_get_now]] triple_bnd [OF main]
        triple_after_replace st.moves_bnd moves_still_sync_dir st.moves_ret)
qed

lemma replaced_again: "replaced D (f(p := Some b)) p B = replaced D f p B"
  by (simp add: replaced_def fun_eq_iff)

lemma triple_write_blob_again:
  assumes "temp_ok x" and "target D bp"
  shows "triple (\<lambda>w. sees D f w \<or> replaced D f bp (holds_hash x cd h) w) (write_blob_once x cd src bp h timeout)
    (\<lambda>_ . replaced D f bp (holds_hash x cd h)) (\<lambda>w. sees D f w \<or> replaced D f bp (holds_hash x cd h) w)"
  (is "triple ?P ?m ?Q ?P")
proof -
  have first: "triple (sees D f) ?m ?Q ?P" by (rule triple_write_blob_once [OF assms])
  have more: "triple (sees D (f(bp := Some b))) ?m ?Q ?P" if "holds_hash x cd h b" for b
    by (rule triple_conseq [OF triple_write_blob_once [OF assms, of "f(bp := Some b)"]])
      (use that in \<open>auto simp: replaced_again replaced_def\<close>)
  show ?thesis
  proof (rule tripleI)
    fix w a v assume "?P w" and "?m w = (Ok a, v)"
    then show "?Q a v" using triple_Ok [OF first] triple_Ok [OF more] unfolding replaced_def by blast
  next
    fix w e v assume "?P w" and "?m w = (Err e, v)"
    then show "?P v" using triple_Err [OF first] triple_Err [OF more] unfolding replaced_def by blast
  next
    fix w v assume "?P w" and "?m w = (Halt, v)"
    then show "?P v" using triple_Halt [OF first] triple_Halt [OF more] unfolding replaced_def by blast
  qed
qed

lemma triple_write_blob:
  assumes "temp_ok x" and "target D bp"
  shows "triple (sees D f) (write_blob x cd src bp h timeout delays base)
    (\<lambda>_ . replaced D f bp (holds_hash x cd h)) (\<lambda>w. sees D f w \<or> replaced D f bp (holds_hash x cd h) w)"
  (is "triple _ _ ?Q ?E")
proof -
  note T = targetD [OF assms(2)]
  have s: "triple (sees D f) (lift r) (\<lambda>_. sees D f) ?E" for r :: "unit res"
    by (rule triple_conseq [OF triple_still [OF stable_sees st.moves_lift]]) auto
  have "stable ?E" by (intro stable_disj stable_sees stable_replaced)
  from triple_retry [OF this triple_write_blob_again [OF assms]]
  have "triple (sees D f) (retry_with_backoff l timeout delays (write_blob_once x cd src bp h timeout)) ?Q ?E" for l
    by (rule triple_pre) auto
  then show ?thesis
    unfolding write_blob_def T(1) option.case
    by (intro triple_bnd [OF s] triple_bnd [OF triple_mkdirs [OF T(5)]] triple_bnd [where R = ?Q]) (auto intro: triple_ret)
qed

section \<open>Reading back, as steps\<close>

lemma moves_still_load_index: "moves still (load_index x sr src)"
  unfolding load_index_def by (intro still_all_intros)

lemma moves_still_latest_manifest: "moves still (latest_manifest x mr ix)"
  unfolding latest_manifest_def Let_def by (intro still_all_intros)

lemma parse_manifest_ok: "parse_manifest x raw = Some m \<Longrightarrow> bt_ok (mf_entries m)"
  by (auto simp: parse_manifest_def)

lemma parse_manifest_enc:
  assumes "manifest_json_ok x" and "bt_ok (mf_entries m)"
  shows "parse_manifest x (x_manifest_enc x m) = Some m"
  using assms bt_of_list_ok [of "mf_entries m"] by (simp add: parse_manifest_def manifest_json_ok_def)

lemma parse_index_enc: "index_json_ok x \<Longrightarrow> parse_index x (x_index_enc x ix) = Some ix"
  by (simp add: parse_index_def index_json_ok_def)

lemma path_exists_sighted:
  assumes "sighted w" and "tame D (fs w)" and "in_region D p" and "path_exists p w = (Ok e, v)"
  shows "e \<longleftrightarrow> node_at (fs w) p \<noteq> None"
  using probe_sighted [OF assms(1), of "\<lambda>F. present F p"] assms(2,4)
    present_plain_iff [OF _ in_region_plain [OF assms(2,3)]]
  by (auto simp: path_exists_def tame_def)

lemma load_index_value:
  assumes "tame D (fs w)" and "in_region D (sr @ [''index.json''])" and "load_index x sr src w = (Ok ix, v)"
  shows "validate_version_index ix = Inr () \<and> (vx_versions ix = [] \<or>
    (\<exists>raw. file_at (fs w) (sr @ [''index.json'']) = Some raw \<and> parse_index x raw = Some ix))"
proof -
  from assms(3) obtain e u where e: "path_exists (sr @ [''index.json'']) w = (Ok e, u)"
    and rest: "(if \<not> e then ret \<lparr>vx_schema_version = STORE_SCHEMA_VERSION, vx_source_path = path_text src, vx_versions = [],
      vx_safety_pinned_version_id = None, vx_safety_pending_version_id = None,
      vx_safety_pending_first_seen_unix = None\<rparr>
    else bnd (read_file (sr @ [''index.json''])) (\<lambda>raw. case parse_index x raw of
        None \<Rightarrow> throw (Bail ''versioned::load_index failed to parse'')
      | Some ix \<Rightarrow> bnd (lift (validate_version_index ix)) (\<lambda>_. ret ix))) u = (Ok ix, v)"
    unfolding load_index_def by (elim bnd_OkE)
  have u: "fs u = fs w" using movesD [OF moves_still_prims(1) e] by (simp add: still_def)
  show ?thesis
  proof (cases e)
    case False
    with rest show ?thesis by (auto simp: ret_def validate_version_index_def)
  next
    case True
    with rest obtain raw s where r: "read_file (sr @ [''index.json'']) u = (Ok raw, s)"
      and p: "parse_index x raw = Some ix" "validate_version_index ix = Inr ()"
      by (auto simp: throw_def lift_Ok_iff ret_Ok_iff elim!: bnd_OkE split: option.splits)
    moreover have "file_at (fs u) (sr @ [''index.json'']) = Some raw"
      by (rule read_file_value [OF _ assms(2) r]) (simp add: u assms(1))
    ultimately show ?thesis using u by auto
  qed
qed

lemma latest_manifest_value:
  assumes "tame D (fs w)" and "vx_versions ix \<noteq> [] \<Longrightarrow> in_region D (manifest_path mr (vi_id (last (vx_versions ix))))"
    and "latest_manifest x mr ix w = (Ok (Some m), v)"
  shows "vx_versions ix \<noteq> [] \<and> (\<exists>raw. file_at (fs w) (manifest_path mr (vi_id (last (vx_versions ix)))) = Some raw
    \<and> parse_manifest x raw = Some m)"
proof -
  let ?p = "manifest_path mr (vi_id (last (vx_versions ix)))"
  from assms(3) have ne: "vx_versions ix \<noteq> []" by (auto simp: latest_manifest_def ret_def)
  with assms(3) obtain e u raw s where e: "path_exists ?p w = (Ok e, u)"
    and r: "read_file ?p u = (Ok raw, s)" and p: "parse_manifest x raw = Some m"
    by (auto simp: latest_manifest_def Let_def throw_def ret_Ok_iff elim!: bnd_OkE split: option.splits if_splits)
  have u: "fs u = fs w" using movesD [OF moves_still_prims(1) e] by (simp add: still_def)
  have "file_at (fs u) ?p = Some raw"
    by (rule read_file_value [OF _ assms(2) [OF ne] r]) (simp add: u assms(1))
  with ne p u show ?thesis by auto
qed

end
