(* ===== verification/Scan.thy ===== *)
theory Scan
  imports Store_Io
begin

text \<open>
  Scanning a watched path into the next manifest candidate (\<open>scan_snapshot\<close> and its helpers in
  \<open>store.rs\<close>), and the comparison that decides whether a new version is due. The walk itself
  (\<open>walkdir\<close>) and the glob sets are parameters. The lemmas show that a scan writes nothing, that every
  entry it returns is well formed and carries a hash that is justified, and that a failure to read
  keeps what the previous version knew.
\<close>

section \<open>The source view\<close>

record source_path_view =
  sv_scan_path :: path
  sv_snapshot :: "source_snapshot_info option"
  sv_snapshot_error :: "string option"

text \<open>The build for platforms without a snapshot provider.\<close>

definition prepare_source_view :: "path \<Rightarrow> bool \<Rightarrow> source_path_view io" where
  "prepare_source_view p enabled =
    (if \<not> enabled then ret \<lparr>sv_scan_path = p, sv_snapshot = None, sv_snapshot_error = None\<rparr>
     else bnd (attempt (metadata p)) (\<lambda>_.
       ret \<lparr>sv_scan_path = p, sv_snapshot = None,
         sv_snapshot_error = Some ''source snapshots are not supported on this platform''\<rparr>))"

section \<open>Scanning one file\<close>

definition sha256_file :: "ext \<Rightarrow> path \<Rightarrow> hashing_tuning \<Rightarrow> nat list \<Rightarrow> string io" where
  "sha256_file x p tun delays =
    bnd (retry_with_backoff (''versioned::sha256_file '' @ path_debug p) (ht_timeout_seconds tun) delays
      (sha256_file_hex_with_tuning x tun p)) (\<lambda>r. ret (fst r))"

text \<open>Length and modification time; times before the epoch are recorded as zero.\<close>

definition node_len :: "node \<Rightarrow> nat" where
  "node_len n = (case n of File b s ns \<Rightarrow> length b | _ \<Rightarrow> 0)"

definition node_mtime :: "node \<Rightarrow> int \<times> nat" where
  "node_mtime n = (case n of File b s ns \<Rightarrow> if s < 0 then (0, 0) else (s, ns) | _ \<Rightarrow> (0, 0))"

definition entry_unchanged :: "manifest_entry \<Rightarrow> nat \<Rightarrow> int \<times> nat \<Rightarrow> bool" where
  "entry_unchanged pe len mt \<longleftrightarrow> me_kind pe = FileEntry \<and> me_len pe = len \<and> me_mtime_unix pe = fst mt
    \<and> me_mtime_nanos pe = snd mt \<and> me_sha256 pe \<noteq> None"

definition file_entry :: "string \<Rightarrow> nat \<Rightarrow> int \<times> nat \<Rightarrow> string option \<Rightarrow> manifest_entry" where
  "file_entry rel len mt h = \<lparr>me_kind = FileEntry, me_rel_path = rel, me_len = len,
    me_mtime_unix = fst mt, me_mtime_nanos = snd mt, me_sha256 = h\<rparr>"

definition scan_one_file ::
  "ext \<Rightarrow> path \<Rightarrow> string \<Rightarrow> hashing_tuning \<Rightarrow> nat list \<Rightarrow> (string \<Rightarrow> manifest_entry option) \<Rightarrow> manifest_entry io" where
  "scan_one_file x p rel tun delays prev =
    bnd (retry_with_backoff (''versioned::scan_one_file metadata '' @ path_debug p) (ht_timeout_seconds tun) delays
      (in_context (''versioned::scan_one_file failed to stat file '' @ path_debug p) (metadata p))) (\<lambda>r.
    let mt = node_mtime (fst r); len = node_len (fst r);
        hash = bnd (sha256_file x p tun delays) (\<lambda>h. ret (file_entry rel len mt (Some h)))
    in case prev rel of
        None \<Rightarrow> hash
      | Some pe \<Rightarrow> if entry_unchanged pe len mt then ret (file_entry rel len mt (me_sha256 pe)) else hash)"

definition classify_scan_failure :: "error \<Rightarrow> read_failure_phase" where
  "classify_scan_failure e =
    (let msg = render e
     in if contains msg ''failed to stat file'' \<or> contains msg ''metadata'' then Metadata else Hash)"

section \<open>Scanning a watched path\<close>

type_synonym scan_state = "(string, manifest_entry) btree \<times> read_failure list"

definition carry_forward_prev_prefix ::
  "(string, manifest_entry) btree \<Rightarrow> manifest option \<Rightarrow> string \<Rightarrow> (string, manifest_entry) btree" where
  "carry_forward_prev_prefix es prev rel = (case prev of
      None \<Rightarrow> es
    | Some m \<Rightarrow>
        if rel = [] \<or> rel = ''<walk_error>'' then es
        else let pre = (if suffix ''/'' rel then rel else rel @ ''/'')
          in fold (\<lambda>e acc. if me_rel_path e = rel \<or> prefix pre (me_rel_path e)
               then bt_or_insert (me_rel_path e) e acc else acc) (bt_values (mf_entries m)) es)"

text \<open>The outcome of one file: its entry, or a failure that keeps the previous entry.\<close>

definition scan_into ::
  "ext \<Rightarrow> hashing_tuning \<Rightarrow> nat list \<Rightarrow> (string \<Rightarrow> manifest_entry option) \<Rightarrow> manifest option
    \<Rightarrow> path \<Rightarrow> string \<Rightarrow> scan_state \<Rightarrow> scan_state io" where
  "scan_into x tun delays prev_entries prev p rel st =
    bnd (attempt (scan_one_file x p rel tun delays prev_entries)) (\<lambda>r. ret (case r of
      Inr e \<Rightarrow> (bt_insert rel e (fst st), snd st)
    | Inl err \<Rightarrow>
        ((case prev of None \<Rightarrow> fst st
          | Some m \<Rightarrow> (case bt_get (mf_entries m) rel of
              None \<Rightarrow> fst st
            | Some pe \<Rightarrow> bt_insert rel pe (fst st))),
         snd st @ [\<lparr>rf_rel_path = rel, rf_phase = classify_scan_failure err,
           rf_attempts = length delays + 1, rf_message = render err\<rparr>])))"

definition strip_prefix :: "path \<Rightarrow> path \<Rightarrow> path option" where
  "strip_prefix d p = (if prefix d p then Some (drop (length d) p) else None)"

definition dir_entry :: "string \<Rightarrow> manifest_entry" where
  "dir_entry rel = \<lparr>me_kind = DirEntry, me_rel_path = rel, me_len = 0, me_mtime_unix = 0,
    me_mtime_nanos = 0, me_sha256 = None\<rparr>"

definition scan_item ::
  "ext \<Rightarrow> config \<Rightarrow> (path \<Rightarrow> bool) \<Rightarrow> nat list \<Rightarrow> (string \<Rightarrow> manifest_entry option) \<Rightarrow> manifest option
    \<Rightarrow> path \<Rightarrow> walk_item \<Rightarrow> scan_state \<Rightarrow> scan_state io" where
  "scan_item x cfg ignored delays prev_entries prev scan_path item st = (case item of
      WalkErr ep msg \<Rightarrow>
        let rel = (case Option.bind ep (strip_prefix scan_path) of None \<Rightarrow> ''<walk_error>'' | Some r \<Rightarrow> normalize_rel r)
        in ret (carry_forward_prev_prefix (fst st) prev rel,
          snd st @ [\<lparr>rf_rel_path = rel, rf_phase = Walk, rf_attempts = 1, rf_message = msg\<rparr>])
    | WalkEntry p node \<Rightarrow>
        let rel = (case strip_prefix scan_path p of None \<Rightarrow> p | Some r \<Rightarrow> r)
        in if rel = [] then ret st
           else if cf_skip_hidden cfg \<and> is_hidden rel then ret st
           else if ignored rel then ret st
           else (case node of
               Dir \<Rightarrow> ret (bt_insert (normalize_rel rel) (dir_entry (normalize_rel rel)) (fst st), snd st)
             | File b s n \<Rightarrow> scan_into x (cf_hashing cfg) delays prev_entries prev p (normalize_rel rel) st
             | _ \<Rightarrow> ret st))"

definition build_ignore_set :: "ext \<Rightarrow> string list \<Rightarrow> (path \<Rightarrow> bool) res" where
  "build_ignore_set x patterns = (case x_globset x (List.map_filter (x_glob x) patterns) of
      None \<Rightarrow> Inl (Bail ''versioned::build_ignore_set failed to build ignore set'')
    | Some g \<Rightarrow> Inr g)"

definition walk_dir :: "ext \<Rightarrow> path \<Rightarrow> walk_item list io" where
  "walk_dir x p w = (Ok (x_walk x w p), w)"

definition unix_now :: "int io" where
  "unix_now = bnd get_now (\<lambda>t. ret (int (t div 1000000000)))"

text \<open>The entries of the previous manifest by their recorded path; of repeated paths the last counts.\<close>

definition by_rel_path :: "manifest option \<Rightarrow> string \<Rightarrow> manifest_entry option" where
  "by_rel_path prev = (case prev of
      None \<Rightarrow> (\<lambda>_. None)
    | Some m \<Rightarrow> map_of (rev (map (\<lambda>e. (me_rel_path e, e)) (bt_values (mf_entries m)))))"

definition file_name_or_file :: "path \<Rightarrow> string" where
  "file_name_or_file p = (if p = [] \<or> last p = ''..'' then ''file'' else last p)"

definition scan_snapshot :: "ext \<Rightarrow> config \<Rightarrow> watched_path \<Rightarrow> path \<Rightarrow> manifest option \<Rightarrow> nat list \<Rightarrow> manifest io" where
  "scan_snapshot x cfg watched scan_path prev delays =
    bnd (lift (build_ignore_set x (cf_ignore_patterns cfg))) (\<lambda>ignored.
    bnd (case wp_kind watched of
        WatchedFile \<Rightarrow>
          scan_into x (cf_hashing cfg) delays (by_rel_path prev) prev scan_path
            (file_name_or_file (wp_path watched)) ([], [])
      | WatchedDirectory \<Rightarrow>
          bnd (walk_dir x scan_path) (\<lambda>items.
          fold_act (scan_item x cfg ignored delays (by_rel_path prev) prev scan_path) items ([], []))) (\<lambda>st.
    bnd unix_now (\<lambda>t.
    ret \<lparr>mf_schema_version = STORE_SCHEMA_VERSION, mf_source_path = path_text (wp_path watched),
      mf_created_at_unix = t, mf_source_snapshot = None, mf_source_snapshot_error = None,
      mf_read_failures = snd st, mf_entries = fst st\<rparr>)))"

definition manifests_equivalent :: "manifest \<Rightarrow> manifest \<Rightarrow> bool" where
  "manifests_equivalent p n \<longleftrightarrow> length (mf_entries p) = length (mf_entries n) \<and>
    list_all (\<lambda>(k, v). case bt_get (mf_entries p) k of
        None \<Rightarrow> False
      | Some pe \<Rightarrow> me_kind pe = me_kind v \<and> (me_kind v = FileEntry \<longrightarrow> me_sha256 pe = me_sha256 v)) (mf_entries n)"

section \<open>A scan writes nothing\<close>

lemma moves_still_sha256_file': "moves still (sha256_file x p tun delays)"
  unfolding sha256_file_def
  by (intro still_intros still_time.moves_retry moves_still_sha256_file)

lemma moves_still_scan_one_file: "moves still (scan_one_file x p rel tun delays prev)"
  unfolding scan_one_file_def Let_def
  by (intro still_all_intros still_time.moves_retry moves_still_sha256_file')

lemma moves_still_scan_into: "moves still (scan_into x tun delays pe prev p rel st)"
  unfolding scan_into_def by (intro still_intros moves_still_scan_one_file)

lemma moves_still_scan_item: "moves still (scan_item x cfg ig delays pe prev sp item st)"
proof (cases item)
  case (WalkEntry p n)
  then show ?thesis
    by (cases n) (auto simp: scan_item_def Let_def intro!: still_intros moves_still_scan_into)
qed (simp add: scan_item_def Let_def st.moves_ret)

lemma moves_still_unix_now: "moves still unix_now"
  unfolding unix_now_def by (intro still_intros)

lemma moves_still_scan_snapshot: "moves still (scan_snapshot x cfg wp sp prev delays)"
proof -
  have "moves still (walk_dir x sp)" by (rule movesI) (auto simp: walk_dir_def still_def)
  then show ?thesis
    unfolding scan_snapshot_def
    by (cases "wp_kind wp")
      (auto intro!: still_intros moves_still_scan_into moves_still_scan_item moves_still_unix_now)
qed

lemma moves_still_prepare_source_view: "moves still (prepare_source_view p b)"
  unfolding prepare_source_view_def by (intro still_intros)

lemma fold_still_value:
  assumes "\<And>x a. moves still (f x a)"
    and "\<And>x a s b t. x \<in> set xs \<Longrightarrow> fs s = F \<Longrightarrow> I a \<Longrightarrow> f x a s = (Ok b, t) \<Longrightarrow> I b"
  shows "fs s = F \<Longrightarrow> I a \<Longrightarrow> fold_act f xs a s = (Ok b, t) \<Longrightarrow> I b"
  using assms(2)
proof (induction xs arbitrary: a s)
  case Nil
  then show ?case by (simp add: ret_def)
next
  case (Cons x xs)
  from Cons.prems(3) obtain c u where c: "f x a s = (Ok c, u)" and r: "fold_act f xs c u = (Ok b, t)"
    by (auto elim: bnd_OkE)
  have "I c" by (rule Cons.prems(4) [OF _ Cons.prems(1,2) c]) simp
  moreover have "fs u = F" using movesD [OF assms(1) c] Cons.prems(1) by (simp add: still_def)
  ultimately show ?case using Cons.IH [OF _ _ r] Cons.prems(4) by (meson list.set_intros(2))
qed

section \<open>What a scanned file is recorded as\<close>

lemma retry_value:
  assumes "moves still op" and "\<And>s a t. fs s = F \<Longrightarrow> op s = (Ok a, t) \<Longrightarrow> V a"
    and "fs w = F" and "retry_with_backoff label timeout delays op w = (Ok r, v)"
  shows "V (fst r)"
proof -
  have "triple (\<lambda>w. fs w = F) op (\<lambda>a w. V a) (\<lambda>w. fs w = F)"
    by (rule tripleI) (use assms(1,2) movesD [OF assms(1)] in \<open>auto simp: still_def\<close>)
  from triple_Ok [OF triple_retry [OF _ this] assms(3,4)] show ?thesis
    by (simp add: stable_def still_def)
qed

lemma call_value: "call f s = (Ok a, t) \<Longrightarrow> fs s = F \<Longrightarrow> \<exists>G. f F = Inr (a, G)"
  by (drule call_Ok) auto

lemma sha256_file_hex_value:
  assumes "fs s = F" and "sha256_file_hex_with_tuning x tun p s = (Ok h, t)"
  shows "\<exists>raw. f_read p F = Inr (raw, F) \<and> h = sha256_hex x raw"
proof -
  from assms(2) obtain raw u b where n: "0 < ht_buffer_bytes tun"
    and r: "in_context (''hashing::sha256_file_hex_with_tuning failed to open file for hashing: '' @ path_debug p) (read_file p) s = (Ok raw, u)"
    and h: "h = hex_lower (x_sha256 x b)" and l: "\<exists>k z t'. hash_loop x (ht_buffer_bytes tun) (ht_timeout_seconds tun) k [] raw z = (Ok b, t')"
    unfolding sha256_file_hex_with_tuning_def
    by (auto simp: throw_def ret_Ok_iff elim!: bnd_OkE split: if_splits) blast
  from r have "call (f_read p) s = (Ok raw, u)"
    by (auto simp: in_context_def read_file_def split: prod.splits outcome.splits)
  from call_Ok [OF this] assms(1) have "f_read p F = Inr (raw, F)"
    by (auto simp: f_read_def split: sum.splits node.splits)
  moreover from l hash_loop_value [OF n] have "b = raw" by fastforce
  ultimately show ?thesis using h by (simp add: sha256_hex_def)
qed

lemma sha256_file_value:
  assumes "fs s = F" and "sha256_file x p tun delays s = (Ok h, t)"
  shows "\<exists>raw. f_read p F = Inr (raw, F) \<and> h = sha256_hex x raw"
proof -
  from assms(2) obtain r u where r: "retry_with_backoff (''versioned::sha256_file '' @ path_debug p)
      (ht_timeout_seconds tun) delays (sha256_file_hex_with_tuning x tun p) s = (Ok r, u)" and h: "h = fst r"
    by (auto simp: sha256_file_def ret_Ok_iff elim!: bnd_OkE)
  show ?thesis
    unfolding h by (rule retry_value [OF moves_still_sha256_file _ assms(1) r, where V =
      "\<lambda>h. \<exists>raw. f_read p F = Inr (raw, F) \<and> h = sha256_hex x raw"]) (rule sha256_file_hex_value)
qed

text \<open>
  Where the hash of a scanned entry comes from: the content of the source file, or the previous entry
  of the same path when length and modification time agree.
\<close>

definition scanned :: "ext \<Rightarrow> filesystem \<Rightarrow> (string \<Rightarrow> manifest_entry option) \<Rightarrow> path \<Rightarrow> string \<Rightarrow> manifest_entry \<Rightarrow> bool" where
  "scanned x F prev p rel e \<longleftrightarrow> me_kind e = FileEntry \<and> me_rel_path e = rel \<and>
    ((\<exists>raw. f_read p F = Inr (raw, F) \<and> me_len e = length raw \<and> me_sha256 e = Some (sha256_hex x raw))
     \<or> (\<exists>n pe. stat F p = Inr n \<and> prev rel = Some pe \<and> entry_unchanged pe (node_len n) (node_mtime n)
         \<and> me_len e = node_len n \<and> me_sha256 e = me_sha256 pe))"

lemma scan_one_file_value:
  assumes F: "fs s = F" and ok: "scan_one_file x p rel tun delays prev s = (Ok e, t)"
  shows "scanned x F prev p rel e"
proof -
  let ?op = "in_context (''versioned::scan_one_file failed to stat file '' @ path_debug p) (metadata p)"
  from ok obtain r u where r: "retry_with_backoff (''versioned::scan_one_file metadata '' @ path_debug p)
      (ht_timeout_seconds tun) delays ?op s = (Ok r, u)"
    and rest: "(let mt = node_mtime (fst r); len = node_len (fst r);
        hash = bnd (sha256_file x p tun delays) (\<lambda>h. ret (file_entry rel len mt (Some h)))
      in case prev rel of None \<Rightarrow> hash
        | Some pe \<Rightarrow> if entry_unchanged pe len mt then ret (file_entry rel len mt (me_sha256 pe)) else hash) u = (Ok e, t)"
    unfolding scan_one_file_def by (elim bnd_OkE)
  have st: "moves still ?op" by (intro still_intros)
  have n: "stat F p = Inr (fst r)"
  proof (rule retry_value [OF st _ F r])
    fix s n t assume "fs s = F" and "?op s = (Ok n, t)"
    then have "call (f_stat p) s = (Ok n, t)"
      by (auto simp: in_context_def metadata_def split: prod.splits outcome.splits)
    from call_value [OF this \<open>fs s = F\<close>] show "stat F p = Inr n" by (auto simp: f_stat_def split: sum.splits)
  qed
  have u: "fs u = F" using movesD [OF still_time.moves_retry [OF st] r] F by (simp add: still_def)
  consider (same) pe where "prev rel = Some pe" "entry_unchanged pe (node_len (fst r)) (node_mtime (fst r))"
      "e = file_entry rel (node_len (fst r)) (node_mtime (fst r)) (me_sha256 pe)"
    | (hash) h z where "sha256_file x p tun delays u = (Ok h, z)"
        "e = file_entry rel (node_len (fst r)) (node_mtime (fst r)) (Some h)"
    using rest by (auto simp: Let_def ret_Ok_iff elim!: bnd_OkE split: option.splits if_splits)
  then show ?thesis
  proof cases
    case same
    with n show ?thesis by (auto simp: scanned_def file_entry_def)
  next
    case hash
    from sha256_file_value [OF u hash(1)] obtain raw where "f_read p F = Inr (raw, F)" "h = sha256_hex x raw" by blast
    moreover from this n have "node_len (fst r) = length raw"
      by (auto simp: f_read_def node_len_def split: node.splits)
    ultimately show ?thesis using hash(2) by (auto simp: scanned_def file_entry_def)
  qed
qed

section \<open>The entries of a scan\<close>

text \<open>
  A well-formed entry map: sorted, every key is the recorded path, every file carries the hexadecimal
  digest of its content and no directory carries one.
\<close>

definition entry_ok :: "string \<Rightarrow> manifest_entry \<Rightarrow> bool" where
  "entry_ok k e \<longleftrightarrow> me_rel_path e = k \<and> (case me_kind e of
      FileEntry \<Rightarrow> (case me_sha256 e of None \<Rightarrow> False | Some h \<Rightarrow> is_lower_hex_sha256 h)
    | DirEntry \<Rightarrow> me_sha256 e = None)"

definition entries_ok :: "(string, manifest_entry) btree \<Rightarrow> bool" where
  "entries_ok es \<longleftrightarrow> bt_ok es \<and> list_all (\<lambda>(k, e). entry_ok k e) es"

lemma entries_ok_iff: "entries_ok es \<longleftrightarrow> bt_ok es \<and> (\<forall>k e. bt_get es k = Some e \<longrightarrow> entry_ok k e)"
  using bt_get_iff [of es] by (auto simp: entries_ok_def list_all_iff)

lemma entries_ok_Nil [simp]: "entries_ok []"
  by (simp add: entries_ok_def bt_ok_Nil)

lemma entries_ok_get: "entries_ok es \<Longrightarrow> bt_get es k = Some e \<Longrightarrow> entry_ok k e"
  by (simp add: entries_ok_iff)

lemma entries_ok_insert: "entries_ok es \<Longrightarrow> entry_ok k e \<Longrightarrow> entries_ok (bt_insert k e es)"
  by (auto simp: entries_ok_iff bt.ok_put bt.get_put)

lemma entries_ok_or_insert: "entries_ok es \<Longrightarrow> entry_ok k e \<Longrightarrow> entries_ok (bt_or_insert k e es)"
  by (auto simp: bt_or_insert_def entries_ok_insert split: option.splits)

lemma entries_ok_remove: "entries_ok es \<Longrightarrow> entries_ok (bt_remove k es)"
  by (auto simp: entries_ok_iff bt.ok_del bt.get_del split: if_splits)

definition prev_ok :: "manifest option \<Rightarrow> bool" where
  "prev_ok prev \<longleftrightarrow> (case prev of None \<Rightarrow> True | Some m \<Rightarrow> entries_ok (mf_entries m))"

definition prev_get :: "manifest option \<Rightarrow> string \<Rightarrow> manifest_entry option" where
  "prev_get prev k = (case prev of None \<Rightarrow> None | Some m \<Rightarrow> bt_get (mf_entries m) k)"

lemma prev_get_ok: "prev_ok prev \<Longrightarrow> prev_get prev k = Some e \<Longrightarrow> entry_ok k e"
  by (auto simp: prev_ok_def prev_get_def entries_ok_get split: option.splits)

lemma by_rel_path_get:
  assumes "prev_ok prev"
  shows "by_rel_path prev = prev_get prev"
proof (cases prev)
  case (Some m)
  let ?es = "mf_entries m"
  from assms Some have b: "bt_ok ?es" and k: "\<And>k e. (k, e) \<in> set ?es \<Longrightarrow> me_rel_path e = k"
    by (auto simp: prev_ok_def entries_ok_def list_all_iff entry_ok_def)
  have "map (\<lambda>e. (me_rel_path e, e)) (bt_values ?es) = ?es"
    using k by (induction ?es) (auto simp: bt_values_def intro: map_idI)
  then have "by_rel_path prev k = map_of (rev ?es) k" for k by (simp add: Some by_rel_path_def)
  moreover have "map_of (rev ?es) = map_of ?es"
    using bt_ok_distinct [OF b] by (intro map_of_inject_set [THEN iffD2]) (auto simp: distinct_rev rev_map [symmetric])
  ultimately show ?thesis by (auto simp: prev_get_def Some bt_get_def)
qed (auto simp: by_rel_path_def prev_get_def)

text \<open>Where an entry of the new manifest comes from.\<close>

definition entry_origin :: "ext \<Rightarrow> filesystem \<Rightarrow> manifest option \<Rightarrow> string \<Rightarrow> manifest_entry \<Rightarrow> bool" where
  "entry_origin x F prev k e \<longleftrightarrow> e = dir_entry k \<or> prev_get prev k = Some e
    \<or> (\<exists>p. scanned x F (prev_get prev) p k e)"

lemma entry_origin_ok:
  assumes "sha_ok x" and "prev_ok prev" and "entry_origin x F prev k e"
  shows "entry_ok k e"
  using assms(3) unfolding entry_origin_def
proof (elim disjE exE)
  assume "e = dir_entry k"
  then show ?thesis by (simp add: entry_ok_def dir_entry_def)
next
  assume "prev_get prev k = Some e"
  then show ?thesis by (rule prev_get_ok [OF assms(2)])
next
  fix p assume "scanned x F (prev_get prev) p k e"
  then show ?thesis
    using is_lower_hex_sha256_hex [OF assms(1)] prev_get_ok [OF assms(2), of k]
    by (auto simp: scanned_def entry_ok_def entry_unchanged_def)
qed

text \<open>What a failure keeps: the previous entry of the path, or every previous entry below it.\<close>

definition failure_kept :: "manifest option \<Rightarrow> (string, manifest_entry) btree \<Rightarrow> read_failure \<Rightarrow> bool" where
  "failure_kept prev es fl \<longleftrightarrow> (if rf_phase fl = Walk
    then rf_rel_path fl \<in> {[], ''<walk_error>''}
      \<or> (\<forall>k. (k = rf_rel_path fl \<or> prefix (rf_rel_path fl @ ''/'') k) \<longrightarrow> prev_get prev k \<noteq> None \<longrightarrow> bt_get es k \<noteq> None)
    else prev_get prev (rf_rel_path fl) \<noteq> None \<longrightarrow> bt_get es (rf_rel_path fl) \<noteq> None)"

definition scan_inv :: "ext \<Rightarrow> filesystem \<Rightarrow> manifest option \<Rightarrow> scan_state \<Rightarrow> bool" where
  "scan_inv x F prev st \<longleftrightarrow> bt_ok (fst st) \<and> (\<forall>k e. bt_get (fst st) k = Some e \<longrightarrow> entry_origin x F prev k e)
    \<and> (\<forall>fl \<in> set (snd st). failure_kept prev (fst st) fl)"

lemma failure_kept_mono:
  "failure_kept prev es fl \<Longrightarrow> (\<And>k. bt_get es k \<noteq> None \<Longrightarrow> bt_get es' k \<noteq> None) \<Longrightarrow> failure_kept prev es' fl"
  by (auto simp: failure_kept_def split: if_splits)

lemma scan_inv_insert:
  assumes "scan_inv x F prev (es, fl)" and "entry_origin x F prev k e"
  shows "scan_inv x F prev (bt_insert k e es, fl)"
  using assms failure_kept_mono [of prev es _ "bt_insert k e es"]
  by (auto simp: scan_inv_def bt.ok_put bt.get_put)

lemma scan_inv_failure:
  assumes "scan_inv x F prev (es, fls)" and "failure_kept prev es fl"
  shows "scan_inv x F prev (es, fls @ [fl])"
  using assms by (auto simp: scan_inv_def)

lemma scan_inv_Nil: "scan_inv x F prev ([], [])"
  by (simp add: scan_inv_def bt_ok_Nil bt.get_empty)

lemma carry_forward_get:
  assumes "prev_ok prev" and "rel \<notin> {[], ''<walk_error>''}"
  defines "pre \<equiv> (if suffix ''/'' rel then rel else rel @ ''/'')"
  shows "bt_get (carry_forward_prev_prefix es prev rel) k =
    (case bt_get es k of Some e \<Rightarrow> Some e | None \<Rightarrow> if k = rel \<or> prefix pre k then prev_get prev k else None)"
proof (cases prev)
  case (Some m)
  have step: "bt_get (fold (\<lambda>e acc. if me_rel_path e = rel \<or> prefix pre (me_rel_path e)
        then bt_or_insert (me_rel_path e) e acc else acc) (map snd ents) es) k
      = (case bt_get es k of Some e \<Rightarrow> Some e | None \<Rightarrow> if k = rel \<or> prefix pre k then map_of ents k else None)"
    if "\<And>k e. (k, e) \<in> set ents \<Longrightarrow> me_rel_path e = k" for ents
    using that
  proof (induction ents arbitrary: es)
    case (Cons a ents)
    obtain j e where a: "a = (j, e)" by fastforce
    with Cons.prems have j: "me_rel_path e = j" by auto
    show ?case
      using Cons.IH [of "if j = rel \<or> prefix pre j then bt_or_insert j e es else es"] Cons.prems
      by (auto simp: a j bt_get_or_insert split: option.splits)
  qed (auto split: option.splits)
  have "me_rel_path e = k" if "(k, e) \<in> set (mf_entries m)" for k e
    using assms(1) Some that by (auto simp: prev_ok_def entries_ok_def list_all_iff entry_ok_def)
  note get = step [of "mf_entries m", OF this]
  have cf: "carry_forward_prev_prefix es prev rel = fold (\<lambda>e acc. if me_rel_path e = rel \<or> prefix pre (me_rel_path e)
        then bt_or_insert (me_rel_path e) e acc else acc) (map snd (mf_entries m)) es"
    using assms(2) unfolding Some carry_forward_prev_prefix_def pre_def Let_def bt_values_def by simp
  have pg: "prev_get prev k = map_of (mf_entries m) k" by (simp add: Some prev_get_def bt_get_def)
  show ?thesis unfolding cf pg by (rule get)
qed (auto simp: carry_forward_prev_prefix_def prev_get_def split: option.splits)

lemma carry_forward_nothing: "rel \<in> {[], ''<walk_error>''} \<Longrightarrow> carry_forward_prev_prefix es prev rel = es"
  by (auto simp: carry_forward_prev_prefix_def split: option.splits)

lemma bt_ok_carry_forward: "bt_ok es \<Longrightarrow> bt_ok (carry_forward_prev_prefix es prev rel)"
proof -
  have "bt_ok (fold (\<lambda>e acc. if P e then bt_or_insert (me_rel_path e) e acc else acc) xs es)" if "bt_ok es" for P xs es
    using that by (induction xs arbitrary: es) (auto simp: bt_ok_or_insert)
  then show "bt_ok es \<Longrightarrow> ?thesis"
    by (auto simp: carry_forward_prev_prefix_def Let_def split: option.splits)
qed

lemma scan_inv_walk_error:
  assumes p: "prev_ok prev" and inv: "scan_inv x F prev (es, fls)" and ph: "rf_phase fl = Walk"
  shows "scan_inv x F prev (carry_forward_prev_prefix es prev (rf_rel_path fl), fls @ [fl])"
proof (cases "rf_rel_path fl \<in> {[], ''<walk_error>''}")
  case True
  with inv ph show ?thesis
    by (subst carry_forward_nothing) (auto intro!: scan_inv_failure simp: failure_kept_def)
next
  case False
  let ?es = "carry_forward_prev_prefix es prev (rf_rel_path fl)"
  note g = carry_forward_get [OF p False, of es]
  have "bt_get ?es k \<noteq> None" if "bt_get es k \<noteq> None" for k using that by (auto simp: g)
  note mono = failure_kept_mono [OF _ this]
  have "scan_inv x F prev (?es, fls)"
    using inv bt_ok_carry_forward [of es prev] mono
    unfolding scan_inv_def fst_conv snd_conv
    by (auto simp: g entry_origin_def split: option.splits if_splits)
  moreover have "failure_kept prev ?es fl"
    using ph by (auto simp: failure_kept_def g prefix_def split: option.splits elim!: suffixE)
  ultimately show ?thesis by (rule scan_inv_failure)
qed

lemma scan_into_inv:
  assumes p: "prev_ok prev" and F: "fs s = F" and inv: "scan_inv x F prev st"
    and ok: "scan_into x tun delays (by_rel_path prev) prev q rel st s = (Ok st', t)"
  shows "scan_inv x F prev st'"
proof -
  from ok obtain r u where r: "attempt (scan_one_file x q rel tun delays (prev_get prev)) s = (Ok r, u)"
    and st': "st' = (case r of Inr e \<Rightarrow> (bt_insert rel e (fst st), snd st)
      | Inl err \<Rightarrow> ((case prev_get prev rel of None \<Rightarrow> fst st | Some pe \<Rightarrow> bt_insert rel pe (fst st)),
         snd st @ [\<lparr>rf_rel_path = rel, rf_phase = classify_scan_failure err,
           rf_attempts = length delays + 1, rf_message = render err\<rparr>]))"
    unfolding scan_into_def by_rel_path_get [OF p] prev_get_def
    by (auto simp: ret_Ok_iff elim!: bnd_OkE split: option.splits sum.splits)
  show ?thesis
  proof (cases r)
    case (Inr e)
    with r have "scan_one_file x q rel tun delays (prev_get prev) s = (Ok e, u)"
      by (auto simp: attempt_def split: prod.splits outcome.splits)
    from scan_one_file_value [OF F this] have "entry_origin x F prev rel e" by (auto simp: entry_origin_def)
    then show ?thesis using scan_inv_insert [of x F prev "fst st" "snd st"] inv by (simp add: st' Inr)
  next
    case (Inl err)
    let ?fl = "\<lparr>rf_rel_path = rel, rf_phase = classify_scan_failure err,
           rf_attempts = length delays + 1, rf_message = render err\<rparr>"
    have ph: "rf_phase ?fl \<noteq> Walk" by (simp add: classify_scan_failure_def Let_def)
    show ?thesis
    proof (cases "prev_get prev rel")
      case None
      with ph inv show ?thesis
        using scan_inv_failure [of x F prev "fst st" "snd st" ?fl] by (simp add: st' Inl failure_kept_def)
    next
      case (Some pe)
      then have "scan_inv x F prev (bt_insert rel pe (fst st), snd st)"
        using inv by (intro scan_inv_insert) (auto simp: entry_origin_def)
      from scan_inv_failure [OF this, of ?fl] Some ph show ?thesis
        by (simp add: st' Inl failure_kept_def bt.get_put)
    qed
  qed
qed

lemma scan_item_inv:
  assumes p: "prev_ok prev" and F: "fs s = F" and inv: "scan_inv x F prev st"
    and ok: "scan_item x cfg ig delays (by_rel_path prev) prev sp item st s = (Ok st', t)"
  shows "scan_inv x F prev st'"
proof (cases item)
  case (WalkErr ep msg)
  let ?rel = "case Option.bind ep (strip_prefix sp) of None \<Rightarrow> ''<walk_error>'' | Some r \<Rightarrow> normalize_rel r"
  from ok WalkErr have "st' = (carry_forward_prev_prefix (fst st) prev ?rel,
      snd st @ [\<lparr>rf_rel_path = ?rel, rf_phase = Walk, rf_attempts = 1, rf_message = msg\<rparr>])"
    by (simp add: scan_item_def Let_def ret_Ok_iff)
  with scan_inv_walk_error [OF p, of x F "fst st" "snd st" "\<lparr>rf_rel_path = ?rel, rf_phase = Walk, rf_attempts = 1, rf_message = msg\<rparr>"] inv
  show ?thesis by simp
next
  case (WalkEntry q n)
  have d: "scan_inv x F prev (bt_insert k (dir_entry k) (fst st), snd st)" for k
    using inv by (intro scan_inv_insert) (auto simp: entry_origin_def)
  show ?thesis
    using ok inv d scan_into_inv [OF p F inv]
    by (cases n) (auto simp: WalkEntry scan_item_def Let_def ret_Ok_iff split: if_splits)
qed

lemma scan_snapshot_inv:
  assumes p: "prev_ok prev" and ok: "scan_snapshot x cfg wp sp prev delays w = (Ok m, v)"
  shows "scan_inv x (fs w) prev (mf_entries m, mf_read_failures m)"
proof -
  from ok obtain ig st u where st: "(case wp_kind wp of
        WatchedFile \<Rightarrow> scan_into x (cf_hashing cfg) delays (by_rel_path prev) prev sp (file_name_or_file (wp_path wp)) ([], [])
      | WatchedDirectory \<Rightarrow> bnd (walk_dir x sp) (\<lambda>items.
          fold_act (scan_item x cfg ig delays (by_rel_path prev) prev sp) items ([], []))) w = (Ok st, u)"
    and m: "mf_entries m = fst st" "mf_read_failures m = snd st"
    unfolding scan_snapshot_def by (auto simp: lift_Ok_iff ret_Ok_iff elim!: bnd_OkE)
  have "scan_inv x (fs w) prev st"
  proof (cases "wp_kind wp")
    case WatchedFile
    with st scan_into_inv [OF p refl scan_inv_Nil] show ?thesis by simp
  next
    case WatchedDirectory
    with st have "fold_act (scan_item x cfg ig delays (by_rel_path prev) prev sp) (x_walk x w sp) ([], []) w = (Ok st, u)"
      by (auto simp: walk_dir_def elim!: bnd_OkE)
    then show ?thesis
      by (rule fold_still_value [where I = "scan_inv x (fs w) prev", OF moves_still_scan_item scan_item_inv [OF p], rotated -1])
        (simp_all add: scan_inv_Nil)
  qed
  then show ?thesis by (simp add: m)
qed

lemma scan_entries_ok:
  assumes "sha_ok x" and "prev_ok prev" and "scan_snapshot x cfg wp sp prev delays w = (Ok m, v)"
  shows "entries_ok (mf_entries m)"
  using scan_snapshot_inv [OF assms(2,3)] entry_origin_ok [OF assms(1,2)]
  unfolding scan_inv_def entries_ok_iff fst_conv by blast

section \<open>Scanning in a quiet world\<close>

lemma retry_first: "op w = (Ok a, v) \<Longrightarrow> retry_with_backoff l t ds op w = (Ok (a, 1), v)"
  by (simp add: retry_with_backoff_def retry_from.simps [of l t _ _ op ds 0] bnd_def get_now_def attempt_def ret_def)

lemma quiet_hash_loop:
  "quiet w \<Longrightarrow> 0 < n \<Longrightarrow> hash_loop x n tmo (now w) acc h w = (Ok (acc @ h), w)"
proof (induction h arbitrary: acc rule: length_induct)
  case (1 h)
  show ?case
  proof (cases "h = []")
    case True
    with 1 show ?thesis
      by (subst hash_loop.simps) (simp add: bnd_def get_now_def ret_def quiet_read_some read_len_def in_context_def)
  next
    case False
    let ?k = "read_len x n h"
    have k: "0 < ?k" using read_len_zero [of x n h] False "1.prems"(2) by auto
    then have "length (drop ?k h) < length h" using False by simp
    with 1 have "hash_loop x n tmo (now w) (acc @ take ?k h) (drop ?k h) w = (Ok ((acc @ take ?k h) @ drop ?k h), w)"
      by blast
    with 1 k False show ?thesis
      by (subst hash_loop.simps) (simp add: bnd_def get_now_def quiet_read_some in_context_def)
  qed
qed

lemma quiet_sha256_file_hex:
  assumes "quiet w" and "0 < ht_buffer_bytes tun" and "0 < ht_timeout_seconds tun" and "f_read p (fs w) = Inr (raw, fs w)"
  shows "sha256_file_hex_with_tuning x tun p w = (Ok (sha256_hex x raw), w)"
  using assms
  by (simp add: sha256_file_hex_with_tuning_def bnd_def in_context_def read_file_def quiet_call get_now_def
      quiet_hash_loop ret_def sha256_hex_def)

lemma quiet_scan_one_file:
  assumes "quiet w" and "0 < ht_buffer_bytes tun" and "0 < ht_timeout_seconds tun"
    and "stat (fs w) p = Inr (File raw s n)"
  shows "scan_one_file x p rel tun delays prev w = (Ok (file_entry rel (length raw) (node_mtime (File raw s n))
    (case prev rel of
      None \<Rightarrow> Some (sha256_hex x raw)
    | Some pe \<Rightarrow> if entry_unchanged pe (length raw) (node_mtime (File raw s n)) then me_sha256 pe else Some (sha256_hex x raw))), w)"
proof -
  have st: "retry_with_backoff l t ds (in_context c (metadata p)) w = (Ok (File raw s n, 1), w)" for l t ds c
    by (rule retry_first) (simp add: in_context_def metadata_def quiet_call assms(1,4) f_stat_def)
  have "f_read p (fs w) = Inr (raw, fs w)" by (simp add: f_read_def assms(4))
  note q = quiet_sha256_file_hex [OF assms(1-3) this]
  have "retry_with_backoff l t delays (sha256_file_hex_with_tuning x tun p) w = (Ok (sha256_hex x raw, 1), w)" for l t
    by (rule retry_first) (rule q)
  then have h: "sha256_file x p tun delays w = (Ok (sha256_hex x raw), w)"
    by (simp add: sha256_file_def bnd_def ret_def)
  show ?thesis
    unfolding scan_one_file_def by (simp add: bnd_def st h node_len_def ret_def split: option.splits)
qed

section \<open>Properties\<close>


definition scan_fs :: filesystem where
  "scan_fs = [([''src'', ''a''], File [1, 2] 5 0), ([''src'', ''sub''], Dir), ([''src''], Dir), ([''dst''], Dir)]"

definition scan_manifest :: manifest where
  "scan_manifest = \<lparr>mf_schema_version = 1, mf_source_path = ''/src'', mf_created_at_unix = 0,
    mf_source_snapshot = None, mf_source_snapshot_error = None, mf_read_failures = [],
    mf_entries = [(''a'', file_entry ''a'' 2 (5, 0) (Some (sha256_hex sample_ext [1, 2]))), (''sub'', dir_entry ''sub'')]\<rparr>"

lemma sample_ignore: "build_ignore_set sample_ext ps = Inr (\<lambda>_. False)"
proof -
  have "List.map_filter (\<lambda>s. None) ps = ([] :: (path \<Rightarrow> bool) list)" by (induction ps) (auto simp: List.map_filter_simps)
  then show ?thesis by (simp add: build_ignore_set_def sample_ext_def)
qed

lemma sample_scan:
  "scan_snapshot sample_ext sample_config sample_watched [''src''] None []
    \<lparr>fs = scan_fs, events = [], now = 0\<rparr> = (Ok scan_manifest, \<lparr>fs = scan_fs, events = [], now = 0\<rparr>)"
proof -
  let ?w = "\<lparr>fs = scan_fs, events = [], now = 0\<rparr>"
  have "stat (fs ?w) [''src'', ''a''] = Inr (File [1, 2] 5 0)"
    by (simp add: stat_def resolve_def scan_fs_def node_at_def)
  from quiet_scan_one_file [OF _ _ _ this, of default_hashing_tuning sample_ext "''a''" "[]" "\<lambda>_. None"]
  have f: "scan_one_file sample_ext [''src'', ''a''] ''a'' default_hashing_tuning [] (\<lambda>_. None) ?w
    = (Ok (file_entry ''a'' 2 (5, 0) (Some (sha256_hex sample_ext [1, 2]))), ?w)"
    by (simp add: quiet_def default_hashing_tuning_def default_hash_buffer_bytes_def
        default_hash_timeout_seconds_def node_mtime_def numeral_2_eq_2)
  have w: "x_walk sample_ext ?w [''src''] = [WalkEntry [''src''] Dir, WalkEntry [''src'', ''sub''] Dir,
      WalkEntry [''src'', ''a''] (File [1, 2] 5 0)]"
    by (simp add: sample_ext_def sample_walk_def scan_fs_def node_at_def strict_prefix_def)
  show ?thesis
    unfolding scan_snapshot_def sample_ignore lift_Inr ret_bnd
    by (simp add: sample_watched_def walk_dir_def bnd_def w scan_item_def strip_prefix_def is_hidden_def
        scan_into_def by_rel_path_def sample_config_def f attempt_def ret_def unix_now_def get_now_def
        normalize_rel_def rel_text_def scan_manifest_def STORE_SCHEMA_VERSION_def path_text_def Let_def)
qed



definition denied_ext :: ext where
  "denied_ext = sample_ext\<lparr>x_walk := \<lambda>w p. [WalkErr (Some [''src'', ''sub'']) ''denied'']\<rparr>"

definition denied_manifest :: manifest where
  "denied_manifest = scan_manifest\<lparr>mf_read_failures :=
      [\<lparr>rf_rel_path = ''sub'', rf_phase = Walk, rf_attempts = 1, rf_message = ''denied''\<rparr>],
    mf_entries := [(''sub'', dir_entry ''sub'')]\<rparr>"

lemma denied_scan:
  "scan_snapshot denied_ext sample_config sample_watched [''src''] (Some scan_manifest) []
    \<lparr>fs = scan_fs, events = [], now = 0\<rparr> = (Ok denied_manifest, \<lparr>fs = scan_fs, events = [], now = 0\<rparr>)"
proof -
  have "build_ignore_set denied_ext ps = Inr (\<lambda>_. False)" for ps
    using sample_ignore [of ps] by (simp add: build_ignore_set_def denied_ext_def)
  then show ?thesis
    unfolding scan_snapshot_def
    by (simp add: sample_watched_def walk_dir_def bnd_def scan_item_def strip_prefix_def denied_ext_def
        ret_def unix_now_def get_now_def normalize_rel_def rel_text_def denied_manifest_def scan_manifest_def
        STORE_SCHEMA_VERSION_def path_text_def Let_def carry_forward_prev_prefix_def bt_values_def
        file_entry_def dir_entry_def bt_or_insert_def bt_get_def)
qed


text \<open>
  C32: the root of the source is the exception. When the walk of a watched directory fails at its root,
  the scan succeeds with an empty manifest, although the previous version has entries: the failure to
  read is taken for the deletion of everything, and the two manifests differ, so a version is due.
\<close>

theorem root_walk_failure_drops_everything:
  assumes "build_ignore_set x (cf_ignore_patterns cfg) = Inr ig" and "wp_kind wp = WatchedDirectory"
    and "x_walk x w sp = [WalkErr (Some sp) msg]" and "mf_entries p \<noteq> []"
  shows "\<exists>m. scan_snapshot x cfg wp sp (Some p) delays w = (Ok m, w) \<and> mf_entries m = [] \<and> \<not> manifests_equivalent p m"
  using assms
  by (simp add: scan_snapshot_def bnd_def walk_dir_def scan_item_def strip_prefix_def normalize_rel_def
      rel_text_def carry_forward_prev_prefix_def ret_def unix_now_def get_now_def manifests_equivalent_def)

theorem root_walk_failure_drops_everything_witness:
  "\<exists>m. scan_snapshot sample_ext sample_config sample_watched [''src''] (Some scan_manifest) []
      \<lparr>fs = [], events = [], now = 0\<rparr> = (Ok m, \<lparr>fs = [], events = [], now = 0\<rparr>)
    \<and> mf_entries m = [] \<and> \<not> manifests_equivalent scan_manifest m"
  by (rule root_walk_failure_drops_everything [OF sample_ignore])
    (simp_all add: sample_watched_def sample_ext_def sample_walk_def node_at_def scan_manifest_def)

text \<open>What the comparison looks at: the kind, and for a file its hash.\<close>

definition entry_summary :: "manifest_entry \<Rightarrow> manifest_entry_kind \<times> string option" where
  "entry_summary e = (me_kind e, if me_kind e = FileEntry then me_sha256 e else None)"

text \<open>
  C21: the early-exit comparison of two manifests computes exactly the reference notion: the same paths
  with the same kinds and, for files, the same hashes. Lengths, times and read failures do not count.
\<close>

theorem manifests_equivalent_iff:
  assumes "bt_ok (mf_entries p)" and "bt_ok (mf_entries n)"
  shows "manifests_equivalent p n \<longleftrightarrow>
    map_option entry_summary \<circ> bt_get (mf_entries p) = map_option entry_summary \<circ> bt_get (mf_entries n)"
    (is "_ \<longleftrightarrow> ?r")
proof -
  let ?P = "mf_entries p" and ?N = "mf_entries n"
  have bg: "bt_get m = map_of m" for m :: "(string, manifest_entry) btree" by (rule ext) (simp add: bt_get_def)
  have len: "length m = card (dom (bt_get m))" if "bt_ok m" for m :: "(string, manifest_entry) btree"
    using bt_ok_distinct [OF that] distinct_card [of "map fst m"] by (simp add: bg dom_map_of_conv_image_fst)
  have fin: "finite (dom (bt_get m))" for m :: "(string, manifest_entry) btree"
    by (simp add: bg finite_dom_map_of)
  have all: "list_all (\<lambda>(k, v). case bt_get ?P k of None \<Rightarrow> False
      | Some pe \<Rightarrow> me_kind pe = me_kind v \<and> (me_kind v = FileEntry \<longrightarrow> me_sha256 pe = me_sha256 v)) ?N
    \<longleftrightarrow> (\<forall>k v. bt_get ?N k = Some v \<longrightarrow> map_option entry_summary (bt_get ?P k) = Some (entry_summary v))"
  proof -
    have "(case o1 of None \<Rightarrow> False
        | Some pe \<Rightarrow> me_kind pe = me_kind v \<and> (me_kind v = FileEntry \<longrightarrow> me_sha256 pe = me_sha256 v))
      \<longleftrightarrow> map_option entry_summary o1 = Some (entry_summary v)" for o1 v
      by (cases o1) (auto simp: entry_summary_def)
    then show ?thesis by (auto simp: list_all_iff bt_get_iff [OF assms(2)])
  qed
  show ?thesis
  proof
    assume "manifests_equivalent p n"
    then have c: "card (dom (bt_get ?P)) = card (dom (bt_get ?N))"
      and a: "\<And>k v. bt_get ?N k = Some v \<Longrightarrow> map_option entry_summary (bt_get ?P k) = Some (entry_summary v)"
      by (auto simp: manifests_equivalent_def all len assms)
    then have "dom (bt_get ?N) \<subseteq> dom (bt_get ?P)" by fastforce
    with c have d: "dom (bt_get ?N) = dom (bt_get ?P)" by (intro card_subset_eq fin) auto
    show ?r
    proof
      fix k
      show "(map_option entry_summary \<circ> bt_get ?P) k = (map_option entry_summary \<circ> bt_get ?N) k"
      proof (cases "bt_get ?N k")
        case None
        then have "bt_get ?P k = None" using d by (metis domIff)
        with None show ?thesis by simp
      qed (use a in auto)
    qed
  next
    assume r: ?r
    then have e: "map_option entry_summary (bt_get ?P k) = map_option entry_summary (bt_get ?N k)" for k
      by (metis comp_apply)
    then have "dom (bt_get ?P) = dom (bt_get ?N)" unfolding dom_def by (metis (no_types) option.map_disc_iff)
    with e show "manifests_equivalent p n" by (simp add: manifests_equivalent_def all len assms)
  qed
qed

theorem manifests_equivalent_iff_witness:
  "manifests_equivalent scan_manifest scan_manifest \<longleftrightarrow>
    map_option entry_summary \<circ> bt_get (mf_entries scan_manifest) = map_option entry_summary \<circ> bt_get (mf_entries scan_manifest)"
  by (rule manifests_equivalent_iff; simp add: scan_manifest_def bt_ok_def)

section \<open>How failures are classified\<close>

lemma retry_error_label:
  "retry_with_backoff l t ds op w = (Err e, v) \<Longrightarrow> \<exists>r. render e = l @ r"
proof -
  have "\<exists>r. render e = l @ r" if "retry_from l t start n op ds i w = (Err e, v)" for start n ds i w
    using that
  proof (induction ds arbitrary: i w)
    case Nil
    then show ?case
      by (subst (asm) retry_from.simps)
        (auto simp: bnd_def get_now_def throw_def attempt_def ret_def split: if_splits prod.splits outcome.splits sum.splits)
  next
    case (Cons d ds)
    then show ?case
      by (subst (asm) retry_from.simps)
        (auto simp: bnd_def get_now_def throw_def attempt_def ret_def sleep_ns_def
          split: if_splits prod.splits outcome.splits sum.splits)
  qed
  then show "retry_with_backoff l t ds op w = (Err e, v) \<Longrightarrow> ?thesis"
    by (simp add: retry_with_backoff_def bnd_def get_now_def)
qed

lemma contains_infix: "contains s t \<longleftrightarrow> (\<exists>a b. s = a @ t @ b)"
proof
  assume "contains s t"
  then obtain i where "take (length t) (drop i s) = t" by (auto simp: contains_def list_ex_iff)
  then have "s = take i s @ t @ drop (length t) (drop i s)" by (metis append_take_drop_id)
  then show "\<exists>a b. s = a @ t @ b" by blast
qed (auto intro: contains_append)

text \<open>
  C33: failures are classified by searching the rendered message, which contains the path. A file whose
  path contains \<open>metadata\<close> and which cannot be hashed is therefore reported as a metadata failure, not
  as the hash failure it is.
\<close>

theorem hash_failure_misclassified:
  assumes "sha256_file x p tun delays w = (Err e, v)" and "contains (path_debug p) ''metadata''"
  shows "classify_scan_failure e = Metadata"
proof -
  from assms(1) have "retry_with_backoff (''versioned::sha256_file '' @ path_debug p) (ht_timeout_seconds tun)
      delays (sha256_file_hex_with_tuning x tun p) w = (Err e, v)"
    by (auto simp: sha256_file_def bnd_def ret_def split: prod.splits outcome.splits)
  from retry_error_label [OF this] obtain r where r: "render e = ''versioned::sha256_file '' @ path_debug p @ r" by auto
  from assms(2) obtain a b where "path_debug p = a @ ''metadata'' @ b" by (auto simp only: contains_infix)
  with r have "render e = (''versioned::sha256_file '' @ a) @ ''metadata'' @ (b @ r)" by simp
  then have "contains (render e) ''metadata''" unfolding contains_infix by blast
  then show ?thesis by (simp add: classify_scan_failure_def Let_def)
qed

lemma missing_file_error:
  "\<exists>e. sha256_file sample_ext [''metadata''] default_hashing_tuning [] \<lparr>fs = [], events = [], now = 0\<rparr>
    = (Err e, \<lparr>fs = [], events = [], now = 0\<rparr>)"
  by (simp add: sha256_file_def retry_with_backoff_def retry_from.simps bnd_def get_now_def attempt_def
      sha256_file_hex_with_tuning_def default_hashing_tuning_def default_hash_buffer_bytes_def
      default_hash_timeout_seconds_def in_context_def read_file_def quiet_call quiet_def f_read_def stat_def
      resolve_def node_at_def throw_def)

theorem hash_failure_misclassified_witness:
  "\<exists>e. fst (sha256_file sample_ext [''metadata''] default_hashing_tuning [] \<lparr>fs = [], events = [], now = 0\<rparr>) = Err e
    \<and> classify_scan_failure e = Metadata"
proof -
  obtain e where e: "sha256_file sample_ext [''metadata''] default_hashing_tuning [] \<lparr>fs = [], events = [], now = 0\<rparr>
      = (Err e, \<lparr>fs = [], events = [], now = 0\<rparr>)"
    using missing_file_error by blast
  have "path_debug [''metadata''] = (CHR 0x22 # ''/'') @ ''metadata'' @ [CHR 0x22]"
    by (simp add: path_debug_def path_text_def)
  then have "contains (path_debug [''metadata'']) ''metadata''" unfolding contains_infix by blast
  from hash_failure_misclassified [OF e this] e show ?thesis by simp
qed

end
