(* ===== verification/Operation_Lock.thy ===== *)
theory Operation_Lock
  imports Io_Policy Validation
begin

text \<open>
  The lease every operation on a store takes first (\<open>operation_lock.rs\<close>): the destination is
  normalised and canonicalised, a lock file is opened below it, and an exclusive lock is polled for
  until the policy's time limit. Several stores are locked in the order of their canonical paths.

  The first part translates the code for one process; whether somebody else holds a lock is what an
  event answers. The second part is the protocol between processes, as a step relation on who wants
  and who holds which store.
\<close>

section \<open>Canonical destinations\<close>

definition OPERATION_LOCK_FILE :: string where
  "OPERATION_LOCK_FILE = ''operation.lock''"

text \<open>
  One component of the normalisation. Paths are absolute, so that popping fails at the root only; the
  current directory never occurs among the components of an absolute path.
\<close>

definition normalize_component :: "path \<Rightarrow> string \<Rightarrow> path" where
  "normalize_component acc c =
    (if c = ''..'' then if acc = [] then acc @ [c] else butlast acc else acc @ [c])"

definition lexically_normalize :: "path \<Rightarrow> path" where
  "lexically_normalize p = foldl normalize_component [] p"

definition f_canonicalize :: "path \<Rightarrow> filesystem \<Rightarrow> path fs_result" where
  "f_canonicalize p F = (case resolve F p of
      Inl e \<Rightarrow> Inl e
    | Inr q \<Rightarrow> if node_at F q = None then Inl NotFound else Inr (q, F))"

definition canonicalize :: "path \<Rightarrow> path io" where
  "canonicalize p = call (f_canonicalize p)"

definition validate_and_normalize_destination :: "path \<Rightarrow> path io" where
  "validate_and_normalize_destination d =
    (let a = lexically_normalize d in
     bnd (metadata a) (\<lambda>n.
     if n \<noteq> Dir then throw (Bail ''versioned store destination is not a directory'')
     else canonicalize a))"

section \<open>Taking leases\<close>

record store_operation_lease =
  sl_file :: path
  sl_store_id :: string

definition store_id :: "ext \<Rightarrow> path \<Rightarrow> string" where
  "store_id x d = take 12 (sha256_hex x (str_bytes (path_text d)))"

text \<open>\<open>OpenOptions\<close> with \<open>create\<close> and without \<open>truncate\<close>: an existing file is left as it is.\<close>

definition f_open_create :: "path \<Rightarrow> filesystem \<Rightarrow> unit fs_result" where
  "f_open_create p F = (case resolve F p of
      Inl e \<Rightarrow> Inl e
    | Inr q \<Rightarrow> (case node_at F q of
        None \<Rightarrow> Inr ((), (q, File [] 0 0) # F)
      | Some Dir \<Rightarrow> Inl IsADirectory
      | Some _ \<Rightarrow> Inr ((), F)))"

text \<open>\<open>try_lock_exclusive\<close>: the event says \<open>WouldBlock\<close> when another open handle has the lock.\<close>

definition try_lock :: "path \<Rightarrow> unit io" where
  "try_lock p = call (\<lambda>F. Inr ((), F))"

lemma try_lock_time: "try_lock p w = (r, v) \<Longrightarrow> now w \<le> now v"
  by (auto simp: try_lock_def call_def next_event_def split: prod.splits list.splits if_splits option.splits)

function lease_loop :: "blocking_io_policy \<Rightarrow> nat \<Rightarrow> path \<Rightarrow> world \<Rightarrow> unit outcome \<times> world" where
  "lease_loop pol started p w = (case try_lock p w of
      (Ok _, v) \<Rightarrow> (Ok (), v)
    | (Halt, v) \<Rightarrow> (Halt, v)
    | (Err e, v) \<Rightarrow>
        if e \<noteq> Io WouldBlock then (Err e, v)
        else if bp_timeout pol \<le> now v - started then (Err (Bail ''versioned store is busy''), v)
        else lease_loop pol started p (v\<lparr>now := now v
          + min (bp_timeout pol - (now v - started)) (max (bp_backoff_poll_interval pol) (millis 1))\<rparr>))"
  by pat_completeness auto
termination
  by (relation "measure (\<lambda>(pol, started, p, w). started + bp_timeout pol - now w)")
    (auto simp: millis_def min_def max_def dest!: sym [THEN try_lock_time])

declare lease_loop.simps [simp del]

definition acquire_normalized_store_lease :: "ext \<Rightarrow> path \<Rightarrow> blocking_io_policy \<Rightarrow> store_operation_lease io" where
  "acquire_normalized_store_lease x d pol =
    (let lock = d @ [STORE_DIR, OPERATION_LOCK_FILE] in
     bnd (create_dir_all (d @ [STORE_DIR])) (\<lambda>_.
     bnd (call (f_open_create lock)) (\<lambda>_.
     bnd get_now (\<lambda>started.
     bnd (lease_loop pol started lock) (\<lambda>_.
     ret \<lparr>sl_file = lock, sl_store_id = store_id x d\<rparr>)))))"

definition acquire_store_lease :: "ext \<Rightarrow> path \<Rightarrow> blocking_io_policy \<Rightarrow> store_operation_lease io" where
  "acquire_store_lease x d pol =
    bnd (validate_and_normalize_destination d) (\<lambda>n. acquire_normalized_store_lease x n pol)"

text \<open>A \<open>BTreeSet\<close> of paths is the increasing list of its elements; paths compare by components.\<close>

definition lease_order :: "path list \<Rightarrow> path list io" where
  "lease_order ds = fold_act (\<lambda>d acc.
     bnd (validate_and_normalize_destination d) (\<lambda>n. ret (insort_insert n acc))) ds []"

definition acquire_store_leases :: "ext \<Rightarrow> path list \<Rightarrow> blocking_io_policy \<Rightarrow> store_operation_lease list io" where
  "acquire_store_leases x ds pol =
    bnd (lease_order ds) (\<lambda>ns.
    fold_act (\<lambda>n ls. bnd (acquire_normalized_store_lease x n pol) (\<lambda>l. ret (ls @ [l]))) ns [])"

section \<open>What one process does\<close>

lemma lexically_normalize_id: "''..'' \<notin> set p \<Longrightarrow> lexically_normalize p = p"
proof -
  have "''..'' \<notin> set p \<Longrightarrow> foldl normalize_component acc p = acc @ p" for acc
    by (induction p arbitrary: acc) (auto simp: normalize_component_def)
  then show "''..'' \<notin> set p \<Longrightarrow> lexically_normalize p = p" by (simp add: lexically_normalize_def)
qed

lemma moves_still_canonicalize: "moves still (canonicalize p)"
  unfolding canonicalize_def
  by (rule moves_still_call) (auto simp: f_canonicalize_def split: sum.splits if_splits)

lemma moves_still_validate_destination: "moves still (validate_and_normalize_destination d)"
  unfolding validate_and_normalize_destination_def Let_def
  by (intro still_intros moves_still_canonicalize)

lemma moves_still_lease_order: "moves still (lease_order ds)"
  unfolding lease_order_def by (intro still_intros moves_still_validate_destination)

lemma validate_destination_value:
  assumes "validate_and_normalize_destination d w = (Ok n, v)"
  shows "resolve (fs w) (lexically_normalize d) = Inr n" and "node_at (fs w) n = Some Dir"
proof -
  let ?a = "lexically_normalize d"
  from assms obtain m u where m: "metadata ?a w = (Ok m, u)" and rest:
    "(if m \<noteq> Dir then throw (Bail ''versioned store destination is not a directory'') else canonicalize ?a) u = (Ok n, v)"
    unfolding validate_and_normalize_destination_def Let_def by (elim bnd_OkE)
  then have dir: "m = Dir" and c: "canonicalize ?a u = (Ok n, v)" by (auto simp: throw_def split: if_splits)
  have u: "fs u = fs w" using movesD [OF moves_still_prims(4) m] by (simp add: still_def)
  from call_Ok [OF c [unfolded canonicalize_def]] u show r: "resolve (fs w) ?a = Inr n"
    by (auto simp: f_canonicalize_def split: sum.splits if_splits)
  from call_Ok [OF m [unfolded metadata_def]] dir r show "node_at (fs w) n = Some Dir"
    by (auto simp: f_stat_def stat_def split: sum.splits option.splits)
qed

text \<open>
  C36: a lease is taken where the store is. For a destination path without \<open>..\<close> the canonical directory
  that is locked is the one every path below the destination resolves through; nothing is written
  before the destination is known to be a directory.
\<close>

theorem lease_locks_store:
  assumes "''..'' \<notin> set d" and "validate_and_normalize_destination d w = (Ok n, v)"
  shows "resolve (fs w) d = Inr n \<and> node_at (fs w) n = Some Dir \<and> fs v = fs w"
  using validate_destination_value [OF assms(2)] lexically_normalize_id [OF assms(1)]
    movesD [OF moves_still_validate_destination assms(2)]
  by (simp add: still_def)

definition linked_world :: world where
  "linked_world = \<lparr>fs = [([''l''], Link [''a'', ''b'']), ([''a''], Dir), ([''a'', ''b''], Dir),
     ([''a'', ''s''], Dir), ([''s''], Dir)], events = [], now = 0\<rparr>"

lemma linked_world_quiet [simp]: "quiet linked_world"
  by (simp add: quiet_def linked_world_def)

lemma linked_walks:
  "resolve (fs linked_world) [''s''] = Inr [''s'']"
  "resolve (fs linked_world) [''l'', ''..'', ''s''] = Inr [''a'', ''s'']"
  "resolve (fs linked_world) [''l''] = Inr [''a'', ''b'']"
  by (simp_all add: resolve_def linked_world_def node_at_def eval_nat_numeral)

lemma linked_nodes:
  "node_at (fs linked_world) [''s''] = Some Dir" "node_at (fs linked_world) [''a'', ''b''] = Some Dir"
  by (simp_all add: linked_world_def node_at_def)

lemma linked_validate:
  "resolve (fs linked_world) (lexically_normalize d) = Inr n \<Longrightarrow> node_at (fs linked_world) n = Some Dir \<Longrightarrow>
    validate_and_normalize_destination d linked_world = (Ok n, linked_world)"
  by (simp add: validate_and_normalize_destination_def Let_def bnd_def metadata_def canonicalize_def quiet_call
      f_stat_def stat_def f_canonicalize_def)

theorem lease_locks_store_witness:
  "resolve (fs linked_world) [''l''] = Inr [''a'', ''b''] \<and> node_at (fs linked_world) [''a'', ''b''] = Some Dir
    \<and> fs linked_world = fs linked_world"
  by (rule lease_locks_store [of "[''l'']" linked_world "[''a'', ''b'']" linked_world])
    (simp_all add: linked_validate lexically_normalize_id linked_walks linked_nodes)


lemma sorted_insort_insert:
  "sorted_wrt (<) ns \<Longrightarrow> sorted_wrt (<) (insort_insert n ns)" for ns :: "path list"
  by (auto simp: insort_insert_key_def strict_sorted_iff distinct_insort sorted_insort)

lemma set_insort_insert: "set (insort_insert n ns) = insert n (set ns)"
  by (auto simp: insort_insert_key_def set_insort_key)

text \<open>What a run of \<open>lease_order\<close> collects, by induction on the destinations left.\<close>

lemma lease_order_from:
  assumes "fold_act (\<lambda>d acc. bnd (validate_and_normalize_destination d) (\<lambda>n. ret (insort_insert n acc))) ds acc w = (Ok ns, v)"
  shows "(sorted_wrt (<) acc \<longrightarrow> sorted_wrt (<) ns) \<and> set acc \<subseteq> set ns
    \<and> (\<forall>d \<in> set ds. \<exists>n \<in> set ns. resolve (fs w) (lexically_normalize d) = Inr n)"
  using assms
proof (induction ds arbitrary: acc w)
  case (Cons d ds)
  from Cons.prems obtain n u where n: "validate_and_normalize_destination d w = (Ok n, u)"
    and r: "fold_act (\<lambda>d acc. bnd (validate_and_normalize_destination d) (\<lambda>n. ret (insort_insert n acc))) ds
      (insort_insert n acc) u = (Ok ns, v)"
    by (auto simp: bnd_assoc elim!: bnd_OkE)
  have u: "fs u = fs w" using movesD [OF moves_still_validate_destination n] by (simp add: still_def)
  from Cons.IH [OF r] u validate_destination_value(1) [OF n] show ?case
    by (auto simp: set_insort_insert sorted_insort_insert)
qed (simp add: ret_def)

lemma lease_order_sorted: "lease_order ds w = (Ok ns, v) \<Longrightarrow> sorted_wrt (<) ns"
  using lease_order_from [of ds "[]" w ns v] by (simp add: lease_order_def)

lemma lease_order_covers:
  "lease_order ds w = (Ok ns, v) \<Longrightarrow> d \<in> set ds \<Longrightarrow> \<exists>n \<in> set ns. resolve (fs w) (lexically_normalize d) = Inr n"
  using lease_order_from [of ds "[]" w ns v] by (simp add: lease_order_def)

definition lock_path :: "path \<Rightarrow> path" where
  "lock_path d = d @ [STORE_DIR, OPERATION_LOCK_FILE]"

lemma acquired_lock: "acquire_normalized_store_lease x d pol w = (Ok l, v) \<Longrightarrow> sl_file l = lock_path d"
  unfolding acquire_normalized_store_lease_def Let_def
  by (auto simp: ret_def lock_path_def elim!: bnd_OkE)

lemma acquired_locks:
  "fold_act (\<lambda>n ls. bnd (acquire_normalized_store_lease x n pol) (\<lambda>l. ret (ls @ [l]))) ns ls w = (Ok out, v) \<Longrightarrow>
    map sl_file out = map sl_file ls @ map lock_path ns"
proof (induction ns arbitrary: ls w)
  case (Cons n ns)
  from Cons.prems obtain l u where "acquire_normalized_store_lease x n pol w = (Ok l, u)"
    and "fold_act (\<lambda>n ls. bnd (acquire_normalized_store_lease x n pol) (\<lambda>l. ret (ls @ [l]))) ns (ls @ [l]) u = (Ok out, v)"
    by (auto simp: bnd_assoc elim!: bnd_OkE)
  with Cons.IH acquired_lock show ?case by fastforce
qed (simp add: ret_def)

text \<open>
  C34: leases for several destinations are taken on distinct canonical directories in increasing order,
  whatever order the destinations come in and however often or under however many names they occur;
  and every destination without \<open>..\<close> has its canonical directory among them.
\<close>

theorem leases_ordered_and_complete:
  assumes "acquire_store_leases x ds pol w = (Ok ls, v)"
  shows "\<exists>ns. map sl_file ls = map lock_path ns \<and> sorted_wrt (<) ns
    \<and> (\<forall>d. d \<in> set ds \<and> ''..'' \<notin> set d \<longrightarrow> (\<exists>n \<in> set ns. resolve (fs w) d = Inr n))"
proof -
  from assms obtain ns u where ns: "lease_order ds w = (Ok ns, u)"
    and f: "fold_act (\<lambda>n ls. bnd (acquire_normalized_store_lease x n pol) (\<lambda>l. ret (ls @ [l]))) ns [] u = (Ok ls, v)"
    unfolding acquire_store_leases_def by (elim bnd_OkE)
  from acquired_locks [OF f] lease_order_sorted [OF ns] lease_order_covers [OF ns] show ?thesis
    by (intro exI [of _ ns]) (simp, metis lexically_normalize_id)
qed

section \<open>How long a wait can take\<close>

lemma try_lock_late:
  assumes "try_lock p w = (r, v)" and "\<forall>e \<in> set (events w). ev_ns e \<le> T"
  shows "now v \<le> now w + T \<and> set (events v) \<subseteq> set (events w)"
  using assms
  by (cases "events w") (auto simp: try_lock_def call_def next_event_def calm_def split: if_splits option.splits)

lemma lease_loop_late:
  "lease_loop pol started p w = (r, v) \<Longrightarrow> \<forall>e \<in> set (events w). ev_ns e \<le> T \<Longrightarrow>
    now v \<le> max (now w) (started + bp_timeout pol) + T"
proof (induction pol started p w rule: lease_loop.induct)
  case (1 pol started p w)
  obtain q u where t: "try_lock p w = (q, u)" by fastforce
  from try_lock_late [OF t "1.prems"(2)] have u: "now u \<le> now w + T" "set (events u) \<subseteq> set (events w)" by auto
  let ?z = "u\<lparr>now := now u + min (bp_timeout pol - (now u - started)) (max (bp_backoff_poll_interval pol) (millis 1))\<rparr>"
  show ?case
  proof (cases "\<exists>e. q = Err e \<and> e = Io WouldBlock \<and> \<not> bp_timeout pol \<le> now u - started")
    case True
    then obtain e where e: "q = Err e" "e = Io WouldBlock" "\<not> bp_timeout pol \<le> now u - started" by blast
    with "1.prems"(1) t have "lease_loop pol started p ?z = (r, v)" by (simp add: lease_loop.simps [of pol started p w])
    moreover have "\<forall>e \<in> set (events ?z). ev_ns e \<le> T" using u(2) "1.prems"(2) by auto
    ultimately have "now v \<le> max (now ?z) (started + bp_timeout pol) + T" using "1.IH" t e by auto
    moreover from e(3) have "now ?z \<le> started + bp_timeout pol \<or> now ?z \<le> now u + (bp_timeout pol - (now u - started))" by auto
    ultimately show ?thesis using e(3) u(1) by (auto simp: min_def max_def split: if_splits)
  next
    case False
    with "1.prems"(1) t have "v = u"
      by (auto simp: lease_loop.simps [of pol started p w] split: outcome.splits if_splits)
    with u(1) show ?thesis by auto
  qed
qed

text \<open>
  C35: waiting for a lease ends. However often the lock is busy, the wait is over no later than the
  policy's time limit plus the duration of one attempt.
\<close>

theorem lease_wait_bounded:
  assumes "\<forall>e \<in> set (events w). ev_ns e \<le> T"
  shows "now (snd (lease_loop pol (now w) p w)) \<le> now w + bp_timeout pol + T"
  using lease_loop_late [OF _ assms, of pol "now w" p "fst (lease_loop pol (now w) p w)" "snd (lease_loop pol (now w) p w)"]
  by simp

text \<open>A world in which the lock is busy twice, each attempt taking a millisecond.\<close>

definition busy_event :: event where
  "busy_event = \<lparr>ev_halt = False, ev_fail = Some WouldBlock, ev_blind = False, ev_ns = 1000000\<rparr>"

theorem lease_wait_bounded_witness:
  "now (snd (lease_loop bootstrap_defaults 7 [''d''] \<lparr>fs = [], events = [busy_event, busy_event], now = 7\<rparr>))
    \<le> 7 + bp_timeout bootstrap_defaults + 1000000"
  using lease_wait_bounded [of "\<lparr>fs = [], events = [busy_event, busy_event], now = 7\<rparr>" 1000000 bootstrap_defaults "[''d'']"]
  by (simp add: busy_event_def)

section \<open>The protocol between processes\<close>

text \<open>
  What the operations in progress want and hold, in the order in which they lock. An operation starts
  with the increasing list \<open>lease_order\<close> returns; it locks the next store when nobody holds it; it gives
  up when the wait times out or another error occurs; it releases everything when it ends, because a
  lease unlocks when it is dropped and the system unlocks the files of a process that dies.
\<close>

record lease_process =
  lp_active :: bool
  lp_wanted :: "path list"
  lp_held :: "path list"

type_synonym lease_system = "nat \<Rightarrow> lease_process"

definition idle_process :: lease_process where
  "idle_process = \<lparr>lp_active = False, lp_wanted = [], lp_held = []\<rparr>"

definition free_store :: "lease_system \<Rightarrow> path \<Rightarrow> bool" where
  "free_store s n \<longleftrightarrow> (\<forall>j. n \<notin> set (lp_held (s j)))"

inductive lease_advance :: "lease_system \<Rightarrow> lease_system \<Rightarrow> bool" where
  lock_next: "lp_active (s i) \<Longrightarrow> lp_wanted (s i) = n # ns \<Longrightarrow> free_store s n \<Longrightarrow>
    lease_advance s (s(i := (s i)\<lparr>lp_wanted := ns, lp_held := lp_held (s i) @ [n]\<rparr>))"
| finish: "lp_active (s i) \<Longrightarrow> lp_wanted (s i) = [] \<Longrightarrow> lease_advance s (s(i := idle_process))"

inductive lease_step :: "lease_system \<Rightarrow> lease_system \<Rightarrow> bool" where
  start: "\<not> lp_active (s i) \<Longrightarrow> lease_order ds w = (Ok ns, v) \<Longrightarrow>
    lease_step s (s(i := \<lparr>lp_active = True, lp_wanted = ns, lp_held = []\<rparr>))"
| advance: "lease_advance s t \<Longrightarrow> lease_step s t"
| give_up: "lp_active (s i) \<Longrightarrow> lease_step s (s(i := idle_process))"

inductive lease_reachable :: "lease_system \<Rightarrow> bool" where
  lr_init: "lease_reachable (\<lambda>_. idle_process)"
| lr_step: "lease_reachable s \<Longrightarrow> lease_step s t \<Longrightarrow> lease_reachable t"

definition lease_inv :: "lease_system \<Rightarrow> bool" where
  "lease_inv s \<longleftrightarrow> (\<forall>i. sorted_wrt (<) (lp_held (s i) @ lp_wanted (s i)))
    \<and> (\<forall>i. \<not> lp_active (s i) \<longrightarrow> s i = idle_process)
    \<and> (\<forall>i j n. n \<in> set (lp_held (s i)) \<longrightarrow> n \<in> set (lp_held (s j)) \<longrightarrow> i = j)
    \<and> finite {i. lp_active (s i)}"

lemma finite_active_upd:
  "finite {i. lp_active (s i)} \<Longrightarrow> finite {i. i \<noteq> k \<longrightarrow> lp_active (s i)}"
  "finite {i. lp_active (s i)} \<Longrightarrow> finite {i. i \<noteq> k \<and> lp_active (s i)}"
  by (rule finite_subset [of _ "insert k {i. lp_active (s i)}"]; auto)+

lemma idle_process_simps [simp]:
  "\<not> lp_active idle_process" "lp_wanted idle_process = []" "lp_held idle_process = []"
  by (simp_all add: idle_process_def)

lemma lease_advance_inv: "lease_advance s t \<Longrightarrow> lease_inv s \<Longrightarrow> lease_inv t"
proof (induction rule: lease_advance.induct)
  case (lock_next s i n ns)
  then have "sorted_wrt (<) ((lp_held (s i) @ [n]) @ ns)"
    unfolding lease_inv_def by (metis append.assoc append_Cons append_Nil)
  with lock_next show ?case
    by (auto simp: lease_inv_def free_store_def intro: finite_active_upd)
qed (auto simp: lease_inv_def intro: finite_active_upd)

lemma lease_step_inv: "lease_step s t \<Longrightarrow> lease_inv s \<Longrightarrow> lease_inv t"
proof (induction rule: lease_step.induct)
  case (start s i ds w ns v)
  then show ?case
    by (auto simp: lease_inv_def lease_order_sorted intro: finite_active_upd)
next
  case (advance s t)
  then show ?case by (blast intro: lease_advance_inv)
next
  case (give_up s i)
  then show ?case by (auto simp: lease_inv_def intro: finite_active_upd)
qed

lemma lease_reachable_inv: "lease_reachable s \<Longrightarrow> lease_inv s"
  by (induction rule: lease_reachable.induct) (simp add: lease_inv_def, blast intro: lease_step_inv)

text \<open>Mutual exclusion: no two operations hold the lease of one store.\<close>

lemma lease_exclusive:
  assumes "lease_reachable s" and "n \<in> set (lp_held (s i))" and "n \<in> set (lp_held (s j))"
  shows "i = j"
  using lease_reachable_inv [OF assms(1)] assms(2,3) by (auto simp: lease_inv_def)

text \<open>
  The order of locking: what an operation waits for is greater than everything it holds. So among the
  operations that wait, the one that waits for the greatest store waits for a free one.
\<close>

lemma lease_blocked:
  assumes "lease_inv s" and "n \<in> set (lp_held (s j))" and "lp_wanted (s j) = m # ms"
  shows "n < m"
  using assms by (fastforce simp: lease_inv_def sorted_wrt_append)

lemma lease_not_stuck:
  assumes inv: "lease_inv s" and act: "lp_active (s i)"
  shows "\<exists>t. lease_advance s t"
proof (cases "\<exists>j. lp_active (s j) \<and> lp_wanted (s j) = []")
  case False
  let ?A = "{j. lp_active (s j)}"
  let ?m = "Max ((\<lambda>j. hd (lp_wanted (s j))) ` ?A)"
  have fin: "finite ?A" using inv by (simp add: lease_inv_def)
  have "?m \<in> (\<lambda>j. hd (lp_wanted (s j))) ` ?A" using fin act by (intro Max_in) auto
  then obtain j where j: "lp_active (s j)" "hd (lp_wanted (s j)) = ?m" by auto
  with False obtain ns where w: "lp_wanted (s j) = ?m # ns" by (cases "lp_wanted (s j)") auto
  have "?m \<notin> set (lp_held (s k))" for k
  proof
    assume h: "?m \<in> set (lp_held (s k))"
    then have k: "lp_active (s k)" using inv by (auto simp: lease_inv_def)
    with False obtain m ms where m: "lp_wanted (s k) = m # ms" by (cases "lp_wanted (s k)") auto
    from lease_blocked [OF inv h m] have "?m < m" .
    moreover from fin k m have "m \<le> ?m" by (intro Max_ge) force+
    ultimately show False by simp
  qed
  then have "free_store s ?m" by (simp add: free_store_def)
  from lease_advance.lock_next [OF j(1) w this] show ?thesis by blast
qed (auto intro: lease_advance.finish)

definition lease_work :: "lease_system \<Rightarrow> nat" where
  "lease_work s = (\<Sum>i \<in> {i. lp_active (s i)}. Suc (length (lp_wanted (s i))))"

lemma lease_advance_work:
  "lease_advance s t \<Longrightarrow> finite {i. lp_active (s i)} \<Longrightarrow> lease_work t < lease_work s"
proof (induction rule: lease_advance.induct)
  case (lock_next s i n ns)
  let ?t = "s(i := (s i)\<lparr>lp_wanted := ns, lp_held := lp_held (s i) @ [n]\<rparr>)"
  have a: "{j. lp_active (?t j)} = {j. lp_active (s j)}" using lock_next by auto
  show ?case
    unfolding lease_work_def a using lock_next by (intro sum_strict_mono_ex1) auto
next
  case (finish s i)
  let ?t = "s(i := idle_process)"
  have a: "{j. lp_active (?t j)} = {j. lp_active (s j)} - {i}" by auto
  have "lease_work s = Suc 0 + (\<Sum>j \<in> {j. lp_active (s j)} - {i}. Suc (length (lp_wanted (s j))))"
    unfolding lease_work_def using finish by (subst sum.remove [of _ i]) auto
  moreover have "(\<Sum>j \<in> {j. lp_active (s j)} - {i}. Suc (length (lp_wanted (?t j))))
      = (\<Sum>j \<in> {j. lp_active (s j)} - {i}. Suc (length (lp_wanted (s j))))" by (rule sum.cong) auto
  ultimately show ?case unfolding lease_work_def a by simp
qed

lemma lease_drains_inv: "lease_inv s \<Longrightarrow> lease_advance\<^sup>*\<^sup>* s (\<lambda>_. idle_process)"
proof (induction "lease_work s" arbitrary: s rule: less_induct)
  case less
  show ?case
  proof (cases "\<exists>i. lp_active (s i)")
    case True
    then obtain t where t: "lease_advance s t" using lease_not_stuck [OF less.prems] by blast
    moreover have "lease_advance\<^sup>*\<^sup>* t (\<lambda>_. idle_process)"
      using less t lease_advance_work [OF t] lease_advance_inv [OF t] by (simp add: lease_inv_def)
    ultimately show ?thesis by (rule converse_rtranclp_into_rtranclp)
  next
    case False
    then have "s = (\<lambda>_. idle_process)" using less.prems by (auto simp: lease_inv_def)
    then show ?thesis by simp
  qed
qed

text \<open>
  C7: no deadlock. From every reachable state the operations in progress can all get their leases and
  finish, without any of them giving up and without a new one starting; and they cannot do so forever,
  since every such step leaves less to do.
\<close>

theorem lease_drains:
  assumes "lease_reachable s"
  shows "lease_advance\<^sup>*\<^sup>* s (\<lambda>_. idle_process) \<and> (\<forall>t. lease_advance s t \<longrightarrow> lease_work t < lease_work s)"
proof -
  have inv: "lease_inv s" by (rule lease_reachable_inv [OF assms])
  then have "finite {i. lp_active (s i)}" by (simp add: lease_inv_def)
  with lease_drains_inv [OF inv] lease_advance_work show ?thesis by blast
qed

section \<open>A concrete run\<close>

text \<open>Two destinations whose lock files exist, and two operations that name them in opposite orders.\<close>

definition two_stores :: world where
  "two_stores = \<lparr>fs = [([''a''], Dir), ([''b''], Dir), ([''a'', STORE_DIR], Dir), ([''b'', STORE_DIR], Dir),
     ([''a'', STORE_DIR, OPERATION_LOCK_FILE], File [] 0 0), ([''b'', STORE_DIR, OPERATION_LOCK_FILE], File [] 0 0)],
     events = [], now = 0\<rparr>"

lemma two_stores_quiet [simp]: "quiet two_stores"
  by (simp add: quiet_def two_stores_def)

lemma two_stores_nodes:
  "node_at (fs two_stores) [d] = (if d = ''a'' \<or> d = ''b'' then Some Dir else None)"
  "d = ''a'' \<or> d = ''b'' \<Longrightarrow> node_at (fs two_stores) [d, STORE_DIR] = Some Dir"
  "d = ''a'' \<or> d = ''b'' \<Longrightarrow> node_at (fs two_stores) [d, STORE_DIR, OPERATION_LOCK_FILE] = Some (File [] 0 0)"
  by (auto simp: node_at_def two_stores_def)

lemma lock_names: "STORE_DIR \<noteq> ''..''" "OPERATION_LOCK_FILE \<noteq> ''..''"
  by (simp_all add: STORE_DIR_def OPERATION_LOCK_FILE_def)

lemma two_stores_resolve:
  assumes "d = ''a'' \<or> d = ''b''"
  shows "resolve (fs two_stores) [d] = Inr [d]" and "resolve (fs two_stores) [d, STORE_DIR] = Inr [d, STORE_DIR]"
    and "resolve (fs two_stores) [d, STORE_DIR, OPERATION_LOCK_FILE] = Inr [d, STORE_DIR, OPERATION_LOCK_FILE]"
  using assms by (auto simp: resolve_def lock_names two_stores_nodes)

lemma two_stores_validate:
  assumes "d = ''a'' \<or> d = ''b''"
  shows "validate_and_normalize_destination [d] two_stores = (Ok [d], two_stores)"
proof -
  have "lexically_normalize [d] = [d]" using assms by (auto simp: lexically_normalize_id)
  with assms show ?thesis
    by (simp add: validate_and_normalize_destination_def Let_def bnd_def metadata_def canonicalize_def quiet_call
        f_stat_def stat_def f_canonicalize_def two_stores_resolve two_stores_nodes)
qed

lemma two_stores_lease:
  assumes "d = ''a'' \<or> d = ''b''"
  shows "acquire_normalized_store_lease x [d] pol two_stores
    = (Ok \<lparr>sl_file = lock_path [d], sl_store_id = store_id x [d]\<rparr>, two_stores)"
proof -
  have "create_dir [d, STORE_DIR] two_stores = (Err (Io AlreadyExists), two_stores)"
    using assms by (simp add: create_dir_def quiet_call f_mkdir_def lresolve_def two_stores_resolve two_stores_nodes lock_names)
  moreover have "path_is_dir [d, STORE_DIR] two_stores = (Ok True, two_stores)"
    using assms by (simp add: path_is_dir_def quiet_probe present_dir_def stat_def two_stores_resolve two_stores_nodes)
  ultimately have "create_dir_all [d, STORE_DIR] two_stores = (Ok (), two_stores)"
    by (simp add: create_dir_all_def bnd_def attempt_def ret_def)
  moreover have "call (f_open_create [d, STORE_DIR, OPERATION_LOCK_FILE]) two_stores = (Ok (), two_stores)"
    using assms by (simp add: quiet_call f_open_create_def two_stores_resolve two_stores_nodes)
  moreover have "lease_loop pol n q two_stores = (Ok (), two_stores)" for n q
    by (simp add: lease_loop.simps [of pol n q two_stores] try_lock_def quiet_call)
  ultimately show ?thesis
    by (simp add: acquire_normalized_store_lease_def Let_def bnd_def get_now_def ret_def lock_path_def)
qed

lemma two_stores_order: "lease_order [[''b''], [''a''], [''b'']] two_stores = (Ok [[''a''], [''b'']], two_stores)"
proof -
  have "insort_insert [''a''] [[''b'']] = [[''a''], [''b'']]" "insort_insert [''b''] [[''a''], [''b'']] = [[''a''], [''b'']]"
    by (simp_all add: insort_insert_key_def)
  then show ?thesis
    by (simp add: lease_order_def bnd_def two_stores_validate ret_def insort_insert_key_def)
qed

theorem leases_ordered_and_complete_witness:
  "\<exists>ns. map lock_path [[''a''], [''b'']] = map lock_path ns \<and> sorted_wrt (<) ns
    \<and> (\<exists>n \<in> set ns. resolve (fs two_stores) [''b''] = Inr n)"
proof -
  let ?ls = "\<lambda>x. map (\<lambda>d. \<lparr>sl_file = lock_path d, sl_store_id = store_id x d\<rparr>) [[''a''], [''b'']]"
  have run: "acquire_store_leases x [[''b''], [''a''], [''b'']] pol two_stores = (Ok (?ls x), two_stores)" for x pol
    by (simp add: acquire_store_leases_def bnd_def two_stores_order two_stores_lease ret_def)
  have eq: "map sl_file (?ls x) = map lock_path [[''a''], [''b'']]" for x by simp
  from leases_ordered_and_complete [OF run, unfolded eq] obtain ns where
    "map lock_path [[''a''], [''b'']] = map lock_path ns" "sorted_wrt (<) ns"
    and r: "\<And>d. d \<in> set [[''b''], [''a''], [''b'']] \<and> ''..'' \<notin> set d \<longrightarrow> (\<exists>n \<in> set ns. resolve (fs two_stores) d = Inr n)"
    by blast
  moreover have "\<exists>n \<in> set ns. resolve (fs two_stores) [''b''] = Inr n" using r [of "[''b'']"] by simp
  ultimately show ?thesis by blast
qed

definition contending :: lease_system where
  "contending = (\<lambda>_. idle_process)
    (0 := \<lparr>lp_active = True, lp_wanted = [[''b'']], lp_held = [[''a'']]\<rparr>,
     1 := \<lparr>lp_active = True, lp_wanted = [[''a''], [''b'']], lp_held = []\<rparr>)"

lemma contending_reachable: "lease_reachable contending"
proof -
  let ?p = "\<lparr>lp_active = True, lp_wanted = [[''a''], [''b'']], lp_held = []\<rparr>"
  let ?s = "(\<lambda>_ :: nat. idle_process)(0 := ?p)"
  let ?t = "?s(0 := (?s 0)\<lparr>lp_wanted := [[''b'']], lp_held := lp_held (?s 0) @ [[''a'']]\<rparr>)"
  have s: "lease_reachable ?s"
    by (rule lr_step [OF lr_init]) (rule lease_step.start [OF _ two_stores_order], simp)
  have "lease_advance ?s ?t" by (rule lease_advance.lock_next) (auto simp: free_store_def)
  with s have t: "lease_reachable ?t" by (blast intro: lr_step lease_step.advance)
  have "lease_step ?t (?t(1 := ?p))" by (rule lease_step.start [OF _ two_stores_order]) simp
  with t have "lease_reachable (?t(1 := ?p))" by (rule lr_step)
  moreover have "?t(1 := ?p) = contending" by (simp add: contending_def)
  ultimately show ?thesis by simp
qed

theorem lease_drains_witness: "lease_advance\<^sup>*\<^sup>* contending (\<lambda>_. idle_process)"
  using lease_drains [OF contending_reachable] by blast

end
