(* ===== verification/Text.thy ===== *)
theory Text
  imports Model
begin

text \<open>
  The functions on text of the standard library that the program uses beyond paths: trimming of white
  space, ASCII lower case. A string is the list of its UTF-8 bytes, so a white space character outside
  ASCII is a sequence of two or three bytes.
\<close>

definition codes :: "string \<Rightarrow> nat list" where
  "codes s = map of_char s"

definition white_space :: "nat list list" where
  "white_space = map (\<lambda>n. [n]) ([9..<14] @ [32]) @ [[0xC2, 0x85], [0xC2, 0xA0], [0xE1, 0x9A, 0x80]]
    @ map (\<lambda>n. [0xE2, 0x80, n]) ([0x80..<0x8B] @ [0xA8, 0xA9, 0xAF]) @ [[0xE2, 0x81, 0x9F], [0xE3, 0x80, 0x80]]"

lemma white_space_ne: "w \<in> set white_space \<Longrightarrow> w \<noteq> []"
  by (auto simp: white_space_def)

lemma find_white_space:
  assumes "find (\<lambda>w. prefix w (codes s)) white_space = Some w"
  shows "w \<noteq> [] \<and> s \<noteq> []"
proof -
  from assms have "w \<in> set white_space" and "prefix w (codes s)"
    by (auto simp: find_Some_iff)
  with white_space_ne show ?thesis by (fastforce simp: codes_def)
qed

function trim_start :: "string \<Rightarrow> string" where
  "trim_start s = (case find (\<lambda>w. prefix w (codes s)) white_space of
      None \<Rightarrow> s
    | Some w \<Rightarrow> trim_start (drop (length w) s))"
  by pat_completeness auto
termination
  by (relation "measure length") (auto dest!: find_white_space)

lemma find_white_space_end:
  assumes "find (\<lambda>w. suffix w (codes s)) white_space = Some w"
  shows "w \<noteq> [] \<and> s \<noteq> []"
proof -
  from assms have "w \<in> set white_space" and "suffix w (codes s)"
    by (auto simp: find_Some_iff)
  with white_space_ne show ?thesis by (fastforce simp: codes_def)
qed

function trim_end :: "string \<Rightarrow> string" where
  "trim_end s = (case find (\<lambda>w. suffix w (codes s)) white_space of
      None \<Rightarrow> s
    | Some w \<Rightarrow> trim_end (take (length s - length w) s))"
  by pat_completeness auto
termination
  by (relation "measure length") (auto dest!: find_white_space_end)

declare trim_start.simps [simp del] trim_end.simps [simp del]

definition trim :: "string \<Rightarrow> string" where
  "trim s = trim_end (trim_start s)"

definition to_ascii_lowercase :: "string \<Rightarrow> string" where
  "to_ascii_lowercase = map (\<lambda>c. let n = of_char c :: nat in if 65 \<le> n \<and> n \<le> 90 then char_of (n + 32) else c)"

end
