(* ===== verification/Restore.thy ===== *)
theory Restore
  imports Scan Operation_Lock Text
begin

text \<open>
  Restoring a version (\<open>restore.rs\<close>). A whole version is built as a complete tree next to its target
  and swapped into place by renaming; selected files are staged, checked against symbolic links and
  replaced one by one. Everything read from the store is validated first. The laws are in the theories
  that follow.
\<close>

section \<open>Requests and results\<close>

datatype restore_mode = InPlace | ToDirectory

record restore_request =
  rq_source_path :: path
  rq_version_id :: string
  rq_mode :: restore_mode
  rq_target_dir :: "path option"

record restore_result =
  rr_files_written :: nat
  rr_files_removed :: nat
  rr_dirs_created :: nat

record version_file_info =
  vf_rel_path :: string
  vf_len :: nat
  vf_mtime_unix :: int
  vf_mtime_nanos :: nat
  vf_sha256 :: string

record list_version_files_result =
  lv_total_files :: nat
  lv_files :: "version_file_info list"

record restore_files_request =
  fq_source_path :: path
  fq_version_id :: string
  fq_rel_paths :: "string list"
  fq_mode :: restore_mode
  fq_target_dir :: "path option"

record planned_file =
  pf_rel_path :: string
  pf_blob_path :: path
  pf_expected_sha256 :: string
  pf_mtime_unix :: int
  pf_mtime_nanos :: nat

section \<open>Finding a version\<close>

text \<open>
  A \<open>HashMap\<close> collected from pairs keeps the last of repeated keys; \<open>find\<close> takes the first match.
\<close>

definition destination_by_id :: "config \<Rightarrow> string \<Rightarrow> destination option" where
  "destination_by_id cfg i = map_of (rev (map (\<lambda>d. (dest_id d, d)) (cf_destinations cfg))) i"

definition destination_root_for_source :: "config \<Rightarrow> path \<Rightarrow> path res" where
  "destination_root_for_source cfg src = (case find (\<lambda>w. wp_enabled w \<and> wp_path w = src) (cf_watched cfg) of
      None \<Rightarrow> Inl (Bail ''versioned::load_manifest_for_request source path not configured'')
    | Some w \<Rightarrow>
        if wp_kind w \<noteq> WatchedDirectory
        then Inl (Bail ''versioned::load_manifest_for_request only directory watched paths are supported'')
        else (case find (\<lambda>d. dest_id d = wp_destination_id w) (cf_destinations cfg) of
            None \<Rightarrow> Inl (Bail ''versioned::load_manifest_for_request missing destination id'')
          | Some d \<Rightarrow> Inr (dest_path d)))"

definition read_index :: "ext \<Rightarrow> path \<Rightarrow> version_index io" where
  "read_index x p =
    bnd (read_file p) (\<lambda>raw. case parse_index x raw of
        None \<Rightarrow> throw (Bail ''failed to parse index'')
      | Some ix \<Rightarrow> bnd (lift (validate_version_index ix)) (\<lambda>_. ret ix))"

definition list_versions_of :: "ext \<Rightarrow> config \<Rightarrow> watched_path \<Rightarrow> (path \<times> version_info list) list
    \<Rightarrow> (path \<times> version_info list) list io" where
  "list_versions_of x cfg wp out =
    (if wp_kind wp \<noteq> WatchedDirectory then ret out
     else case destination_by_id cfg (wp_destination_id wp) of
        None \<Rightarrow> throw (Bail ''versioned::list_versions missing destination id'')
      | Some d \<Rightarrow>
          let ip = version_index_path x (dest_path d) (wp_path wp) in
          bnd (path_exists ip) (\<lambda>e.
          if \<not> e then ret (out @ [(wp_path wp, [])])
          else bnd (read_index x ip) (\<lambda>ix. ret (out @ [(wp_path wp, vx_versions ix)]))))"

definition list_versions :: "ext \<Rightarrow> config \<Rightarrow> (path \<times> version_info list) list io" where
  "list_versions x cfg = fold_act (list_versions_of x cfg) (filter wp_enabled (cf_watched cfg)) []"

definition read_manifest :: "ext \<Rightarrow> path \<Rightarrow> manifest io" where
  "read_manifest x p =
    bnd (read_file p) (\<lambda>raw. case parse_manifest x raw of
        None \<Rightarrow> throw (Bail ''failed to parse manifest'')
      | Some m \<Rightarrow> bnd (lift (validate_manifest m)) (\<lambda>_. ret m))"

definition load_manifest_for_request :: "ext \<Rightarrow> config \<Rightarrow> path \<Rightarrow> string \<Rightarrow> (manifest \<times> path) io" where
  "load_manifest_for_request x cfg src vid =
    bnd (lift (validate_version_id vid)) (\<lambda>_.
    bnd (lift (destination_root_for_source cfg src)) (\<lambda>d.
    bnd (read_manifest x (source_root x d src @ [''manifests'', json_name vid])) (\<lambda>m.
    ret (m, store_root d))))"

section \<open>Preflight\<close>

definition free_space :: "ext \<Rightarrow> path \<Rightarrow> nat io" where
  "free_space x d w = (case x_free_space x w d of Inl k \<Rightarrow> (Err (Io k), w) | Inr n \<Rightarrow> (Ok n, w))"

definition ensure_restore_free_space :: "ext \<Rightarrow> config \<Rightarrow> path \<Rightarrow> nat \<Rightarrow> unit io" where
  "ensure_restore_free_space x cfg d required =
    bnd (free_space x d) (\<lambda>free.
    if free < sat_add required (et_free_space_safety_buffer_bytes (cf_execution cfg))
    then throw (Bail ''versioned::ensure_restore_free_space insufficient space'')
    else case cf_min_free_space_bytes cfg of
        None \<Rightarrow> ret ()
      | Some m \<Rightarrow> if free < m
          then throw (Bail ''versioned::ensure_restore_free_space free space below configured minimum'') else ret ())"

text \<open>What preflight collects: a description of what is missing, the planned files, the bytes needed.\<close>

type_synonym plan_state = "string list \<times> planned_file list \<times> nat"

definition plan_entry :: "ext \<Rightarrow> path \<Rightarrow> string \<Rightarrow> manifest_entry \<Rightarrow> plan_state \<Rightarrow> plan_state io" where
  "plan_entry x br rel e st = (case st of (missing, planned, bytes) \<Rightarrow> (case me_sha256 e of
      None \<Rightarrow> ret (missing @ [rel @ '': missing sha256 in manifest''], planned, bytes)
    | Some h \<Rightarrow>
        bnd (path_exists (blob_path x br h)) (\<lambda>ex.
        if \<not> ex then ret (missing @ [rel @ '': missing blob '' @ h], planned, bytes)
        else ret (missing, planned @ [\<lparr>pf_rel_path = rel, pf_blob_path = blob_path x br h, pf_expected_sha256 = h,
          pf_mtime_unix = me_mtime_unix e, pf_mtime_nanos = me_mtime_nanos e\<rparr>], sat_add bytes (me_len e)))))"

definition preflight_restore :: "ext \<Rightarrow> config \<Rightarrow> manifest \<Rightarrow> path \<Rightarrow> path \<Rightarrow> (planned_file list \<times> nat) io" where
  "preflight_restore x cfg m br free_dir =
    bnd (fold_act (\<lambda>e st. if me_kind e \<noteq> FileEntry then ret st else plan_entry x br (me_rel_path e) e st)
      (bt_values (mf_entries m)) ([], [], 0)) (\<lambda>(missing, planned, bytes).
    if missing \<noteq> []
    then throw (Bail (''versioned::preflight_restore cannot restore due to missing content:''
      @ concat (map (\<lambda>s. CHR 0x0A # s) missing)))
    else bnd (ensure_restore_free_space x cfg free_dir bytes) (\<lambda>_. ret (planned, bytes)))"

section \<open>Writing one file\<close>

text \<open>
  \<open>HashingWriter\<close>: what was written to the temporary file is what was fed to the hasher. Flushing an
  unbuffered file does nothing.
\<close>

definition hash_put :: "path \<Rightarrow> bytes writer" where
  "hash_put t c acc = bnd (append_file t c) (\<lambda>_. ret (acc @ c))"

definition restore_mtime :: "path \<Rightarrow> int \<Rightarrow> nat \<Rightarrow> unit io" where
  "restore_mtime p s n = (if s \<le> 0 then ret () else set_file_mtime p s n)"

definition write_file_atomic_from_blob :: "ext \<Rightarrow> path \<Rightarrow> path \<Rightarrow> string \<Rightarrow> blob_codec \<Rightarrow> nat \<Rightarrow> unit io" where
  "write_file_atomic_from_blob x bp out expected cd timeout = (case parent_of out of
      None \<Rightarrow> throw (Bail ''versioned::write_file_atomic_from_blob missing parent'')
    | Some d \<Rightarrow>
        bnd (create_dir_all d) (\<lambda>_.
        with_temp (x_temp x) d (\<lambda>t.
          bnd (copy_blob_plaintext_to_writer x cd bp (hash_put t) timeout []) (\<lambda>r.
          if sha256_hex x (snd r) \<noteq> expected
          then throw (Bail ''versioned::write_file_atomic_from_blob plaintext sha256 mismatch'')
          else persist t out))))"

section \<open>The whole tree\<close>

definition build_dir :: "path \<Rightarrow> manifest_entry \<Rightarrow> restore_result \<Rightarrow> restore_result io" where
  "build_dir stage e r =
    (if me_kind e \<noteq> DirEntry then ret r
     else let p = join_rel stage (me_rel_path e) in
       bnd (path_exists p) (\<lambda>ex.
       if ex then ret r
       else bnd (create_dir_all p) (\<lambda>_. ret (r\<lparr>rr_dirs_created := rr_dirs_created r + 1\<rparr>))))"

definition build_file :: "ext \<Rightarrow> path \<Rightarrow> blob_codec \<Rightarrow> nat \<Rightarrow> planned_file \<Rightarrow> restore_result \<Rightarrow> restore_result io" where
  "build_file x stage cd timeout pf r =
    (let out = join_rel stage (pf_rel_path pf) in
     bnd (case parent_of out of None \<Rightarrow> ret () | Some d \<Rightarrow> create_dir_all d) (\<lambda>_.
     bnd (write_file_atomic_from_blob x (pf_blob_path pf) out (pf_expected_sha256 pf) cd timeout) (\<lambda>_.
     bnd (restore_mtime out (pf_mtime_unix pf) (pf_mtime_nanos pf)) (\<lambda>_.
     ret (r\<lparr>rr_files_written := rr_files_written r + 1\<rparr>)))))"

definition no_result :: restore_result where
  "no_result = \<lparr>rr_files_written = 0, rr_files_removed = 0, rr_dirs_created = 0\<rparr>"

definition build_restore_tree ::
  "ext \<Rightarrow> path \<Rightarrow> manifest \<Rightarrow> planned_file list \<Rightarrow> blob_codec \<Rightarrow> nat \<Rightarrow> restore_result io" where
  "build_restore_tree x stage m planned cd timeout =
    bnd (create_dir_all stage) (\<lambda>_.
    bnd (fold_act (build_dir stage) (bt_values (mf_entries m)) no_result) (\<lambda>r.
    fold_act (build_file x stage cd timeout) planned r))"

definition parent_or_cwd :: "ext \<Rightarrow> path \<Rightarrow> path" where
  "parent_or_cwd x p = (case parent_of p of None \<Rightarrow> x_cwd x | Some d \<Rightarrow> d)"

definition build_version_tree_from_store :: "ext \<Rightarrow> config \<Rightarrow> path \<Rightarrow> path \<Rightarrow> string \<Rightarrow> path \<Rightarrow> restore_result io" where
  "build_version_tree_from_store x cfg d src vid stage =
    bnd (lift (validate_version_id vid)) (\<lambda>_.
    bnd (path_exists stage) (\<lambda>ex.
    if ex then throw (Bail ''versioned::build_version_tree_from_store staging directory already exists'')
    else bnd (read_manifest x (source_root x d src @ [''manifests'', json_name vid])) (\<lambda>m.
      if mf_source_path m \<noteq> path_text src
      then throw (Bail ''versioned::build_version_tree_from_store manifest source does not match requested source'')
      else bnd (create_dir_all (parent_or_cwd x stage)) (\<lambda>_.
        bnd (preflight_restore x cfg m (blobs_root (store_root d)) (parent_or_cwd x stage)) (\<lambda>plan.
        bnd (codec_from_config x cfg) (\<lambda>cd.
        build_restore_tree x stage m (fst plan) cd (ht_timeout_seconds (cf_hashing cfg))))))))"

definition expected_files :: "manifest \<Rightarrow> string list" where
  "expected_files m = map me_rel_path (filter (\<lambda>e. me_kind e = FileEntry) (bt_values (mf_entries m)))"

definition slashed :: "string \<Rightarrow> string" where
  "slashed = map (\<lambda>c. if c = CHR 0x5C then CHR ''/'' else c)"

definition count_item :: "path \<Rightarrow> string list \<Rightarrow> walk_item \<Rightarrow> nat \<Rightarrow> nat io" where
  "count_item root_path expected item n = (case item of
      WalkErr ep msg \<Rightarrow> throw (Bail ''versioned::count_extraneous_files failed walking restore root'')
    | WalkEntry p node \<Rightarrow>
        if p = root_path \<or> \<not> is_file_node node then ret n
        else let rel = slashed (case strip_prefix root_path p of None \<Rightarrow> path_text p | Some r \<Rightarrow> rel_text r)
          in ret (if rel \<in> set expected then n else n + 1))"

definition count_extraneous_files :: "ext \<Rightarrow> path \<Rightarrow> manifest \<Rightarrow> nat io" where
  "count_extraneous_files x root_path m =
    bnd (walk_dir x root_path) (\<lambda>items. fold_act (count_item root_path (expected_files m)) items 0)"

section \<open>Swapping a tree into place\<close>

definition prev_name :: "string \<Rightarrow> string" where
  "prev_name token = ''.backup_sync_restore_prev_'' @ token"

definition stage_name :: "string \<Rightarrow> string" where
  "stage_name token = ''.backup_sync_restore_stage_'' @ token"

definition swap_staged_tree_into_place :: "ext \<Rightarrow> path \<Rightarrow> path \<Rightarrow> string \<Rightarrow> path option io" where
  "swap_staged_tree_into_place x stage tgt token =
    (let backup = parent_or_cwd x tgt @ [prev_name token] in
     bnd (path_exists tgt) (\<lambda>ex.
     bnd (if ex then rename tgt backup else ret ()) (\<lambda>_.
     bnd (attempt (rename stage tgt)) (\<lambda>r. case r of
       Inl e \<Rightarrow>
         bnd (path_exists backup) (\<lambda>b.
         bnd (if \<not> b then ret True else path_exists tgt) (\<lambda>t.
         bnd (if b \<and> \<not> t then bnd (attempt (rename backup tgt)) (\<lambda>_. ret ()) else ret ()) (\<lambda>_.
         throw (Bail ''versioned::swap_staged_tree_into_place failed to move staged restore''))))
     | Inr _ \<Rightarrow> bnd (path_exists backup) (\<lambda>b. ret (if b then Some backup else None))))))"

definition restore_token :: "ext \<Rightarrow> string io" where
  "restore_token x = bnd get_now (\<lambda>t. ret (x_version_stamp x t @ ''-'' @ show_nat (x_pid x)))"

definition restore_root_of :: "restore_mode \<Rightarrow> path \<Rightarrow> path option \<Rightarrow> path res" where
  "restore_root_of mode src tgt = (case mode of
      InPlace \<Rightarrow> Inr src
    | ToDirectory \<Rightarrow> (case tgt of
        None \<Rightarrow> Inl (Bail ''missing target_dir for ToDirectory'')
      | Some t \<Rightarrow> Inr t))"

definition lease_policy :: "ext \<Rightarrow> config \<Rightarrow> blocking_io_policy io" where
  "lease_policy x cfg = bnd get_now (\<lambda>t. ret (from_execution_tuning x (cf_execution cfg) t))"

text \<open>
  The lease is dropped when the function returns. The staged tree is removed when building it fails; it
  stays when the swap fails.
\<close>

definition restore_version :: "ext \<Rightarrow> config \<Rightarrow> restore_request \<Rightarrow> restore_result io" where
  "restore_version x cfg req =
    bnd (lift (validate_version_id (rq_version_id req))) (\<lambda>_.
    bnd (lift (destination_root_for_source cfg (rq_source_path req))) (\<lambda>d.
    bnd (lease_policy x cfg) (\<lambda>pol.
    bnd (acquire_store_lease x d pol) (\<lambda>_.
    bnd (load_manifest_for_request x cfg (rq_source_path req) (rq_version_id req)) (\<lambda>(m, st).
    bnd (lift (restore_root_of (rq_mode req) (rq_source_path req) (rq_target_dir req))) (\<lambda>tgt.
    bnd (path_exists tgt) (\<lambda>ex.
    bnd (if ex then path_is_dir tgt else ret True) (\<lambda>isdir.
    if \<not> isdir then throw (Bail ''versioned::restore_version restore_root exists and is not a directory'')
    else let parent = parent_or_cwd x tgt in
      bnd (create_dir_all parent) (\<lambda>_.
      bnd (preflight_restore x cfg m (blobs_root st) parent) (\<lambda>plan.
      bnd (codec_from_config x cfg) (\<lambda>cd.
      bnd (restore_token x) (\<lambda>token.
      let stage = parent @ [stage_name token] in
      bnd (path_exists stage) (\<lambda>ex.
      if ex then throw (Bail ''versioned::restore_version staging directory already exists'')
      else bnd (if rq_mode req = InPlace then path_exists tgt else ret False) (\<lambda>count.
        bnd (if count then count_extraneous_files x tgt m else ret 0) (\<lambda>removed.
        bnd (attempt (build_restore_tree x stage m (fst plan) cd (ht_timeout_seconds (cf_hashing cfg)))) (\<lambda>built.
        case built of
          Inl e \<Rightarrow> bnd (attempt (remove_dir_all stage)) (\<lambda>_. throw e)
        | Inr r \<Rightarrow>
            bnd (swap_staged_tree_into_place x stage tgt token) (\<lambda>backup.
            bnd (case backup of
                None \<Rightarrow> ret ()
              | Some b \<Rightarrow> if rq_mode req = InPlace then bnd (attempt (remove_dir_all b)) (\<lambda>_. ret ()) else ret ()) (\<lambda>_.
            ret (r\<lparr>rr_files_removed := removed\<rparr>)))))))))))))))))))"

section \<open>Listing the files of a version\<close>

definition file_info :: "manifest_entry \<Rightarrow> string \<Rightarrow> version_file_info" where
  "file_info e h = \<lparr>vf_rel_path = me_rel_path e, vf_len = me_len e, vf_mtime_unix = me_mtime_unix e,
    vf_mtime_nanos = me_mtime_nanos e, vf_sha256 = h\<rparr>"

definition list_entry ::
  "string option \<Rightarrow> nat \<Rightarrow> manifest_entry \<Rightarrow> list_version_files_result \<Rightarrow> list_version_files_result" where
  "list_entry q cap e r =
    (if me_kind e \<noteq> FileEntry then r
     else case me_sha256 e of
        None \<Rightarrow> r
      | Some h \<Rightarrow>
          let r1 = r\<lparr>lv_total_files := sat_add (lv_total_files r) 1\<rparr> in
          if (case q of None \<Rightarrow> False | Some t \<Rightarrow> \<not> contains (to_ascii_lowercase (me_rel_path e)) t) then r1
          else if cap \<le> length (lv_files r) then r1
          else r1\<lparr>lv_files := lv_files r @ [file_info e h]\<rparr>)"

definition norm_query :: "string option \<Rightarrow> string option" where
  "norm_query query = (case query of
      None \<Rightarrow> None
    | Some q \<Rightarrow> if trim q = [] then None else Some (to_ascii_lowercase (trim q)))"

definition list_version_files ::
  "ext \<Rightarrow> config \<Rightarrow> path \<Rightarrow> string \<Rightarrow> string option \<Rightarrow> nat \<Rightarrow> list_version_files_result io" where
  "list_version_files x cfg src vid query limit =
    bnd (load_manifest_for_request x cfg src vid) (\<lambda>(m, _).
    ret (fold (list_entry (norm_query query) (max limit 1)) (bt_values (mf_entries m))
      \<lparr>lv_total_files = 0, lv_files = []\<rparr>))"

section \<open>Selected files\<close>

text \<open>\<open>symlink_metadata\<close> with an absent path told apart from other errors.\<close>

definition inspect :: "path \<Rightarrow> node option io" where
  "inspect p = bnd (attempt (symlink_metadata p)) (\<lambda>r. case r of
      Inr n \<Rightarrow> ret (Some n)
    | Inl e \<Rightarrow> if e = Io NotFound then ret None else throw e)"

definition validate_restore_root :: "path \<Rightarrow> unit io" where
  "validate_restore_root p = bnd (inspect p) (\<lambda>n. case n of
      None \<Rightarrow> ret ()
    | Some Dir \<Rightarrow> ret ()
    | Some (Link t) \<Rightarrow> throw (Bail ''versioned::restore_files restore root must not be a symlink'')
    | Some _ \<Rightarrow> throw (Bail ''versioned::restore_files restore_root exists and is not a directory''))"

text \<open>The loop over a path and its ancestors; the argument is the reversed path.\<close>

fun nearest_existing_rev :: "string list \<Rightarrow> path io" where
  "nearest_existing_rev up = bnd (inspect (rev up)) (\<lambda>n. case n of
      Some Dir \<Rightarrow> ret (rev up)
    | Some (Link t) \<Rightarrow> throw (Bail ''versioned::restore_files staging ancestor must not be a symlink'')
    | Some _ \<Rightarrow> throw (Bail ''versioned::restore_files staging ancestor is not a directory'')
    | None \<Rightarrow> (case up of
        [] \<Rightarrow> throw (Bail ''versioned::restore_files could not find an existing ancestor'')
      | c # r \<Rightarrow> nearest_existing_rev r))"

declare nearest_existing_rev.simps [simp del]

definition nearest_existing_directory :: "path \<Rightarrow> path io" where
  "nearest_existing_directory p = nearest_existing_rev (rev p)"

text \<open>The parents of a relative path, below a directory that has been checked.\<close>

definition parent_names :: "string \<Rightarrow> string list" where
  "parent_names rel = map component_text (butlast (components rel))"

fun check_parents :: "path \<Rightarrow> string list \<Rightarrow> unit io" where
  "check_parents cur [] = ret ()"
| "check_parents cur (c # cs) = bnd (inspect (cur @ [c])) (\<lambda>n. case n of
      None \<Rightarrow> ret ()
    | Some Dir \<Rightarrow> check_parents (cur @ [c]) cs
    | Some (Link t) \<Rightarrow> throw (Bail ''versioned::restore_files target path contains a symlink component'')
    | Some _ \<Rightarrow> throw (Bail ''versioned::restore_files target parent is not a directory''))"

definition validate_target_path :: "path \<Rightarrow> string \<Rightarrow> unit io" where
  "validate_target_path root_path rel =
    bnd (validate_restore_root root_path) (\<lambda>_.
    bnd (check_parents root_path (parent_names rel)) (\<lambda>_.
    bnd (inspect (join_rel root_path rel)) (\<lambda>n. case n of
      None \<Rightarrow> ret ()
    | Some (Link t) \<Rightarrow> throw (Bail ''versioned::restore_files target file must not be a symlink'')
    | Some Dir \<Rightarrow> throw (Bail ''versioned::restore_files target file is a directory'')
    | Some _ \<Rightarrow> ret ())))"

fun missing_directories :: "string list \<Rightarrow> path list \<Rightarrow> path list io" where
  "missing_directories up acc = bnd (inspect (rev up)) (\<lambda>n. case n of
      Some Dir \<Rightarrow> ret acc
    | Some (Link t) \<Rightarrow> throw (Bail ''versioned::restore_files directory path contains a symlink component'')
    | Some _ \<Rightarrow> throw (Bail ''versioned::restore_files directory path component is not a directory'')
    | None \<Rightarrow> (case up of
        [] \<Rightarrow> throw (Bail ''versioned::restore_files could not resolve directory path'')
      | c # r \<Rightarrow> missing_directories r (acc @ [rev up])))"

declare missing_directories.simps [simp del]

definition create_verified_dir :: "path \<Rightarrow> unit io" where
  "create_verified_dir p =
    bnd (create_dir p) (\<lambda>_.
    bnd (symlink_metadata p) (\<lambda>n.
    if n \<noteq> Dir then throw (Bail ''versioned::restore_files created target path is not a safe directory'') else ret ()))"

definition create_safe_directory_path :: "path \<Rightarrow> nat io" where
  "create_safe_directory_path p =
    bnd (missing_directories (rev p) []) (\<lambda>missing.
    bnd (for_each create_verified_dir (rev missing)) (\<lambda>_. ret (length missing)))"

fun create_parents :: "path \<Rightarrow> string list \<Rightarrow> nat \<Rightarrow> nat io" where
  "create_parents cur [] created = ret created"
| "create_parents cur (c # cs) created = bnd (inspect (cur @ [c])) (\<lambda>n. case n of
      Some Dir \<Rightarrow> create_parents (cur @ [c]) cs created
    | Some (Link t) \<Rightarrow> throw (Bail ''versioned::restore_files target path contains a symlink component'')
    | Some _ \<Rightarrow> throw (Bail ''versioned::restore_files target parent is not a directory'')
    | None \<Rightarrow> bnd (create_dir (cur @ [c])) (\<lambda>_. create_parents (cur @ [c]) cs (created + 1)))"

definition create_safe_target_parents :: "path \<Rightarrow> string \<Rightarrow> nat io" where
  "create_safe_target_parents root_path rel =
    bnd (create_safe_directory_path root_path) (\<lambda>created.
    bnd (validate_restore_root root_path) (\<lambda>_.
    bnd (create_parents root_path (parent_names rel) created) (\<lambda>created.
    bnd (validate_target_path root_path rel) (\<lambda>_. ret created))))"

text \<open>\<open>io::copy\<close>, through its buffer of eight kilobytes.\<close>

function io_copy :: "ext \<Rightarrow> path \<Rightarrow> bytes \<Rightarrow> unit io" where
  "io_copy x t h =
    bnd (read_some x 8192 h) (\<lambda>a.
    if fst a = [] then ret ()
    else bnd (append_file t (fst a)) (\<lambda>_. io_copy x t (snd a)))"
  by pat_completeness auto
termination
  by (relation "measure (\<lambda>(_, _, h). length h)") (auto dest: read_some_shrinks)

declare io_copy.simps [simp del]

definition replace_file_from_staged :: "ext \<Rightarrow> path \<Rightarrow> path \<Rightarrow> int \<Rightarrow> nat \<Rightarrow> unit io" where
  "replace_file_from_staged x staged out s n = (case parent_of out of
      None \<Rightarrow> throw (Bail ''versioned::replace_file_from_staged missing parent'')
    | Some d \<Rightarrow> with_temp (x_temp x) d (\<lambda>t.
        bnd (read_file staged) (\<lambda>h.
        bnd (io_copy x t h) (\<lambda>_.
        bnd (restore_mtime t s n) (\<lambda>_.
        bnd sync_file (\<lambda>_.
        persist t out))))))"

text \<open>\<open>tempdir_in\<close>: a directory that is removed with everything in it when its handle is dropped.\<close>

definition with_tempdir :: "ext \<Rightarrow> string \<Rightarrow> path \<Rightarrow> (path \<Rightarrow> 'a io) \<Rightarrow> 'a io" where
  "with_tempdir x pre d body w = (let p = d @ [x_tempdir x pre (fs w) d] in
     bnd (create_dir p) (\<lambda>_.
     bnd (attempt (body p)) (\<lambda>r.
     bnd (attempt (remove_dir_all p)) (\<lambda>_. lift r))) w)"

definition plan_selected ::
  "ext \<Rightarrow> manifest \<Rightarrow> path \<Rightarrow> string \<Rightarrow> string list \<times> plan_state \<Rightarrow> (string list \<times> plan_state) io" where
  "plan_selected x m br rel st = (case st of (seen, missing, planned, bytes) \<Rightarrow>
    bnd (lift (validate_relative_path rel)) (\<lambda>_.
    if rel \<in> set seen then ret st
    else case bt_get (mf_entries m) rel of
        None \<Rightarrow> ret (rel # seen, missing @ [rel @ '': not present in manifest''], planned, bytes)
      | Some e \<Rightarrow>
          if me_kind e \<noteq> FileEntry
          then ret (rel # seen, missing @ [rel @ '': not a file entry''], planned, bytes)
          else bnd (plan_entry x br rel e (missing, planned, bytes)) (\<lambda>st'. ret (rel # seen, st'))))"

definition stage_file :: "ext \<Rightarrow> path \<Rightarrow> blob_codec \<Rightarrow> nat \<Rightarrow> planned_file \<Rightarrow> unit io" where
  "stage_file x stage cd timeout pf =
    (let staged = join_rel stage (pf_rel_path pf) in
     bnd (case parent_of staged of None \<Rightarrow> ret () | Some d \<Rightarrow> create_dir_all d) (\<lambda>_.
     bnd (write_file_atomic_from_blob x (pf_blob_path pf) staged (pf_expected_sha256 pf) cd timeout) (\<lambda>_.
     restore_mtime staged (pf_mtime_unix pf) (pf_mtime_nanos pf))))"

definition place_file :: "ext \<Rightarrow> path \<Rightarrow> path \<Rightarrow> planned_file \<Rightarrow> restore_result \<Rightarrow> restore_result io" where
  "place_file x stage root_path pf r =
    bnd (create_safe_target_parents root_path (pf_rel_path pf)) (\<lambda>created.
    bnd (replace_file_from_staged x (join_rel stage (pf_rel_path pf)) (join_rel root_path (pf_rel_path pf))
      (pf_mtime_unix pf) (pf_mtime_nanos pf)) (\<lambda>_.
    ret (r\<lparr>rr_dirs_created := rr_dirs_created r + created, rr_files_written := rr_files_written r + 1\<rparr>)))"

definition place_selected ::
  "ext \<Rightarrow> config \<Rightarrow> path \<Rightarrow> planned_file list \<Rightarrow> blob_codec \<Rightarrow> path \<Rightarrow> restore_result io" where
  "place_selected x cfg root_path planned cd stage =
    bnd (for_each (stage_file x stage cd (ht_timeout_seconds (cf_hashing cfg))) planned) (\<lambda>_.
    bnd (for_each (\<lambda>pf. validate_target_path root_path (pf_rel_path pf)) planned) (\<lambda>_.
    fold_act (place_file x stage root_path) planned no_result))"

definition restore_files :: "ext \<Rightarrow> config \<Rightarrow> restore_files_request \<Rightarrow> restore_result io" where
  "restore_files x cfg req =
    (if fq_rel_paths req = [] then throw (Bail ''versioned::restore_files requires at least one rel_path'')
     else
    bnd (lift (validate_version_id (fq_version_id req))) (\<lambda>_.
    bnd (lift (destination_root_for_source cfg (fq_source_path req))) (\<lambda>d.
    bnd (lease_policy x cfg) (\<lambda>pol.
    bnd (acquire_store_lease x d pol) (\<lambda>_.
    bnd (load_manifest_for_request x cfg (fq_source_path req) (fq_version_id req)) (\<lambda>(m, st).
    bnd (lift (restore_root_of (fq_mode req) (fq_source_path req) (fq_target_dir req))) (\<lambda>root_path.
    bnd (validate_restore_root root_path) (\<lambda>_.
    bnd (fold_act (plan_selected x m (blobs_root st)) (fq_rel_paths req) ([], [], [], 0)) (\<lambda>(_, missing, planned, bytes).
    if missing \<noteq> []
    then throw (Bail (''versioned::restore_files cannot restore due to missing content:''
      @ concat (map (\<lambda>s. CHR 0x0A # s) missing)))
    else bnd (nearest_existing_directory (parent_or_cwd x root_path)) (\<lambda>near.
      bnd (ensure_restore_free_space x cfg near bytes) (\<lambda>_.
      bnd (codec_from_config x cfg) (\<lambda>cd.
      with_tempdir x ''.backup_sync_restore_files_stage_'' near (place_selected x cfg root_path planned cd)))))))))))))"

end
