(* ===== verification/File_Ops.thy ===== *)
theory File_Ops
  imports Store_Io
begin

text \<open>
  The interface between the durable writes of the store and relations on file systems: a preorder kept
  by the few calls that change anything is kept by every durable write. It is used for the fact that
  nothing but a file ever takes the place of a blob, so that finding something under a blob's name means
  finding the blob.
\<close>

locale file_ops = time_preorder R for R +
  fixes D :: path and okdir :: "path \<Rightarrow> bool"
  assumes mkdir_law: "in_region D p \<Longrightarrow> okdir p \<Longrightarrow> moves R (create_dir p)"
    and append_law: "in_region D p \<Longrightarrow> moves R (append_file p b)"
    and unlink_law: "in_region D p \<Longrightarrow> moves R (remove_file p)"
    and persist_law: "temp_in D d t \<Longrightarrow> in_region D p \<Longrightarrow> \<not> temp_path p \<Longrightarrow> moves R (persist t p)"
    and temp_law: "temp_namer_ok tn \<Longrightarrow> prefix D d \<Longrightarrow> good_path d \<Longrightarrow> moves R (call (f_new_temp tn d))"
begin

definition okdirs :: "path \<Rightarrow> bool" where
  "okdirs p \<longleftrightarrow> (\<forall>q. prefix q p \<longrightarrow> okdir q)"

lemmas quiet_steps = moves_basic moves_case_sum moves_case_option moves_still_prims [THEN moves_still_step]

lemma moves_create_dir_all: "in_region D p \<Longrightarrow> okdirs p \<Longrightarrow> moves R (create_dir_all p)"
proof -
  have "in_region D (rev p) \<Longrightarrow> okdirs (rev p) \<Longrightarrow> moves R (create_dir_all_rev p)" for p
  proof (induction p)
    case (Cons a p)
    then have "in_region D (rev p)" "okdirs (rev p)" "okdir (rev (a # p))"
      using in_region_prefix [of D "rev (a # p)" "rev p"] by (auto simp: okdirs_def)
    with Cons show ?case
      unfolding create_dir_all_rev.simps mkdir_or_dir_def by (intro quiet_steps mkdir_law) auto
  qed (simp add: moves_ret)
  from this [of "rev p"] show "in_region D p \<Longrightarrow> okdirs p \<Longrightarrow> ?thesis" by (simp add: create_dir_all_def)
qed

lemma moves_create_dir_all_durable: "in_region D p \<Longrightarrow> okdirs p \<Longrightarrow> moves R (create_dir_all_durable p base)"
  unfolding create_dir_all_durable_def
  by (intro quiet_steps moves_create_dir_all store_still [THEN moves_still_step])

lemma moves_with_temp:
  assumes "temp_namer_ok tn" and "prefix D d" and "good_path d" and "\<And>t. temp_in D d t \<Longrightarrow> moves R (body t)"
  shows "moves R (with_temp tn d body)"
  unfolding with_temp_def
proof (rule moves_bnd_val [OF temp_law [OF assms(1-3)]])
  fix s t u assume "call (f_new_temp tn d) s = (Ok t, u)"
  from new_temp_value [OF assms(1-3) this] have t: "temp_in D d t" .
  then show "moves R (bnd (attempt (body t)) (\<lambda>r. case r of
       Inr a \<Rightarrow> ret a | Inl e \<Rightarrow> bnd (attempt (remove_file t)) (\<lambda>_. throw e)))"
    by (intro quiet_steps assms(4) unlink_law) (auto simp: temp_in_def)
qed

lemma moves_write_json:
  assumes "temp_ok x" and "target D p" and "okdirs (butlast p)"
  shows "moves R (write_json_atomic_durable x p raw base)"
proof -
  note T = targetD [OF assms(2)]
  have "moves R (with_temp (x_temp x) (butlast p) (\<lambda>t. bnd (bnd (append_file t raw) (\<lambda>_. sync_file)) (\<lambda>u.
      bnd (persist t p) (\<lambda>_. ret u))))"
    by (rule moves_with_temp)
      (use assms(1) T in \<open>auto simp: temp_ok_def temp_in_def intro!: moves_basic append_law
        store_still [THEN moves_still_step] persist_law [of "butlast p"]\<close>)
  then show ?thesis
    unfolding write_json_atomic_durable_def T(1) option.case
    by (intro moves_bnd moves_create_dir_all_durable T assms(3) store_still [THEN moves_still_step])
qed

lemma moves_write_blob:
  assumes "temp_ok x" and "target D bp" and "okdirs (butlast bp)"
  shows "moves R (write_blob x cd src bp h timeout delays base)"
proof -
  note T = targetD [OF assms(2)]
  have enc: "moves R (encode_blob x cd src h timeout start t)" if "temp_in D (butlast bp) t" for start t
    unfolding encode_blob_def temp_put_def
    by (intro moves_basic moves_write_blob_from_file append_law moves_still_step [OF moves_still_late_secs]
        moves_still_step [OF moves_still_file_len] moves_still_step [OF moves_still_sha256_plaintext]
        store_still [THEN moves_still_step]) (use that in \<open>auto simp: temp_in_def\<close>)
  have "moves R (with_temp (x_temp x) (butlast bp) (\<lambda>t. bnd (encode_blob x cd src h timeout start t) (\<lambda>n.
      bnd (persist t bp) (\<lambda>_. ret n))))" for start
    by (rule moves_with_temp)
      (use assms(1) T in \<open>auto simp: temp_ok_def intro!: moves_basic enc persist_law [of "butlast bp"]\<close>)
  then have "moves R (write_blob_once x cd src bp h timeout)"
    unfolding write_blob_once_def T(1) option.case
    by (intro moves_basic moves_still_step [OF moves_still_get_now] store_still [THEN moves_still_step])
  then show ?thesis
    unfolding write_blob_def T(1) option.case
    by (intro moves_basic moves_create_dir_all_durable moves_retry T assms(3))
qed

end

section \<open>Events\<close>

interpretation spf: file_ops spends D "\<lambda>_. True" for D
  by unfold_locales (rule moves_spends_prims)+

section \<open>Nothing but files in the places of blobs\<close>

definition only_files :: "path set \<Rightarrow> filesystem \<Rightarrow> bool" where
  "only_files B F \<longleftrightarrow> (\<forall>p \<in> B. \<forall>n. node_at F p = Some n \<longrightarrow> is_file_node n)"

definition dirless :: "path \<Rightarrow> path set \<Rightarrow> world \<Rightarrow> world \<Rightarrow> bool" where
  "dirless D B w v \<longleftrightarrow> (tame D (fs w) \<and> only_files B (fs w) \<longrightarrow>
    tame D (fs v) \<and> only_files B (fs v))"

interpretation dl: time_preorder "dirless D B" for D B
  by unfold_locales (auto simp: dirless_def still_def)

lemma moves_dirless_call:
  assumes "\<And>F a G. tame D F \<Longrightarrow> f F = Inr (a, G) \<Longrightarrow>
      tame D G \<and> (\<forall>p \<in> B. \<forall>n. node_at G p = Some n \<longrightarrow> \<not> is_file_node n \<longrightarrow> node_at F p = Some n)"
  shows "moves (dirless D B) (call f)"
proof (rule movesI)
  fix w r v assume c: "call f w = (r, v)"
  obtain e u where n: "next_event w = (e, u)" by fastforce
  then have u: "fs u = fs w" by (rule next_event_fs)
  from call_cases [OF c n] consider "v = u" | a G where "f (fs u) = Inr (a, G)" "v = u\<lparr>fs := G\<rparr>" by blast
  then show "dirless D B w v"
  proof cases
    case 1
    with u show ?thesis by (simp add: dirless_def)
  next
    case 2
    have "only_files B G" if "tame D (fs w)" "only_files B (fs w)"
      using that assms [of "fs u" a G] 2(1) u unfolding only_files_def by metis
    with 2 u assms [of "fs u" a G] show ?thesis by (simp add: dirless_def)
  qed
qed

lemma new_dirs:
  "f_create_new p F = Inr (a, G) \<Longrightarrow> node_at G q = Some n \<Longrightarrow> \<not> is_file_node n \<Longrightarrow> node_at F q = Some n"
  "f_append p b F = Inr (a, G) \<Longrightarrow> node_at G q = Some n \<Longrightarrow> \<not> is_file_node n \<Longrightarrow> node_at F q = Some n"
  "f_unlink p F = Inr (a, G) \<Longrightarrow> node_at G q = Some n \<Longrightarrow> \<not> is_file_node n \<Longrightarrow> node_at F q = Some n"
  "f_new_temp tn d F = Inr (t, G) \<Longrightarrow> node_at G q = Some n \<Longrightarrow> \<not> is_file_node n \<Longrightarrow> node_at F q = Some n"
  by (auto simp: f_create_new_def f_append_def f_unlink_def f_new_temp_def node_at_Cons node_at_update node_at_delete
      split: sum.splits option.splits node.splits if_splits)

lemma new_dirs_persist:
  assumes "f_persist t p F = Inr (a, G)" and "node_at G q = Some m" and "\<not> is_file_node m"
  shows "node_at F q = Some m"
proof -
  from assms(1) obtain b s n where l: "lstat F t = Inr (File b s n)" and r: "f_rename t p F = Inr (a, G)"
    by (auto simp: f_persist_def split: sum.splits node.splits)
  from l obtain t' where "lresolve F t = Inr t'" "node_at F t' = Some (File b s n)"
    by (auto simp: lstat_def split: sum.splits option.splits)
  with r assms(2,3) show ?thesis
    by (auto simp: f_rename_def node_at_Cons node_at_delete split: sum.splits option.splits node.splits if_splits)
qed

lemma new_dirs_mkdir:
  assumes "tame D F" and "in_region D p" and "f_mkdir p F = Inr (a, G)" and "node_at G q = Some n"
  shows "node_at F q = Some n \<or> q = p"
proof -
  from assms(3) obtain p' where "lresolve F p = Inr p'" and G: "G = (p', Dir) # F"
    by (auto simp: f_mkdir_def split: sum.splits if_splits)
  then have "p' = p" using lresolve_plain(1) [OF in_region_plain [OF assms(1,2)]] by blast
  with G assms(4) show ?thesis by (auto simp: node_at_Cons split: if_splits)
qed

interpretation dlf: file_ops "dirless D B" D "\<lambda>p. p \<notin> B" for D B
proof
  show "moves (dirless D B) (create_dir p)" if "in_region D p" "p \<notin> B" for p
    unfolding create_dir_def
    by (rule moves_dirless_call) (metis that f_mkdir_confined new_dirs_mkdir)
  show "moves (dirless D B) (append_file p b)" if "in_region D p" for p b
    unfolding append_file_def by (rule moves_dirless_call) (metis that f_append_confined new_dirs(2))
  show "moves (dirless D B) (remove_file p)" if "in_region D p" for p
    unfolding remove_file_def by (rule moves_dirless_call) (metis that f_unlink_confined new_dirs(3))
  show "moves (dirless D B) (persist t p)" if "temp_in D d t" "in_region D p" "\<not> temp_path p" for d t p
    unfolding persist_def by (rule moves_dirless_call) (metis that f_persist_confined new_dirs_persist)
  show "moves (dirless D B) (call (f_new_temp tn d))" if "temp_namer_ok tn" "prefix D d" "good_path d" for tn d
    by (rule moves_dirless_call) (metis that f_new_temp_confined new_dirs(4))
qed

end
