(* ===== verification/Tree_Ops.thy ===== *)
theory Tree_Ops
  imports File_Ops
begin

text \<open>
  The effect of file-system calls on single nodes. Where the store only cares what a reader of its
  files sees, a restored tree is judged node by node: its directories, modification times and the files
  whose names look temporary count too. Each call on a path without symbolic links is described by the
  nodes before and after; from these come a relation for actions that change nothing outside a set of
  paths, and the renaming of whole trees.
\<close>

section \<open>Single calls\<close>

text \<open>A path of ordinary names that is reached without symbolic links.\<close>

definition straight :: "filesystem \<Rightarrow> path \<Rightarrow> bool" where
  "straight F p \<longleftrightarrow> fs_wf F \<and> good_path p \<and> plain F p"

lemma straight_prefix: "straight F p \<Longrightarrow> prefix q p \<Longrightarrow> straight F q"
  by (auto simp: straight_def plain_def good_path_def prefix_def)

lemma straight_parent: "straight F p \<Longrightarrow> straight F (butlast p)"
  by (rule straight_prefix) (auto simp: prefixeq_butlast)

lemma node_at_fun_upd:
  "p \<noteq> [] \<Longrightarrow> node_at ((p, n) # F) = (node_at F)(p := Some n)"
  "p \<noteq> [] \<Longrightarrow> node_at (AList.update p n F) = (node_at F)(p := Some n)"
  "p \<noteq> [] \<Longrightarrow> node_at (AList.delete p F) = (node_at F)(p := None)"
  by (auto simp: fun_eq_iff node_at_Cons node_at_update node_at_delete node_at_Nil_dir)

lemma f_mkdir_node:
  assumes "straight F p" and "f_mkdir p F = Inr (a, G)"
  shows "p \<noteq> [] \<and> node_at F p = None \<and> node_at F (butlast p) = Some Dir \<and> fs_wf G \<and> node_at G = (node_at F)(p := Some Dir)"
proof -
  have pl: "plain F p" "fs_wf F" "good_path p" using assms(1) by (auto simp: straight_def)
  obtain q where q: "lresolve F p = Inr q" and none: "node_at F q = None" and G: "G = (q, Dir) # F"
    using assms(2) by (auto simp: f_mkdir_def split: sum.splits if_splits)
  have "q = p" by (rule lresolve_plain(1) [OF pl(1) q])
  moreover from this none have ne: "p \<noteq> []" by (auto simp: node_at_def)
  ultimately show ?thesis
    using none G lresolve_plain(2) [OF pl(1) q ne] good_path_last [OF pl(3) ne] fs_wf_Cons [OF pl(2)]
    by (simp add: node_at_fun_upd)
qed

lemma f_create_new_node:
  assumes "straight F p" and "f_create_new p F = Inr (a, G)"
  shows "p \<noteq> [] \<and> node_at F p = None \<and> fs_wf G \<and> node_at G = (node_at F)(p := Some (File [] 0 0))"
proof -
  have pl: "plain F p" "fs_wf F" "good_path p" using assms(1) by (auto simp: straight_def)
  obtain q where q: "lresolve F p = Inr q" and none: "node_at F q = None" and G: "G = (q, File [] 0 0) # F"
    using assms(2) by (auto simp: f_create_new_def split: sum.splits if_splits)
  have "q = p" by (rule lresolve_plain(1) [OF pl(1) q])
  moreover from this none have ne: "p \<noteq> []" by (auto simp: node_at_def)
  ultimately show ?thesis
    using none G lresolve_plain(2) [OF pl(1) q ne] good_path_last [OF pl(3) ne] fs_wf_Cons [OF pl(2)]
    by (simp add: node_at_fun_upd)
qed

lemma f_append_node:
  assumes "straight F p" and "f_append p b F = Inr (a, G)"
  shows "\<exists>b0 s n. node_at F p = Some (File b0 s n) \<and> fs_wf G \<and> node_at G = (node_at F)(p := Some (File (b0 @ b) s n))"
proof -
  have pl: "plain F p" "fs_wf F" using assms(1) by (auto simp: straight_def)
  obtain q b0 s n where q: "resolve F p = Inr q" and at: "node_at F q = Some (File b0 s n)"
    and G: "G = AList.update q (File (b0 @ b) s n) F"
    using assms(2) by (auto simp: f_append_def split: sum.splits option.splits node.splits)
  have "q = p" by (rule resolve_plain [OF pl(1) q])
  moreover from this at have "p \<noteq> []" by (auto simp: node_at_def)
  ultimately show ?thesis
    using at G fs_wf_update_file [OF pl(2) at] by (simp add: node_at_fun_upd)
qed

lemma f_set_mtime_node:
  assumes "straight F p" and "f_set_mtime p s n F = Inr (a, G)"
  shows "fs_wf G \<and> (\<exists>m. node_at F p = Some m \<and> node_at G =
    (node_at F)(p := Some (case m of File b s0 n0 \<Rightarrow> File b s n | _ \<Rightarrow> m)))"
proof -
  have pl: "plain F p" "fs_wf F" using assms(1) by (auto simp: straight_def)
  obtain q m where q: "resolve F p = Inr q" and m: "node_at F q = Some m"
    using assms(2) by (auto simp: f_set_mtime_def split: sum.splits option.splits)
  have qp: "q = p" by (rule resolve_plain [OF pl(1) q])
  show ?thesis
  proof (cases m)
    case (File b s0 n0)
    with m qp have "p \<noteq> []" by (auto simp: node_at_def)
    moreover from assms(2) q m qp File have G: "G = AList.update p (File b s n) F" by (simp add: f_set_mtime_def)
    ultimately show ?thesis
      using m qp File fs_wf_update_file [OF pl(2) m] by (simp add: G node_at_fun_upd)
  qed (use assms(2) q m qp pl(2) in \<open>auto simp: f_set_mtime_def fun_upd_idem\<close>)
qed

lemma f_unlink_node:
  assumes "straight F p" and "f_unlink p F = Inr (a, G)"
  shows "p \<noteq> [] \<and> (\<exists>n. node_at F p = Some n \<and> n \<noteq> Dir) \<and> fs_wf G \<and> node_at G = (node_at F)(p := None)"
proof -
  have pl: "plain F p" "fs_wf F" using assms(1) by (auto simp: straight_def)
  obtain q n where q: "lresolve F p = Inr q" and at: "node_at F q = Some n" "n \<noteq> Dir" and G: "G = AList.delete q F"
    using assms(2) by (auto simp: f_unlink_def split: sum.splits option.splits node.splits)
  have "q = p" by (rule lresolve_plain(1) [OF pl(1) q])
  moreover from this at have "p \<noteq> []" by (auto simp: node_at_def)
  ultimately show ?thesis
    using at G fs_wf_delete_file [OF pl(2) at] by (simp add: node_at_fun_upd)
qed

lemma fs_wf_delete_empty_dir:
  assumes "fs_wf F" and "children F q = []"
  shows "fs_wf (AList.delete q F)"
proof (rule fs_wf_delete_leaf [OF assms(1)])
  fix r m assume r: "map_of F r = Some m"
  show "butlast r \<noteq> q"
  proof
    assume "butlast r = q"
    moreover have "r \<noteq> []" using fs_wf_nonempty [OF assms(1) r] .
    ultimately have "last r \<in> set (children F q)"
      using r by (metis append_butlast_last_id children_iff node_at_child option.distinct(1))
    with assms(2) show False by simp
  qed
qed

lemma f_rmdir_node:
  assumes "straight F p" and "f_rmdir p F = Inr (a, G)"
  shows "p \<noteq> [] \<and> fs_wf G \<and> node_at G = (node_at F)(p := None)"
proof -
  have pl: "plain F p" "fs_wf F" using assms(1) by (auto simp: straight_def)
  obtain q where q: "lresolve F p = Inr q" and at: "q \<noteq> []" "children F q = []" and G: "G = AList.delete q F"
    using assms(2) by (auto simp: f_rmdir_def split: sum.splits option.splits node.splits if_splits)
  moreover have "q = p" by (rule lresolve_plain(1) [OF pl(1) q])
  ultimately show ?thesis using fs_wf_delete_empty_dir [OF pl(2)] by (simp add: node_at_fun_upd)
qed

section \<open>Renaming\<close>

lemma f_rename_file_node:
  assumes "straight F t" and "straight F p" and "node_at F t = Some n" and "n \<noteq> Dir" and "f_rename t p F = Inr (a, G)"
  shows "fs_wf G \<and> node_at G = (node_at F)(t := None, p := Some n) \<and> node_at F p \<noteq> Some Dir"
proof (cases "t = p")
  case True
  have "lresolve F t = Inr t"
    using assms(1,3) by (intro lresolve_found) (auto simp: straight_def)
  with True assms have "G = F" by (cases n) (auto simp: f_rename_def)
  with True assms(1,3,4) show ?thesis by (auto simp: straight_def fun_upd_idem)
next
  case False
  have pl: "plain F t" "plain F p" "fs_wf F" "good_path p" using assms(1,2) by (auto simp: straight_def)
  obtain q where q: "lresolve F p = Inr q" and nd: "node_at F q \<noteq> Some Dir"
    and G: "G = (q, n) # AList.delete q (AList.delete t F)"
    using False assms(3-5) lresolve_plain(1) [OF pl(1)] lresolve_plain(1) [OF pl(2)]
    by (cases n) (auto simp: f_rename_def split: sum.splits option.splits node.splits if_splits)
  have qp: "q = p" by (rule lresolve_plain(1) [OF pl(2) q])
  have ne: "p \<noteq> []" "t \<noteq> []" using nd qp assms(3,4) by (auto simp: node_at_def split: if_splits)
  have wf1: "fs_wf (AList.delete t F)" by (rule fs_wf_delete_file [OF pl(3) assms(3,4) ne(2)])
  have wf2: "fs_wf (AList.delete p (AList.delete t F))"
  proof (cases "node_at F p")
    case None
    then have "map_of (AList.delete t F) p = None" using ne by (simp add: node_at_def delete_conv')
    then have "p \<notin> fst ` set (AList.delete t F)" by (simp only: map_of_eq_None_iff simp_thms)
    then show ?thesis using wf1 by (simp add: delete_id)
  next
    case (Some m)
    with nd qp ne False show ?thesis by (intro fs_wf_delete_file [OF wf1, of p m]) (auto simp: node_at_delete)
  qed
  have par: "node_at F (butlast p) = Some Dir" by (rule lresolve_plain(2) [OF pl(2) q ne(1)])
  then have "node_at (AList.delete p (AList.delete t F)) (butlast p) = Some Dir"
    using nd qp assms(3,4) by (auto simp: node_at_delete node_at_Nil_dir)
  with fs_wf_Cons [OF wf2 _ this good_path_last [OF pl(4) ne(1)]] ne nd qp show ?thesis
    by (auto simp: G node_at_fun_upd)
qed

lemma map_of_move:
  assumes "inj_on f (insert k (fst ` set xs))"
  shows "map_of (map (\<lambda>(r, n). (f r, n)) xs) (f k) = map_of xs k"
  using assms by (induction xs) (auto simp: inj_on_def)

lemma map_of_move_None:
  "(\<And>k. k \<in> fst ` set xs \<Longrightarrow> f k \<noteq> y) \<Longrightarrow> map_of (map (\<lambda>(r, n). (f r, n)) xs) y = None"
  by (force simp: map_of_eq_None_iff)

text \<open>The nodes after moving the tree at \<open>p\<close> to \<open>q\<close>.\<close>

definition moved :: "path \<Rightarrow> path \<Rightarrow> (path \<Rightarrow> node option) \<Rightarrow> path \<Rightarrow> node option" where
  "moved p q N r = (if prefix q r then N (p @ drop (length q) r) else if prefix p r then None else N r)"

lemma move_key_inj:
  assumes "\<not> prefix p q" and "\<And>r. r \<in> A \<Longrightarrow> \<not> prefix q r"
  shows "inj_on (move_key p q) A"
  using assms by (auto simp: inj_on_def move_key_def prefix_def split: if_splits)

lemma node_at_move:
  assumes "\<not> prefix p q" and "\<not> prefix q p" and "\<And>r. r \<in> fst ` set F \<Longrightarrow> \<not> prefix q r" and "p \<noteq> []" and "q \<noteq> []"
  shows "node_at (map (\<lambda>(r, n). (move_key p q r, n)) F) = moved p q (node_at F)"
proof
  fix r
  let ?G = "map (\<lambda>(r, n). (move_key p q r, n)) F"
  show "node_at ?G r = moved p q (node_at F) r"
  proof (cases "prefix q r")
    case True
    then obtain s where s: "r = q @ s" by (auto simp: prefix_def)
    have "inj_on (move_key p q) (insert (p @ s) (fst ` set F))"
    proof (rule move_key_inj [OF assms(1)])
      fix r assume "r \<in> insert (p @ s) (fst ` set F)"
      then show "\<not> prefix q r" using assms(1-3) prefix_same_cases [of p "p @ s" q] by auto
    qed
    from map_of_move [OF this] have "map_of ?G (q @ s) = map_of F (p @ s)" by (simp add: move_key_def)
    with s assms(4,5) show ?thesis by (simp add: moved_def node_at_def)
  next
    case False
    show ?thesis
    proof (cases "prefix p r")
      case True
      have "map_of ?G r = None"
        by (rule map_of_move_None) (use True False in \<open>auto simp: move_key_def\<close>)
      moreover from True assms(4) have "r \<noteq> []" by auto
      ultimately show ?thesis using True False by (simp add: moved_def node_at_def)
    next
      case np: False
      have "inj_on (move_key p q) (insert r (fst ` set F))"
        by (rule move_key_inj [OF assms(1)]) (use False assms(3) in auto)
      from map_of_move [OF this] np have "map_of ?G r = map_of F r" by (simp add: move_key_def)
      with False np show ?thesis by (simp add: moved_def node_at_def)
    qed
  qed
qed

lemma butlast_neq: "p \<noteq> [] \<Longrightarrow> butlast p \<noteq> p"
  by (cases p rule: rev_cases) auto

lemma fs_wf_move:
  assumes wf: "fs_wf F" and np: "\<not> prefix p q" "\<not> prefix q p" and clear: "\<And>r. r \<in> fst ` set F \<Longrightarrow> \<not> prefix q r"
    and ne: "p \<noteq> []" "q \<noteq> []" and par: "node_at F (butlast q) = Some Dir" and name: "good_name (last q)"
  shows "fs_wf (map (\<lambda>(r, n). (move_key p q r, n)) F)"
proof -
  let ?G = "map (\<lambda>(r, n). (move_key p q r, n)) F"
  have nodes: "node_at ?G = moved p q (node_at F)" by (rule node_at_move [OF np clear ne])
  have parq: "moved p q (node_at F) (butlast q) = Some Dir"
  proof -
    have "\<not> prefix q (butlast q)" using ne(2) butlast_neq prefixeq_butlast prefix_order.antisym by blast
    moreover have "\<not> prefix p (butlast q)" using np(1) prefix_order.trans prefixeq_butlast by blast
    ultimately show ?thesis using par by (simp add: moved_def)
  qed
  have keys: "map fst ?G = map (move_key p q) (map fst F)" by (induction F) auto
  have "distinct (map fst ?G)"
    unfolding keys distinct_map
    using fs_wf_distinct [OF wf] move_key_inj [OF np(1), of "fst ` set F"] clear by (simp add: distinct_map)
  moreover have "r \<noteq> [] \<and> node_at ?G (butlast r) = Some Dir \<and> good_name (last r)" if "map_of ?G r = Some n" for r n
  proof -
    from map_of_SomeD [OF that] obtain k where k: "(k, n) \<in> set F" and r: "r = move_key p q k" by auto
    then have mk: "map_of F k = Some n" using fs_wf_distinct [OF wf] by simp
    have kne: "k \<noteq> []" and kp: "node_at F (butlast k) = Some Dir" and kn: "good_name (last k)"
      using fs_wf_nonempty [OF wf mk] fs_wf_parent [OF wf, of k n] fs_wf_name [OF wf mk] mk by (auto simp: node_at_def)
    show ?thesis
    proof (cases "prefix p k")
      case True
      then obtain t where t: "k = p @ t" by (auto simp: prefix_def)
      show ?thesis
      proof (cases "t = []")
        case True
        with t r have "r = q" by (simp add: move_key_def)
        with ne(2) name parq nodes show ?thesis by simp
      next
        case tne: False
        with t r have "r = q @ t" by (simp add: move_key_def)
        moreover from kp t tne have "node_at F (p @ butlast t) = Some Dir" by (simp add: butlast_append)
        ultimately show ?thesis using tne kn t by (simp add: nodes moved_def butlast_append)
      qed
    next
      case False
      with r have rk: "r = k" by (simp add: move_key_def)
      have "\<not> prefix p (butlast k)" using False prefix_order.trans prefixeq_butlast by blast
      moreover have "\<not> prefix q (butlast k)" using clear k prefix_order.trans [OF _ prefixeq_butlast] by force
      ultimately show ?thesis using rk kne kp kn by (simp add: nodes moved_def)
    qed
  qed
  ultimately show ?thesis by (auto simp: fs_wf_def)
qed

lemma f_rename_dir_node:
  assumes "straight F p" and "straight F q" and "p \<noteq> q" and "node_at F p = Some Dir" and "f_rename p q F = Inr (a, G)"
  shows "fs_wf G \<and> node_at G = moved p q (node_at F) \<and> \<not> prefix p q \<and> \<not> prefix q p \<and> (\<forall>r. r \<noteq> [] \<longrightarrow> node_at F (q @ r) = None)"
proof -
  have pl: "plain F p" "plain F q" "fs_wf F" "good_path q" using assms(1,2) by (auto simp: straight_def)
  have rp: "lresolve F p = Inr p" using pl assms(4) by (intro lresolve_found)
  obtain q' where q': "lresolve F q = Inr q'" using assms(5) rp by (auto simp: f_rename_def split: sum.splits)
  have qq: "q' = q" by (rule lresolve_plain(1) [OF pl(2) q'])
  let ?H = "if node_at F q = None then F else AList.delete q F"
  from assms(3-5) rp q' qq have npq: "\<not> prefix p q" and pne: "p \<noteq> []" and G: "G = map (\<lambda>(r, n). (move_key p q r, n)) ?H"
    and ch: "node_at F q = None \<or> node_at F q = Some Dir \<and> children F q = []"
    by (auto simp: f_rename_def split: if_splits option.splits node.splits)
  have below: "node_at F (q @ r) = None" if "r \<noteq> []" for r
  proof (rule ccontr)
    assume n: "node_at F (q @ r) \<noteq> None"
    from that obtain c s where r: "r = c # s" by (cases r) auto
    with n have "node_at F (q @ [c]) \<noteq> None"
      using fs_wf_prefix_dir [OF pl(3), of "q @ [c]" s] by (cases "s = []") auto
    moreover from this ch have "children F q = []" using fs_wf_prefix_dir [OF pl(3), of q "[c]"] by auto
    ultimately show False using children_iff [of c F q] by simp
  qed
  have nqp: "\<not> prefix q p"
  proof
    assume "prefix q p"
    then obtain s where s: "p = q @ s" by (auto simp: prefix_def)
    with assms(3) below [of s] assms(4) show False by auto
  qed
  have qne: "q \<noteq> []" using nqp by auto
  have clear: "\<not> prefix q r" if "r \<in> fst ` set ?H" for r
  proof
    assume "prefix q r"
    then obtain s where s: "r = q @ s" by (auto simp: prefix_def)
    from that have "map_of ?H r \<noteq> None" by (metis map_of_eq_None_iff)
    with s qne below [of s] show False by (cases "s = []") (auto simp: node_at_def delete_conv' split: if_splits)
  qed
  have wfH: "fs_wf ?H" using pl(3) ch fs_wf_delete_empty_dir by auto
  have nodeH: "node_at ?H r = (if prefix q r then None else node_at F r)" for r
  proof (cases "prefix q r")
    case True
    then obtain s where "r = q @ s" by (auto simp: prefix_def)
    with below [of s] qne show ?thesis by (cases "s = []") (auto simp: node_at_delete)
  qed (auto simp: node_at_delete)
  have same: "moved p q (node_at ?H) = moved p q (node_at F)"
  proof
    fix r
    have "\<not> prefix q (p @ s)" for s using npq nqp prefix_same_cases [of p "p @ s" q] by auto
    then show "moved p q (node_at ?H) r = moved p q (node_at F) r" unfolding moved_def nodeH by simp
  qed
  have par: "node_at ?H (butlast q) = Some Dir"
    using lresolve_plain(2) [OF pl(2) q' qne] butlast_neq [OF qne] by (auto simp: node_at_delete node_at_Nil_dir)
  show ?thesis
    using fs_wf_move [OF wfH npq nqp clear pne qne par good_path_last [OF pl(4) qne]]
      node_at_move [OF npq nqp clear pne qne] npq nqp below by (simp add: G same [symmetric])
qed

section \<open>Actions that keep to given regions\<close>

definition tames :: "path set \<Rightarrow> filesystem \<Rightarrow> bool" where
  "tames Ds F \<longleftrightarrow> fs_wf F \<and> (\<forall>D \<in> Ds. clear_region D F)"

definition roads :: "path set \<Rightarrow> path set" where
  "roads Ds = {p. \<exists>D \<in> Ds. in_region D p}"

text \<open>From a state without links in the regions, nothing changes outside them and no link appears in them.\<close>

definition touches :: "path set \<Rightarrow> world \<Rightarrow> world \<Rightarrow> bool" where
  "touches Ds w v \<longleftrightarrow> (tames Ds (fs w) \<longrightarrow> tames Ds (fs v) \<and> suffix (events v) (events w)
    \<and> (\<forall>p. p \<notin> roads Ds \<longrightarrow> node_at (fs v) p = node_at (fs w) p))"

interpretation tc: time_preorder "touches Ds" for Ds
  by unfold_locales (auto simp: touches_def still_def intro: suffix_order.trans)

lemma tames_straight: "tames Ds F \<Longrightarrow> D \<in> Ds \<Longrightarrow> in_region D p \<Longrightarrow> straight F p"
  using in_region_plain [of D F p] by (auto simp: tames_def tame_def straight_def in_region_def)

lemma roadsI: "D \<in> Ds \<Longrightarrow> in_region D p \<Longrightarrow> p \<in> roads Ds"
  by (auto simp: roads_def)

lemma tames_mono:
  "tames Ds F \<Longrightarrow> fs_wf G \<Longrightarrow> (\<And>q t. node_at G q = Some (Link t) \<Longrightarrow> node_at F q = Some (Link t)) \<Longrightarrow> tames Ds G"
  by (fastforce simp: tames_def clear_region_def)

lemma tames_upd:
  "tames Ds F \<Longrightarrow> fs_wf G \<Longrightarrow> node_at G = (node_at F)(p := n) \<Longrightarrow> (\<And>t. n \<noteq> Some (Link t)) \<Longrightarrow> tames Ds G"
  by (erule tames_mono) (auto split: if_splits)

lemma moves_touches_call:
  assumes "\<And>F a G. tames Ds F \<Longrightarrow> f F = Inr (a, G) \<Longrightarrow>
      tames Ds G \<and> (\<forall>p. p \<notin> roads Ds \<longrightarrow> node_at G p = node_at F p)"
  shows "moves (touches Ds) (call f)"
proof (rule movesI)
  fix w r v assume c: "call f w = (r, v)"
  obtain e u where n: "next_event w = (e, u)" by fastforce
  then have u: "still w u" by (rule next_event_still)
  from call_cases [OF c n] consider "v = u" | a G where "f (fs u) = Inr (a, G)" "v = u\<lparr>fs := G\<rparr>" by blast
  then show "touches Ds w v"
    using u assms [of "fs w"] by cases (auto simp: touches_def still_def)
qed

text \<open>A continuation may rely on the value its action returned in a state without links in the regions.\<close>

lemma moves_touches_bnd:
  assumes "moves (touches Ds) m" and "\<And>s a t. tames Ds (fs s) \<Longrightarrow> m s = (Ok a, t) \<Longrightarrow> moves (touches Ds) (f a)"
  shows "moves (touches Ds) (bnd m f)"
proof (rule movesI)
  fix s r t assume b: "bnd m f s = (r, t)"
  show "touches Ds s t"
  proof (cases "tames Ds (fs s)")
    case True
    obtain q u where m: "m s = (q, u)" by fastforce
    with assms(1) have su: "touches Ds s u" by (rule movesD)
    show ?thesis
    proof (cases q)
      case (Ok a)
      with m b have "f a u = (r, t)" by (simp add: bnd_def)
      with assms(2) [OF True] m Ok have "touches Ds u t" by (auto dest: movesD)
      with su show ?thesis by (rule tc.step_trans)
    qed (use m b su in \<open>simp_all add: bnd_def\<close>)
  qed (simp add: touches_def)
qed

lemma touches_node_call:
  assumes "D \<in> Ds" and "in_region D p"
    and "\<And>F a G. straight F p \<Longrightarrow> f F = Inr (a, G) \<Longrightarrow>
      fs_wf G \<and> (\<exists>n. (\<forall>t. n \<noteq> Some (Link t)) \<and> node_at G = (node_at F)(p := n))"
  shows "moves (touches Ds) (call f)"
proof (rule moves_touches_call)
  fix F a G assume F: "tames Ds F" and G: "f F = Inr (a, G)"
  from assms(3) [OF tames_straight [OF F assms(1,2)] G] obtain n where
    "fs_wf G" "\<And>t. n \<noteq> Some (Link t)" "node_at G = (node_at F)(p := n)" by blast
  with tames_upd [OF F] roadsI [OF assms(1,2)]
  show "tames Ds G \<and> (\<forall>q. q \<notin> roads Ds \<longrightarrow> node_at G q = node_at F q)" by auto
qed

lemma straight_no_link: "straight F p \<Longrightarrow> node_at F p \<noteq> Some (Link t)"
  by (auto simp: straight_def plain_def)

lemma touches_create_dir: "D \<in> Ds \<Longrightarrow> in_region D p \<Longrightarrow> moves (touches Ds) (create_dir p)"
  unfolding create_dir_def by (erule (1) touches_node_call) (drule (1) f_mkdir_node, blast)

lemma touches_append: "D \<in> Ds \<Longrightarrow> in_region D p \<Longrightarrow> moves (touches Ds) (append_file p b)"
  unfolding append_file_def by (erule (1) touches_node_call) (drule (1) f_append_node, blast)

lemma touches_unlink: "D \<in> Ds \<Longrightarrow> in_region D p \<Longrightarrow> moves (touches Ds) (remove_file p)"
  unfolding remove_file_def by (erule (1) touches_node_call) (drule (1) f_unlink_node, blast)

lemma touches_rmdir: "D \<in> Ds \<Longrightarrow> in_region D p \<Longrightarrow> moves (touches Ds) (remove_dir p)"
  unfolding remove_dir_def by (erule (1) touches_node_call) (drule (1) f_rmdir_node, blast)

lemma touches_set_mtime:
  assumes "D \<in> Ds" and "in_region D p"
  shows "moves (touches Ds) (set_file_mtime p s n)"
  unfolding set_file_mtime_def
proof (rule touches_node_call [OF assms])
  fix F a G assume F: "straight F p" and "f_set_mtime p s n F = Inr (a, G)"
  from f_set_mtime_node [OF this] obtain m where m: "node_at F p = Some m" and G: "fs_wf G"
    "node_at G = (node_at F)(p := Some (case m of File b s0 n0 \<Rightarrow> File b s n | _ \<Rightarrow> m))" by blast
  moreover have "\<forall>t. Some (case m of File b s0 n0 \<Rightarrow> File b s n | _ \<Rightarrow> m) \<noteq> Some (Link t)"
    using straight_no_link [OF F] m by (auto split: node.splits)
  ultimately show "fs_wf G \<and> (\<exists>k. (\<forall>t. k \<noteq> Some (Link t)) \<and> node_at G = (node_at F)(p := k))" by blast
qed

lemma touches_new_temp:
  assumes "temp_namer_ok tn" and "D \<in> Ds" and "prefix D d" and "good_path d"
  shows "moves (touches Ds) (call (f_new_temp tn d))"
proof (rule moves_touches_call)
  fix F t G assume F: "tames Ds F" and G: "f_new_temp tn d F = Inr (t, G)"
  then have t: "t = d @ [tn F d]" and c: "f_create_new (d @ [tn F d]) F = Inr ((), G)"
    by (auto simp: f_new_temp_def split: sum.splits)
  have r: "in_region D (d @ [tn F d])"
    using assms good_temp_name by (auto simp: in_region_def temp_namer_ok_def)
  from f_create_new_node [OF tames_straight [OF F assms(2) r] c] tames_upd [OF F] roadsI [OF assms(2) r]
  show "tames Ds G \<and> (\<forall>q. q \<notin> roads Ds \<longrightarrow> node_at G q = node_at F q)" by auto
qed

lemma f_persist_node:
  assumes "straight F t" and "straight F p" and "f_persist t p F = Inr (a, G)"
  shows "\<exists>b s n. node_at F t = Some (File b s n) \<and> fs_wf G \<and> node_at G = (node_at F)(t := None, p := Some (File b s n))
    \<and> node_at F p \<noteq> Some Dir"
proof -
  have "fs_wf F" "plain F t" using assms(1) by (auto simp: straight_def)
  with assms(3) obtain b s n where "node_at F t = Some (File b s n)" and "f_rename t p F = Inr (a, G)"
    using lstat_plain_iff [of F t] by (auto simp: f_persist_def split: sum.splits node.splits)
  with f_rename_file_node [OF assms(1,2), of "File b s n" a G] show ?thesis by blast
qed

lemma touches_persist:
  assumes "D \<in> Ds" and "in_region D t" and "in_region D p"
  shows "moves (touches Ds) (persist t p)"
  unfolding persist_def
proof (rule moves_touches_call)
  fix F a G assume F: "tames Ds F" and G: "f_persist t p F = Inr (a, G)"
  from f_persist_node [OF tames_straight [OF F assms(1,2)] tames_straight [OF F assms(1,3)] G]
  obtain b s n where "fs_wf G" and n: "node_at G = (node_at F)(t := None, p := Some (File b s n))" by blast
  then have "tames Ds G" by (intro tames_mono [OF F]) (auto split: if_splits)
  with n roadsI [OF assms(1,2)] roadsI [OF assms(1,3)]
  show "tames Ds G \<and> (\<forall>q. q \<notin> roads Ds \<longrightarrow> node_at G q = node_at F q)" by auto
qed

interpretation tcf: file_ops "touches (insert D Ds)" D "\<lambda>_. True" for D Ds
  by unfold_locales
    (auto intro: touches_create_dir touches_append touches_unlink touches_persist touches_new_temp simp: temp_in_def)

lemma touches_create_dir_all: "D \<in> Ds \<Longrightarrow> in_region D p \<Longrightarrow> moves (touches Ds) (create_dir_all p)"
  using tcf.moves_create_dir_all [of D p Ds] by (simp add: insert_absorb tcf.okdirs_def)

lemma touches_with_temp:
  assumes "D \<in> Ds" and "temp_namer_ok tn" and "prefix D d" and "good_path d"
    and "\<And>t. temp_in D d t \<Longrightarrow> moves (touches Ds) (body t)"
  shows "moves (touches Ds) (with_temp tn d body)"
  using tcf.moves_with_temp [of tn D d Ds body] assms by (simp add: insert_absorb)

text \<open>Removing a tree: every path listed is below the directory.\<close>

lemma touches_remove_dir_all:
  assumes "D \<in> Ds" and "prefix D p" and "good_path p"
  shows "moves (touches Ds) (remove_dir_all p)"
  unfolding remove_dir_all_def
proof (rule moves_touches_bnd [OF tc.moves_still_step [OF moves_still_prims(8)]])
  fix w ls v assume w: "tames Ds (fs w)" and l: "call (f_list_below p) w = (Ok ls, v)"
  have p: "in_region D p" using assms by (simp add: in_region_def)
  have st: "straight (fs w) p" by (rule tames_straight [OF w assms(1) p])
  from call_Ok [OF l] obtain q where q: "lresolve (fs w) p = Inr q"
    and ls: "ls = map (\<lambda>r. (r, node_at (fs w) r = Some Dir)) (below (fs w) q)"
    by (auto simp: f_list_below_def split: sum.splits option.splits node.splits)
  have "q = p" using lresolve_plain(1) [OF _ q] st by (simp add: straight_def)
  have r: "in_region D r" if "(r, b) \<in> set ls" for r b
  proof -
    from that ls \<open>q = p\<close> have "prefix p r" and "r \<in> fst ` set (fs w)" by (auto simp: below_def)
    then have "prefix D r" using assms(2) prefix_order.trans by blast
    moreover from \<open>r \<in> fst ` set (fs w)\<close> have "map_of (fs w) r \<noteq> None" by (metis map_of_eq_None_iff)
    then have "good_path r"
      using fs_wf_good_path [of "fs w" r] st by (cases "r = []") (auto simp: straight_def node_at_def)
    ultimately show ?thesis by (simp add: in_region_def)
  qed
  show "moves (touches Ds) (for_each (\<lambda>(r, d). if d then remove_dir r else remove_file r) ls)"
    by (rule tc.moves_for_each) (auto intro: touches_rmdir [OF assms(1) r] touches_unlink [OF assms(1) r])
qed

section \<open>Exact nodes\<close>

text \<open>
  \<open>holds Ds N\<close>: the nodes are \<open>N\<close>. \<open>strays Ds N\<close>: they are \<open>N\<close> outside the regions, which is all that
  is known after something went wrong.
\<close>

definition holds :: "path set \<Rightarrow> (path \<Rightarrow> node option) \<Rightarrow> world \<Rightarrow> bool" where
  "holds Ds N w \<longleftrightarrow> tames Ds (fs w) \<and> node_at (fs w) = N"

definition strays :: "path set \<Rightarrow> (path \<Rightarrow> node option) \<Rightarrow> world \<Rightarrow> bool" where
  "strays Ds N w \<longleftrightarrow> tames Ds (fs w) \<and> (\<forall>p. p \<notin> roads Ds \<longrightarrow> node_at (fs w) p = N p)"

lemma stable_holds [simp]: "stable (holds Ds N)"
  and stable_strays [simp]: "stable (strays Ds N)"
  by (auto simp: stable_def still_def holds_def strays_def)

lemma holds_strays: "holds Ds N w \<Longrightarrow> strays Ds N w"
  by (auto simp: holds_def strays_def)

lemma strays_touches: "strays Ds N w \<Longrightarrow> touches Ds w v \<Longrightarrow> strays Ds N v"
  by (auto simp: strays_def touches_def)

lemma strays_upd: "p \<in> roads Ds \<Longrightarrow> strays Ds (N(p := n)) w \<Longrightarrow> strays Ds N w"
  by (auto simp: strays_def split: if_splits)

lemma triple_strays: "moves (touches Ds) m \<Longrightarrow> triple (strays Ds N) m (\<lambda>_. strays Ds N) (strays Ds N)"
  by (erule triple_moves) (rule strays_touches)

lemma triple_holds_still: "moves still m \<Longrightarrow> triple (holds Ds N) m (\<lambda>_. holds Ds N) (strays Ds N)"
  by (rule triple_conseq [OF triple_still [OF stable_holds]]) (auto intro: holds_strays)

lemma triple_holds_node:
  assumes "D \<in> Ds" and "in_region D p"
    and "\<And>F a G. straight F p \<Longrightarrow> node_at F = N \<Longrightarrow> f F = Inr (a, G) \<Longrightarrow>
      fs_wf G \<and> (\<exists>n. (\<forall>t. n \<noteq> Some (Link t)) \<and> B n \<and> node_at G = N(p := n))"
  shows "triple (holds Ds N) (call f) (\<lambda>_ w. \<exists>n. B n \<and> holds Ds (N(p := n)) w) (holds Ds N)"
proof (rule triple_call)
  fix w a G and v :: world
  assume w: "holds Ds N w" and f: "f (fs w) = Inr (a, G)" and v: "fs v = G"
  then have F: "tames Ds (fs w)" and N: "node_at (fs w) = N" by (auto simp: holds_def)
  from assms(3) [OF tames_straight [OF F assms(1,2)] N f] obtain n where
    n: "fs_wf G" "\<And>t. n \<noteq> Some (Link t)" "B n" "node_at G = N(p := n)" by blast
  moreover have "tames Ds G" by (rule tames_upd [OF F n(1) _ n(2), where p = p]) (simp add: n(4) N)
  ultimately show "\<exists>n. B n \<and> holds Ds (N(p := n)) v" using v by (auto simp: holds_def)
qed auto

text \<open>Directories that were created: nothing else changes, and the path is a directory afterwards.\<close>

definition adds_dirs :: "path \<Rightarrow> (path \<Rightarrow> node option) \<Rightarrow> (path \<Rightarrow> node option) \<Rightarrow> bool" where
  "adds_dirs p N M \<longleftrightarrow> (\<forall>q. M q = N q \<or> prefix q p \<and> N q = None \<and> M q = Some Dir)"

lemma adds_dirs_refl [simp]: "adds_dirs p N N"
  by (simp add: adds_dirs_def)

lemma adds_dirs_trans: "adds_dirs p N M \<Longrightarrow> adds_dirs p M L \<Longrightarrow> adds_dirs p N L"
  unfolding adds_dirs_def by metis

lemma adds_dirs_mono: "adds_dirs q N M \<Longrightarrow> prefix q p \<Longrightarrow> adds_dirs p N M"
  unfolding adds_dirs_def by (meson prefix_order.trans)

lemma adds_dirs_keeps: "adds_dirs p N M \<Longrightarrow> N q = Some n \<Longrightarrow> M q = Some n"
  unfolding adds_dirs_def by (metis option.distinct(1))

definition makes_dir :: "path set \<Rightarrow> path \<Rightarrow> (path \<Rightarrow> node option) \<Rightarrow> world \<Rightarrow> bool" where
  "makes_dir Ds p N w \<longleftrightarrow> (\<exists>M. adds_dirs p N M \<and> M p = Some Dir \<and> holds Ds M w)"

lemma stable_makes_dir [simp]: "stable (makes_dir Ds p N)"
  unfolding makes_dir_def by (intro stable_ex stable_conj stable_const stable_holds)

lemma triple_holds_create_dir:
  assumes "D \<in> Ds" and "in_region D p"
  shows "triple (holds Ds N) (create_dir p) (\<lambda>_. makes_dir Ds p N) (holds Ds N)"
proof (rule triple_conseq [where P = "holds Ds N" and E = "holds Ds N"])
  show "triple (holds Ds N) (create_dir p) (\<lambda>_ w. \<exists>n. (n = Some Dir \<and> N p = None) \<and> holds Ds (N(p := n)) w) (holds Ds N)"
    unfolding create_dir_def
    by (rule triple_holds_node [OF assms]) (drule (1) f_mkdir_node, auto)
  show "makes_dir Ds p N w" if "\<exists>n. (n = Some Dir \<and> N p = None) \<and> holds Ds (N(p := n)) w" for w
    unfolding makes_dir_def by (rule exI [of _ "N(p := Some Dir)"]) (use that in \<open>auto simp: adds_dirs_def\<close>)
qed

lemma path_is_dir_true:
  assumes "D \<in> Ds" and "in_region D p" and "tames Ds (fs w)" and "path_is_dir p w = (Ok True, v)"
  shows "node_at (fs w) p = Some Dir"
proof -
  from assms(4) have "present_dir (fs w) p"
    by (auto simp: path_is_dir_def probe_def split: prod.splits if_splits dest: next_event_fs)
  moreover have "straight (fs w) p" by (rule tames_straight [OF assms(3,1,2)])
  ultimately show ?thesis using stat_plain_iff [of "fs w" p Dir]
    by (auto simp: present_dir_def straight_def split: sum.splits node.splits)
qed

lemma triple_holds_or_dir:
  assumes "D \<in> Ds" and "in_region D p" and "adds_dirs p N M"
  shows "triple (holds Ds M) (bnd (path_is_dir p) (\<lambda>d. if d then ret () else throw e)) (\<lambda>_. makes_dir Ds p N) (strays Ds N)"
proof -
  have st: "strays Ds N w" if "holds Ds M w" for w
    using that assms(3) roadsI [OF assms(1) in_region_prefix [OF assms(2)]]
    by (auto simp: holds_def strays_def adds_dirs_def)
  show ?thesis
  proof (rule triple_bnd [where Q = "\<lambda>d w. holds Ds M w \<and> (d \<longrightarrow> M p = Some Dir)"])
    show "triple (holds Ds M) (path_is_dir p) (\<lambda>d w. holds Ds M w \<and> (d \<longrightarrow> M p = Some Dir)) (strays Ds N)"
    proof (rule tripleI)
      fix w d v assume w: "holds Ds M w" and d: "path_is_dir p w = (Ok d, v)"
      have "still w v" by (rule movesD [OF moves_still_prims(2) d])
      with w d path_is_dir_true [OF assms(1,2), of w v] show "holds Ds M v \<and> (d \<longrightarrow> M p = Some Dir)"
        by (auto simp: holds_def still_def)
    qed (use st movesD [OF moves_still_prims(2)] stableD [OF stable_strays] in blast)+
    show "triple (\<lambda>w. holds Ds M w \<and> (d \<longrightarrow> M p = Some Dir)) (if d then ret () else throw e)
        (\<lambda>_. makes_dir Ds p N) (strays Ds N)" for d
      using assms(3) st by (intro triple_if triple_ret triple_throw) (auto simp: makes_dir_def)
  qed
qed

lemma triple_some: "(\<And>x. triple (P x) m Q E) \<Longrightarrow> triple (\<lambda>w. \<exists>x. P x w) m Q E"
  by (rule tripleI) (blast dest: triple_Ok triple_Err triple_Halt)+

lemma makes_dir_trans: "adds_dirs q N M \<Longrightarrow> prefix q p \<Longrightarrow> makes_dir Ds p M w \<Longrightarrow> makes_dir Ds p N w"
  unfolding makes_dir_def using adds_dirs_trans adds_dirs_mono by blast

lemma makes_dir_strays:
  assumes "D \<in> Ds" and "in_region D p" and "makes_dir Ds p N w"
  shows "strays Ds N w"
  using assms(3) roadsI [OF assms(1) in_region_prefix [OF assms(2)]]
  by (auto simp: makes_dir_def holds_def strays_def adds_dirs_def)

lemma triple_holds_mkdir_or_dir:
  assumes "D \<in> Ds" and "in_region D p" and "adds_dirs q N M" and "prefix q p"
  shows "triple (holds Ds M) (mkdir_or_dir p) (\<lambda>_. makes_dir Ds p N) (strays Ds N)"
  unfolding mkdir_or_dir_def
proof (rule triple_try [OF triple_holds_create_dir [OF assms(1,2)]])
  have a: "adds_dirs p N M" by (rule adds_dirs_mono [OF assms(3,4)])
  show "triple (holds Ds M) (bnd (path_is_dir p) (\<lambda>d. if d then ret () else throw e)) (\<lambda>_. makes_dir Ds p N) (strays Ds N)" for e
    by (rule triple_holds_or_dir [OF assms(1,2) a])
  show "triple (makes_dir Ds p M) (ret ()) (\<lambda>_. makes_dir Ds p N) (strays Ds N)"
    by (rule triple_ret) (rule makes_dir_trans [OF assms(3,4)])
  show "strays Ds N w" if "holds Ds M w" for w
    using that a roadsI [OF assms(1) in_region_prefix [OF assms(2)]]
    by (auto simp: holds_def strays_def adds_dirs_def)
qed

lemma triple_holds_create_dir_all_rev:
  assumes "D \<in> Ds"
  shows "in_region D (rev up) \<Longrightarrow> triple (holds Ds N) (create_dir_all_rev up) (\<lambda>_. makes_dir Ds (rev up) N) (strays Ds N)"
proof (induction up arbitrary: N)
  case Nil
  have "makes_dir Ds [] N w" if "holds Ds N w" for w
    unfolding makes_dir_def by (rule exI [of _ N]) (use that in \<open>auto simp: holds_def\<close>)
  then show ?case by (auto intro: triple_ret)
next
  case (Cons c up)
  let ?p = "rev (c # up)"
  have up: "in_region D (rev up)" by (rule in_region_prefix [OF Cons.prems]) simp
  have go: "triple (holds Ds N) (bnd (create_dir_all_rev up) (\<lambda>_. mkdir_or_dir ?p)) (\<lambda>_. makes_dir Ds ?p N) (strays Ds N)"
  proof (rule triple_bnd [OF Cons.IH [OF up]])
    have "triple (\<lambda>w. \<exists>M. (adds_dirs (rev up) N M \<and> M (rev up) = Some Dir) \<and> holds Ds M w) (mkdir_or_dir ?p)
      (\<lambda>_. makes_dir Ds ?p N) (strays Ds N)"
      by (intro triple_some triple_pull triple_holds_mkdir_or_dir [OF assms Cons.prems, of "rev up"]) auto
    then show "triple (makes_dir Ds (rev up) N) (mkdir_or_dir ?p) (\<lambda>_. makes_dir Ds ?p N) (strays Ds N)"
      by (rule triple_pre) (auto simp: makes_dir_def)
  qed
  show ?case
    unfolding create_dir_all_rev.simps
  proof (rule triple_try [OF triple_holds_create_dir [OF assms Cons.prems]])
    show "triple (holds Ds N) (if e = Io NotFound then bnd (create_dir_all_rev up) (\<lambda>_. mkdir_or_dir ?p)
        else bnd (path_is_dir ?p) (\<lambda>d. if d then ret () else throw e)) (\<lambda>_. makes_dir Ds ?p N) (strays Ds N)" for e
      by (intro triple_if go triple_holds_or_dir [OF assms Cons.prems]) simp
  qed (auto intro: triple_ret holds_strays)
qed

lemma triple_holds_create_dir_all:
  assumes "D \<in> Ds" and "in_region D p"
  shows "triple (holds Ds N) (create_dir_all p) (\<lambda>_. makes_dir Ds p N) (strays Ds N)"
  using triple_holds_create_dir_all_rev [OF assms(1), of "rev p" N] assms(2) by (simp add: create_dir_all_def)

text \<open>A directory can be made in the middle of a longer step.\<close>

lemma triple_after_makes_dir:
  assumes "\<And>M. adds_dirs p N M \<Longrightarrow> M p = Some Dir \<Longrightarrow> triple (holds Ds M) m Q E"
  shows "triple (makes_dir Ds p N) m Q E"
proof -
  have "triple (\<lambda>w. \<exists>M. (adds_dirs p N M \<and> M p = Some Dir) \<and> holds Ds M w) m Q E"
    by (intro triple_some triple_pull) (use assms in blast)
  then show ?thesis by (rule triple_pre) (auto simp: makes_dir_def)
qed

section \<open>Temporary files\<close>

lemma triple_holds_new_temp:
  assumes "temp_namer_ok tn" and "D \<in> Ds" and "prefix D d" and "good_path d"
  shows "triple (holds Ds N) (call (f_new_temp tn d))
    (\<lambda>t w. (temp_in D d t \<and> N t = None) \<and> holds Ds (N(t := Some (File [] 0 0))) w) (holds Ds N)"
proof (rule triple_call)
  fix w t G and v :: world
  assume w: "holds Ds N w" and G: "f_new_temp tn d (fs w) = Inr (t, G)" and v: "fs v = G"
  then have t: "t = d @ [tn (fs w) d]" and c: "f_create_new t (fs w) = Inr ((), G)"
    by (auto simp: f_new_temp_def split: sum.splits)
  have ti: "temp_in D d t" using assms(1,3,4) good_temp_name by (auto simp: t temp_in_def in_region_def temp_namer_ok_def)
  have F: "tames Ds (fs w)" using w by (simp add: holds_def)
  from f_create_new_node [OF tames_straight [OF F assms(2)] c] ti
  have n: "node_at (fs w) t = None" "fs_wf G" "node_at G = (node_at (fs w))(t := Some (File [] 0 0))"
    by (auto simp: temp_in_def)
  moreover have "tames Ds G" by (rule tames_upd [OF F n(2,3)]) simp
  ultimately show "(temp_in D d t \<and> N t = None) \<and> holds Ds (N(t := Some (File [] 0 0))) v"
    using ti w v by (auto simp: holds_def)
qed auto

lemma triple_holds_append:
  assumes "D \<in> Ds" and "in_region D t"
  shows "triple (holds Ds (N(t := Some (File b s n)))) (append_file t c)
    (\<lambda>_. holds Ds (N(t := Some (File (b @ c) s n)))) (holds Ds (N(t := Some (File b s n))))"
proof (rule triple_conseq)
  show "triple (holds Ds (N(t := Some (File b s n)))) (append_file t c)
    (\<lambda>_ w. \<exists>k. k = Some (File (b @ c) s n) \<and> holds Ds (N(t := Some (File b s n), t := k)) w) (holds Ds (N(t := Some (File b s n))))"
    unfolding append_file_def
    by (rule triple_holds_node [OF assms]) (drule (1) f_append_node, auto)
qed auto

lemma triple_holds_set_mtime:
  assumes "D \<in> Ds" and "in_region D p" and "N p = Some (File b s0 n0)"
  shows "triple (holds Ds N) (set_file_mtime p s n) (\<lambda>_. holds Ds (N(p := Some (File b s n)))) (holds Ds N)"
proof (rule triple_conseq)
  show "triple (holds Ds N) (set_file_mtime p s n)
    (\<lambda>_ w. \<exists>k. k = Some (File b s n) \<and> holds Ds (N(p := k)) w) (holds Ds N)"
    unfolding set_file_mtime_def
    by (rule triple_holds_node [OF assms(1,2)]) (drule (1) f_set_mtime_node, use assms(3) in auto)
qed auto

lemma triple_holds_persist:
  assumes "D \<in> Ds" and "in_region D t" and "in_region D p" and "N t = None"
  shows "triple (holds Ds (N(t := Some (File b s n)))) (persist t p)
    (\<lambda>_ w. N p \<noteq> Some Dir \<and> holds Ds (N(p := Some (File b s n))) w) (holds Ds (N(t := Some (File b s n))))"
  unfolding persist_def
proof (rule triple_call)
  fix w a G and v :: world
  assume w: "holds Ds (N(t := Some (File b s n))) w" and G: "f_persist t p (fs w) = Inr (a, G)" and v: "fs v = G"
  then have F: "tames Ds (fs w)" and N: "node_at (fs w) = N(t := Some (File b s n))" by (auto simp: holds_def)
  from f_persist_node [OF tames_straight [OF F assms(1,2)] tames_straight [OF F assms(1,3)] G] N
  have wf: "fs_wf G" and g: "node_at G = (node_at (fs w))(t := None, p := Some (File b s n))"
    and nd: "node_at (fs w) p \<noteq> Some Dir" by auto
  have "tames Ds G" by (rule tames_mono [OF F wf]) (auto simp: g split: if_splits)
  moreover have "node_at G = N(p := Some (File b s n))" using g N assms(4) by (auto simp: fun_eq_iff)
  moreover have "N p \<noteq> Some Dir" using nd N assms(4) by (auto split: if_splits)
  ultimately show "N p \<noteq> Some Dir \<and> holds Ds (N(p := Some (File b s n))) v" using v by (simp add: holds_def)
qed auto

lemma strays_adds:
  "D \<in> Ds \<Longrightarrow> in_region D p \<Longrightarrow> adds_dirs p N M \<Longrightarrow> strays Ds M w \<Longrightarrow> strays Ds N w"
  using roadsI [OF _ in_region_prefix, of D Ds p] by (fastforce simp: strays_def adds_dirs_def)

text \<open>
  A temporary file that is prepared and renamed: the body ends with the target in place, or the
  regions hold whatever was left.
\<close>

lemma triple_holds_with_temp:
  assumes "temp_namer_ok tn" and "D \<in> Ds" and "prefix D d" and "good_path d"
    and "\<And>t. temp_in D d t \<Longrightarrow> N t = None \<Longrightarrow>
      triple (holds Ds (N(t := Some (File [] 0 0)))) (body t) (\<lambda>_. Q) (strays Ds N)"
  shows "triple (holds Ds N) (with_temp tn d body) (\<lambda>_. Q) (strays Ds N)"
  unfolding with_temp_def
proof (rule triple_bnd)
  show "triple (holds Ds N) (call (f_new_temp tn d))
      (\<lambda>t w. (temp_in D d t \<and> N t = None) \<and> holds Ds (N(t := Some (File [] 0 0))) w) (strays Ds N)"
    by (rule triple_conseq [OF triple_holds_new_temp [OF assms(1-4)]]) (auto intro: holds_strays)
  show "triple (\<lambda>w. (temp_in D d t \<and> N t = None) \<and> holds Ds (N(t := Some (File [] 0 0))) w)
    (bnd (attempt (body t)) (\<lambda>r. case r of Inr a \<Rightarrow> ret a | Inl e \<Rightarrow> bnd (attempt (remove_file t)) (\<lambda>_. throw e)))
    (\<lambda>_. Q) (strays Ds N)" for t
  proof (rule triple_pull, elim conjE)
    assume t: "temp_in D d t" "N t = None"
    have rm: "moves (touches Ds) (attempt (remove_file t))"
      by (rule tc.moves_attempt [OF touches_unlink [OF assms(2)]]) (use t in \<open>simp add: temp_in_def\<close>)
    show "triple (holds Ds (N(t := Some (File [] 0 0))))
      (bnd (attempt (body t)) (\<lambda>r. case r of Inr a \<Rightarrow> ret a | Inl e \<Rightarrow> bnd (attempt (remove_file t)) (\<lambda>_. throw e)))
      (\<lambda>_. Q) (strays Ds N)"
      by (rule triple_try [OF assms(5) [OF t]])
        (auto intro: triple_ret triple_bnd [OF triple_strays [OF rm]] triple_throw)
  qed
qed

end
