(* ===== verification/Restore_Laws.thy ===== *)
theory Restore_Laws
  imports Restore Tree_Ops Codec_Laws
begin

text \<open>
  The tree a restore builds. A file is written under a temporary name, checked against the hash the
  manifest records and renamed; the tree below the staging directory then has exactly the planned files
  and otherwise directories only. Whatever fails, nothing outside the staging directory changes.
\<close>

section \<open>One file\<close>

text \<open>The hashing writer on a temporary file of a region, as a writer of the blob codec.\<close>

interpretation hashw: byte_writer "hash_put t"
    "\<lambda>b acc w. (acc = b \<and> D \<in> Ds \<and> in_region D t) \<and> holds Ds (N(t := Some (File b s n))) w" "strays Ds N"
  for t D Ds N s n
proof
  show "triple (\<lambda>w. (acc = b \<and> D \<in> Ds \<and> in_region D t) \<and> holds Ds (N(t := Some (File b s n))) w) (hash_put t c acc)
      (\<lambda>out w. (out = b @ c \<and> D \<in> Ds \<and> in_region D t) \<and> holds Ds (N(t := Some (File (b @ c) s n))) w)
      (strays Ds N)" for b c acc
  proof (rule triple_pull)
    assume t: "acc = b \<and> D \<in> Ds \<and> in_region D t"
    then show "triple (holds Ds (N(t := Some (File b s n)))) (hash_put t c acc)
        (\<lambda>out w. (out = b @ c \<and> D \<in> Ds \<and> in_region D t) \<and> holds Ds (N(t := Some (File (b @ c) s n))) w)
        (strays Ds N)"
      unfolding hash_put_def
      by (intro triple_bnd [OF triple_conseq [OF triple_holds_append [of D Ds t N b s n c],
          where Q' = "\<lambda>_. holds Ds (N(t := Some (File (b @ c) s n)))"]] triple_ret)
        (auto intro: strays_upd [OF roadsI] holds_strays)
  qed
  show "stable (\<lambda>w. (acc = b \<and> D \<in> Ds \<and> in_region D t) \<and> holds Ds (N(t := Some (File b s n))) w)" for acc b
    by (intro stable_conj stable_const stable_holds)
  show "strays Ds N w" if "(acc = b \<and> D \<in> Ds \<and> in_region D t) \<and> holds Ds (N(t := Some (File b s n))) w" for acc b w
    using that by (auto intro: strays_upd [OF roadsI] holds_strays)
qed

definition wrote :: "path set \<Rightarrow> path \<Rightarrow> (node \<Rightarrow> bool) \<Rightarrow> (path \<Rightarrow> node option) \<Rightarrow> world \<Rightarrow> bool" where
  "wrote Ds p C N w \<longleftrightarrow> (\<exists>M n. adds_dirs (butlast p) N M \<and> M p \<noteq> Some Dir \<and> is_file_node n \<and> C n
    \<and> holds Ds (M(p := Some n)) w)"

lemma wroteI:
  "adds_dirs (butlast p) N M \<Longrightarrow> M p \<noteq> Some Dir \<Longrightarrow> holds Ds (M(p := Some (File b s n))) w \<Longrightarrow> C (File b s n) \<Longrightarrow> wrote Ds p C N w"
  unfolding wrote_def by (rule exI [of _ M], rule exI [of _ "File b s n"]) simp

lemma wrote_trans: "adds_dirs (butlast p) N M \<Longrightarrow> wrote Ds p C M w \<Longrightarrow> wrote Ds p C N w"
  unfolding wrote_def using adds_dirs_trans by blast

lemma triple_write_file:
  assumes x: "temp_ok x" and D: "D \<in> Ds" and out: "prefix D (butlast out)" "good_path out" "out \<noteq> []"
  shows "triple (holds Ds N) (write_file_atomic_from_blob x bp out h cd timeout)
    (\<lambda>_. wrote Ds out (\<lambda>n. \<exists>b. n = File b 0 0 \<and> sha256_hex x b = h) N) (strays Ds N)"
proof -
  have d: "good_path (butlast out)" using out(2) by (simp add: good_path_def in_set_butlastD)
  then have rd: "in_region D (butlast out)" using out(1) by (simp add: in_region_def)
  have ro: "in_region D out" using out prefix_order.trans [OF out(1) prefixeq_butlast] by (simp add: in_region_def)
  have body: "triple (holds Ds (M(t := Some (File [] 0 0))))
      (bnd (copy_blob_plaintext_to_writer x cd bp (hash_put t) timeout []) (\<lambda>r.
        if sha256_hex x (snd r) \<noteq> h then throw e else persist t out))
      (\<lambda>_. wrote Ds out (\<lambda>n. \<exists>b. n = File b 0 0 \<and> sha256_hex x b = h) N) (strays Ds M)"
    if M: "adds_dirs (butlast out) N M" and t: "temp_in D (butlast out) t" "M t = None" for M t e
  proof -
    have rt: "in_region D t" using t(1) by (simp add: temp_in_def)
    have sm: "strays Ds M w" if "holds Ds (M(t := Some k)) w" for w k
      using that by (auto intro: strays_upd [OF roadsI [OF D rt]] holds_strays)
    have copy: "triple (\<lambda>w. (([] :: bytes) = [] \<and> D \<in> Ds \<and> in_region D t) \<and> holds Ds (M(t := Some (File [] 0 0))) w)
        (copy_blob_plaintext_to_writer x cd bp (hash_put t) timeout [])
        (\<lambda>r w. \<exists>raw pt. True \<and> decode_blob x (cd_cipher cd) raw = Some pt
          \<and> (snd r = [] @ pt \<and> D \<in> Ds \<and> in_region D t) \<and> holds Ds (M(t := Some (File ([] @ pt) 0 0))) w) (strays Ds M)"
      by (rule hashw.copy_blob) simp
    show ?thesis
    proof (rule triple_bnd [OF triple_conseq [OF copy, where Q' = "\<lambda>r. holds Ds (M(t := Some (File (snd r) 0 0)))"]])
      fix r :: "nat \<times> bytes"
      show "triple (holds Ds (M(t := Some (File (snd r) 0 0)))) (if sha256_hex x (snd r) \<noteq> h then throw e else persist t out)
        (\<lambda>_. wrote Ds out (\<lambda>n. \<exists>b. n = File b 0 0 \<and> sha256_hex x b = h) N) (strays Ds M)"
      proof (rule triple_if)
        assume "\<not> sha256_hex x (snd r) \<noteq> h"
        with M show "triple (holds Ds (M(t := Some (File (snd r) 0 0)))) (persist t out)
            (\<lambda>_. wrote Ds out (\<lambda>n. \<exists>b. n = File b 0 0 \<and> sha256_hex x b = h) N) (strays Ds M)"
          by (intro triple_conseq [OF triple_holds_persist [where N = M, OF D rt ro t(2)]])
            (auto intro: sm wroteI)
      qed (auto intro: triple_throw sm)
    qed (use D rt in auto)
  qed
  have tn: "temp_namer_ok (x_temp x)" using x by (simp add: temp_ok_def)
  have rest: "triple (holds Ds M) (with_temp (x_temp x) (butlast out) (\<lambda>t.
        bnd (copy_blob_plaintext_to_writer x cd bp (hash_put t) timeout []) (\<lambda>r.
          if sha256_hex x (snd r) \<noteq> h then throw e else persist t out)))
      (\<lambda>_. wrote Ds out (\<lambda>n. \<exists>b. n = File b 0 0 \<and> sha256_hex x b = h) N) (strays Ds N)"
    if M: "adds_dirs (butlast out) N M" for M e
    by (rule triple_conseq [OF triple_holds_with_temp [OF tn D out(1) d body [OF M]]])
      (auto intro: strays_adds [OF D rd M])
  show ?thesis
    unfolding write_file_atomic_from_blob_def using out(3)
    by (simp add: parent_of_def)
      (rule triple_bnd [OF triple_holds_create_dir_all [OF D rd] triple_after_makes_dir [OF rest]])
qed

text \<open>A planned file as it should be found: its content by hash, and its modification time when one is recorded.\<close>

fun planned_node :: "ext \<Rightarrow> planned_file \<Rightarrow> node \<Rightarrow> bool" where
  "planned_node x pf (File b s n) \<longleftrightarrow> sha256_hex x b = pf_expected_sha256 pf
    \<and> (pf_mtime_unix pf \<le> 0 \<or> s = pf_mtime_unix pf \<and> n = pf_mtime_nanos pf)"
| "planned_node x pf _ \<longleftrightarrow> False"

lemma triple_from_wrote:
  assumes "\<And>M b s n. adds_dirs (butlast p) N M \<Longrightarrow> M p \<noteq> Some Dir \<Longrightarrow> C (File b s n) \<Longrightarrow>
    triple (holds Ds (M(p := Some (File b s n)))) m Q E"
  shows "triple (wrote Ds p C N) m Q E"
proof -
  have "triple (\<lambda>w. \<exists>M k. (adds_dirs (butlast p) N M \<and> M p \<noteq> Some Dir \<and> is_file_node k \<and> C k) \<and> holds Ds (M(p := Some k)) w) m Q E"
  proof (intro triple_some triple_pull, elim conjE)
    fix M k assume "adds_dirs (butlast p) N M" "M p \<noteq> Some Dir" "is_file_node k" "C k"
    then show "triple (holds Ds (M(p := Some k))) m Q E" using assms by (cases k) auto
  qed
  then show ?thesis by (rule triple_pre) (auto simp: wrote_def)
qed

lemma triple_build_file:
  assumes x: "temp_ok x" and D: "D \<in> Ds" "good_path D" and rel: "validate_relative_path (pf_rel_path pf) = Inr ()"
  shows "triple (holds Ds N) (build_file x D cd timeout pf r)
    (\<lambda>_. wrote Ds (join_rel D (pf_rel_path pf)) (planned_node x pf) N) (strays Ds N)"
proof -
  let ?out = "join_rel D (pf_rel_path pf)"
  have out: "prefix D (butlast ?out)" "good_path ?out" "?out \<noteq> []"
    using valid_rel_names [OF rel] D(2) by (auto simp: butlast_append good_path_def)
  have ro: "in_region D ?out" using out prefix_order.trans [OF out(1) prefixeq_butlast] by (simp add: in_region_def)
  have rd: "in_region D (butlast ?out)" by (rule in_region_prefix [OF ro prefixeq_butlast])
  have mtime: "triple (wrote Ds ?out (\<lambda>n. \<exists>b. n = File b 0 0 \<and> sha256_hex x b = pf_expected_sha256 pf) M)
      (restore_mtime ?out (pf_mtime_unix pf) (pf_mtime_nanos pf)) (\<lambda>_. wrote Ds ?out (planned_node x pf) M) (strays Ds M)" for M
  proof (rule triple_from_wrote)
    fix L b s n assume L: "adds_dirs (butlast ?out) M L" "L ?out \<noteq> Some Dir"
      and c: "\<exists>c. File b s n = File c 0 0 \<and> sha256_hex x c = pf_expected_sha256 pf"
    have "strays Ds M w" if "holds Ds (L(?out := Some (File b s n))) w" for w
      using that by (auto intro: strays_adds [OF D(1) rd L(1)] strays_upd [OF roadsI [OF D(1) ro]] holds_strays)
    moreover have "triple (holds Ds (L(?out := Some (File b s n)))) (set_file_mtime ?out (pf_mtime_unix pf) (pf_mtime_nanos pf))
        (\<lambda>_. holds Ds (L(?out := Some (File b s n), ?out := Some (File b (pf_mtime_unix pf) (pf_mtime_nanos pf)))))
        (holds Ds (L(?out := Some (File b s n))))"
      by (rule triple_holds_set_mtime [OF D(1) ro]) simp
    ultimately show "triple (holds Ds (L(?out := Some (File b s n)))) (restore_mtime ?out (pf_mtime_unix pf) (pf_mtime_nanos pf))
        (\<lambda>_. wrote Ds ?out (planned_node x pf) M) (strays Ds M)"
      unfolding restore_mtime_def using L c
      by (intro triple_if triple_ret) (auto elim!: triple_conseq intro: wroteI)
  qed
  have wr: "triple (holds Ds M) (bnd (write_file_atomic_from_blob x (pf_blob_path pf) ?out (pf_expected_sha256 pf) cd timeout) (\<lambda>_.
      bnd (restore_mtime ?out (pf_mtime_unix pf) (pf_mtime_nanos pf)) (\<lambda>_. ret r1)))
      (\<lambda>_. wrote Ds ?out (planned_node x pf) M) (strays Ds M)" for M r1
    by (intro triple_bnd [OF triple_write_file [OF x D(1) out]] triple_bnd [OF mtime] triple_ret)
  have "triple (holds Ds M) (bnd (write_file_atomic_from_blob x (pf_blob_path pf) ?out (pf_expected_sha256 pf) cd timeout) (\<lambda>_.
      bnd (restore_mtime ?out (pf_mtime_unix pf) (pf_mtime_nanos pf)) (\<lambda>_. ret r1)))
      (\<lambda>_. wrote Ds ?out (planned_node x pf) N) (strays Ds N)" if "adds_dirs (butlast ?out) N M" for M r1
    by (rule triple_conseq [OF wr [of M]]) (auto intro: wrote_trans [OF that] strays_adds [OF D(1) rd that])
  then show ?thesis
    unfolding build_file_def Let_def using out(3)
    by (simp add: parent_of_def) (intro triple_bnd [OF triple_holds_create_dir_all [OF D(1) rd]] triple_after_makes_dir)
qed

section \<open>The staged tree\<close>

text \<open>
  What a tree should contain: a condition for each file. Below \<open>D\<close> there is a file where one is expected,
  it satisfies its condition, and everything else is a directory.
\<close>

type_synonym tree_spec = "path \<Rightarrow> (node \<Rightarrow> bool) option"

definition tree_ok :: "path \<Rightarrow> tree_spec \<Rightarrow> path set \<Rightarrow> (path \<Rightarrow> node option) \<Rightarrow> bool" where
  "tree_ok D S dirs N \<longleftrightarrow> N D = Some Dir \<and> (\<forall>p \<in> dirs. N p = Some Dir)
    \<and> (\<forall>p. S p \<noteq> None \<longrightarrow> N p \<noteq> None)
    \<and> (\<forall>p n. prefix D p \<longrightarrow> N p = Some n \<longrightarrow> (case S p of None \<Rightarrow> n = Dir | Some C \<Rightarrow> is_file_node n \<and> C n))"

definition staged :: "path set \<Rightarrow> path \<Rightarrow> tree_spec \<Rightarrow> path set \<Rightarrow> (path \<Rightarrow> node option) \<Rightarrow> world \<Rightarrow> bool" where
  "staged Ds D S dirs N0 w \<longleftrightarrow> (\<exists>N. (tree_ok D S dirs N \<and> (\<forall>p. p \<notin> roads Ds \<longrightarrow> N p = N0 p)) \<and> holds Ds N w)"

lemma staged_strays: "staged Ds D S dirs N0 w \<Longrightarrow> strays Ds N0 w"
  by (auto simp: staged_def holds_def strays_def)

lemma stable_staged [simp]: "stable (staged Ds D S dirs N0)"
  unfolding staged_def by (intro stable_ex stable_conj stable_const stable_holds)

lemma triple_from_staged:
  assumes "\<And>N. tree_ok D S dirs N \<Longrightarrow> (\<forall>p. p \<notin> roads Ds \<longrightarrow> N p = N0 p) \<Longrightarrow> triple (holds Ds N) m Q E"
  shows "triple (staged Ds D S dirs N0) m Q E"
  unfolding staged_def by (intro triple_some triple_pull, elim conjE) (rule assms)

lemma triple_staged_still:
  "moves still m \<Longrightarrow> triple (staged Ds D S dirs N0) m (\<lambda>_. staged Ds D S dirs N0) (strays Ds N0)"
  by (rule triple_conseq [OF triple_still [OF stable_staged]]) (auto intro: staged_strays)

lemma tree_ok_adds:
  assumes "tree_ok D S dirs N" and "adds_dirs p N M"
  shows "tree_ok D S dirs M"
proof -
  have M: "M q = N q \<or> N q = None \<and> M q = Some Dir" for q using assms(2) by (auto simp: adds_dirs_def)
  have "case S q of None \<Rightarrow> n = Dir | Some C \<Rightarrow> is_file_node n \<and> C n" if "prefix D q" and "M q = Some n" for q n
    using M [of q] that assms(1) by (cases "S q") (fastforce simp: tree_ok_def)+
  moreover have "M q = Some k" if "N q = Some k" for q k using M [of q] that by auto
  ultimately show ?thesis using assms(1) unfolding tree_ok_def by (metis not_None_eq)
qed

lemma tree_ok_file:
  assumes "tree_ok D S dirs N" and "N p \<noteq> Some Dir" and "is_file_node n" and "C n"
  shows "tree_ok D (S(p := Some C)) dirs (N(p := Some n))"
  using assms unfolding tree_ok_def by auto

lemma strays_outside: "strays Ds M w \<Longrightarrow> \<forall>p. p \<notin> roads Ds \<longrightarrow> M p = N p \<Longrightarrow> strays Ds N w"
  by (auto simp: strays_def)

lemma triple_staged_file:
  assumes x: "temp_ok x" and D: "D \<in> Ds" "good_path D" and rel: "validate_relative_path (pf_rel_path pf) = Inr ()"
  shows "triple (staged Ds D S dirs N0) (build_file x D cd timeout pf r)
    (\<lambda>_. staged Ds D (S(join_rel D (pf_rel_path pf) := Some (planned_node x pf))) dirs N0) (strays Ds N0)"
proof (rule triple_from_staged)
  let ?out = "join_rel D (pf_rel_path pf)"
  fix N assume N: "tree_ok D S dirs N" "\<forall>p. p \<notin> roads Ds \<longrightarrow> N p = N0 p"
  have ro: "in_region D ?out" using valid_rel_names [OF rel] D(2) by (auto simp: in_region_def good_path_def)
  show "triple (holds Ds N) (build_file x D cd timeout pf r)
    (\<lambda>_. staged Ds D (S(?out := Some (planned_node x pf))) dirs N0) (strays Ds N0)"
  proof (rule triple_conseq [OF triple_build_file [OF x D rel, where N = N]])
    fix w assume "wrote Ds ?out (planned_node x pf) N w"
    then obtain M n where M: "adds_dirs (butlast ?out) N M" "M ?out \<noteq> Some Dir" and n: "is_file_node n" "planned_node x pf n"
      and w: "holds Ds (M(?out := Some n)) w" by (auto simp: wrote_def)
    have "(M(?out := Some n)) p = N0 p" if p: "p \<notin> roads Ds" for p
    proof -
      have "p \<noteq> ?out" and "\<not> prefix p (butlast ?out)"
        using p roadsI [OF D(1) ro] roadsI [OF D(1) in_region_prefix [OF ro]] prefix_order.trans [OF _ prefixeq_butlast] by blast+
      with M(1) N(2) p show ?thesis unfolding adds_dirs_def by (metis fun_upd_other)
    qed
    with tree_ok_file [where C = "planned_node x pf", OF tree_ok_adds [OF N(1) M(1)] M(2) n] w
    show "staged Ds D (S(?out := Some (planned_node x pf))) dirs N0 w"
      unfolding staged_def by (intro exI [of _ "M(?out := Some n)"]) auto
  qed (use N(2) in \<open>auto intro: strays_outside\<close>)
qed

definition plan_spec :: "ext \<Rightarrow> path \<Rightarrow> planned_file list \<Rightarrow> tree_spec \<Rightarrow> tree_spec" where
  "plan_spec x D pfs S = fold (\<lambda>pf S. S(join_rel D (pf_rel_path pf) := Some (planned_node x pf))) pfs S"

lemma triple_staged_files:
  assumes x: "temp_ok x" and D: "D \<in> Ds" "good_path D"
    and rel: "\<And>pf. pf \<in> set pfs \<Longrightarrow> validate_relative_path (pf_rel_path pf) = Inr ()"
  shows "triple (staged Ds D S dirs N0) (fold_act (build_file x D cd timeout) pfs r)
    (\<lambda>_. staged Ds D (plan_spec x D pfs S) dirs N0) (strays Ds N0)"
  using rel
proof (induction pfs arbitrary: S r)
  case Nil
  show ?case by (auto simp: plan_spec_def intro: triple_ret)
next
  case (Cons pf pfs)
  have step: "triple (staged Ds D (S(join_rel D (pf_rel_path pf) := Some (planned_node x pf))) dirs N0)
      (fold_act (build_file x D cd timeout) pfs r')
      (\<lambda>_. staged Ds D (plan_spec x D (pf # pfs) S) dirs N0) (strays Ds N0)" for r'
    using Cons.IH [of "S(join_rel D (pf_rel_path pf) := Some (planned_node x pf))" r'] Cons.prems
    by (simp add: plan_spec_def fun_upd_def)
  show ?case
    by (simp, rule triple_bnd [OF triple_staged_file [OF x D]]) (auto intro: Cons.prems step)
qed

lemma path_exists_true:
  assumes "D \<in> Ds" and "in_region D p" and "tames Ds (fs w)" and "path_exists p w = (Ok True, v)"
  shows "node_at (fs w) p \<noteq> None"
proof -
  from assms(4) have "present (fs w) p"
    by (auto simp: path_exists_def probe_def split: prod.splits if_splits dest: next_event_fs)
  moreover have "straight (fs w) p" by (rule tames_straight [OF assms(3,1,2)])
  ultimately show ?thesis using stat_plain_iff [of "fs w" p]
    by (auto simp: present_def straight_def split: sum.splits)
qed

definition entry_dirs :: "path \<Rightarrow> manifest_entry list \<Rightarrow> path set" where
  "entry_dirs D es = {join_rel D (me_rel_path e) |e. e \<in> set es \<and> me_kind e = DirEntry}"

lemma staged_insert_dir:
  assumes "tree_ok D Map.empty dirs N" and "\<forall>q. q \<notin> roads Ds \<longrightarrow> N q = N0 q" and "D \<in> Ds" and "in_region D p"
    and "adds_dirs p N M" and "M p = Some Dir" and "holds Ds M w"
  shows "staged Ds D Map.empty (insert p dirs) N0 w"
proof -
  have "M q = N0 q" if "q \<notin> roads Ds" for q
    using that assms(2,5) roadsI [OF assms(3) in_region_prefix [OF assms(4), of q]] unfolding adds_dirs_def by metis
  moreover have "tree_ok D Map.empty (insert p dirs) M"
    using tree_ok_adds [OF assms(1,5)] assms(6) by (simp add: tree_ok_def)
  ultimately show ?thesis using assms(7) unfolding staged_def by blast
qed

lemma triple_staged_dir:
  assumes D: "D \<in> Ds" "good_path D" and rel: "validate_relative_path (me_rel_path e) = Inr ()"
  shows "triple (staged Ds D Map.empty dirs N0) (build_dir D e r)
    (\<lambda>_. staged Ds D Map.empty (dirs \<union> entry_dirs D [e]) N0) (strays Ds N0)"
proof (cases "me_kind e = DirEntry")
  case False
  then show ?thesis by (auto simp: build_dir_def entry_dirs_def intro: triple_ret)
next
  case True
  let ?p = "join_rel D (me_rel_path e)"
  have rp: "in_region D ?p" using valid_rel_names [OF rel] D(2) by (auto simp: in_region_def good_path_def)
  have ed: "dirs \<union> entry_dirs D [e] = insert ?p dirs" using True by (auto simp: entry_dirs_def)
  show ?thesis
    unfolding ed
  proof (rule triple_from_staged)
    fix N assume N: "tree_ok D Map.empty dirs N" "\<forall>q. q \<notin> roads Ds \<longrightarrow> N q = N0 q"
    have st: "strays Ds N w \<Longrightarrow> strays Ds N0 w" for w using N(2) by (rule strays_outside [rotated])
    have ex: "triple (holds Ds N) (path_exists ?p) (\<lambda>ex w. (ex \<longrightarrow> N ?p = Some Dir) \<and> holds Ds N w) (strays Ds N0)"
    proof (rule tripleI)
      fix w ex v assume w: "holds Ds N w" and e: "path_exists ?p w = (Ok ex, v)"
      have "N ?p = Some Dir" if ex
      proof -
        have "node_at (fs w) ?p \<noteq> None" using path_exists_true [OF D(1) rp, of w v] w e that by (simp add: holds_def)
        moreover have "prefix D ?p" using valid_rel_names(1) [OF rel] by simp
        ultimately show ?thesis using w N(1) by (auto simp: tree_ok_def holds_def)
      qed
      with movesD [OF moves_still_prims(1) e] w stable_holds show "(ex \<longrightarrow> N ?p = Some Dir) \<and> holds Ds N v"
        by (auto simp: stable_def)
    qed (use movesD [OF moves_still_prims(1)] stableD [OF stable_holds] holds_strays st in blast)+
    have ins: "staged Ds D Map.empty (insert ?p dirs) N0 w" if "adds_dirs ?p N M" "M ?p = Some Dir" "holds Ds M w" for M w
      by (rule staged_insert_dir [OF N D(1) rp that])
    show "triple (holds Ds N) (build_dir D e r) (\<lambda>_. staged Ds D Map.empty (insert ?p dirs) N0) (strays Ds N0)"
      unfolding build_dir_def Let_def using True
      by (simp, intro triple_bnd [OF ex] triple_pull triple_if
          triple_bnd [OF triple_conseq [OF triple_holds_create_dir_all [OF D(1) rp, of N]]] triple_ret)
        (auto simp: makes_dir_def intro: ins [OF adds_dirs_refl] ins st)
  qed
qed

lemma triple_staged_dirs:
  assumes D: "D \<in> Ds" "good_path D" and rel: "\<And>e. e \<in> set es \<Longrightarrow> validate_relative_path (me_rel_path e) = Inr ()"
  shows "triple (staged Ds D Map.empty dirs N0) (fold_act (build_dir D) es r)
    (\<lambda>_. staged Ds D Map.empty (dirs \<union> entry_dirs D es) N0) (strays Ds N0)"
  using rel
proof (induction es arbitrary: dirs r)
  case Nil
  show ?case by (auto simp: entry_dirs_def intro: triple_ret)
next
  case (Cons e es)
  have "dirs \<union> entry_dirs D [e] \<union> entry_dirs D es = dirs \<union> entry_dirs D (e # es)" by (auto simp: entry_dirs_def)
  with Cons.IH [of "dirs \<union> entry_dirs D [e]"] Cons.prems
  have "triple (staged Ds D Map.empty (dirs \<union> entry_dirs D [e]) N0) (fold_act (build_dir D) es r')
      (\<lambda>_. staged Ds D Map.empty (dirs \<union> entry_dirs D (e # es)) N0) (strays Ds N0)" for r' by simp
  then show ?case
    by (simp, intro triple_bnd [OF triple_staged_dir [OF D]]) (auto intro: Cons.prems)
qed

lemma triple_build_restore_tree:
  assumes x: "temp_ok x" and D: "D \<in> Ds" "good_path D" and new: "\<And>s. N0 (D @ s) = None"
    and m: "\<And>e. e \<in> set (bt_values (mf_entries m)) \<Longrightarrow> validate_relative_path (me_rel_path e) = Inr ()"
    and rel: "\<And>pf. pf \<in> set pfs \<Longrightarrow> validate_relative_path (pf_rel_path pf) = Inr ()"
  shows "triple (holds Ds N0) (build_restore_tree x D m pfs cd timeout)
    (\<lambda>_. staged Ds D (plan_spec x D pfs Map.empty) (entry_dirs D (bt_values (mf_entries m))) N0) (strays Ds N0)"
proof -
  have rd: "in_region D D" using D(2) by (simp add: in_region_def)
  have made: "staged Ds D Map.empty {} N0 w" if "makes_dir Ds D N0 w" for w
  proof -
    from that obtain M where M: "adds_dirs D N0 M" "M D = Some Dir" "holds Ds M w" by (auto simp: makes_dir_def)
    have "n = Dir" if "prefix D p" "M p = Some n" for p n
      using that M(1) new unfolding adds_dirs_def prefix_def by (metis option.distinct(1) option.inject)
    then have "tree_ok D Map.empty {} M" using M(2) by (simp add: tree_ok_def)
    moreover have "\<forall>p. p \<notin> roads Ds \<longrightarrow> M p = N0 p"
      using M(1) roadsI [OF D(1) in_region_prefix [OF rd]] unfolding adds_dirs_def by metis
    ultimately show ?thesis using M(3) unfolding staged_def by blast
  qed
  show ?thesis
    unfolding build_restore_tree_def
    using triple_staged_dirs [OF D m, of "bt_values (mf_entries m)" "{}" N0] triple_staged_files [OF x D rel, of pfs]
    by (intro triple_bnd [OF triple_conseq [OF triple_holds_create_dir_all [OF D(1) rd]],
          where Q = "\<lambda>_. staged Ds D Map.empty {} N0"] triple_bnd) (auto intro: made)
qed

section \<open>Reading a version\<close>

lemma moves_still_free_space: "moves still (free_space x d)"
  by (rule movesI) (auto simp: free_space_def still_def split: sum.splits)

lemma moves_still_ensure_restore_free_space: "moves still (ensure_restore_free_space x cfg d n)"
  unfolding ensure_restore_free_space_def
  by (intro still_all_intros moves_still_free_space)

lemma moves_still_plan_entry: "moves still (plan_entry x br rel e st)"
  unfolding plan_entry_def by (auto split: prod.splits option.splits intro!: still_intros)

lemma moves_still_preflight: "moves still (preflight_restore x cfg m br d)"
  unfolding preflight_restore_def
  by (intro still_intros moves_still_ensure_restore_free_space moves_still_plan_entry)
    (auto split: prod.splits intro!: still_intros moves_still_ensure_restore_free_space)

lemma moves_still_read_manifest: "moves still (read_manifest x p)"
  unfolding read_manifest_def by (intro still_all_intros)

lemma moves_still_load_manifest: "moves still (load_manifest_for_request x cfg src vid)"
  unfolding load_manifest_for_request_def by (intro still_intros moves_still_read_manifest)

lemma moves_still_codec: "moves still (codec_from_config x cfg)"
  unfolding codec_from_config_def cipher_from_config_def
  by (intro still_all_intros moves_still_load_key_file)

lemma moves_still_lease_policy: "moves still (lease_policy x cfg)"
  unfolding lease_policy_def by (intro still_intros)

lemma moves_still_restore_token: "moves still (restore_token x)"
  unfolding restore_token_def by (intro still_intros)

lemma moves_still_walk_dir: "moves still (walk_dir x p)"
  by (rule movesI) (auto simp: walk_dir_def still_def)

lemma moves_still_count_extraneous: "moves still (count_extraneous_files x p m)"
  unfolding count_extraneous_files_def
  by (intro still_intros moves_still_walk_dir)
    (auto simp: count_item_def Let_def split: walk_item.splits intro!: still_intros)

lemma read_manifest_value:
  assumes "read_manifest x p w = (Ok m, v)"
  shows "\<exists>raw. read_file p w = (Ok raw, v) \<and> parse_manifest x raw = Some m \<and> validate_manifest m = Inr ()"
  using assms unfolding read_manifest_def
  by (elim bnd_OkE) (auto simp: throw_def ret_Ok_iff lift_Ok_iff split: option.splits elim!: bnd_OkE)

lemma valid_manifest_entries:
  assumes "validate_manifest m = Inr ()" and "e \<in> set (bt_values (mf_entries m))"
  shows "validate_relative_path (me_rel_path e) = Inr ()"
  using assms by (auto simp: validate_manifest_def rfold_unit_Inr bt_values_def validate_entry_def rbind_eq_Inr)

text \<open>The plan is the list of the manifest's files, in order.\<close>

definition planned_entry :: "ext \<Rightarrow> path \<Rightarrow> manifest_entry \<Rightarrow> planned_file" where
  "planned_entry x br e = \<lparr>pf_rel_path = me_rel_path e, pf_blob_path = blob_path x br (the (me_sha256 e)),
    pf_expected_sha256 = the (me_sha256 e), pf_mtime_unix = me_mtime_unix e, pf_mtime_nanos = me_mtime_nanos e\<rparr>"

definition file_entries :: "manifest \<Rightarrow> manifest_entry list" where
  "file_entries m = filter (\<lambda>e. me_kind e = FileEntry) (bt_values (mf_entries m))"

lemma plan_entries_value:
  assumes "fold_act (\<lambda>e st. if me_kind e \<noteq> FileEntry then ret st else plan_entry x br (me_rel_path e) e st) es (miss, pl, n) w
    = (Ok ([], pl', n'), v)"
  shows "miss = [] \<and> pl' = pl @ map (planned_entry x br) (filter (\<lambda>e. me_kind e = FileEntry) es)
    \<and> (\<forall>e \<in> set es. me_kind e = FileEntry \<longrightarrow> me_sha256 e \<noteq> None)"
  using assms
proof (induction es arbitrary: miss pl n w)
  case (Cons e es)
  from Cons.prems obtain st u where
    s: "(if me_kind e \<noteq> FileEntry then ret (miss, pl, n) else plan_entry x br (me_rel_path e) e (miss, pl, n)) w = (Ok st, u)"
    and r: "fold_act (\<lambda>e st. if me_kind e \<noteq> FileEntry then ret st else plan_entry x br (me_rel_path e) e st) es st u
      = (Ok ([], pl', n'), v)"
    by (auto elim: bnd_OkE)
  obtain miss1 pl1 n1 where st: "st = (miss1, pl1, n1)" by (cases st)
  from Cons.IH [OF r [unfolded st]] have ih: "miss1 = []"
    "pl' = pl1 @ map (planned_entry x br) (filter (\<lambda>e. me_kind e = FileEntry) es)"
    "\<forall>e \<in> set es. me_kind e = FileEntry \<longrightarrow> me_sha256 e \<noteq> None" by auto
  show ?case
  proof (cases "me_kind e = FileEntry")
    case True
    with s st ih(1) obtain h where "me_sha256 e = Some h" "miss = []" "pl1 = pl @ [planned_entry x br e]"
      by (auto simp: plan_entry_def planned_entry_def ret_def split: option.splits if_splits elim!: bnd_OkE)
    with ih True show ?thesis by auto
  qed (use s st ih in \<open>auto simp: ret_def\<close>)
qed (auto simp: ret_def)

lemma preflight_value:
  assumes "preflight_restore x cfg m br d w = (Ok plan, v)"
  shows "fst plan = map (planned_entry x br) (file_entries m) \<and> (\<forall>e \<in> set (file_entries m). me_sha256 e \<noteq> None)"
proof -
  from assms obtain miss pl n u where
    f: "fold_act (\<lambda>e st. if me_kind e \<noteq> FileEntry then ret st else plan_entry x br (me_rel_path e) e st)
      (bt_values (mf_entries m)) ([], [], 0) w = (Ok (miss, pl, n), u)" and miss: "miss = []" and "fst plan = pl"
    unfolding preflight_restore_def
    by (auto simp: throw_def ret_def split: prod.splits if_splits elim!: bnd_OkE)
  with plan_entries_value [OF f [unfolded miss]] show ?thesis by (auto simp: file_entries_def)
qed

section \<open>The tree of a version\<close>

text \<open>
  A file of a version as it should be found; and the whole tree: the version's directories and files
  and nothing else. A manifest may name one path twice (\<open>a/b\<close> and \<open>a//b\<close> are both accepted); then the
  file is what one of those entries records.
\<close>

definition entry_node :: "ext \<Rightarrow> manifest_entry \<Rightarrow> node \<Rightarrow> bool" where
  "entry_node x e k \<longleftrightarrow> (\<exists>b s n. k = File b s n \<and> me_sha256 e = Some (sha256_hex x b)
    \<and> (me_mtime_unix e \<le> 0 \<or> s = me_mtime_unix e \<and> n = me_mtime_nanos e))"

definition version_tree :: "ext \<Rightarrow> manifest \<Rightarrow> path \<Rightarrow> (path \<Rightarrow> node option) \<Rightarrow> bool" where
  "version_tree x m D N \<longleftrightarrow> N D = Some Dir
    \<and> (\<forall>e \<in> set (bt_values (mf_entries m)). me_kind e = DirEntry \<longrightarrow> N (join_rel D (me_rel_path e)) = Some Dir)
    \<and> (\<forall>e \<in> set (file_entries m). N (join_rel D (me_rel_path e)) \<noteq> None)
    \<and> (\<forall>p n. prefix D p \<and> N p = Some n \<longrightarrow> n = Dir
        \<or> (\<exists>e \<in> set (file_entries m). p = join_rel D (me_rel_path e) \<and> entry_node x e n))
    \<and> (\<forall>e \<in> set (file_entries m). N (join_rel D (me_rel_path e)) \<noteq> Some Dir)"

lemma plan_spec_Some:
  "plan_spec x D pfs S p = Some C \<Longrightarrow> S p = Some C \<or> (\<exists>pf \<in> set pfs. p = join_rel D (pf_rel_path pf) \<and> C = planned_node x pf)"
  by (induction pfs arbitrary: S) (fastforce simp: plan_spec_def split: if_splits)+

lemma plan_spec_has:
  "pf \<in> set pfs \<or> S (join_rel D (pf_rel_path pf)) \<noteq> None \<Longrightarrow> plan_spec x D pfs S (join_rel D (pf_rel_path pf)) \<noteq> None"
  by (induction pfs arbitrary: S) (fastforce simp: plan_spec_def split: if_splits)+

lemma planned_entry_node: "me_sha256 e \<noteq> None \<Longrightarrow> planned_node x (planned_entry x br e) n \<Longrightarrow> entry_node x e n"
  by (cases n) (auto simp: planned_entry_def entry_node_def)

lemma version_tree_staged:
  assumes t: "tree_ok D (plan_spec x D (map (planned_entry x br) (file_entries m)) Map.empty) (entry_dirs D (bt_values (mf_entries m))) N"
    and m: "validate_manifest m = Inr ()" and sha: "\<forall>e \<in> set (file_entries m). me_sha256 e \<noteq> None"
    and same: "\<And>s. M (T @ s) = N (D @ s)"
  shows "version_tree x m T M"
proof -
  let ?S = "plan_spec x D (map (planned_entry x br) (file_entries m)) Map.empty"
  have valid: "validate_relative_path (me_rel_path e) = Inr ()" if "e \<in> set (bt_values (mf_entries m))" for e
    using valid_manifest_entries [OF m that] .
  have fe: "e \<in> set (bt_values (mf_entries m))" if "e \<in> set (file_entries m)" for e using that by (simp add: file_entries_def)
  have at: "M (join_rel T (me_rel_path e)) = N (join_rel D (me_rel_path e))" if "e \<in> set (bt_values (mf_entries m))" for e
    using valid_rel_names(1) [OF valid [OF that]] same by simp
  have spec: "?S (join_rel D (me_rel_path e)) \<noteq> None" if "e \<in> set (file_entries m)" for e
    using plan_spec_has [of "planned_entry x br e"] that by (simp add: planned_entry_def)
  have node: "case ?S p of None \<Rightarrow> n = Dir | Some C \<Rightarrow> is_file_node n \<and> C n" if "prefix D p" "N p = Some n" for p n
    using t that by (simp add: tree_ok_def)
  have "n = Dir \<or> (\<exists>e \<in> set (file_entries m). p = join_rel T (me_rel_path e) \<and> entry_node x e n)"
    if "prefix T p" and n: "M p = Some n" for p n
  proof -
    from that obtain s where s: "p = T @ s" by (auto simp: prefix_def)
    with node [of "D @ s" n] n same [of s] consider "n = Dir" | C where "?S (D @ s) = Some C" "C n"
      by (auto split: option.splits)
    then show ?thesis
    proof cases
      case (2 C)
      then obtain e where e: "e \<in> set (file_entries m)" "D @ s = join_rel D (me_rel_path e)" "planned_node x (planned_entry x br e) n"
        using plan_spec_Some [OF 2(1)] by (auto simp: planned_entry_def)
      then have "p = join_rel T (me_rel_path e)" using valid_rel_names(1) [OF valid [OF fe [OF e(1)]]] s by simp
      with e planned_entry_node [OF _ e(3)] sha show ?thesis by blast
    qed simp
  qed
  moreover have "M (join_rel T (me_rel_path e)) \<noteq> None \<and> M (join_rel T (me_rel_path e)) \<noteq> Some Dir" if e: "e \<in> set (file_entries m)" for e
  proof -
    have "prefix D (join_rel D (me_rel_path e))" using valid_rel_names(1) [OF valid [OF fe [OF e]]] by simp
    moreover have "N (join_rel D (me_rel_path e)) \<noteq> None" using t spec [OF e] by (simp add: tree_ok_def)
    ultimately show ?thesis using node [of "join_rel D (me_rel_path e)" Dir] spec [OF e] at [OF fe [OF e]] by auto
  qed
  moreover have "M (join_rel T (me_rel_path e)) = Some Dir" if "e \<in> set (bt_values (mf_entries m))" "me_kind e = DirEntry" for e
    using t at [OF that(1)] that by (auto simp: tree_ok_def entry_dirs_def)
  moreover have "M T = Some Dir" using t same [of "[]"] by (simp add: tree_ok_def)
  ultimately show ?thesis unfolding version_tree_def by blast
qed

end
