(* ===== verification/Lease_Laws.thy ===== *)
theory Lease_Laws
  imports Operation_Lock Tree_Ops
begin

text \<open>
  What taking a lease does to the file system: on a destination reached without symbolic links it
  creates at most the directories above the lock file and the lock file.
\<close>

lemma moves_still_lease_loop: "moves still (lease_loop pol started p)"
proof (rule movesI)
  fix w r v assume "lease_loop pol started p w = (r, v)"
  then show "still w v"
  proof (induction pol started p w rule: lease_loop.induct)
    case (1 pol started p w)
    obtain q u where t: "try_lock p w = (q, u)" by fastforce
    have u: "still w u" using movesD [OF moves_still_call, OF _ t [unfolded try_lock_def]] by simp
    show ?case
    proof (cases "\<exists>e. q = Err e \<and> e = Io WouldBlock \<and> \<not> bp_timeout pol \<le> now u - started")
      case True
      then obtain e where e: "q = Err e" "e = Io WouldBlock" "\<not> bp_timeout pol \<le> now u - started" by blast
      let ?z = "u\<lparr>now := now u + min (bp_timeout pol - (now u - started)) (max (bp_backoff_poll_interval pol) (millis 1))\<rparr>"
      from "1.prems" t e have "lease_loop pol started p ?z = (r, v)" by (simp add: lease_loop.simps [of pol started p w])
      with "1.IH" t e have "still ?z v" by auto
      with u show ?thesis by (auto simp: still_def intro: suffix_order.trans)
    next
      case False
      with "1.prems" t have "v = u"
        by (auto simp: lease_loop.simps [of pol started p w] split: outcome.splits if_splits)
      with u show ?thesis by simp
    qed
  qed
qed

lemma walk_parent:
  "plain F (d @ p) \<Longrightarrow> node_at F d = Some Dir \<Longrightarrow> walk F k d p = Inr q \<Longrightarrow> p \<noteq> [] \<Longrightarrow> node_at F (d @ butlast p) = Some Dir"
proof (induction p arbitrary: d)
  case (Cons c p)
  then have c: "c \<noteq> ''..''" by (auto simp: plain_def)
  show ?case
  proof (cases "p = []")
    case False
    have "node_at F (d @ [c]) \<noteq> Some (Link t)" for t using Cons.prems(1) by (auto simp: plain_def)
    with Cons.prems(3) c False have d: "node_at F (d @ [c]) = Some Dir" and w: "walk F k (d @ [c]) p = Inr q"
      by (auto split: option.splits node.splits)
    from Cons.IH [OF _ d w False] Cons.prems(1) False show ?thesis by simp
  qed (use Cons.prems in simp)
qed simp

lemma f_open_create_node:
  assumes "straight F p" and "f_open_create p F = Inr (a, G)"
  shows "fs_wf G \<and> (node_at F p = None \<and> node_at G = (node_at F)(p := Some (File [] 0 0)) \<or> node_at F p \<noteq> None \<and> G = F)"
proof -
  have pl: "plain F p" "fs_wf F" "good_path p" using assms(1) by (auto simp: straight_def)
  obtain q where q: "resolve F p = Inr q" using assms(2) by (auto simp: f_open_create_def split: sum.splits)
  have qp: "q = p" by (rule resolve_plain [OF pl(1) q])
  show ?thesis
  proof (cases "node_at F p")
    case None
    then have ne: "p \<noteq> []" by (auto simp: node_at_Nil_dir)
    have d: "node_at F (butlast p) = Some Dir"
      using walk_parent [of F "[]" p 40 q] pl(1) q ne by (simp add: resolve_def node_at_Nil_dir)
    have "plain F (butlast p)" using straight_parent [OF assms(1)] by (simp add: straight_def)
    from resolve_found [OF pl(2) this d] d ne plain_last [OF pl(1) ne] have "lresolve F p = Inr p"
      by (simp add: lresolve_def)
    then have "f_create_new p F = Inr ((), G)"
      using None assms(2) q qp by (auto simp: f_create_new_def f_open_create_def)
    from f_create_new_node [OF assms(1) this] None show ?thesis by auto
  next
    case (Some n)
    with assms(2) q qp pl show ?thesis by (cases n) (auto simp: f_open_create_def)
  qed
qed

lemma touches_open_create: "D \<in> Ds \<Longrightarrow> in_region D p \<Longrightarrow> moves (touches Ds) (call (f_open_create p))"
proof (rule moves_touches_call)
  fix F a G assume D: "D \<in> Ds" "in_region D p" and F: "tames Ds F" and G: "f_open_create p F = Inr (a, G)"
  from f_open_create_node [OF tames_straight [OF F D] G]
  show "tames Ds G \<and> (\<forall>q. q \<notin> roads Ds \<longrightarrow> node_at G q = node_at F q)"
    using F roadsI [OF D] tames_upd [OF F, of G p "Some (File [] 0 0)"] by auto
qed

lemma good_lock_names [simp]: "good_name STORE_DIR" "good_name OPERATION_LOCK_FILE"
  by (auto simp: good_name_def STORE_DIR_def OPERATION_LOCK_FILE_def)

lemma good_lock_path: "good_path d \<Longrightarrow> good_path (lock_path d)"
  by (simp add: good_path_def lock_path_def)

lemma touches_acquire_normalized:
  assumes "lock_path d \<in> Ds" and "good_path d"
  shows "moves (touches Ds) (acquire_normalized_store_lease x d pol)"
proof -
  have "in_region (lock_path d) (lock_path d)" using good_lock_path [OF assms(2)] by (simp add: in_region_def)
  moreover have "prefix (d @ [STORE_DIR]) (lock_path d)" by (simp add: lock_path_def)
  ultimately have r: "in_region (lock_path d) (lock_path d)" "in_region (lock_path d) (d @ [STORE_DIR])"
    using in_region_prefix by blast+
  show ?thesis
    unfolding acquire_normalized_store_lease_def Let_def
    by (intro tc.moves_bnd touches_create_dir_all [OF assms(1) r(2)]
        touches_open_create [OF assms(1) r(1), unfolded lock_path_def]
        tc.moves_still_step [OF moves_still_lease_loop] tc.moves_ret tc.moves_still_step [OF moves_still_get_now])
qed

lemma touches_acquire_store_lease:
  assumes "lock_path d \<in> Ds" and "good_path d"
  shows "moves (touches Ds) (acquire_store_lease x d pol)"
  unfolding acquire_store_lease_def
proof (rule moves_touches_bnd [OF tc.moves_still_step [OF moves_still_validate_destination]])
  fix w n v assume w: "tames Ds (fs w)" and v: "validate_and_normalize_destination d w = (Ok n, v)"
  have "''..'' \<notin> set d" using assms(2) by (auto simp: good_path_def good_name_def)
  then have "resolve (fs w) d = Inr n" using validate_destination_value(1) [OF v] by (simp add: lexically_normalize_id)
  moreover have "straight (fs w) d"
    by (rule straight_prefix [OF tames_straight [OF w assms(1)]])
      (use good_lock_path [OF assms(2)] in \<open>auto simp: in_region_def lock_path_def\<close>)
  ultimately have "n = d" using resolve_plain by (auto simp: straight_def)
  with touches_acquire_normalized [OF assms] show "moves (touches Ds) (acquire_normalized_store_lease x n pol)" by simp
qed

end
