(* ===== verification/Restore_Swap.thy ===== *)
theory Restore_Swap
  imports Restore Tree_Ops
begin

text \<open>
  Swapping a staged tree into place by renaming siblings, and removing the tree that was replaced. At
  every point the target is the old tree, the new tree, or absent with the old tree beside it.
\<close>

section \<open>Renaming siblings\<close>

definition unlinked :: "(path \<Rightarrow> node option) \<Rightarrow> path \<Rightarrow> bool" where
  "unlinked N p \<longleftrightarrow> good_path p \<and> (\<forall>q t. prefix q p \<longrightarrow> N q \<noteq> Some (Link t))"

definition siblings :: "path \<Rightarrow> path \<Rightarrow> bool" where
  "siblings p q \<longleftrightarrow> length p = length q \<and> p \<noteq> q"

lemma siblings_apart: "siblings p q \<Longrightarrow> \<not> prefix p (q @ s) \<and> \<not> prefix q (p @ s)"
  by (auto simp: siblings_def prefix_def)

lemma siblings_sym: "siblings p q \<Longrightarrow> siblings q p"
  by (auto simp: siblings_def)

lemma straight_unlinked: "fs_wf F \<Longrightarrow> unlinked (node_at F) p \<Longrightarrow> straight F p"
  by (auto simp: straight_def unlinked_def plain_def good_path_def good_name_def)

lemma unlinked_straight: "straight F p \<Longrightarrow> unlinked (node_at F) p"
  by (auto simp: straight_def unlinked_def plain_def)

lemma moved_at:
  assumes "siblings p q"
  shows "moved p q N (q @ s) = N (p @ s)" and "moved p q N (p @ s) = None"
  using siblings_apart [OF assms, of s] by (auto simp: moved_def)

lemma moved_other: "\<not> prefix p r \<Longrightarrow> \<not> prefix q r \<Longrightarrow> moved p q N r = N r"
  by (simp add: moved_def)

lemma moved_sibling: "siblings p r \<Longrightarrow> siblings q r \<Longrightarrow> moved p q N (r @ s) = N (r @ s)"
  using siblings_apart by (intro moved_other) blast+

lemma moved_back:
  assumes "siblings p q" and "\<And>s. N (q @ s) = None"
  shows "moved q p (moved p q N) = N"
proof
  fix r
  consider s where "r = p @ s" | s where "r = q @ s" | "\<not> prefix p r" "\<not> prefix q r" by (auto simp: prefix_def)
  then show "moved q p (moved p q N) r = N r"
    using moved_at [OF assms(1)] moved_at [OF siblings_sym [OF assms(1)]] assms(2)
    by cases (auto simp: moved_other)
qed

lemma unlinked_moved:
  assumes "siblings p q" and "unlinked N p" and "unlinked N r" and "length r = length p"
  shows "unlinked (moved p q N) r"
proof -
  have "moved p q N s \<noteq> Some (Link t)" if s: "prefix s r" for s t
  proof (cases "prefix p s \<or> prefix q s")
    case True
    with s assms(1,4) have "s = p \<or> s = q" by (auto simp: siblings_def prefix_def)
    moreover have "N p \<noteq> Some (Link t)" using assms(2) by (simp add: unlinked_def)
    ultimately show ?thesis using moved_at [OF assms(1), of N "[]"] by auto
  qed (use s assms(3) in \<open>auto simp: moved_other unlinked_def\<close>)
  with assms(3) show ?thesis by (auto simp: unlinked_def)
qed

lemma file_no_children: "fs_wf F \<Longrightarrow> node_at F p = Some n \<Longrightarrow> n \<noteq> Dir \<Longrightarrow> s \<noteq> [] \<Longrightarrow> node_at F (p @ s) = None"
  using fs_wf_prefix_dir [of F p s] by fastforce

lemma f_rename_sibling:
  assumes "siblings p q" and "straight F p" and "straight F q" and "f_rename p q F = Inr (a, G)"
  shows "node_at F p \<noteq> None \<and> fs_wf G \<and> node_at G = moved p q (node_at F)"
proof -
  have wf: "fs_wf F" and pl: "plain F p" using assms(2) by (auto simp: straight_def)
  obtain p' where p': "lresolve F p = Inr p'" using assms(4) by (auto simp: f_rename_def split: sum.splits)
  with lresolve_plain(1) [OF pl] assms(4) obtain n where n: "node_at F p = Some n"
    by (auto simp: f_rename_def split: sum.splits option.splits)
  show ?thesis
  proof (cases "n = Dir")
    case True
    with f_rename_dir_node [OF assms(2,3) _ _ assms(4)] n assms(1) show ?thesis by (auto simp: siblings_def)
  next
    case False
    from f_rename_file_node [OF assms(2,3) n False assms(4)]
    have G: "fs_wf G" "node_at G = (node_at F)(p := None, q := Some n)" and q: "node_at F q \<noteq> Some Dir" by auto
    have "node_at F (q @ s) = None" if "s \<noteq> []" for s
    proof (cases "node_at F q")
      case None
      then show ?thesis using fs_wf_prefix_dir [OF wf, of q s] that by (cases "node_at F (q @ s)") auto
    qed (use file_no_children [OF wf _ _ that] q in blast)
    moreover note file_no_children [OF wf n False]
    ultimately have below: "node_at F (q @ s) = None" "node_at F (p @ s) = None" if "s \<noteq> []" for s
      using that by blast+
    have "node_at G r = moved p q (node_at F) r" for r
    proof -
      consider s where "r = p @ s" | s where "r = q @ s" | "\<not> prefix p r" "\<not> prefix q r" by (auto simp: prefix_def)
      then show ?thesis
      proof cases
        case (1 s)
        then show ?thesis using G(2) assms(1) moved_at(2) [OF assms(1), of _ s] below(2) [of s]
          by (cases "s = []") (auto simp: siblings_def)
      next
        case (2 s)
        then show ?thesis using G(2) assms(1) n moved_at(1) [OF assms(1), of _ s] below [of s] siblings_apart [OF assms(1), of s]
          by (cases "s = []") auto
      qed (use G(2) in \<open>auto simp: moved_other\<close>)
    qed
    with G(1) n show ?thesis by auto
  qed
qed

lemma triple_rename_sibling:
  assumes "siblings p q" and "unlinked N p" and "unlinked N q"
  shows "triple (holds {} N) (rename p q) (\<lambda>_ w. N p \<noteq> None \<and> holds {} (moved p q N) w) (holds {} N)"
  unfolding rename_def
proof (rule triple_call)
  fix w a G and v :: world
  assume w: "holds {} N w" and G: "f_rename p q (fs w) = Inr (a, G)" and v: "fs v = G"
  then have "straight (fs w) p" "straight (fs w) q"
    using assms(2,3) by (auto simp: holds_def tames_def intro: straight_unlinked)
  from f_rename_sibling [OF assms(1) this G] w v show "N p \<noteq> None \<and> holds {} (moved p q N) v"
    by (auto simp: holds_def tames_def)
qed auto

section \<open>The swap\<close>

text \<open>
  The states a swap of \<open>A\<close> into \<open>T\<close> can leave, \<open>B\<close> being the name the old tree is moved to: nothing
  happened; the old tree is at \<open>B\<close> and the target absent; or the new tree is in place.
\<close>

definition swap_left :: "path \<Rightarrow> path \<Rightarrow> path \<Rightarrow> (path \<Rightarrow> node option) \<Rightarrow> (path \<Rightarrow> node option) set" where
  "swap_left A T B N = {N, moved T B N, moved A T N, moved A T (moved T B N)}"

definition swap_done :: "path \<Rightarrow> path \<Rightarrow> path \<Rightarrow> (path \<Rightarrow> node option) \<Rightarrow> (path \<Rightarrow> node option) set" where
  "swap_done A T B N = {moved A T N, moved A T (moved T B N)}"

definition among :: "(path \<Rightarrow> node option) set \<Rightarrow> world \<Rightarrow> bool" where
  "among Ns w \<longleftrightarrow> (\<exists>N \<in> Ns. holds {} N w)"

lemma stable_among [simp]: "stable (among Ns)"
  by (auto simp: among_def stable_def holds_def still_def)

lemma triple_among:
  assumes "\<And>N. N \<in> Ns \<Longrightarrow> triple (holds {} N) m Q E"
  shows "triple (among Ns) m Q E"
  by (rule tripleI) (use assms in \<open>auto simp: among_def dest: triple_Ok triple_Err triple_Halt\<close>)

lemma triple_among_still:
  "moves still m \<Longrightarrow> Ns \<subseteq> Ms \<Longrightarrow> triple (among Ns) m (\<lambda>_. among Ns) (among Ms)"
  by (rule triple_conseq [OF triple_still [OF stable_among [of Ns]]]) (auto simp: among_def)

lemma triple_swap:
  assumes AT: "siblings A T" and TB: "siblings T B" and AB: "siblings A B"
    and un: "unlinked N A" "unlinked N T" "unlinked N B" and free: "\<And>s. N (B @ s) = None"
    and B: "B = parent_or_cwd x T @ [prev_name token]"
  shows "triple (holds {} N) (swap_staged_tree_into_place x A T token)
    (\<lambda>r w. r \<in> {None, Some B} \<and> among (swap_done A T B N) w) (among (swap_left A T B N))"
proof -
  let ?L = "among (swap_left A T B N)" and ?D = "among (swap_done A T B N)"
  have len: "length A = length T" "length B = length T" using AT TB by (auto simp: siblings_def)
  have un1: "unlinked (moved T B N) A" "unlinked (moved T B N) T" "unlinked (moved T B N) B"
    using unlinked_moved [OF TB un(2)] un len by auto
  have aside: "triple (holds {} N) (if ex then rename T B else ret ()) (\<lambda>_. among {N, moved T B N}) ?L" for ex
    by (intro triple_if triple_ret triple_conseq [OF triple_rename_sibling [OF TB un(2,3)]])
      (auto simp: among_def swap_left_def)
  have place: "triple (among {N, moved T B N}) (rename A T) (\<lambda>_. ?D) (among {N, moved T B N})"
  proof (rule triple_among)
    fix M assume "M \<in> {N, moved T B N}"
    then have "unlinked M A" "unlinked M T" and "moved A T M \<in> swap_done A T B N" using un un1 by (auto simp: swap_done_def)
    with \<open>M \<in> _\<close> show "triple (holds {} M) (rename A T) (\<lambda>_. ?D) (among {N, moved T B N})"
      by (intro triple_conseq [OF triple_rename_sibling [OF AT]]) (auto simp: among_def)
  qed
  have undo: "triple (among {N, moved T B N}) (rename B T) (\<lambda>_. ?L) ?L"
  proof (rule triple_among)
    fix M assume "M \<in> {N, moved T B N}"
    then have M: "unlinked M B" "unlinked M T" "M \<in> swap_left A T B N" and "M B \<noteq> None \<Longrightarrow> moved B T M = N"
      using un un1 free [of "[]"] moved_back [of T B N, OF TB free] by (auto simp: swap_left_def)
    then show "triple (holds {} M) (rename B T) (\<lambda>_. ?L) ?L"
      by (intro triple_conseq [OF triple_rename_sibling [OF siblings_sym [OF TB]]])
        (auto simp: among_def swap_left_def)
  qed
  have sub: "{N, moved T B N} \<subseteq> swap_left A T B N" "swap_done A T B N \<subseteq> swap_left A T B N"
    by (auto simp: swap_left_def swap_done_def)
  have again: "triple (among {N, moved T B N}) (if c then bnd (attempt (rename B T)) (\<lambda>_. ret ()) else ret ()) (\<lambda>_. ?L) ?L" for c
    by (intro triple_if triple_ret triple_bnd [OF triple_attempt [OF undo]])
      (use sub(1) in \<open>auto simp: among_def split: sum.splits\<close>)
  have "triple (among {N, moved T B N}) (if b then m else n) (\<lambda>_. among {N, moved T B N}) ?L"
    if "moves still m" "moves still n" for b and m n :: "bool io"
    using that sub(1) by (auto intro: triple_among_still)
  note look = this [OF st.moves_ret moves_still_prims(1)]
  have broken: "triple (among {N, moved T B N}) (bnd (path_exists B) (\<lambda>b.
      bnd (if \<not> b then ret True else path_exists T) (\<lambda>t.
      bnd (if b \<and> \<not> t then bnd (attempt (rename B T)) (\<lambda>_. ret ()) else ret ()) (\<lambda>_. throw e)))) Q ?L"
    for e and Q :: "path option \<Rightarrow> world \<Rightarrow> bool"
    by (rule triple_bnd [OF triple_among_still [OF moves_still_prims(1) sub(1)]], rule triple_bnd [OF look],
        rule triple_bnd [OF again], rule triple_throw)
  have ended: "triple ?D (bnd (path_exists B) (\<lambda>b. ret (if b then Some B else None)))
      (\<lambda>r w. r \<in> {None, Some B} \<and> ?D w) ?L"
    by (rule triple_bnd [OF triple_among_still [OF moves_still_prims(1) sub(2)]]) (auto intro: triple_ret)
  have start: "triple (holds {} N) (path_exists T) (\<lambda>_. holds {} N) ?L"
    by (rule triple_conseq [OF triple_still [OF stable_holds [of "{}" N] moves_still_prims(1)]])
      (auto simp: among_def swap_left_def)
  show ?thesis
    unfolding swap_staged_tree_into_place_def Let_def B [symmetric]
    by (rule triple_bnd [OF start], rule triple_bnd [OF aside], rule triple_try [OF place broken ended])
      (use sub(1) in \<open>auto simp: among_def\<close>)
qed

section \<open>Removing the old tree\<close>

text \<open>
  A tree may contain symbolic links when it is removed. What is listed exists, so its parents are
  directories; removing a path can only remove the node at that path.
\<close>

definition pruned :: "path \<Rightarrow> (path \<Rightarrow> node option) \<Rightarrow> world \<Rightarrow> bool" where
  "pruned p N w \<longleftrightarrow> fs_wf (fs w) \<and> (\<forall>q. node_at (fs w) q = N q \<or> prefix p q \<and> node_at (fs w) q = None)"

lemma stable_pruned [simp]: "stable (pruned p N)"
  by (auto simp: stable_def still_def pruned_def)

lemma lresolve_listed:
  assumes "good_path r" and "r \<noteq> []" and "\<And>q t. strict_prefix q r \<Longrightarrow> node_at F q \<noteq> Some (Link t)" and "lresolve F r = Inr q"
  shows "q = r"
proof -
  have sp: "strict_prefix (butlast r) r" using prefixeq_butlast butlast_neq [OF assms(2)] by (simp add: strict_prefix_def)
  have "''..'' \<notin> set (butlast r)" using assms(1) by (auto simp: good_path_def good_name_def dest: in_set_butlastD)
  then have "plain F (butlast r)"
    using assms(3) prefix_order.le_less_trans [OF _ sp] unfolding plain_def by blast
  moreover have "last r \<noteq> ''..''" using good_path_last [OF assms(1,2)] by (simp add: good_name_def)
  ultimately show ?thesis using assms(2,4) resolve_plain [of F "butlast r"]
    by (auto simp: lresolve_def split: sum.splits option.splits node.splits)
qed

lemma pruned_remove:
  assumes N: "\<And>q t. strict_prefix q r \<Longrightarrow> N q = Some Dir" and r: "good_path r" "r \<noteq> []" "prefix p r"
    and G: "(if d then f_rmdir r F else f_unlink r F) = Inr (a, G)"
    and F: "fs_wf F" "\<forall>q. node_at F q = N q \<or> prefix p q \<and> node_at F q = None"
  shows "fs_wf G \<and> (\<forall>q. node_at G q = N q \<or> prefix p q \<and> node_at G q = None)"
proof -
  have nl: "node_at F q \<noteq> Some (Link t)" if "strict_prefix q r" for q t
    using N [OF that] F(2) by (metis node.distinct option.distinct(1) option.inject)
  have lr: "q = r" if "lresolve F r = Inr q" for q by (rule lresolve_listed [OF r(1,2) nl that])
  have "fs_wf G \<and> node_at G = (node_at F)(r := None)"
  proof (cases d)
    case True
    with G lr r(2) F(1) show ?thesis
      by (auto simp: f_rmdir_def node_at_fun_upd fs_wf_delete_empty_dir split: sum.splits option.splits node.splits if_splits)
  next
    case False
    with G lr obtain n where "node_at F r = Some n" "n \<noteq> Dir" "G = AList.delete r F"
      by (auto simp: f_unlink_def split: sum.splits option.splits node.splits if_splits)
    with F(1) r(2) fs_wf_delete_file [OF F(1)] show ?thesis by (simp add: node_at_fun_upd)
  qed
  with F(2) r(3) show ?thesis by auto
qed

lemma triple_remove_dir_all:
  assumes "unlinked N p"
  shows "triple (holds {} N) (remove_dir_all p) (\<lambda>_. pruned p N) (pruned p N)"
  unfolding remove_dir_all_def
proof (rule triple_bnd [where Q = "\<lambda>ls w. (\<forall>(r, d) \<in> set ls. good_path r \<and> r \<noteq> [] \<and> prefix p r
    \<and> (\<forall>q. strict_prefix q r \<longrightarrow> N q = Some Dir)) \<and> pruned p N w"])
  have h: "pruned p N w" if "holds {} N w" for w using that by (auto simp: holds_def tames_def pruned_def)
  show "triple (holds {} N) (call (f_list_below p)) (\<lambda>ls w. (\<forall>(r, d) \<in> set ls. good_path r \<and> r \<noteq> [] \<and> prefix p r
      \<and> (\<forall>q. strict_prefix q r \<longrightarrow> N q = Some Dir)) \<and> pruned p N w) (pruned p N)"
  proof (rule triple_call)
    fix w ls G and v :: world
    assume w: "holds {} N w" and l: "f_list_below p (fs w) = Inr (ls, G)" and v: "fs v = G"
    then have wf: "fs_wf (fs w)" and N: "node_at (fs w) = N" by (auto simp: holds_def tames_def)
    from l obtain q where q: "lresolve (fs w) p = Inr q" "G = fs w"
      and ls: "ls = map (\<lambda>r. (r, node_at (fs w) r = Some Dir)) (below (fs w) q)"
      by (auto simp: f_list_below_def split: sum.splits option.splits node.splits)
    have "q = p" using lresolve_plain(1) [OF _ q(1)] straight_unlinked [OF wf, of p] assms N by (simp add: straight_def)
    have "good_path r \<and> r \<noteq> [] \<and> prefix p r \<and> (\<forall>q. strict_prefix q r \<longrightarrow> N q = Some Dir)" if "(r, d) \<in> set ls" for r d
    proof -
      from that ls \<open>q = p\<close> have r: "prefix p r" "r \<in> fst ` set (fs w)" by (auto simp: below_def)
      then have "map_of (fs w) r \<noteq> None" by (metis map_of_eq_None_iff)
      with wf have n: "node_at (fs w) r \<noteq> None" "r \<noteq> []" by (auto simp: node_at_def dest: fs_wf_nonempty)
      have "N q = Some Dir" if "strict_prefix q r" for q
        using that n(1) N fs_wf_prefix_dir [OF wf, of q] by (auto simp: strict_prefix_def prefix_def)
      with r n fs_wf_good_path [OF wf, of r] show ?thesis by auto
    qed
    then show "(\<forall>(r, d) \<in> set ls. good_path r \<and> r \<noteq> [] \<and> prefix p r \<and> (\<forall>q. strict_prefix q r \<longrightarrow> N q = Some Dir)) \<and> pruned p N v"
      using h [OF w] q(2) v by (auto simp: pruned_def)
  qed (auto intro: h)
  fix ls
  show "triple (\<lambda>w. (\<forall>(r, d) \<in> set ls. good_path r \<and> r \<noteq> [] \<and> prefix p r \<and> (\<forall>q. strict_prefix q r \<longrightarrow> N q = Some Dir))
      \<and> pruned p N w) (for_each (\<lambda>(r, d). if d then remove_dir r else remove_file r) ls) (\<lambda>_. pruned p N) (pruned p N)"
  proof (rule triple_pull)
    assume ls: "\<forall>(r, d) \<in> set ls. good_path r \<and> r \<noteq> [] \<and> prefix p r \<and> (\<forall>q. strict_prefix q r \<longrightarrow> N q = Some Dir)"
    have one: "triple (pruned p N) (call (\<lambda>F. if d then f_rmdir r F else f_unlink r F)) (\<lambda>_. pruned p N) (pruned p N)"
      if "(r, d) \<in> set ls" for r d
    proof (rule triple_call)
      fix w a G and v :: world
      assume w: "pruned p N w" and G: "(if d then f_rmdir r (fs w) else f_unlink r (fs w)) = Inr (a, G)" and v: "fs v = G"
      have r: "good_path r" "r \<noteq> []" "prefix p r" "\<And>q. strict_prefix q r \<Longrightarrow> N q = Some Dir" using ls that by auto
      from pruned_remove [where N = N, OF r(4,1-3) G] w v show "pruned p N v" by (simp add: pruned_def)
    qed auto
    show "triple (pruned p N) (for_each (\<lambda>(r, d). if d then remove_dir r else remove_file r) ls) (\<lambda>_. pruned p N) (pruned p N)"
      unfolding for_each_def
      by (rule triple_fold) (auto simp: remove_dir_def remove_file_def dest!: one)
  qed
qed

end
