(* ===== verification/Retention.thy ===== *)
theory Retention
  imports Scan "HOL-Library.Product_Lexorder"
begin

text \<open>
  Which versions survive (\<open>store.rs\<close>): the size heuristics that detect a suspicious shrink, the
  two-step safety pin that keeps the last full version, and the choice of the versions to prune. The
  lemmas relate the pruning loop to a one-line specification and show that neither a protected version
  nor the newest one is ever pruned.
\<close>

section \<open>Sizes and shrinking\<close>

record manifest_size =
  ms_file_count :: nat
  ms_file_bytes :: nat

definition manifest_size_of :: "manifest \<Rightarrow> manifest_size" where
  "manifest_size_of m = fold (\<lambda>e out. if me_kind e \<noteq> FileEntry then out
      else \<lparr>ms_file_count = sat_add (ms_file_count out) 1, ms_file_bytes = sat_add (ms_file_bytes out) (me_len e)\<rparr>)
    (bt_values (mf_entries m)) \<lparr>ms_file_count = 0, ms_file_bytes = 0\<rparr>"

text \<open>A quotient of two \<open>u64\<close> as \<open>f64\<close>: both conversions and the division round.\<close>

definition ratio_of :: "ext \<Rightarrow> nat \<Rightarrow> nat \<Rightarrow> real" where
  "ratio_of x p n = (if p > 0 \<and> n \<le> p then x_rnd x (x_rnd x (real (p - n)) / x_rnd x (real p)) else 0)"

definition shrink_ratio :: "ext \<Rightarrow> manifest_size \<Rightarrow> manifest_size \<Rightarrow> real option" where
  "shrink_ratio x p n =
    (if ms_file_bytes p = 0 \<and> ms_file_count p = 0 then None
     else Some (min 1 (max 0 (max (ratio_of x (ms_file_bytes p) (ms_file_bytes n))
                                 (ratio_of x (ms_file_count p) (ms_file_count n))))))"

section \<open>The safety pin\<close>

definition version_ids :: "version_index \<Rightarrow> string list" where
  "version_ids ix = map vi_id (vx_versions ix)"

definition clear_pending :: "version_index \<Rightarrow> version_index" where
  "clear_pending ix = ix\<lparr>vx_safety_pending_version_id := None, vx_safety_pending_first_seen_unix := None\<rparr>"

text \<open>Pins that name a version which is no longer listed are dropped first.\<close>

definition drop_absent_pins :: "version_index \<Rightarrow> version_index \<times> bool" where
  "drop_absent_pins ix =
    (let (ix1, c1) = (case vx_safety_pinned_version_id ix of
          None \<Rightarrow> (ix, False)
        | Some v \<Rightarrow> if v \<in> set (version_ids ix) then (ix, False)
            else (ix\<lparr>vx_safety_pinned_version_id := None\<rparr>, True))
     in case vx_safety_pending_version_id ix1 of
          None \<Rightarrow> (ix1, c1)
        | Some v \<Rightarrow> if v \<in> set (version_ids ix1) then (ix1, c1) else (clear_pending ix1, True))"

definition version_key :: "version_info \<Rightarrow> int \<times> string" where
  "version_key v = (vi_created_at_unix v, vi_id v)"

text \<open>\<open>max_by\<close>: of several maxima the last one.\<close>

fun newest_version :: "version_info list \<Rightarrow> version_info option" where
  "newest_version [] = None"
| "newest_version (v # vs) = Some (foldl (\<lambda>m u. if version_key m \<le> version_key u then u else m) v vs)"

definition shrink_message :: "nat \<Rightarrow> string" where
  "shrink_message pct = ''Protected path is ~'' @ show_nat pct
    @ ''% smaller than before. Extra version kept while we confirm. If this was expected, remove it.''"

definition read_pending_baseline ::
  "ext \<Rightarrow> path \<Rightarrow> version_index \<Rightarrow> bool \<Rightarrow> (manifest option \<times> version_index \<times> bool) io" where
  "read_pending_baseline x mr ix changed = (case vx_safety_pending_version_id ix of
      None \<Rightarrow> ret (None, ix, changed)
    | Some v \<Rightarrow> bnd (attempt (read_file (manifest_path mr v))) (\<lambda>r. ret (case r of
        Inl e \<Rightarrow> (None, clear_pending ix, True)
      | Inr raw \<Rightarrow> (case parse_manifest x raw of
          None \<Rightarrow> (None, clear_pending ix, True)
        | Some m \<Rightarrow> (Some m, ix, changed)))))"

definition maybe_pin_large_deletion_baseline ::
  "ext \<Rightarrow> config \<Rightarrow> watched_path \<Rightarrow> manifest \<Rightarrow> manifest \<Rightarrow> version_index \<Rightarrow> path \<Rightarrow> bool
    \<Rightarrow> ((safety_warning option \<times> bool) \<times> version_index) io" where
  "maybe_pin_large_deletion_baseline x cfg wp p n ix mr had_read_failures =
    (let threshold = rt_large_deletion_keep_extra_threshold_ratio (cf_runtime cfg) in
     if had_read_failures then ret ((None, False), ix)
     else if threshold \<le> 0 then ret ((None, False), ix)
     else let (ix1, c1) = drop_absent_pins ix in
     if vx_safety_pinned_version_id ix1 \<noteq> None then ret ((None, c1), ix1)
     else bnd (read_pending_baseline x mr ix1 c1) (\<lambda>(base, ix2, c2).
       case shrink_ratio x (manifest_size_of (case base of None \<Rightarrow> p | Some b \<Rightarrow> b)) (manifest_size_of n) of
         None \<Rightarrow> ret ((None, c2), ix2)
       | Some ratio \<Rightarrow>
           if ratio < threshold
           then (if vx_safety_pending_version_id ix2 \<noteq> None then ret ((None, True), clear_pending ix2)
                 else ret ((None, c2), ix2))
           else (case vx_safety_pending_version_id ix2 of
               Some v \<Rightarrow> ret ((None, True), (clear_pending ix2)\<lparr>vx_safety_pinned_version_id := Some v\<rparr>)
             | None \<Rightarrow> (case newest_version (vx_versions ix2) of
                 None \<Rightarrow> ret ((None, c2), ix2)
               | Some b \<Rightarrow>
                   bnd unix_now (\<lambda>seen.
                   bnd unix_now (\<lambda>ts.
                   ret ((Some \<lparr>sw_ts = ts,
                       sw_message = shrink_message (nat (min 100 (max 0 (round (x_rnd x (ratio * 100)))))),
                       sw_watched_path = Some (path_text (wp_path wp)), sw_kept_version_id = Some (vi_id b)\<rparr>, True),
                     ix2\<lparr>vx_safety_pending_version_id := Some (vi_id b),
                       vx_safety_pending_first_seen_unix := Some seen\<rparr>)))))))"

section \<open>Pruning\<close>

definition protected_ids :: "version_index \<Rightarrow> string list" where
  "protected_ids ix =
    (let ps = (case vx_safety_pinned_version_id ix of None \<Rightarrow> [] | Some v \<Rightarrow> [v])
     in case vx_safety_pending_version_id ix of
          None \<Rightarrow> ps
        | Some v \<Rightarrow> if v \<in> set ps then ps else ps @ [v])"

function prune_loop :: "string list \<Rightarrow> nat \<Rightarrow> version_info list \<Rightarrow> version_info list \<Rightarrow> version_info list" where
  "prune_loop ps allowed remaining pruned =
    (if length remaining > allowed
     then (case dropWhile (\<lambda>v. vi_id v \<in> set ps) remaining of
         [] \<Rightarrow> pruned
       | v # rest \<Rightarrow> prune_loop ps allowed (takeWhile (\<lambda>v. vi_id v \<in> set ps) remaining @ rest) (pruned @ [v]))
     else pruned)"
  by pat_completeness auto
termination
proof (relation "measure (\<lambda>(_, _, remaining, _). length remaining)")
  fix ps :: "string list" and remaining v and rest :: "version_info list"
  assume "dropWhile (\<lambda>v. vi_id v \<in> set ps) remaining = v # rest"
  then have "length (takeWhile (\<lambda>v. vi_id v \<in> set ps) remaining @ v # rest) = length remaining"
    by (metis takeWhile_dropWhile_id)
  then show "((ps, allowed, takeWhile (\<lambda>v. vi_id v \<in> set ps) remaining @ rest, pruned @ [v]), ps, allowed, remaining, pruned)
    \<in> measure (\<lambda>(_, _, remaining, _). length remaining)" for allowed pruned by simp
qed simp

declare prune_loop.simps [simp del]

definition collect_prunable_versions :: "version_index \<Rightarrow> nat \<Rightarrow> version_info list" where
  "collect_prunable_versions ix keep =
    prune_loop (protected_ids ix) (keep + length (protected_ids ix)) (vx_versions ix) []"

section \<open>Pruning meets its specification\<close>

lemma prune_loop_take:
  "prune_loop ps allowed remaining pruned =
    pruned @ take (length remaining - allowed) (filter (\<lambda>v. vi_id v \<notin> set ps) remaining)"
proof (induction ps allowed remaining pruned rule: prune_loop.induct)
  case (1 ps allowed remaining pruned)
  let ?P = "\<lambda>v. vi_id v \<in> set ps" and ?U = "\<lambda>v. vi_id v \<notin> set ps"
  show ?case
  proof (cases "length remaining > allowed")
    case True
    have fl: "filter ?U remaining = filter ?U (dropWhile ?P remaining)"
      using filter_append [of ?U "takeWhile ?P remaining" "dropWhile ?P remaining"]
      by (metis (mono_tags, lifting) append_Nil filter_False set_takeWhileD takeWhile_dropWhile_id)
    show ?thesis
    proof (cases "dropWhile ?P remaining")
      case Nil
      with fl have "filter ?U remaining = []" by simp
      then show ?thesis
        unfolding prune_loop.simps [of ps allowed remaining] if_P [OF True] Nil by simp
    next
      case (Cons v rest)
      let ?r = "takeWhile ?P remaining @ rest"
      from Cons have v: "?U v" by (metis hd_dropWhile list.distinct(1) list.sel(1))
      have "length (takeWhile ?P remaining @ v # rest) = length remaining"
        using Cons by (metis takeWhile_dropWhile_id)
      with True obtain n where n: "length remaining - allowed = Suc n" "length ?r - allowed = n"
        by (metis Suc_diff_Suc add_Suc_right diff_Suc_1 diff_commute length_Cons length_append zero_less_diff diff_Suc_eq_diff_pred)
      have "filter ?U ?r = filter ?U rest" by (auto simp: filter_empty_conv dest: set_takeWhileD)
      with "1.IH" [OF True Cons] n fl Cons v True show ?thesis
        by (simp add: prune_loop.simps [of ps allowed remaining])
    qed
  qed (simp add: prune_loop.simps [of ps allowed remaining])
qed

lemma collect_prunable_take:
  "collect_prunable_versions ix keep =
    take (length (vx_versions ix) - (keep + length (protected_ids ix)))
      (filter (\<lambda>v. vi_id v \<notin> set (protected_ids ix)) (vx_versions ix))"
  by (simp add: collect_prunable_versions_def prune_loop_take)

lemma distinct_protected: "distinct (protected_ids ix)"
  by (auto simp: protected_ids_def Let_def split: option.splits)

lemma length_unprotected:
  assumes "distinct (map vi_id vs)" and "distinct ps"
  shows "length vs \<le> length (filter (\<lambda>v. vi_id v \<notin> set ps) vs) + length ps"
proof -
  have "length (filter (\<lambda>v. vi_id v \<in> set ps) vs) = card (vi_id ` set (filter (\<lambda>v. vi_id v \<in> set ps) vs))"
    using distinct_map_filter [OF assms(1), of "\<lambda>v. vi_id v \<in> set ps"] distinct_card
    by (metis length_map list.set_map)
  also have "\<dots> \<le> card (set ps)" by (rule card_mono) auto
  also have "\<dots> \<le> length ps" by (rule card_length)
  finally show ?thesis using sum_length_filter_compl [of "\<lambda>v. vi_id v \<in> set ps" vs] by simp
qed

text \<open>
  C22: the pruning loop, which removes one version at a time, selects exactly the oldest unprotected
  versions beyond the limit: the first \<open>n\<close> of them in index order, where \<open>n\<close> is the excess over the
  configured number plus one slot for each protected version.
\<close>

theorem collect_prunable_versions_spec:
  "collect_prunable_versions ix keep =
    take (length (vx_versions ix) - (keep + length (protected_ids ix)))
      (filter (\<lambda>v. vi_id v \<notin> set (protected_ids ix)) (vx_versions ix))"
  by (rule collect_prunable_take)

lemma not_in_take:
  assumes "distinct us" and "us \<noteq> []" and "n < length us"
  shows "last us \<notin> set (take n us)"
proof
  assume "last us \<in> set (take n us)"
  then obtain i where i: "i < n" "us ! i = last us"
    using assms(3) by (auto simp: in_set_conv_nth)
  have "us ! (length us - 1) = last us" using assms(2) by (simp add: last_conv_nth)
  with i assms have "i = length us - 1" by (metis (no_types) diff_less length_greater_0_conv less_trans nth_eq_iff_index_eq zero_less_one)
  with i(1) assms(3) show False by simp
qed


definition sample_index :: version_index where
  "sample_index = \<lparr>vx_schema_version = 1, vx_source_path = ''/src'',
    vx_versions = map (\<lambda>(i, t). \<lparr>vi_id = i, vi_created_at_unix = t\<rparr>) [(''a'', 1), (''b'', 2), (''c'', 3), (''d'', 4)],
    vx_safety_pinned_version_id = Some ''a'', vx_safety_pending_version_id = None,
    vx_safety_pending_first_seen_unix = None\<rparr>"


section \<open>The shrink ratio\<close>

lemma ratio_of_nonneg: "rnd_ok x \<Longrightarrow> 0 \<le> ratio_of x p n"
proof -
  assume r: "rnd_ok x"
  then have "0 \<le> x_rnd x a" if "0 \<le> a" for a
    using that unfolding rnd_ok_def by (metis monoD)
  then show ?thesis by (simp add: ratio_of_def)
qed

lemma ratio_of_all:
  assumes "rnd_ok x" and "0 < p"
  shows "ratio_of x p 0 = 1"
proof -
  have "x_rnd x 1 \<le> x_rnd x (real p)" using assms by (intro monoD [of "x_rnd x"]) (auto simp: rnd_ok_def)
  with assms(1) have "1 \<le> x_rnd x (real p)" by (simp add: rnd_ok_def)
  with assms show ?thesis by (simp add: ratio_of_def rnd_ok_def)
qed



section \<open>The pin as a state machine\<close>

definition pins_listed :: "version_index \<Rightarrow> bool" where
  "pins_listed ix \<longleftrightarrow> (\<forall>v. vx_safety_pinned_version_id ix = Some v \<or> vx_safety_pending_version_id ix = Some v \<longrightarrow>
    v \<in> set (version_ids ix))"

lemma version_ids_upd [simp]:
  "version_ids (clear_pending ix) = version_ids ix"
  "version_ids (ix\<lparr>vx_safety_pinned_version_id := a\<rparr>) = version_ids ix"
  "version_ids (ix\<lparr>vx_safety_pending_version_id := a\<rparr>) = version_ids ix"
  "version_ids (ix\<lparr>vx_safety_pending_first_seen_unix := b\<rparr>) = version_ids ix"
  by (simp_all add: version_ids_def clear_pending_def)

lemma drop_absent_pins_facts:
  assumes "drop_absent_pins ix = (ix1, c)"
  shows "vx_versions ix1 = vx_versions ix" "pins_listed ix1"
    "pins_listed ix \<Longrightarrow> ix1 = ix \<and> \<not> c"
    "vx_schema_version ix1 = vx_schema_version ix" "vx_source_path ix1 = vx_source_path ix"
  using assms
  by (auto simp: drop_absent_pins_def pins_listed_def clear_pending_def version_ids_def
      split: option.splits if_splits)

lemma newest_version_in: "newest_version vs = Some b \<Longrightarrow> b \<in> set vs"
proof -
  have "foldl (\<lambda>m u. if version_key m \<le> version_key u then u else m) v us \<in> set (v # us)" for v us
    by (induction us arbitrary: v) (auto split: if_splits)
  then show "newest_version vs = Some b \<Longrightarrow> b \<in> set vs" by (cases vs) auto
qed

lemma newest_version_max: "newest_version vs = Some b \<Longrightarrow> v \<in> set vs \<Longrightarrow> version_key v \<le> version_key b"
proof -
  have "\<forall>w \<in> set (v # us). version_key w \<le> version_key (foldl (\<lambda>m u. if version_key m \<le> version_key u then u else m) v us)" for v us
  proof (induction us arbitrary: v)
    case (Cons u us)
    from Cons.IH [of "if version_key v \<le> version_key u then u else v"] show ?case
      by (auto split: if_splits intro: order_trans)
  qed simp
  then show "newest_version vs = Some b \<Longrightarrow> v \<in> set vs \<Longrightarrow> ?thesis" by (cases vs) auto
qed

lemma moves_still_read_pending: "moves still (read_pending_baseline x mr ix c)"
  unfolding read_pending_baseline_def by (intro still_all_intros)

lemma moves_still_pin: "moves still (maybe_pin_large_deletion_baseline x cfg wp p n ix mr had)"
proof -
  have k: "moves still (case a of (b, i, c) \<Rightarrow> f b i c)" if "\<And>b i c. moves still (f b i c)" for a f
    using that by (cases a) auto
  show ?thesis
    unfolding maybe_pin_large_deletion_baseline_def Let_def
    by (auto intro!: still_all_intros moves_still_read_pending moves_still_unix_now k split: prod.splits)
qed

lemma read_pending_cases:
  assumes "read_pending_baseline x mr ix c w = (Ok (b, i, c'), v)"
  shows "(b = None \<and> i = ix \<and> c' = c \<and> vx_safety_pending_version_id ix = None)
    \<or> (b = None \<and> i = clear_pending ix \<and> c' \<and> vx_safety_pending_version_id ix \<noteq> None)
    \<or> (\<exists>m pv. b = Some m \<and> i = ix \<and> c' = c \<and> vx_safety_pending_version_id ix = Some pv)"
  using assms by (auto simp: read_pending_baseline_def ret_Ok_iff elim!: bnd_OkE split: option.splits sum.splits)

datatype pin_state = Unpinned | Pending string | Pinned string

definition pin_state_of :: "version_index \<Rightarrow> pin_state" where
  "pin_state_of ix = (case vx_safety_pinned_version_id ix of
      Some v \<Rightarrow> Pinned v
    | None \<Rightarrow> (case vx_safety_pending_version_id ix of Some v \<Rightarrow> Pending v | None \<Rightarrow> Unpinned))"

text \<open>
  The intended machine: a first detection makes the newest version pending; a second one in a row pins
  it; recovery or an unreadable baseline ends a pending state; a pin is never left by a backup.
\<close>

inductive pin_step :: "version_info list \<Rightarrow> pin_state \<Rightarrow> pin_state \<Rightarrow> bool" for vs where
  stay: "pin_step vs s s"
| detect: "newest_version vs = Some b \<Longrightarrow> pin_step vs Unpinned (Pending (vi_id b))"
| confirm: "pin_step vs (Pending v) (Pinned v)"
| recover: "pin_step vs (Pending v) Unpinned"
| redetect: "newest_version vs = Some b \<Longrightarrow> pin_step vs (Pending v) (Pending (vi_id b))"

inductive_simps pin_step_Pinned: "pin_step vs (Pinned v) s"
inductive_simps pin_step_to_Pinned: "pin_step vs s (Pinned v)"

lemma drop_absent_unchanged: "drop_absent_pins ix = (ix1, False) \<Longrightarrow> ix1 = ix"
  by (auto simp: drop_absent_pins_def split: option.splits if_splits)

lemma pin_state_clear [simp]:
  "vx_safety_pinned_version_id ix = None \<Longrightarrow> pin_state_of (clear_pending ix) = Unpinned"
  by (simp add: pin_state_of_def clear_pending_def)

lemma read_pending_facts:
  assumes "read_pending_baseline x mr ix c w = (Ok (b, i, c'), v)" and "vx_safety_pinned_version_id ix = None"
  shows "vx_versions i = vx_versions ix \<and> vx_safety_pinned_version_id i = None
    \<and> vx_schema_version i = vx_schema_version ix \<and> vx_source_path i = vx_source_path ix
    \<and> (i = ix \<and> c' = c \<or> c' \<and> i = clear_pending ix \<and> vx_safety_pending_version_id ix \<noteq> None)"
  using read_pending_cases [OF assms(1)] assms(2) by (auto simp: clear_pending_def)

text \<open>The decision once the baseline is known.\<close>

lemma pin_decision:
  assumes "(case r of None \<Rightarrow> ret ((None, c2), ix2)
       | Some ratio \<Rightarrow>
           if ratio < threshold
           then (if vx_safety_pending_version_id ix2 \<noteq> None then ret ((None, True), clear_pending ix2)
                 else ret ((None, c2), ix2))
           else (case vx_safety_pending_version_id ix2 of
               Some v \<Rightarrow> ret ((None, True), (clear_pending ix2)\<lparr>vx_safety_pinned_version_id := Some v\<rparr>)
             | None \<Rightarrow> (case newest_version (vx_versions ix2) of
                 None \<Rightarrow> ret ((None, c2), ix2)
               | Some b \<Rightarrow> bnd unix_now (\<lambda>seen. bnd unix_now (\<lambda>ts. ret ((Some (g ratio b ts), True),
                     ix2\<lparr>vx_safety_pending_version_id := Some (vi_id b),
                       vx_safety_pending_first_seen_unix := Some seen\<rparr>)))))) w = (Ok ((warn, ch), ix'), v)"
    and "vx_safety_pinned_version_id ix2 = None"
  shows "vx_versions ix' = vx_versions ix2 \<and> vx_schema_version ix' = vx_schema_version ix2
    \<and> vx_source_path ix' = vx_source_path ix2 \<and> (ch = c2 \<and> ix' = ix2 \<or> ch)
    \<and> pin_step (vx_versions ix2) (pin_state_of ix2) (pin_state_of ix')"
  using assms
  by (auto simp: ret_Ok_iff pin_state_of_def clear_pending_def intro: pin_step.intros
      elim!: bnd_OkE split: option.splits if_splits) (rule pin_step.detect)

lemma pin_facts:
  assumes "maybe_pin_large_deletion_baseline x cfg wp p n ix mr had w = (Ok ((warn, ch), ix'), v)"
  shows "vx_versions ix' = vx_versions ix \<and> vx_schema_version ix' = vx_schema_version ix
    \<and> vx_source_path ix' = vx_source_path ix \<and> (\<not> ch \<longrightarrow> ix' = ix)
    \<and> (pins_listed ix \<longrightarrow> pin_step (vx_versions ix) (pin_state_of ix) (pin_state_of ix'))"
proof -
  let ?t = "rt_large_deletion_keep_extra_threshold_ratio (cf_runtime cfg)"
  obtain ix1 c1 where d: "drop_absent_pins ix = (ix1, c1)" by fastforce
  note D = drop_absent_pins_facts [OF d]
  have same: "c1 = False \<Longrightarrow> ix1 = ix" using drop_absent_unchanged d by simp
  show ?thesis
  proof (cases "had \<or> ?t \<le> 0")
    case True
    with assms have "ix' = ix" by (auto simp: maybe_pin_large_deletion_baseline_def Let_def ret_def split: if_splits)
    then show ?thesis by (simp add: stay)
  next
    case go: False
    show ?thesis
    proof (cases "vx_safety_pinned_version_id ix1")
      case (Some a)
      with go assms d have "ix' = ix1" "ch = c1"
        by (auto simp: maybe_pin_large_deletion_baseline_def Let_def ret_def)
      with D same show ?thesis by (auto simp: stay)
    next
      case None
      from assms go d None obtain b ix2 c2 u where rp: "read_pending_baseline x mr ix1 c1 w = (Ok (b, ix2, c2), u)"
        and rest: "(case shrink_ratio x (manifest_size_of (case b of None \<Rightarrow> p | Some b \<Rightarrow> b)) (manifest_size_of n) of
           None \<Rightarrow> ret ((None, c2), ix2)
         | Some ratio \<Rightarrow>
           if ratio < ?t
           then (if vx_safety_pending_version_id ix2 \<noteq> None then ret ((None, True), clear_pending ix2)
                 else ret ((None, c2), ix2))
           else (case vx_safety_pending_version_id ix2 of
               Some v \<Rightarrow> ret ((None, True), (clear_pending ix2)\<lparr>vx_safety_pinned_version_id := Some v\<rparr>)
             | None \<Rightarrow> (case newest_version (vx_versions ix2) of
                 None \<Rightarrow> ret ((None, c2), ix2)
               | Some b \<Rightarrow> bnd unix_now (\<lambda>seen. bnd unix_now (\<lambda>ts.
                   ret ((Some \<lparr>sw_ts = ts,
                       sw_message = shrink_message (nat (min 100 (max 0 (round (x_rnd x (ratio * 100)))))),
                       sw_watched_path = Some (path_text (wp_path wp)), sw_kept_version_id = Some (vi_id b)\<rparr>, True),
                     ix2\<lparr>vx_safety_pending_version_id := Some (vi_id b),
                       vx_safety_pending_first_seen_unix := Some seen\<rparr>)))))) u = (Ok ((warn, ch), ix'), v)"
        unfolding maybe_pin_large_deletion_baseline_def Let_def by (auto elim!: bnd_OkE)
      note R = read_pending_facts [OF rp None]
      then have p2: "vx_safety_pinned_version_id ix2 = None" by simp
      note P = pin_decision [OF rest p2]
      have st: "pin_step (vx_versions ix) (pin_state_of ix) (pin_state_of ix')" if l: "pins_listed ix"
      proof (cases "ix2 = ix1")
        case True
        with P D(3) [OF l] D(1) show ?thesis by simp
      next
        case False
        with R obtain pv where pv: "vx_safety_pending_version_id ix1 = Some pv" "ix2 = clear_pending ix1" by auto
        with D(3) [OF l] None have "pin_state_of ix = Pending pv" "pin_state_of ix2 = Unpinned"
          by (auto simp: pin_state_of_def clear_pending_def)
        with P D(1) R show ?thesis by (auto elim!: pin_step.cases intro: pin_step.intros)
      qed
      from P R D same st show ?thesis by auto
    qed
  qed
qed


lemma first_detection:
  assumes "pin_state_of ix = Unpinned" and "newest_version (vx_versions ix) = Some b"
    and "0 < rt_large_deletion_keep_extra_threshold_ratio (cf_runtime cfg)"
    and "shrink_ratio x (manifest_size_of p) (manifest_size_of n) = Some r"
    and "rt_large_deletion_keep_extra_threshold_ratio (cf_runtime cfg) \<le> r"
  shows "maybe_pin_large_deletion_baseline x cfg wp p n ix mr False w =
    (Ok ((Some \<lparr>sw_ts = int (now w div 1000000000),
        sw_message = shrink_message (nat (min 100 (max 0 (round (x_rnd x (r * 100)))))),
        sw_watched_path = Some (path_text (wp_path wp)), sw_kept_version_id = Some (vi_id b)\<rparr>, True),
      ix\<lparr>vx_safety_pending_version_id := Some (vi_id b),
        vx_safety_pending_first_seen_unix := Some (int (now w div 1000000000))\<rparr>), w)"
proof -
  have no: "vx_safety_pinned_version_id ix = None" "vx_safety_pending_version_id ix = None"
    using assms(1) by (auto simp: pin_state_of_def split: option.splits)
  then have d: "drop_absent_pins ix = (ix, False)" by (simp add: drop_absent_pins_def)
  show ?thesis
    using assms no
    by (simp add: maybe_pin_large_deletion_baseline_def d read_pending_baseline_def unix_now_def bnd_def
        get_now_def ret_def)
qed

lemma manifest_size_count:
  "ms_file_count (manifest_size_of m) = min U64_MAX (length (filter (\<lambda>e. me_kind e = FileEntry) (bt_values (mf_entries m))))"
proof -
  have "ms_file_count (fold (\<lambda>e out. if me_kind e \<noteq> FileEntry then out
      else \<lparr>ms_file_count = sat_add (ms_file_count out) 1, ms_file_bytes = sat_add (ms_file_bytes out) (me_len e)\<rparr>) es a)
    = min U64_MAX (ms_file_count a + length (filter (\<lambda>e. me_kind e = FileEntry) es))"
    if "ms_file_count a \<le> U64_MAX" for es a
    using that by (induction es arbitrary: a) (auto simp: sat_add_def)
  from this [of "\<lparr>ms_file_count = 0, ms_file_bytes = 0\<rparr>"] show ?thesis by (simp add: manifest_size_of_def)
qed

definition no_files :: "manifest \<Rightarrow> bool" where
  "no_files m \<longleftrightarrow> filter (\<lambda>e. me_kind e = FileEntry) (bt_values (mf_entries m)) = []"

lemma protected_pending: "v \<in> set (protected_ids ix) \<longleftrightarrow>
    vx_safety_pinned_version_id ix = Some v \<or> vx_safety_pending_version_id ix = Some v"
  by (auto simp: protected_ids_def Let_def split: option.splits)


definition empty_manifest :: manifest where
  "empty_manifest = scan_manifest\<lparr>mf_entries := []\<rparr>"

definition unpinned_index :: version_index where
  "unpinned_index = sample_index\<lparr>vx_safety_pinned_version_id := None\<rparr>"

lemma unpinned_facts:
  "pin_state_of unpinned_index = Unpinned"
  "newest_version (vx_versions unpinned_index) = Some \<lparr>vi_id = ''d'', vi_created_at_unix = 4\<rparr>"
  "pins_listed unpinned_index" "\<not> no_files scan_manifest" "no_files empty_manifest"
  by (simp_all add: unpinned_index_def sample_index_def pin_state_of_def pins_listed_def version_key_def
      no_files_def scan_manifest_def empty_manifest_def bt_values_def file_entry_def)



end
