(* ===== verification/Store.thy ===== *)
theory Store
  imports Retention
begin

text \<open>
  One backup of one watched path (\<open>backup_one_folder\<close> in \<open>store.rs\<close>): scan, write the missing blobs,
  commit manifest and index, prune, collect unreferenced blobs; the removal of a kept safety version;
  and the simulation that previews a backup. The laws of these operations are in the theories that
  follow.
\<close>

section \<open>Records\<close>

record folder_descriptor =
  fd_source_path :: path
  fd_destination_root :: path
  fd_keep_versions :: nat

record folder_backup_result =
  fr_changed :: bool
  fr_version_id :: "string option"
  fr_blobs_written :: nat
  fr_bytes_written :: nat
  fr_safety_warning :: "safety_warning option"

record blob_write_pass =
  bw_blobs_written :: nat
  bw_bytes_written :: nat
  bw_had_read_failures :: bool

record folder_store_paths =
  sp_source_root :: path
  sp_manifests_root :: path
  sp_destination_root :: path

record blob_write_context =
  bx_cfg :: config
  bx_watched :: watched_path
  bx_scan_root :: path
  bx_prev :: "manifest option"
  bx_blobs_root :: path
  bx_codec :: blob_codec
  bx_retry_delays :: "nat list"
  bx_destination_root :: path

section \<open>Blobs of a snapshot\<close>

definition blob_failure :: "string \<Rightarrow> nat \<Rightarrow> string \<Rightarrow> read_failure" where
  "blob_failure rel n msg = \<lparr>rf_rel_path = rel, rf_phase = BlobWrite, rf_attempts = n, rf_message = msg\<rparr>"

text \<open>
  After a failed write the entry falls back to the previous version's, or is dropped when there is none.
\<close>

definition fall_back :: "manifest option \<Rightarrow> string \<Rightarrow> (string, manifest_entry) btree \<Rightarrow> (string, manifest_entry) btree" where
  "fall_back prev rel es = (case prev of
      None \<Rightarrow> bt_remove rel es
    | Some m \<Rightarrow> (case bt_get (mf_entries m) rel of
        Some pe \<Rightarrow> bt_insert rel pe es
      | None \<Rightarrow> bt_remove rel es))"

definition write_missing_blob ::
  "ext \<Rightarrow> blob_write_context \<Rightarrow> string \<Rightarrow> manifest \<times> blob_write_pass \<Rightarrow> (manifest \<times> blob_write_pass) io" where
  "write_missing_blob x c rel st = (case bt_get (mf_entries (fst st)) rel of
      None \<Rightarrow> ret st
    | Some e \<Rightarrow> (case me_sha256 e of
        None \<Rightarrow> ret ((fst st)\<lparr>
            mf_read_failures := mf_read_failures (fst st) @ [blob_failure rel 1 ''missing sha256 for file entry''],
            mf_entries := bt_remove rel (mf_entries (fst st))\<rparr>,
          (snd st)\<lparr>bw_had_read_failures := True\<rparr>)
      | Some h \<Rightarrow>
          let bp = blob_path x (bx_blobs_root c) h in
          bnd (path_exists bp) (\<lambda>ex.
          if ex then ret st
          else let src = (case wp_kind (bx_watched c) of
                   WatchedFile \<Rightarrow> bx_scan_root c
                 | WatchedDirectory \<Rightarrow> join_rel (bx_scan_root c) rel) in
            bnd (attempt (write_blob x (bx_codec c) src bp h (ht_timeout_seconds (cf_hashing (bx_cfg c)))
                (bx_retry_delays c) (bx_destination_root c))) (\<lambda>r. case r of
              Inr n \<Rightarrow> ret (fst st, (snd st)\<lparr>bw_blobs_written := bw_blobs_written (snd st) + fst n,
                  bw_bytes_written := bw_bytes_written (snd st) + snd n\<rparr>)
            | Inl err \<Rightarrow> ret ((fst st)\<lparr>
                  mf_read_failures := mf_read_failures (fst st)
                    @ [blob_failure rel (length (bx_retry_delays c) + 1) (render err)],
                  mf_entries := fall_back (bx_prev c) rel (mf_entries (fst st))\<rparr>,
                (snd st)\<lparr>bw_had_read_failures := True\<rparr>)))))"

definition file_rel_paths :: "manifest \<Rightarrow> string list" where
  "file_rel_paths m = map me_rel_path (filter (\<lambda>e. me_kind e = FileEntry) (bt_values (mf_entries m)))"

definition write_missing_blobs_for_snapshot ::
  "ext \<Rightarrow> manifest \<Rightarrow> blob_write_context \<Rightarrow> (manifest \<times> blob_write_pass) io" where
  "write_missing_blobs_for_snapshot x snap c =
    fold_act (write_missing_blob x c) (file_rel_paths snap)
      (snap, \<lparr>bw_blobs_written = 0, bw_bytes_written = 0, bw_had_read_failures = False\<rparr>)"

section \<open>Garbage collection\<close>

text \<open>\<open>Path::extension\<close> of a file name.\<close>

definition file_extension :: "string \<Rightarrow> string option" where
  "file_extension n = (case dropWhile (\<lambda>c. c \<noteq> CHR ''.'') (rev n) of
      [] \<Rightarrow> None
    | _ # b \<Rightarrow> if b = [] then None else Some (rev (takeWhile (\<lambda>c. c \<noteq> CHR ''.'') (rev n))))"

text \<open>Taking the next entry of a directory stream, which may fail.\<close>

definition next_entry :: "unit io" where
  "next_entry = call (\<lambda>F. Inr ((), F))"

definition manifest_hashes :: "manifest \<Rightarrow> string list" where
  "manifest_hashes m = List.map_filter me_sha256 (bt_values (mf_entries m))"

definition gc_read_manifest :: "ext \<Rightarrow> path \<Rightarrow> string \<Rightarrow> string list \<Rightarrow> string list io" where
  "gc_read_manifest x mr n refd =
    bnd next_entry (\<lambda>_.
    if file_extension n \<noteq> Some ''json'' then ret refd
    else bnd (read_file (mr @ [n])) (\<lambda>raw. case parse_manifest x raw of
        None \<Rightarrow> throw (Bail ''versioned::gc_unreferenced_blobs failed to parse'')
      | Some m \<Rightarrow> ret (refd @ manifest_hashes m)))"

definition gc_read_source :: "ext \<Rightarrow> path \<Rightarrow> string \<Rightarrow> string list \<Rightarrow> string list io" where
  "gc_read_source x sources s refd =
    bnd next_entry (\<lambda>_.
    bnd (path_exists (sources @ [s, ''manifests''])) (\<lambda>e.
    if \<not> e then ret refd
    else bnd (read_dir (sources @ [s, ''manifests''])) (\<lambda>ns.
      fold_act (gc_read_manifest x (sources @ [s, ''manifests''])) ns refd)))"

definition gc_blob :: "string list \<Rightarrow> path \<Rightarrow> string \<Rightarrow> unit io" where
  "gc_blob refd dir n =
    bnd next_entry (\<lambda>_.
    bnd (symlink_metadata (dir @ [n])) (\<lambda>node.
    if \<not> is_file_node node then ret ()
    else if n \<notin> set refd then bnd (attempt (remove_file (dir @ [n]))) (\<lambda>_. ret ())
    else ret ()))"

definition gc_prefix :: "string list \<Rightarrow> path \<Rightarrow> string \<Rightarrow> unit io" where
  "gc_prefix refd br p =
    bnd next_entry (\<lambda>_.
    bnd (symlink_metadata (br @ [p])) (\<lambda>node.
    if node \<noteq> Dir then ret ()
    else bnd (read_dir (br @ [p])) (for_each (gc_blob refd (br @ [p])))))"

definition gc_unreferenced_blobs :: "ext \<Rightarrow> path \<Rightarrow> path \<Rightarrow> unit io" where
  "gc_unreferenced_blobs x st br =
    bnd (path_exists (sources_root st)) (\<lambda>e.
    if \<not> e then ret ()
    else bnd (read_dir (sources_root st)) (\<lambda>srcs.
      bnd (fold_act (gc_read_source x (sources_root st)) srcs []) (\<lambda>refd.
      bnd (path_exists br) (\<lambda>e.
      if \<not> e then ret ()
      else bnd (read_dir br) (for_each (gc_prefix refd br))))))"

section \<open>One folder\<close>

definition finish_scan_without_new_version ::
  "ext \<Rightarrow> config \<Rightarrow> watched_path \<Rightarrow> manifest option \<Rightarrow> manifest \<Rightarrow> version_index \<Rightarrow> folder_store_paths
    \<Rightarrow> blob_write_pass \<Rightarrow> folder_backup_result io" where
  "finish_scan_without_new_version x cfg wp prev snap ix paths out =
    bnd (case prev of
        None \<Rightarrow> ret None
      | Some p \<Rightarrow> bnd (maybe_pin_large_deletion_baseline x cfg wp p snap ix (sp_manifests_root paths)
            (bw_had_read_failures out)) (\<lambda>a.
          bnd (if snd (fst a) then write_index x (sp_source_root paths) (snd a) (sp_destination_root paths) else ret ()) (\<lambda>_.
          ret (fst (fst a))))) (\<lambda>warn.
    bnd (write_scan_report x (sp_source_root paths) snap None (sp_destination_root paths)) (\<lambda>_.
    ret \<lparr>fr_changed = False, fr_version_id = None, fr_blobs_written = bw_blobs_written out,
      fr_bytes_written = bw_bytes_written out, fr_safety_warning = warn\<rparr>))"

text \<open>
  The loop that avoids the name of an existing manifest. Its fuel is one more than the number of nodes
  of the file system, which is enough: every name tried is longer than the one before.
\<close>

fun free_version_id :: "nat \<Rightarrow> path \<Rightarrow> nat \<Rightarrow> string \<Rightarrow> string io" where
  "free_version_id 0 mr collision v = throw (Bail ''fuel'')"
| "free_version_id (Suc k) mr collision v =
    bnd (path_exists (manifest_path mr v)) (\<lambda>e.
    if e then free_version_id k mr (collision + 1) (v @ ''-'' @ show_nat (collision + 1)) else ret v)"

definition new_version_id :: "ext \<Rightarrow> path \<Rightarrow> string io" where
  "new_version_id x mr w = free_version_id (Suc (length (fs w))) mr 0 (x_version_stamp x (now w)) w"

definition remove_pruned :: "path \<Rightarrow> version_info list \<Rightarrow> unit io" where
  "remove_pruned mr = for_each (\<lambda>v. bnd (attempt (remove_file (manifest_path mr (vi_id v)))) (\<lambda>_. ret ()))"

text \<open>The index after a commit, and the versions it gave up.\<close>

definition commit_index :: "folder_descriptor \<Rightarrow> version_index \<Rightarrow> string \<Rightarrow> int \<Rightarrow> bool \<Rightarrow> version_index \<times> version_info list" where
  "commit_index desc ix vid created had_read_failures =
    (let ix1 = ix\<lparr>vx_schema_version := STORE_SCHEMA_VERSION, vx_source_path := path_text (fd_source_path desc),
           vx_versions := sort_key version_key (vx_versions ix @ [\<lparr>vi_id = vid, vi_created_at_unix = created\<rparr>])\<rparr>;
         pruned = (if had_read_failures then [] else collect_prunable_versions ix1 (fd_keep_versions desc))
     in (ix1\<lparr>vx_versions := filter (\<lambda>v. vi_id v \<notin> vi_id ` set pruned) (vx_versions ix1)\<rparr>, pruned))"

definition commit_version ::
  "ext \<Rightarrow> folder_descriptor \<Rightarrow> folder_store_paths \<Rightarrow> path \<Rightarrow> path \<Rightarrow> string \<Rightarrow> manifest \<Rightarrow> version_index \<Rightarrow> bool \<Rightarrow> unit io" where
  "commit_version x desc paths st br vid snap ix had_read_failures =
    bnd (write_json_atomic_durable x (manifest_path (sp_manifests_root paths) vid) (x_manifest_enc x snap)
      (sp_destination_root paths)) (\<lambda>_.
    let (ix1, pruned) = commit_index desc ix vid (mf_created_at_unix snap) had_read_failures in
    bnd (write_index x (sp_source_root paths) ix1 (sp_destination_root paths)) (\<lambda>_.
    bnd (write_scan_report x (sp_source_root paths) snap (Some vid) (sp_destination_root paths)) (\<lambda>_.
    if pruned = [] then ret ()
    else bnd (remove_pruned (sp_manifests_root paths) pruned) (\<lambda>_.
      bnd (attempt (sync_dir (sp_manifests_root paths))) (\<lambda>_.
      gc_unreferenced_blobs x st br)))))"

definition folder_paths :: "ext \<Rightarrow> folder_descriptor \<Rightarrow> folder_store_paths" where
  "folder_paths x desc =
    (let sr = source_root x (fd_destination_root desc) (fd_source_path desc)
     in \<lparr>sp_source_root = sr, sp_manifests_root = sr @ [''manifests''], sp_destination_root = fd_destination_root desc\<rparr>)"

definition is_changed :: "manifest option \<Rightarrow> manifest \<Rightarrow> bool" where
  "is_changed prev snap = (case prev of None \<Rightarrow> True | Some p \<Rightarrow> \<not> manifests_equivalent p snap)"

definition write_version ::
  "ext \<Rightarrow> config \<Rightarrow> watched_path \<Rightarrow> folder_descriptor \<Rightarrow> blob_codec \<Rightarrow> nat list \<Rightarrow> path \<Rightarrow> manifest option
    \<Rightarrow> version_index \<Rightarrow> manifest \<Rightarrow> folder_backup_result io" where
  "write_version x cfg wp desc cd delays scan_root prev ix snap0 =
    (let paths = folder_paths x desc; st = store_root (fd_destination_root desc); br = blobs_root st in
     bnd (new_version_id x (sp_manifests_root paths)) (\<lambda>vid.
     bnd (write_missing_blobs_for_snapshot x snap0 \<lparr>bx_cfg = cfg, bx_watched = wp, bx_scan_root = scan_root,
         bx_prev = prev, bx_blobs_root = br, bx_codec = cd, bx_retry_delays = delays,
         bx_destination_root = fd_destination_root desc\<rparr>) (\<lambda>(snap, out).
     let had = (mf_read_failures snap0 \<noteq> [] \<or> bw_had_read_failures out) in
     if \<not> is_changed prev snap
     then finish_scan_without_new_version x cfg wp prev snap ix paths (out\<lparr>bw_had_read_failures := had\<rparr>)
     else bnd (case prev of
           None \<Rightarrow> ret (None, ix)
         | Some p \<Rightarrow> bnd (maybe_pin_large_deletion_baseline x cfg wp p snap ix (sp_manifests_root paths) had) (\<lambda>a.
             ret (fst (fst a), snd a))) (\<lambda>(warn, ix1).
       bnd (commit_version x desc paths st br vid snap ix1 had) (\<lambda>_.
       ret \<lparr>fr_changed = True, fr_version_id = Some vid, fr_blobs_written = bw_blobs_written out,
         fr_bytes_written = bw_bytes_written out, fr_safety_warning = warn\<rparr>)))))"

definition backup_one_folder ::
  "ext \<Rightarrow> config \<Rightarrow> watched_path \<Rightarrow> folder_descriptor \<Rightarrow> blob_codec \<Rightarrow> folder_backup_result io" where
  "backup_one_folder x cfg wp desc cd =
    bnd get_now (\<lambda>t.
    let delays = retry_delays x (cf_execution cfg) t; paths = folder_paths x desc;
        st = store_root (fd_destination_root desc); br = blobs_root st in
    bnd (load_index x (sp_source_root paths) (fd_source_path desc)) (\<lambda>ix.
    bnd (create_dir_all_durable br (fd_destination_root desc)) (\<lambda>_.
    bnd (create_dir_all_durable (sp_manifests_root paths) (fd_destination_root desc)) (\<lambda>_.
    bnd (latest_manifest x (sp_manifests_root paths) ix) (\<lambda>prev.
    bnd (prepare_source_view (wp_path wp) (rt_source_snapshots_enabled (cf_runtime cfg))) (\<lambda>view.
    bnd (scan_snapshot x cfg wp (sv_scan_path view) prev delays) (\<lambda>scanned.
    let snap = scanned\<lparr>mf_source_snapshot := sv_snapshot view, mf_source_snapshot_error := sv_snapshot_error view\<rparr> in
    if \<not> is_changed prev snap
    then finish_scan_without_new_version x cfg wp prev snap ix paths
      \<lparr>bw_blobs_written = 0, bw_bytes_written = 0, bw_had_read_failures = (mf_read_failures snap \<noteq> [])\<rparr>
    else write_version x cfg wp desc cd delays (sv_scan_path view) prev ix snap)))))))"

section \<open>Removing a kept safety version\<close>

definition clear_safety :: "version_index \<Rightarrow> version_index" where
  "clear_safety ix = ix\<lparr>vx_safety_pinned_version_id := None, vx_safety_pending_version_id := None,
    vx_safety_pending_first_seen_unix := None\<rparr>"

text \<open>The operation under the store lease.\<close>

definition remove_kept_safety_version_locked :: "ext \<Rightarrow> path \<Rightarrow> path \<Rightarrow> string option io" where
  "remove_kept_safety_version_locked x dest src =
    (let st = store_root dest; br = blobs_root st; sr = source_root x dest src; mr = sr @ [''manifests''] in
     bnd (load_index x sr src) (\<lambda>ix.
     case (case vx_safety_pinned_version_id ix of Some v \<Rightarrow> Some v | None \<Rightarrow> vx_safety_pending_version_id ix) of
       None \<Rightarrow> ret None
     | Some kept \<Rightarrow>
         if kept \<notin> set (version_ids ix)
         then bnd (write_index x sr (clear_safety ix) dest) (\<lambda>_. ret None)
         else bnd (write_index x sr (clear_safety (ix\<lparr>vx_versions := filter (\<lambda>v. vi_id v \<noteq> kept) (vx_versions ix)\<rparr>)) dest) (\<lambda>_.
           bnd (remove_file (manifest_path mr kept)) (\<lambda>_.
           bnd (attempt (sync_dir mr)) (\<lambda>_.
           bnd (gc_unreferenced_blobs x st br) (\<lambda>_. ret (Some kept)))))))"

end
