(* ===== verification/Store_Laws.thy ===== *)
theory Store_Laws
  imports Store File_Ops
begin

text \<open>
  The invariant of a store and what every operation of \<open>store.rs\<close> keeps of it. A store is seen through
  the map of its visible files. It is well formed when a blob stored under a hash decodes to content
  with that hash, when every manifest is well formed and all its blobs are there, and when every
  version an accepted index lists has its manifest. The lemmas carry this invariant, together with the
  frame of everything that belongs to other sources, through each step of a backup, whatever fails and
  wherever the process dies.
\<close>

section \<open>Layout\<close>

definition src_dir :: "path \<Rightarrow> string \<Rightarrow> path" where
  "src_dir d sid = sources_root (store_root d) @ [sid]"

definition index_file :: "path \<Rightarrow> string \<Rightarrow> path" where
  "index_file d sid = src_dir d sid @ [''index.json'']"

definition report_file :: "path \<Rightarrow> string \<Rightarrow> path" where
  "report_file d sid = src_dir d sid @ [''last_scan_report.json'']"

definition manifests_dir :: "path \<Rightarrow> string \<Rightarrow> path" where
  "manifests_dir d sid = src_dir d sid @ [''manifests'']"

definition manifest_file :: "path \<Rightarrow> string \<Rightarrow> string \<Rightarrow> path" where
  "manifest_file d sid v = manifest_path (manifests_dir d sid) v"

definition blob_file :: "ext \<Rightarrow> path \<Rightarrow> string \<Rightarrow> path" where
  "blob_file x d h = blob_path x (blobs_root (store_root d)) h"

text \<open>Version identifiers, up to their length.\<close>

definition version_name :: "string \<Rightarrow> bool" where
  "version_name v \<longleftrightarrow> v \<noteq> [] \<and> list_all (\<lambda>c. is_ascii_alphanumeric c \<or> c = CHR ''-'' \<or> c = CHR ''_'') v"

lemma valid_version_name: "validate_version_id v = Inr () \<Longrightarrow> version_name v"
  by (auto simp: validate_version_id_def version_name_def split: if_splits)

lemma version_name_chars: "version_name v \<Longrightarrow> CHR ''/'' \<notin> set v \<and> CHR ''.'' \<notin> set v"
proof -
  have "\<not> is_ascii_alphanumeric CHR ''/''" "\<not> is_ascii_alphanumeric CHR ''.''"
    by (simp_all add: is_ascii_alphanumeric_def)
  then show "version_name v \<Longrightarrow> ?thesis" by (auto simp: version_name_def list_all_iff)
qed

lemma version_name_file:
  assumes "version_name v"
  shows "good_name (json_name v)" "\<not> is_temp_name (json_name v)" "file_extension (json_name v) = Some ''json''"
proof -
  obtain c r where v: "v = c # r" using assms by (cases v) (auto simp: version_name_def)
  with version_name_chars [OF assms] show "good_name (json_name v)" "\<not> is_temp_name (json_name v)"
    by (auto simp: good_name_def json_name_def is_temp_name_def)
  show "file_extension (json_name v) = Some ''json''"
    using assms by (simp add: file_extension_def json_name_def version_name_def)
qed

lemmas layout_defs = src_dir_def index_file_def report_file_def manifests_dir_def manifest_file_def
  manifest_path_def blob_file_def sources_root_def blobs_root_def store_root_def

lemma good_store: "good_path d \<Longrightarrow> good_path (store_root d)"
  by (simp add: store_root_def STORE_DIR_def good_name_def)

lemma good_src_dir [intro]: "good_path d \<Longrightarrow> good_name sid \<Longrightarrow> good_path (src_dir d sid)"
  using good_store by (simp add: src_dir_def sources_root_def good_name_def)

lemma good_blobs_root [intro]: "good_path d \<Longrightarrow> good_path (blobs_root (store_root d))"
  using good_store by (simp add: blobs_root_def good_name_def)

lemma prefix_store: "prefix d (src_dir d sid)" "prefix d (blobs_root (store_root d))"
  by (simp_all add: layout_defs)

lemma target_source_file:
  assumes "good_path d" and "good_name sid" and "good_name n" and "\<not> is_temp_name n"
  shows "target d (src_dir d sid @ [n])"
  using assms prefix_store(1) [of d sid] good_src_dir [OF assms(1,2)] by (simp add: target_def)

lemma target_index: "good_path d \<Longrightarrow> good_name sid \<Longrightarrow> target d (index_file d sid)"
  unfolding index_file_def by (rule target_source_file) (simp_all add: good_name_def is_temp_name_def)

lemma target_report: "good_path d \<Longrightarrow> good_name sid \<Longrightarrow> target d (report_file d sid)"
  unfolding report_file_def by (rule target_source_file) (simp_all add: good_name_def is_temp_name_def)

lemma target_manifest:
  assumes "good_path d" and "good_name sid" and "version_name v"
  shows "target d (manifest_file d sid v)"
proof -
  have "good_path (manifests_dir d sid)" using good_src_dir [OF assms(1,2)] by (simp add: manifests_dir_def good_name_def)
  moreover have "prefix d (manifests_dir d sid)" using prefix_store(1) [of d sid] by (simp add: manifests_dir_def)
  ultimately show ?thesis
    using version_name_file [OF assms(3)] by (simp add: target_def manifest_file_def manifest_path_def)
qed

lemma target_blob:
  assumes "sha_ok x" and "good_path d"
  shows "target d (blob_file x d h)"
proof -
  have "prefix d (butlast (blob_file x d h))" by (simp add: blob_file_def blob_path_def layout_defs butlast_append)
  moreover have "blob_file x d h \<noteq> []" by (simp add: blob_file_def blob_path_def)
  ultimately show ?thesis
    using good_blob_path [OF assms(1) good_blobs_root [OF assms(2)], of h] by (simp add: target_def blob_file_def)
qed

lemma blob_file_not [simp]:
  "blob_file x d h \<noteq> index_file d sid" "blob_file x d h \<noteq> manifest_file d sid v" "blob_file x d h \<noteq> report_file d sid"
  "index_file d sid \<noteq> blob_file x d h" "manifest_file d sid v \<noteq> blob_file x d h" "report_file d sid \<noteq> blob_file x d h"
  by (simp_all add: blob_path_def layout_defs)

lemma source_files_distinct [simp]:
  "index_file d sid \<noteq> manifest_file d sid' v" "manifest_file d sid' v \<noteq> index_file d sid"
  "report_file d sid \<noteq> manifest_file d sid' v" "manifest_file d sid' v \<noteq> report_file d sid"
  "report_file d sid \<noteq> index_file d sid'" "index_file d sid' \<noteq> report_file d sid"
  by (simp_all add: layout_defs)

lemma source_files_inj [simp]:
  "index_file d sid = index_file d sid' \<longleftrightarrow> sid = sid'"
  "manifest_file d sid v = manifest_file d sid' v' \<longleftrightarrow> sid = sid' \<and> v = v'"
  by (auto simp: layout_defs)

lemma blob_file_inj: "is_lower_hex_sha256 g \<Longrightarrow> blob_file x d g = blob_file x d h \<longleftrightarrow> g = h"
  unfolding blob_file_def by (auto dest: blob_path_inj)

section \<open>The invariant\<close>

definition backed :: "ext \<Rightarrow> path \<Rightarrow> (path \<Rightarrow> bytes option) \<Rightarrow> (string, manifest_entry) btree \<Rightarrow> bool" where
  "backed x d f es \<longleftrightarrow> entries_ok es \<and>
    (\<forall>k e h. bt_get es k = Some e \<longrightarrow> me_sha256 e = Some h \<longrightarrow> f (blob_file x d h) \<noteq> None)"

definition has_manifest :: "ext \<Rightarrow> path \<Rightarrow> string \<Rightarrow> (path \<Rightarrow> bytes option) \<Rightarrow> string \<Rightarrow> bool" where
  "has_manifest x d sid f v \<longleftrightarrow> (\<exists>raw m. f (manifest_file d sid v) = Some raw \<and> parse_manifest x raw = Some m)"

definition blobs_ok :: "ext \<Rightarrow> blob_codec \<Rightarrow> path \<Rightarrow> (path \<Rightarrow> bytes option) \<Rightarrow> bool" where
  "blobs_ok x cd d f \<longleftrightarrow> (\<forall>h raw. is_lower_hex_sha256 h \<longrightarrow> f (blob_file x d h) = Some raw \<longrightarrow> holds_hash x cd h raw)"

definition manifests_ok :: "ext \<Rightarrow> path \<Rightarrow> (path \<Rightarrow> bytes option) \<Rightarrow> bool" where
  "manifests_ok x d f \<longleftrightarrow> (\<forall>sid v raw m. good_name sid \<longrightarrow> version_name v \<longrightarrow> f (manifest_file d sid v) = Some raw \<longrightarrow>
    parse_manifest x raw = Some m \<longrightarrow> backed x d f (mf_entries m))"

definition indexes_ok :: "ext \<Rightarrow> path \<Rightarrow> (path \<Rightarrow> bytes option) \<Rightarrow> bool" where
  "indexes_ok x d f \<longleftrightarrow> (\<forall>sid raw ix. good_name sid \<longrightarrow> f (index_file d sid) = Some raw \<longrightarrow> parse_index x raw = Some ix \<longrightarrow>
    validate_version_index ix = Inr () \<longrightarrow> (\<forall>v \<in> set (version_ids ix). has_manifest x d sid f v))"

definition store_ok :: "ext \<Rightarrow> blob_codec \<Rightarrow> path \<Rightarrow> (path \<Rightarrow> bytes option) \<Rightarrow> bool" where
  "store_ok x cd d f \<longleftrightarrow> blobs_ok x cd d f \<and> manifests_ok x d f \<and> indexes_ok x d f"

text \<open>
  Everything outside the blobs and the directory of one source is as it was, and the manifests of the
  source are immutable: one that was there is the same or gone.
\<close>

definition framed :: "path \<Rightarrow> string \<Rightarrow> (path \<Rightarrow> bytes option) \<Rightarrow> (path \<Rightarrow> bytes option) \<Rightarrow> bool" where
  "framed d sid f g \<longleftrightarrow> (\<forall>p. \<not> prefix (src_dir d sid) p \<longrightarrow> \<not> prefix (blobs_root (store_root d)) p \<longrightarrow> g p = f p)
    \<and> (\<forall>v raw. f (manifest_file d sid v) = Some raw \<longrightarrow> g (manifest_file d sid v) \<in> {None, Some raw})"

lemma store_ok_empty: "store_ok x cd d (\<lambda>_. None)"
  by (simp add: store_ok_def blobs_ok_def manifests_ok_def indexes_ok_def)

lemma framed_refl [simp]: "framed d sid f f"
  by (simp add: framed_def)

lemma prefix_source_files [simp]:
  "prefix (src_dir d sid) (index_file d sid)" "prefix (src_dir d sid) (report_file d sid)"
  "prefix (src_dir d sid) (manifest_file d sid v)"
  by (simp_all add: index_file_def report_file_def manifest_file_def manifests_dir_def manifest_path_def)

lemma prefix_blob_file [simp]: "prefix (blobs_root (store_root d)) (blob_file x d h)"
  by (simp add: blob_file_def blob_path_def)

lemma framed_upd:
  assumes "framed d sid f g" and "prefix (src_dir d sid) p \<or> prefix (blobs_root (store_root d)) p"
    and "b = None \<or> (\<forall>v. p \<noteq> manifest_file d sid v)"
  shows "framed d sid f (g(p := b))"
  using assms unfolding framed_def by auto

lemma framed_new:
  assumes "framed d sid f g" and "g (manifest_file d sid v) = None" and "f (manifest_file d sid v) = None"
  shows "framed d sid f (g(manifest_file d sid v := b))"
  using assms unfolding framed_def by auto

lemma backed_mono:
  "backed x d f es \<Longrightarrow> (\<And>h. f (blob_file x d h) \<noteq> None \<Longrightarrow> g (blob_file x d h) \<noteq> None) \<Longrightarrow> backed x d g es"
  by (auto simp: backed_def)

lemma backed_cong: "(\<And>h. g (blob_file x d h) = f (blob_file x d h)) \<Longrightarrow> backed x d g es = backed x d f es"
  by (simp add: backed_def)

lemma has_manifest_other:
  "p \<noteq> manifest_file d sid v \<Longrightarrow> has_manifest x d sid (f(p := b)) v = has_manifest x d sid f v"
  by (simp add: has_manifest_def)

section \<open>How each write keeps the invariant\<close>

lemma store_ok_blob:
  assumes "store_ok x cd d f" and "is_lower_hex_sha256 h" and "holds_hash x cd h raw"
  shows "store_ok x cd d (f(blob_file x d h := Some raw))"
proof -
  have "backed x d (f(blob_file x d h := Some raw)) es" if "backed x d f es" for es
    by (rule backed_mono [OF that]) simp
  with assms show ?thesis
    by (auto simp: store_ok_def blobs_ok_def manifests_ok_def indexes_ok_def has_manifest_def blob_file_inj
        split: if_splits)
qed

lemma store_ok_manifest:
  assumes "store_ok x cd d f" and "parse_manifest x raw = Some m" and "backed x d f (mf_entries m)"
  shows "store_ok x cd d (f(manifest_file d sid v := Some raw))"
proof -
  have "backed x d (f(manifest_file d sid v := Some raw)) es = backed x d f es" for es
    by (rule backed_cong) simp
  moreover have "has_manifest x d sid' (f(manifest_file d sid v := Some raw)) v'" if "has_manifest x d sid' f v'" for sid' v'
    using that assms(2) by (auto simp: has_manifest_def)
  ultimately show ?thesis
    using assms by (auto simp: store_ok_def blobs_ok_def manifests_ok_def indexes_ok_def split: if_splits)
qed

lemma store_ok_index:
  assumes "store_ok x cd d f" and "parse_index x raw = Some ix" and "\<And>v. v \<in> set (version_ids ix) \<Longrightarrow> has_manifest x d sid f v"
  shows "store_ok x cd d (f(index_file d sid := Some raw))"
proof -
  have "backed x d (f(index_file d sid := Some raw)) es = backed x d f es" for es
    by (rule backed_cong) simp
  moreover have "has_manifest x d sid' (f(index_file d sid := Some raw)) v = has_manifest x d sid' f v" for sid' v
    by (simp add: has_manifest_other)
  ultimately show ?thesis
    using assms by (auto simp: store_ok_def blobs_ok_def manifests_ok_def indexes_ok_def)
qed

lemma store_ok_report:
  assumes "store_ok x cd d f"
  shows "store_ok x cd d (f(report_file d sid := Some raw))"
proof -
  have "backed x d (f(report_file d sid := Some raw)) es = backed x d f es" for es
    by (rule backed_cong) simp
  moreover have "has_manifest x d sid' (f(report_file d sid := Some raw)) v = has_manifest x d sid' f v" for sid' v
    by (simp add: has_manifest_other)
  ultimately show ?thesis
    using assms by (auto simp: store_ok_def blobs_ok_def manifests_ok_def indexes_ok_def)
qed

lemma store_ok_prune:
  assumes "store_ok x cd d f"
    and "\<And>raw ix. f (index_file d sid) = Some raw \<Longrightarrow> parse_index x raw = Some ix \<Longrightarrow> v \<notin> set (version_ids ix)"
  shows "store_ok x cd d (f(manifest_file d sid v := None))"
proof -
  have "backed x d (f(manifest_file d sid v := None)) es = backed x d f es" for es
    by (rule backed_cong) simp
  with assms show ?thesis
    by (auto simp: store_ok_def blobs_ok_def manifests_ok_def indexes_ok_def has_manifest_def split: if_splits)
qed

text \<open>A blob no manifest refers to can go.\<close>

definition referenced :: "ext \<Rightarrow> path \<Rightarrow> (path \<Rightarrow> bytes option) \<Rightarrow> string \<Rightarrow> bool" where
  "referenced x d f h \<longleftrightarrow> (\<exists>sid v raw m k e. good_name sid \<and> version_name v \<and> f (manifest_file d sid v) = Some raw \<and>
    parse_manifest x raw = Some m \<and> bt_get (mf_entries m) k = Some e \<and> me_sha256 e = Some h)"

lemma store_ok_collect:
  assumes "store_ok x cd d f" and "\<And>h. p = blob_file x d h \<Longrightarrow> \<not> referenced x d f h"
    and "prefix (blobs_root (store_root d)) p"
  shows "store_ok x cd d (f(p := None))"
proof -
  have np: "p \<noteq> manifest_file d sid v" "p \<noteq> index_file d sid" for sid v
    using assms(3) by (auto simp: layout_defs prefix_def)
  have "backed x d (f(p := None)) (mf_entries m)"
    if "good_name sid" "version_name v" "f (manifest_file d sid v) = Some raw" "parse_manifest x raw = Some m" for sid v raw m
  proof -
    have "backed x d f (mf_entries m)" using assms(1) that by (auto simp: store_ok_def manifests_ok_def)
    moreover have "p \<noteq> blob_file x d h" if "bt_get (mf_entries m) k = Some e" "me_sha256 e = Some h" for k e h
      using assms(2) [of h] that \<open>good_name sid\<close> \<open>version_name v\<close> \<open>f (manifest_file d sid v) = Some raw\<close>
        \<open>parse_manifest x raw = Some m\<close> unfolding referenced_def by blast
    ultimately show ?thesis by (auto simp: backed_def)
  qed
  with assms(1) np show ?thesis
    by (auto simp: store_ok_def blobs_ok_def manifests_ok_def indexes_ok_def has_manifest_def split: if_splits)
qed

section \<open>Steps that keep the invariant\<close>

text \<open>
  \<open>keeps c Q\<close>: the visible files form a well-formed store that differs from the initial one only where
  the source may write, and they satisfy \<open>Q\<close>. The context \<open>c\<close> fixes the libraries, the codec, the
  destination, the source and the initial files.
\<close>

record store_context =
  sc_ext :: ext
  sc_codec :: blob_codec
  sc_dest :: path
  sc_source :: string
  sc_files :: "path \<Rightarrow> bytes option"

definition context_ok :: "store_context \<Rightarrow> bool" where
  "context_ok c \<longleftrightarrow> sha_ok (sc_ext c) \<and> temp_ok (sc_ext c) \<and> manifest_json_ok (sc_ext c) \<and> index_json_ok (sc_ext c)
    \<and> good_path (sc_dest c) \<and> good_name (sc_source c)"

definition good_files :: "store_context \<Rightarrow> (path \<Rightarrow> bytes option) \<Rightarrow> bool" where
  "good_files c g \<longleftrightarrow> store_ok (sc_ext c) (sc_codec c) (sc_dest c) g \<and> framed (sc_dest c) (sc_source c) (sc_files c) g"

text \<open>
  What goes with every state: existence tests tell the truth, and nothing but a file sits where a blob
  belongs.
\<close>

definition blob_slots :: "path \<Rightarrow> path set" where
  "blob_slots d = {p. \<exists>a h. p = blobs_root (store_root d) @ [a, h]}"

definition fair :: "path \<Rightarrow> world \<Rightarrow> bool" where
  "fair d w \<longleftrightarrow> sighted w \<and> only_files (blob_slots d) (fs w)"

lemma stable_fair [simp]: "stable (fair d)"
  unfolding fair_def by (intro stable_conj stable_sighted stable_fs)

lemma blob_file_slot: "blob_file x d h \<in> blob_slots d"
  by (auto simp: blob_file_def blob_path_def blob_slots_def)

text \<open>The two relations every step of the store keeps besides its effect on files.\<close>

definition orderly :: "path \<Rightarrow> world \<Rightarrow> world \<Rightarrow> bool" where
  "orderly d w v \<longleftrightarrow> spends w v \<and> dirless d (blob_slots d) w v"

interpretation ord: time_preorder "orderly d" for d
  by unfold_locales
    (use sp.step_refl sp.step_trans sp.still_step dl.step_refl dl.step_trans dl.still_step in
      \<open>unfold orderly_def, blast+\<close>)

lemma moves_orderly: "moves spends m \<Longrightarrow> moves (dirless d (blob_slots d)) m \<Longrightarrow> moves (orderly d) m"
  by (simp add: moves_def orderly_def)

interpretation ordf: file_ops "orderly d" d "\<lambda>p. p \<notin> blob_slots d" for d
  by unfold_locales
    (auto intro!: moves_orderly moves_spends_prims dlf.mkdir_law dlf.append_law dlf.unlink_law dlf.persist_law dlf.temp_law)

lemma triple_fair:
  assumes "triple P m Q E" and "moves (orderly d) m" and "\<And>w. P w \<Longrightarrow> tame d (fs w)"
  shows "triple (\<lambda>w. P w \<and> fair d w) m (\<lambda>a w. Q a w \<and> fair d w) (\<lambda>w. E w \<and> fair d w)"
proof -
  have "fair d v" if "tame d (fs w)" "fair d w" "orderly d w v" for w v
    using that set_mono_suffix [of "events v" "events w"] unfolding fair_def sighted_def orderly_def dirless_def spends_def by blast
  then have "triple (\<lambda>w. tame d (fs w) \<and> fair d w) m (\<lambda>_. fair d) (fair d)"
    by (intro triple_moves [OF assms(2)]) auto
  note tr = this
  show ?thesis by (rule triple_conj [OF triple_pre [OF assms(1)] triple_pre [OF tr]]) (simp_all add: assms(3))
qed

lemma triple_sees_fair:
  assumes "triple (sees d g) m Q E" and "moves (orderly d) m"
  shows "triple (\<lambda>w. sees d g w \<and> fair d w) m (\<lambda>a w. Q a w \<and> fair d w) (\<lambda>w. E w \<and> fair d w)"
  by (rule triple_fair [OF assms]) (simp add: sees_def)

definition keeps :: "store_context \<Rightarrow> ((path \<Rightarrow> bytes option) \<Rightarrow> bool) \<Rightarrow> world \<Rightarrow> bool" where
  "keeps c Q w \<longleftrightarrow> (\<exists>g. good_files c g \<and> Q g \<and> sees (sc_dest c) g w) \<and> fair (sc_dest c) w"

abbreviation kept :: "store_context \<Rightarrow> world \<Rightarrow> bool" where
  "kept c \<equiv> keeps c (\<lambda>_. True)"

lemma keepsI: "good_files c g \<Longrightarrow> Q g \<Longrightarrow> sees (sc_dest c) g w \<Longrightarrow> fair (sc_dest c) w \<Longrightarrow> keeps c Q w"
  unfolding keeps_def by blast

lemma keepsE:
  assumes "keeps c Q w"
  obtains g where "good_files c g" "Q g" "sees (sc_dest c) g w" "fair (sc_dest c) w"
  using assms unfolding keeps_def by blast

lemma keeps_mono: "keeps c Q w \<Longrightarrow> (\<And>g. good_files c g \<Longrightarrow> Q g \<Longrightarrow> Q' g) \<Longrightarrow> keeps c Q' w"
  unfolding keeps_def by blast

lemma keeps_kept: "keeps c Q w \<Longrightarrow> kept c w"
  by (erule keeps_mono) simp

lemma stable_keeps [simp]: "stable (keeps c Q)"
proof -
  have "stable (\<lambda>w. (\<exists>g. (good_files c g \<and> Q g) \<and> sees (sc_dest c) g w) \<and> fair (sc_dest c) w)"
    by (intro stable_conj stable_ex stable_const stable_sees stable_fair)
  then show ?thesis by (simp add: keeps_def [abs_def] conj_assoc)
qed

lemma triple_keep_still: "moves still m \<Longrightarrow> triple (keeps c Q) m (\<lambda>_. keeps c Q) (kept c)"
  by (rule triple_conseq [OF triple_still [OF stable_keeps [of c Q]]]) (auto intro: keeps_kept)

text \<open>A step that changes nothing may still learn something about the files.\<close>

lemma triple_keep_learn_upto:
  assumes "moves still m" and "\<And>g. Q g \<Longrightarrow> Z g"
    and "\<And>w g a v. good_files c g \<Longrightarrow> Q g \<Longrightarrow> sees (sc_dest c) g w \<Longrightarrow> fair (sc_dest c) w \<Longrightarrow> m w = (Ok a, v) \<Longrightarrow> R a g"
  shows "triple (keeps c Q) m (\<lambda>a. keeps c (R a)) (keeps c Z)"
proof (rule tripleI)
  fix w a v assume w: "keeps c Q w" and m: "m w = (Ok a, v)"
  from w obtain g where g: "good_files c g" "Q g" "sees (sc_dest c) g w" "fair (sc_dest c) w" by (rule keepsE)
  from keepsI [of c g "R a", OF g(1) assms(3) [OF g m] g(3,4)]
  show "keeps c (R a) v" by (rule stableD [OF stable_keeps _ movesD [OF assms(1) m]])
qed (auto intro: stableD [OF stable_keeps keeps_mono [OF _ assms(2)] movesD [OF assms(1)]])

lemmas triple_keep_learn = triple_keep_learn_upto [where Z = "\<lambda>_. True", OF _ TrueI]

lemma triple_keep_still_upto:
  "moves still m \<Longrightarrow> (\<And>g. Q g \<Longrightarrow> Z g) \<Longrightarrow> triple (keeps c Q) m (\<lambda>_. keeps c Q) (keeps c Z)"
  by (rule triple_keep_learn_upto)

text \<open>From a step described for one set of visible files to a step on every well-formed store.\<close>

lemma triple_keeps:
  assumes "\<And>g. good_files c g \<Longrightarrow> Q g \<Longrightarrow> triple (sees (sc_dest c) g) m
      (\<lambda>a w. \<exists>g'. good_files c g' \<and> R a g' \<and> sees (sc_dest c) g' w)
      (\<lambda>w. \<exists>g'. good_files c g' \<and> E g' \<and> sees (sc_dest c) g' w)"
    and "moves (orderly (sc_dest c)) m"
  shows "triple (keeps c Q) m (\<lambda>a. keeps c (R a)) (keeps c E)"
proof (rule tripleI)
  fix w a v assume "keeps c Q w" and m: "m w = (Ok a, v)"
  from this(1) obtain g where g: "good_files c g" "Q g" "sees (sc_dest c) g w" "fair (sc_dest c) w" by (rule keepsE)
  from triple_Ok [OF triple_sees_fair [OF assms(1) [OF g(1,2)] assms(2)] _ m] g(3,4)
  show "keeps c (R a) v" by (simp add: keeps_def)
next
  fix w e v assume "keeps c Q w" and m: "m w = (Err e, v)"
  from this(1) obtain g where g: "good_files c g" "Q g" "sees (sc_dest c) g w" "fair (sc_dest c) w" by (rule keepsE)
  from triple_Err [OF triple_sees_fair [OF assms(1) [OF g(1,2)] assms(2)] _ m] g(3,4)
  show "keeps c E v" by (simp add: keeps_def)
next
  fix w v assume "keeps c Q w" and m: "m w = (Halt, v)"
  from this(1) obtain g where g: "good_files c g" "Q g" "sees (sc_dest c) g w" "fair (sc_dest c) w" by (rule keepsE)
  from triple_Halt [OF triple_sees_fair [OF assms(1) [OF g(1,2)] assms(2)] _ m] g(3,4)
  show "keeps c E v" by (simp add: keeps_def)
qed

lemma triple_keep_mkdirs:
  assumes "in_region (sc_dest c) p" and "ordf.okdirs (sc_dest c) p"
  shows "triple (keeps c Q) (create_dir_all_durable p base) (\<lambda>_. keeps c Q) (kept c)"
  by (rule triple_keeps [where R = "\<lambda>_. Q" and E = "\<lambda>_. True", OF
        triple_conseq [OF triple_unseen [OF moves_within_create_dir_all_durable [OF assms(1)]]]
        ordf.moves_create_dir_all_durable [OF assms]]) auto

lemma triple_keep_write:
  assumes "context_ok c" and "target (sc_dest c) p" and "ordf.okdirs (sc_dest c) (butlast p)"
    and "\<And>g. good_files c g \<Longrightarrow> Q g \<Longrightarrow> good_files c (g(p := Some raw)) \<and> Q' (g(p := Some raw))"
  shows "triple (keeps c Q) (write_json_atomic_durable (sc_ext c) p raw base) (\<lambda>_. keeps c Q') (kept c)"
proof -
  have t: "temp_ok (sc_ext c)" using assms(1) by (simp add: context_ok_def)
  show ?thesis
  proof (rule triple_keeps [OF _ ordf.moves_write_json [OF t assms(2,3)]])
    fix g assume g: "good_files c g" "Q g"
    show "triple (sees (sc_dest c) g) (write_json_atomic_durable (sc_ext c) p raw base)
        (\<lambda>a w. \<exists>g'. good_files c g' \<and> Q' g' \<and> sees (sc_dest c) g' w)
        (\<lambda>w. \<exists>g'. good_files c g' \<and> True \<and> sees (sc_dest c) g' w)"
      by (rule triple_conseq [OF triple_write_json [OF t assms(2)]]) (use assms(4) [OF g] g in blast)+
  qed
qed

lemma triple_keep_blob:
  assumes "context_ok c" and "is_lower_hex_sha256 h"
    and "ordf.okdirs (sc_dest c) (butlast (blob_file (sc_ext c) (sc_dest c) h))"
    and "\<And>g b. Q g \<Longrightarrow> Q (g(blob_file (sc_ext c) (sc_dest c) h := Some b))"
  shows "triple (keeps c Q) (write_blob (sc_ext c) (sc_codec c) src (blob_file (sc_ext c) (sc_dest c) h) h tmo delays base)
    (\<lambda>_. keeps c (\<lambda>g. Q g \<and> g (blob_file (sc_ext c) (sc_dest c) h) \<noteq> None)) (keeps c Q)"
proof -
  let ?x = "sc_ext c" and ?d = "sc_dest c"
  let ?p = "blob_file ?x ?d h"
  have ok: "temp_ok ?x" "target ?d ?p" using assms(1) target_blob by (auto simp: context_ok_def)
  have step: "good_files c (g(?p := Some b))" if "good_files c g" "holds_hash ?x (sc_codec c) h b" for g b
    using that store_ok_blob [OF _ assms(2)] framed_upd by (auto simp: good_files_def)
  show ?thesis
  proof (rule triple_keeps [OF _ ordf.moves_write_blob [OF ok assms(3)]])
    fix g assume g: "good_files c g" "Q g"
    have "\<exists>g'. good_files c g' \<and> (Q g' \<and> g' ?p \<noteq> None) \<and> sees ?d g' w"
      if "replaced ?d g ?p (holds_hash ?x (sc_codec c) h) w" for w
    proof -
      from that obtain b where b: "holds_hash ?x (sc_codec c) h b" "sees ?d (g(?p := Some b)) w"
        by (auto simp: replaced_def)
      with step [OF g(1) b(1)] assms(4) [OF g(2), of b] show ?thesis by (intro exI [of _ "g(?p := Some b)"]) simp
    qed
    then show "triple (sees ?d g) (write_blob ?x (sc_codec c) src ?p h tmo delays base)
        (\<lambda>a w. \<exists>g'. good_files c g' \<and> (Q g' \<and> g' ?p \<noteq> None) \<and> sees ?d g' w)
        (\<lambda>w. \<exists>g'. good_files c g' \<and> Q g' \<and> sees ?d g' w)"
      by (intro triple_conseq [OF triple_write_blob [OF ok]]) (use g in blast)+
  qed
qed

lemma triple_keep_remove:
  assumes "in_region (sc_dest c) p" and "\<not> temp_path p"
    and "\<And>g. good_files c g \<Longrightarrow> Q g \<Longrightarrow> good_files c (g(p := None)) \<and> Q (g(p := None))"
  shows "triple (keeps c Q) (remove_file p) (\<lambda>_. keeps c Q) (keeps c Q)"
proof (rule triple_keeps [OF _ ordf.unlink_law [OF assms(1)]])
  fix g assume g: "good_files c g" "Q g"
  show "triple (sees (sc_dest c) g) (remove_file p)
    (\<lambda>_ w. \<exists>g'. good_files c g' \<and> Q g' \<and> sees (sc_dest c) g' w) (\<lambda>w. \<exists>g'. good_files c g' \<and> Q g' \<and> sees (sc_dest c) g' w)"
    unfolding remove_file_def
  proof (rule triple_call)
    fix w a G and v :: world
    assume w: "sees (sc_dest c) g w" and G: "f_unlink p (fs w) = Inr (a, G)" and v: "fs v = G"
    from w have "tame (sc_dest c) (fs w)" by (simp add: sees_def)
    from f_unlink_confined [OF this assms(1) G] w v assms(2) have "sees (sc_dest c) (g(p := None)) v"
      by (auto simp: sees_def)
    with assms(3) [OF g] show "\<exists>g'. good_files c g' \<and> Q g' \<and> sees (sc_dest c) g' v" by blast
  qed (use g in auto)
qed

lemma triple_keep_try_remove:
  assumes "in_region (sc_dest c) p" and "\<not> temp_path p"
    and "\<And>g. good_files c g \<Longrightarrow> Q g \<Longrightarrow> good_files c (g(p := None)) \<and> Q (g(p := None))"
  shows "triple (keeps c Q) (bnd (attempt (remove_file p)) (\<lambda>_. ret ())) (\<lambda>_. keeps c Q) (kept c)"
proof (rule triple_bnd [where Q = "\<lambda>_. keeps c Q"])
  show "triple (keeps c Q) (attempt (remove_file p)) (\<lambda>_. keeps c Q) (kept c)"
    by (rule triple_conseq [OF triple_attempt [OF triple_keep_remove [OF assms]]])
      (auto intro: keeps_kept split: sum.splits)
qed (auto intro: triple_ret)

lemma triple_fold_done:
  assumes "\<And>y seen a. y \<in> set ys \<Longrightarrow> triple (I seen a) (f y a) (I (insert y seen)) E"
  shows "triple (I seen a) (fold_act f ys a) (I (seen \<union> set ys)) E"
  using assms
proof (induction ys arbitrary: seen a)
  case (Cons y ys)
  have "triple (I (insert y seen) b) (fold_act f ys b) (I (insert y seen \<union> set ys)) E" for b
    by (rule Cons.IH) (simp add: Cons.prems)
  then have "triple (I (insert y seen) b) (fold_act f ys b) (I (seen \<union> set (y # ys))) E" for b
    by simp
  then show ?case
    unfolding fold_act.simps by (rule triple_bnd [rotated]) (rule Cons.prems, simp)
qed (auto intro: triple_ret)

section \<open>The blobs of a snapshot\<close>

text \<open>
  What a backup knows of the committed state: something about the other files, and the entries of the
  newest version.
\<close>

definition listed :: "store_context \<Rightarrow> version_index \<Rightarrow> (path \<Rightarrow> bytes option) \<Rightarrow> bool" where
  "listed c ix g \<longleftrightarrow> (\<forall>v \<in> set (version_ids ix). has_manifest (sc_ext c) (sc_dest c) (sc_source c) g v)"

definition blob_stable :: "store_context \<Rightarrow> ((path \<Rightarrow> bytes option) \<Rightarrow> bool) \<Rightarrow> bool" where
  "blob_stable c L \<longleftrightarrow> (\<forall>g x h b. L g \<longrightarrow> L (g(blob_file x (sc_dest c) h := Some b)))"

lemma blob_stable_listed: "blob_stable c (listed c ix)"
  by (simp add: blob_stable_def listed_def has_manifest_other)

definition known ::
  "store_context \<Rightarrow> ((path \<Rightarrow> bytes option) \<Rightarrow> bool) \<Rightarrow> manifest option \<Rightarrow> (path \<Rightarrow> bytes option) \<Rightarrow> bool" where
  "known c L prev g \<longleftrightarrow> L g \<and> (case prev of None \<Rightarrow> True | Some p \<Rightarrow> backed (sc_ext c) (sc_dest c) g (mf_entries p))"

definition hash_present :: "store_context \<Rightarrow> (path \<Rightarrow> bytes option) \<Rightarrow> manifest_entry \<Rightarrow> bool" where
  "hash_present c g e \<longleftrightarrow> (\<forall>h. me_sha256 e = Some h \<longrightarrow> g (blob_file (sc_ext c) (sc_dest c) h) \<noteq> None)"

text \<open>
  Between two files of the pass: the entries processed so far have their blobs, and only the files of
  the original list carry a hash.
\<close>

definition pass_inv ::
  "store_context \<Rightarrow> ((path \<Rightarrow> bytes option) \<Rightarrow> bool) \<Rightarrow> manifest option \<Rightarrow> string set \<Rightarrow> (string, manifest_entry) btree \<Rightarrow> string set
    \<Rightarrow> (path \<Rightarrow> bytes option) \<Rightarrow> bool" where
  "pass_inv c L prev all es seen g \<longleftrightarrow> entries_ok es \<and> known c L prev g
    \<and> (\<forall>k e. bt_get es k = Some e \<longrightarrow> me_sha256 e \<noteq> None \<longrightarrow> k \<in> all)
    \<and> (\<forall>k \<in> seen. \<forall>e. bt_get es k = Some e \<longrightarrow> hash_present c g e)"

lemma known_mono:
  "blob_stable c L \<Longrightarrow> known c L prev g \<Longrightarrow> known c L prev (g(blob_file x (sc_dest c) h := Some b))"
  by (auto simp: known_def blob_stable_def elim!: backed_mono split: option.splits)

lemma hash_present_mono: "hash_present c g e \<Longrightarrow> hash_present c (g(blob_file x (sc_dest c) h := Some b)) e"
  by (simp add: hash_present_def)

lemma pass_inv_mono:
  "blob_stable c L \<Longrightarrow> pass_inv c L prev all es seen g \<Longrightarrow> pass_inv c L prev all es seen (g(blob_file x (sc_dest c) h := Some b))"
  by (auto simp: pass_inv_def known_mono hash_present_mono)

lemma pass_inv_done:
  "pass_inv c L prev all es seen g \<Longrightarrow> (\<And>e. bt_get es k = Some e \<Longrightarrow> hash_present c g e) \<Longrightarrow> pass_inv c L prev all es (insert k seen) g"
  by (auto simp: pass_inv_def)

lemma pass_inv_backed:
  "pass_inv c L prev all es all g \<Longrightarrow> known c L prev g \<and> backed (sc_ext c) (sc_dest c) g es"
  unfolding pass_inv_def backed_def hash_present_def by blast

lemma pass_inv_remove: "pass_inv c L prev all es seen g \<Longrightarrow> pass_inv c L prev all (bt_remove k es) (insert k seen) g"
  by (auto simp: pass_inv_def entries_ok_remove bt.get_del split: if_splits)

lemma pass_inv_fall_back:
  assumes "pass_inv c L prev all es seen g" and "k \<in> all"
  shows "pass_inv c L prev all (fall_back prev k es) (insert k seen) g"
proof (cases "prev_get prev k")
  case None
  then have "fall_back prev k es = bt_remove k es" by (auto simp: fall_back_def prev_get_def split: option.splits)
  with pass_inv_remove [OF assms(1)] show ?thesis by simp
next
  case (Some pe)
  then have fb: "fall_back prev k es = bt_insert k pe es" by (auto simp: fall_back_def prev_get_def split: option.splits)
  have "entry_ok k pe" "hash_present c g pe"
    using assms(1) Some
    by (auto simp: pass_inv_def known_def prev_get_def backed_def hash_present_def entries_ok_get split: option.splits)
  with assms show ?thesis
    by (auto simp: fb pass_inv_def entries_ok_insert bt.get_put split: if_splits)
qed

lemma okdirs_short: "length p < length d + 6 \<Longrightarrow> ordf.okdirs d p"
  unfolding ordf.okdirs_def by (auto simp: blob_slots_def layout_defs dest!: prefix_length_le)

lemma okdirs_blob: "ordf.okdirs d (butlast (blob_file x d h))"
  by (rule okdirs_short) (simp add: blob_path_def layout_defs)

lemma okdirs_source: "ordf.okdirs d (src_dir d sid)" "ordf.okdirs d (manifests_dir d sid)"
  by (rule okdirs_short, simp add: layout_defs)+

lemma okdirs_roots: "ordf.okdirs d (blobs_root (store_root d))"
  by (rule okdirs_short) (simp add: layout_defs)

lemma only_files_file:
  "only_files B F \<Longrightarrow> p \<in> B \<Longrightarrow> node_at F p \<noteq> None \<Longrightarrow> file_at F p \<noteq> None"
  unfolding only_files_def file_at_def by (fastforce split: node.splits)

lemma triple_keep_blob_exists:
  assumes "context_ok c"
  shows "triple (keeps c Q) (path_exists (blob_file (sc_ext c) (sc_dest c) h))
    (\<lambda>e. keeps c (\<lambda>g. Q g \<and> (e \<longrightarrow> g (blob_file (sc_ext c) (sc_dest c) h) \<noteq> None))) (kept c)"
proof (rule triple_keep_learn [OF moves_still_prims(1)])
  let ?p = "blob_file (sc_ext c) (sc_dest c) h"
  have T: "target (sc_dest c) ?p" using assms by (intro target_blob) (simp_all add: context_ok_def)
  fix w g e v assume g: "good_files c g" "Q g" "sees (sc_dest c) g w" "fair (sc_dest c) w"
    and m: "path_exists ?p w = (Ok e, v)"
  have "g ?p \<noteq> None" if e
  proof -
    have "node_at (fs w) ?p \<noteq> None"
      using path_exists_sighted [OF _ _ targetD(4) [OF T] m] g(3,4) that by (auto simp: sees_def fair_def)
    then have "file_at (fs w) ?p \<noteq> None"
      using only_files_file blob_file_slot g(4) unfolding fair_def by blast
    with g(3) targetD(6) [OF T] show ?thesis by (auto simp: sees_def)
  qed
  with g(2) show "Q g \<and> (e \<longrightarrow> g ?p \<noteq> None)" by blast
qed

text \<open>A fact the precondition implies may be used.\<close>

lemma triple_given: "(\<And>w. P w \<Longrightarrow> F) \<Longrightarrow> (F \<Longrightarrow> triple P m Q E) \<Longrightarrow> triple P m Q E"
  by (auto simp: triple_def)

lemma entry_ok_hash: "entry_ok k e \<Longrightarrow> me_sha256 e = Some h \<Longrightarrow> is_lower_hex_sha256 h"
  by (auto simp: entry_ok_def split: manifest_entry_kind.splits)

text \<open>One file of the pass.\<close>

definition pass_context :: "store_context \<Rightarrow> manifest option \<Rightarrow> blob_write_context \<Rightarrow> bool" where
  "pass_context c prev b \<longleftrightarrow> bx_prev b = prev \<and> bx_blobs_root b = blobs_root (store_root (sc_dest c))
    \<and> bx_codec b = sc_codec c"

lemma triple_write_missing_blob:
  assumes "context_ok c" and "pass_context c prev b" and "blob_stable c L" and "rel \<in> all"
  shows "triple (keeps c (pass_inv c L prev all (mf_entries (fst st)) seen)) (write_missing_blob (sc_ext c) b rel st)
    (\<lambda>st'. keeps c (pass_inv c L prev all (mf_entries (fst st')) (insert rel seen))) (kept c)"
proof -
  let ?I = "\<lambda>es seen. pass_inv c L prev all es seen"
  let ?es = "mf_entries (fst st)"
  have B: "bx_prev b = prev" "blob_path (sc_ext c) (bx_blobs_root b) h = blob_file (sc_ext c) (sc_dest c) h"
    "bx_codec b = sc_codec c" for h
    using assms(2) by (simp_all add: pass_context_def blob_file_def)
  have skip: "triple (keeps c (?I ?es seen)) (ret s') (\<lambda>st'. keeps c (?I (mf_entries (fst st')) (insert rel seen))) (kept c)"
    if "\<And>g. ?I ?es seen g \<Longrightarrow> ?I (mf_entries (fst s')) (insert rel seen) g" for s' :: "manifest \<times> blob_write_pass"
    by (rule triple_ret) (use that in \<open>blast intro: keeps_mono\<close>)
  show ?thesis
  proof (cases "bt_get ?es rel")
    case None
    then show ?thesis by (auto simp: write_missing_blob_def intro!: skip pass_inv_done)
  next
    case e: (Some e)
    show ?thesis
    proof (cases "me_sha256 e")
      case None
      with e show ?thesis by (auto simp: write_missing_blob_def intro!: skip pass_inv_remove)
    next
      case h: (Some h)
      let ?p = "blob_file (sc_ext c) (sc_dest c) h" and ?R = "\<lambda>st'. keeps c (?I (mf_entries (fst st')) (insert rel seen))"
      have present: "keeps c (?I ?es (insert rel seen)) w" if "keeps c (\<lambda>g. ?I ?es seen g \<and> g ?p \<noteq> None) w" for w
        using that by (rule keeps_mono) (use e h in \<open>auto simp: hash_present_def intro!: pass_inv_done\<close>)
      have written: "triple (keeps c (?I ?es seen))
          (write_blob (sc_ext c) (sc_codec c) src ?p h tmo delays base) (\<lambda>_. keeps c (?I ?es (insert rel seen)))
          (keeps c (?I ?es seen))" if hex: "is_lower_hex_sha256 h" for src tmo delays base
        by (rule triple_conseq [OF triple_keep_blob [OF assms(1) hex okdirs_blob]])
          (auto intro: present pass_inv_mono [OF assms(3)])
      have hex: "is_lower_hex_sha256 h" if "keeps c (?I ?es seen) w" for w
      proof -
        from that obtain g where "?I ?es seen g" by (rule keepsE)
        then have "entry_ok rel e" using entries_ok_get [OF _ e] by (simp add: pass_inv_def)
        then show ?thesis using h by (rule entry_ok_hash)
      qed
      have go: "triple (keeps c (?I ?es seen))
          (bnd (attempt (write_blob (sc_ext c) (sc_codec c) src ?p h tmo delays base)) (\<lambda>r. case r of
             Inr n \<Rightarrow> ret (fst st, F n)
           | Inl err \<Rightarrow> ret ((fst st)\<lparr>mf_read_failures := L err, mf_entries := fall_back prev rel ?es\<rparr>, G)))
          ?R (kept c)" if "is_lower_hex_sha256 h" for src tmo delays base F L G
        by (rule triple_try [OF written [OF that] triple_ret triple_ret])
          (auto intro: keeps_kept elim!: keeps_mono pass_inv_fall_back [OF _ assms(4)])
      show ?thesis
        unfolding write_missing_blob_def e h option.case Let_def B
      proof (rule triple_given [OF hex triple_bnd [OF triple_keep_blob_exists [OF assms(1)]]])
        fix ex :: bool assume hx: "is_lower_hex_sha256 h"
        have t1: "triple (keeps c (\<lambda>g. ?I ?es seen g \<and> (True \<longrightarrow> g ?p \<noteq> None))) (ret st) ?R (kept c)"
          by (rule triple_ret) (simp add: present)
        show "triple (keeps c (\<lambda>g. ?I ?es seen g \<and> (ex \<longrightarrow> g ?p \<noteq> None)))
          (if ex then ret st else bnd (attempt (write_blob (sc_ext c) (sc_codec c)
             (case wp_kind (bx_watched b) of WatchedFile \<Rightarrow> bx_scan_root b | WatchedDirectory \<Rightarrow> join_rel (bx_scan_root b) rel)
             ?p h (ht_timeout_seconds (cf_hashing (bx_cfg b))) (bx_retry_delays b) (bx_destination_root b))) (\<lambda>r. case r of
              Inr n \<Rightarrow> ret (fst st, (snd st)\<lparr>bw_blobs_written := bw_blobs_written (snd st) + fst n,
                  bw_bytes_written := bw_bytes_written (snd st) + snd n\<rparr>)
            | Inl err \<Rightarrow> ret ((fst st)\<lparr>
                  mf_read_failures := mf_read_failures (fst st)
                    @ [blob_failure rel (length (bx_retry_delays b) + 1) (render err)],
                  mf_entries := fall_back prev rel ?es\<rparr>,
                (snd st)\<lparr>bw_had_read_failures := True\<rparr>))) ?R (kept c)"
          by (cases ex) (use t1 go [OF hx] in simp_all)
      qed
    qed
  qed
qed

lemma triple_blob_pass:
  assumes "context_ok c" and "pass_context c prev b" and "blob_stable c L" and "entries_ok (mf_entries snap)"
  shows "triple (keeps c (known c L prev)) (write_missing_blobs_for_snapshot (sc_ext c) snap b)
    (\<lambda>st. keeps c (\<lambda>g. known c L prev g \<and> backed (sc_ext c) (sc_dest c) g (mf_entries (fst st)))) (kept c)"
proof -
  let ?all = "set (file_rel_paths snap)"
  let ?I = "\<lambda>seen st. keeps c (pass_inv c L prev ?all (mf_entries (fst st)) seen)"
  have "triple (?I {} st) (fold_act (write_missing_blob (sc_ext c) b) (file_rel_paths snap) st)
      (?I ({} \<union> ?all)) (kept c)" for st :: "manifest \<times> blob_write_pass"
    by (rule triple_fold_done) (rule triple_write_missing_blob [OF assms(1,2,3)])
  then show ?thesis
    unfolding write_missing_blobs_for_snapshot_def
  proof (rule triple_conseq)
    have "k \<in> ?all" if "bt_get (mf_entries snap) k = Some e" "me_sha256 e \<noteq> None" for k e
    proof -
      have "entry_ok k e" by (rule entries_ok_get [OF assms(4) that(1)])
      with that(2) have "me_kind e = FileEntry" "me_rel_path e = k"
        unfolding entry_ok_def by (cases "me_kind e"; simp)+
      moreover have "e \<in> set (bt_values (mf_entries snap))"
        using bt_values_iff [of "mf_entries snap" e] assms(4) that(1) by (auto simp: entries_ok_def)
      ultimately show ?thesis unfolding file_rel_paths_def by auto
    qed
    then show "keeps c (known c L prev) w \<Longrightarrow> ?I {} (snap, p) w" for w p
      by (elim keeps_mono) (auto simp: pass_inv_def assms(4))
  qed (auto elim!: keeps_mono dest: pass_inv_backed)
qed

end
