(* ===== verification/Commit_Laws.thy ===== *)
theory Commit_Laws
  imports Store_Laws
begin

text \<open>
  The stages of a backup around the blob pass, each as a step that keeps the invariant of the store:
  reading index and newest manifest, choosing a version identifier, committing manifest, index and
  report, pruning. An index is only written when every version it lists has its manifest, and a
  manifest is only removed once the index on disk no longer lists it.
\<close>

section \<open>Reading the committed state\<close>

text \<open>The index that was read, or an empty one.\<close>

definition index_read :: "store_context \<Rightarrow> version_index \<Rightarrow> (path \<Rightarrow> bytes option) \<Rightarrow> bool" where
  "index_read c ix g \<longleftrightarrow> vx_versions ix = [] \<or>
    (\<exists>raw. g (index_file (sc_dest c) (sc_source c)) = Some raw \<and> parse_index (sc_ext c) raw = Some ix)"

lemma triple_keep_load_index:
  assumes "context_ok c"
  shows "triple (keeps c Q) (load_index (sc_ext c) (src_dir (sc_dest c) (sc_source c)) src)
    (\<lambda>ix. keeps c (\<lambda>g. Q g \<and> index_read c ix g \<and> listed c ix g \<and> validate_version_index ix = Inr ())) (kept c)"
proof (rule triple_keep_learn [OF moves_still_load_index])
  let ?d = "sc_dest c" and ?s = "sc_source c"
  have T: "target ?d (index_file ?d ?s)" using assms by (intro target_index) (simp_all add: context_ok_def)
  fix w g ix v assume g: "good_files c g" "Q g" "sees ?d g w" and m: "load_index (sc_ext c) (src_dir ?d ?s) src w = (Ok ix, v)"
  have tame: "tame ?d (fs w)" and reg: "in_region ?d (src_dir ?d ?s @ [''index.json''])"
    using g(3) targetD(4) [OF T] by (simp_all add: sees_def index_file_def)
  from load_index_value [OF tame reg m]
  have val: "validate_version_index ix = Inr ()" and
    "vx_versions ix = [] \<or> (\<exists>raw. file_at (fs w) (index_file ?d ?s) = Some raw \<and> parse_index (sc_ext c) raw = Some ix)"
    by (auto simp: index_file_def)
  then have c: "index_read c ix g" using g(3) targetD(6) [OF T] by (auto simp: sees_def index_read_def)
  moreover have "listed c ix g"
    using c unfolding index_read_def
  proof
    assume "\<exists>raw. g (index_file ?d ?s) = Some raw \<and> parse_index (sc_ext c) raw = Some ix"
    with g(1) val assms show ?thesis
      by (auto simp: good_files_def store_ok_def indexes_ok_def listed_def context_ok_def)
  qed (simp add: listed_def version_ids_def)
  ultimately show "Q g \<and> index_read c ix g \<and> listed c ix g \<and> validate_version_index ix = Inr ()" using g(2) val by blast
qed

lemma valid_ids: "validate_version_index ix = Inr () \<Longrightarrow> v \<in> set (version_ids ix) \<Longrightarrow> version_name v"
  by (auto simp: validate_version_index_iff version_ids_def intro: valid_version_name)

lemma triple_keep_latest:
  assumes "context_ok c" and val: "validate_version_index ix = Inr ()"
  shows "triple (keeps c L) (latest_manifest (sc_ext c) (manifests_dir (sc_dest c) (sc_source c)) ix)
    (\<lambda>prev. keeps c (\<lambda>g. known c L prev g \<and> prev_ok prev)) (kept c)"
proof (rule triple_keep_learn [OF moves_still_latest_manifest])
  let ?d = "sc_dest c" and ?s = "sc_source c"
  fix w g prev v assume g: "good_files c g" "L g" "sees ?d g w"
    and m: "latest_manifest (sc_ext c) (manifests_dir ?d ?s) ix w = (Ok prev, v)"
  show "known c L prev g \<and> prev_ok prev"
  proof (cases prev)
    case None
    with g(2) show ?thesis by (simp add: known_def prev_ok_def)
  next
    case (Some p)
    let ?v = "vi_id (last (vx_versions ix))"
    have name: "vx_versions ix \<noteq> [] \<Longrightarrow> version_name ?v"
      by (rule valid_ids [OF val]) (simp add: version_ids_def)
    have T: "vx_versions ix \<noteq> [] \<Longrightarrow> target ?d (manifest_file ?d ?s ?v)"
      using assms(1) name by (intro target_manifest) (simp_all add: context_ok_def)
    have tame: "tame ?d (fs w)" using g(3) by (simp add: sees_def)
    from latest_manifest_value [OF tame _ m [unfolded Some]] T targetD(4)
    obtain raw where ne: "vx_versions ix \<noteq> []" and raw: "file_at (fs w) (manifest_file ?d ?s ?v) = Some raw"
      and p: "parse_manifest (sc_ext c) raw = Some p"
      by (auto simp: manifest_file_def)
    from raw g(3) targetD(6) [OF T [OF ne]] have "g (manifest_file ?d ?s ?v) = Some raw" by (simp add: sees_def)
    with g(1) p name [OF ne] assms(1) have "backed (sc_ext c) ?d g (mf_entries p)"
      by (auto simp: good_files_def store_ok_def manifests_ok_def context_ok_def)
    with g(2) Some show ?thesis by (simp add: known_def prev_ok_def backed_def)
  qed
qed

section \<open>Committing\<close>

lemma listed_upd:
  assumes "listed c ix g" and "\<And>v. p \<noteq> manifest_file (sc_dest c) (sc_source c) v"
  shows "listed c ix (g(p := b))"
  using assms by (simp add: listed_def has_manifest_other)

text \<open>Until the commit no manifest of the source has changed.\<close>

definition intact :: "store_context \<Rightarrow> (path \<Rightarrow> bytes option) \<Rightarrow> bool" where
  "intact c g \<longleftrightarrow> (\<forall>v. g (manifest_file (sc_dest c) (sc_source c) v) = sc_files c (manifest_file (sc_dest c) (sc_source c) v))"

text \<open>The manifest of a new version.\<close>

lemma triple_keep_manifest:
  assumes "context_ok c" and "version_name v" and "entries_ok (mf_entries m)"
    and new: "sc_files c (manifest_file (sc_dest c) (sc_source c) v) = None"
  shows "triple (keeps c (\<lambda>g. (listed c ix g \<and> intact c g) \<and> backed (sc_ext c) (sc_dest c) g (mf_entries m)))
    (write_json_atomic_durable (sc_ext c) (manifest_file (sc_dest c) (sc_source c) v) (x_manifest_enc (sc_ext c) m) base)
    (\<lambda>_. keeps c (\<lambda>g. listed c ix g \<and> has_manifest (sc_ext c) (sc_dest c) (sc_source c) g v)) (kept c)"
proof (rule triple_keep_write [OF assms(1)])
  let ?x = "sc_ext c" and ?d = "sc_dest c" and ?s = "sc_source c"
  let ?p = "manifest_file ?d ?s v" and ?raw = "x_manifest_enc ?x m"
  show "target ?d ?p" using assms(1,2) by (intro target_manifest) (simp_all add: context_ok_def)
  show "ordf.okdirs ?d (butlast ?p)" using okdirs_source(2) by (simp add: manifest_file_def manifest_path_def)
  have enc: "parse_manifest ?x ?raw = Some m"
    using assms(1,3) by (intro parse_manifest_enc) (simp_all add: context_ok_def entries_ok_def)
  fix g assume g: "good_files c g" "(listed c ix g \<and> intact c g) \<and> backed ?x ?d g (mf_entries m)"
  have "g ?p = None" using g(2) new by (simp add: intact_def)
  with g new have "good_files c (g(?p := Some ?raw))"
    using store_ok_manifest [OF _ enc] framed_new by (auto simp: good_files_def)
  moreover have "listed c ix (g(?p := Some ?raw))" using g(2) enc by (auto simp: listed_def has_manifest_def)
  moreover have "has_manifest ?x ?d ?s (g(?p := Some ?raw)) v" using enc by (simp add: has_manifest_def)
  ultimately show "good_files c (g(?p := Some ?raw)) \<and> listed c ix (g(?p := Some ?raw)) \<and> has_manifest ?x ?d ?s (g(?p := Some ?raw)) v"
    by blast
qed

text \<open>The index on disk is the one just written.\<close>

definition committed :: "store_context \<Rightarrow> version_index \<Rightarrow> (path \<Rightarrow> bytes option) \<Rightarrow> bool" where
  "committed c ix g \<longleftrightarrow> g (index_file (sc_dest c) (sc_source c)) = Some (x_index_enc (sc_ext c) ix) \<and> listed c ix g"

lemma triple_keep_index:
  assumes "context_ok c"
  shows "triple (keeps c (listed c ix)) (write_index (sc_ext c) (src_dir (sc_dest c) (sc_source c)) ix base)
    (\<lambda>_. keeps c (committed c ix)) (kept c)"
  unfolding write_index_def index_file_def [symmetric]
proof (rule triple_keep_write [OF assms])
  let ?x = "sc_ext c" and ?d = "sc_dest c" and ?s = "sc_source c"
  let ?p = "index_file ?d ?s"
  show "target ?d ?p" using assms by (intro target_index) (simp_all add: context_ok_def)
  show "ordf.okdirs ?d (butlast ?p)" using okdirs_source(1) by (simp add: index_file_def)
  have enc: "parse_index ?x (x_index_enc ?x ix) = Some ix" using assms by (intro parse_index_enc) (simp add: context_ok_def)
  fix g assume g: "good_files c g" "listed c ix g"
  then have "good_files c (g(?p := Some (x_index_enc ?x ix)))"
    using store_ok_index [OF _ enc, of "sc_codec c" ?d g ?s] framed_upd by (auto simp: good_files_def listed_def)
  with listed_upd [OF g(2)] show "good_files c (g(?p := Some (x_index_enc ?x ix))) \<and> committed c ix (g(?p := Some (x_index_enc ?x ix)))"
    by (simp add: committed_def)
qed

lemma triple_keep_report:
  assumes "context_ok c" and "\<And>g b. Q g \<Longrightarrow> Q (g(report_file (sc_dest c) (sc_source c) := Some b))"
  shows "triple (keeps c Q) (write_scan_report (sc_ext c) (src_dir (sc_dest c) (sc_source c)) m vid base)
    (\<lambda>_. keeps c Q) (kept c)"
  unfolding write_scan_report_def report_file_def [symmetric]
proof (rule triple_keep_write [OF assms(1)])
  let ?d = "sc_dest c" and ?s = "sc_source c"
  show "target ?d (report_file ?d ?s)" using assms by (intro target_report) (simp_all add: context_ok_def)
  show "ordf.okdirs ?d (butlast (report_file ?d ?s))" using okdirs_source(1) by (simp add: report_file_def)
qed (use assms(2) store_ok_report framed_upd in \<open>auto simp: good_files_def\<close>)

lemma committed_upd:
  assumes "committed c ix g" and "\<And>v. p \<noteq> manifest_file (sc_dest c) (sc_source c) v"
    and "p \<noteq> index_file (sc_dest c) (sc_source c)"
  shows "committed c ix (g(p := b))"
  using assms listed_upd [of c ix g p b] by (simp add: committed_def)

text \<open>Removing a manifest the index does not list.\<close>

lemma triple_keep_unlist:
  assumes "context_ok c" and "version_name v" and "v \<notin> set (version_ids ix)"
  shows "triple (keeps c (committed c ix)) (remove_file (manifest_file (sc_dest c) (sc_source c) v))
    (\<lambda>_. keeps c (committed c ix)) (keeps c (committed c ix))"
proof (rule triple_keep_remove)
  let ?x = "sc_ext c" and ?d = "sc_dest c" and ?s = "sc_source c"
  let ?p = "manifest_file ?d ?s v"
  have T: "target ?d ?p" using assms(1,2) by (intro target_manifest) (simp_all add: context_ok_def)
  show "in_region ?d ?p" "\<not> temp_path ?p" using targetD [OF T] by auto
  have enc: "parse_index ?x (x_index_enc ?x ix) = Some ix" using assms(1) by (intro parse_index_enc) (simp add: context_ok_def)
  fix g assume g: "good_files c g" "committed c ix g"
  have "store_ok ?x (sc_codec c) ?d (g(?p := None))"
    by (rule store_ok_prune) (use g enc assms(3) in \<open>auto simp: good_files_def committed_def\<close>)
  with g(1) have "good_files c (g(?p := None))" using framed_upd by (auto simp: good_files_def)
  moreover have "committed c ix (g(?p := None))"
  proof -
    have "has_manifest ?x ?d ?s (g(?p := None)) u" if "u \<in> set (version_ids ix)" for u
      using that g(2) assms(3) by (subst has_manifest_other) (auto simp: committed_def listed_def)
    with g(2) show ?thesis by (simp add: committed_def listed_def)
  qed
  ultimately show "good_files c (g(?p := None)) \<and> committed c ix (g(?p := None))" by blast
qed

lemma triple_keep_remove_pruned:
  assumes "context_ok c" and "\<And>v. v \<in> set vs \<Longrightarrow> version_name (vi_id v) \<and> vi_id v \<notin> set (version_ids ix)"
  shows "triple (keeps c (committed c ix)) (remove_pruned (manifests_dir (sc_dest c) (sc_source c)) vs)
    (\<lambda>_. keeps c (committed c ix)) (kept c)"
  unfolding remove_pruned_def for_each_def manifest_file_def [symmetric]
proof (rule triple_fold)
  fix v u assume "v \<in> set vs"
  with assms(2) have v: "version_name (vi_id v)" "vi_id v \<notin> set (version_ids ix)" by auto
  show "triple (keeps c (committed c ix)) (bnd (attempt (remove_file (manifest_file (sc_dest c) (sc_source c) (vi_id v)))) (\<lambda>_. ret ()))
      (\<lambda>_. keeps c (committed c ix)) (kept c)"
    by (rule triple_bnd [where Q = "\<lambda>_. keeps c (committed c ix)"])
      (auto intro: triple_ret triple_conseq [OF triple_attempt [OF triple_keep_unlist [OF assms(1) v]]] keeps_kept split: sum.splits)
qed

section \<open>Choosing a version identifier\<close>

lemma version_name_append: "version_name v \<Longrightarrow> version_name (v @ ''-'' @ show_nat n)"
proof -
  have "is_ascii_alphanumeric ch" if "ch \<in> set (show_nat n)" for ch
    using show_nat_digits [OF that] by (simp add: is_ascii_alphanumeric_def)
  then show "version_name v \<Longrightarrow> ?thesis" by (auto simp: version_name_def list_all_iff)
qed

lemma version_name_stamp: "stamp_ok x \<Longrightarrow> version_name (x_version_stamp x t)"
  by (auto simp: stamp_ok_def version_name_def list_all_iff is_ascii_alphanumeric_def Let_def)

lemma moves_still_free_version_id: "moves still (free_version_id k mr n v)"
  by (induction k arbitrary: n v) (auto intro!: still_intros)

lemma moves_still_new_version_id: "moves still (new_version_id x mr)"
proof (rule movesI)
  fix w r v assume "new_version_id x mr w = (r, v)"
  then show "still w v" unfolding new_version_id_def by (rule movesD [OF moves_still_free_version_id])
qed

lemma free_version_id_value:
  assumes "free_version_id k mr n v w = (Ok v', u)" and "version_name v" and "sighted w" and "tame D (fs w)"
    and "\<And>v. version_name v \<Longrightarrow> in_region D (manifest_path mr v)"
  shows "version_name v' \<and> node_at (fs w) (manifest_path mr v') = None"
  using assms(1,2,3,4)
proof (induction k arbitrary: n v w)
  case 0
  then show ?case by (simp add: throw_def)
next
  case (Suc k)
  from Suc.prems(1) obtain e s where e: "path_exists (manifest_path mr v) w = (Ok e, s)"
    and r: "(if e then free_version_id k mr (n + 1) (v @ ''-'' @ show_nat (n + 1)) else ret v) s = (Ok v', u)"
    by (auto elim!: bnd_OkE)
  have s: "still w s" by (rule movesD [OF moves_still_prims(1) e])
  show ?case
  proof (cases e)
    case True
    with r have "free_version_id k mr (n + 1) (v @ ''-'' @ show_nat (n + 1)) s = (Ok v', u)" by simp
    from Suc.IH [OF this version_name_append [OF Suc.prems(2)]] s Suc.prems(3,4) stableD [OF stable_sighted _ s]
    show ?thesis by (simp add: still_def)
  next
    case False
    with r have "v' = v" by (simp add: ret_def)
    with False path_exists_sighted [OF Suc.prems(3,4) assms(5) [OF Suc.prems(2)] e] Suc.prems(2) show ?thesis by auto
  qed
qed

lemma triple_keep_new_version_id:
  assumes "context_ok c" and "stamp_ok (sc_ext c)" and "\<And>g. Q g \<Longrightarrow> intact c g"
  shows "triple (keeps c Q) (new_version_id (sc_ext c) (manifests_dir (sc_dest c) (sc_source c)))
    (\<lambda>v. keeps c (\<lambda>g. Q g \<and> version_name v \<and> sc_files c (manifest_file (sc_dest c) (sc_source c) v) = None)) (kept c)"
proof (rule triple_keep_learn [OF moves_still_new_version_id])
  let ?d = "sc_dest c" and ?s = "sc_source c"
  fix w g v u assume g: "good_files c g" "Q g" "sees ?d g w" "fair ?d w"
    and m: "new_version_id (sc_ext c) (manifests_dir ?d ?s) w = (Ok v, u)"
  have T: "target ?d (manifest_file ?d ?s v)" if "version_name v" for v
    using assms(1) that by (intro target_manifest) (simp_all add: context_ok_def)
  have "version_name v \<and> node_at (fs w) (manifest_path (manifests_dir ?d ?s) v) = None"
    by (rule free_version_id_value [OF m [unfolded new_version_id_def] version_name_stamp [OF assms(2)]])
      (use g targetD(4) [OF T] in \<open>auto simp: fair_def sees_def manifest_file_def\<close>)
  then have v: "version_name v" and n: "node_at (fs w) (manifest_file ?d ?s v) = None" by (simp_all add: manifest_file_def)
  from n have "file_at (fs w) (manifest_file ?d ?s v) = None" by (simp add: file_at_def)
  then have "g (manifest_file ?d ?s v) = None" using g(3) targetD(6) [OF T [OF v]] by (simp add: sees_def)
  with assms(3) [OF g(2)] v g(2) show "Q g \<and> version_name v \<and> sc_files c (manifest_file ?d ?s v) = None"
    by (simp add: intact_def)
qed

text \<open>The loop ends: every name that is taken is a file of the directory, and the names tried get longer.\<close>

definition taken :: "filesystem \<Rightarrow> path \<Rightarrow> nat \<Rightarrow> path set" where
  "taken F mr k = {p \<in> fst ` set F. butlast p = mr \<and> k \<le> length (last p)}"

lemma path_exists_True:
  assumes "tame D (fs w)" and "in_region D p" and "path_exists p w = (Ok True, v)"
  shows "node_at (fs w) p \<noteq> None"
proof -
  obtain e u where n: "next_event w = (e, u)" by fastforce
  then have "fs u = fs w" by (rule next_event_fs)
  with assms(3) n have "present (fs w) p" by (auto simp: path_exists_def probe_def split: if_splits)
  then show ?thesis using present_plain_iff [OF _ in_region_plain [OF assms(1,2)]] assms(1) by (simp add: tame_def)
qed

lemma free_version_id_outcome:
  assumes "tame D (fs w)" and "\<And>v. version_name v \<Longrightarrow> in_region D (manifest_path mr v)" and "version_name v"
    and "card (taken (fs w) mr (length (json_name v))) < k"
  shows "(\<exists>v' u. free_version_id k mr n v w = (Ok v', u)) \<or> (\<exists>u. free_version_id k mr n v w = (Halt, u))"
  using assms(1,3,4)
proof (induction k arbitrary: n v w)
  case (Suc k)
  let ?v = "v @ ''-'' @ show_nat (n + 1)"
  consider u where "path_exists (manifest_path mr v) w = (Halt, u)"
    | u where "path_exists (manifest_path mr v) w = (Ok False, u)"
    | u where "path_exists (manifest_path mr v) w = (Ok True, u)"
    by (cases "next_event w"; cases "ev_halt (fst (next_event w))") (auto simp: path_exists_def probe_def)
  then show ?case
  proof cases
    case 3
    have s: "fs u = fs w" using movesD [OF moves_still_prims(1) 3] by (simp add: still_def)
    have nd: "node_at (fs w) (manifest_path mr v) \<noteq> None"
      by (rule path_exists_True [OF Suc.prems(1) assms(2) [OF Suc.prems(2)] 3])
    then have "manifest_path mr v \<in> fst ` set (fs w)"
      by (simp add: node_at_def manifest_path_def map_of_eq_None_iff)
    then have mem: "manifest_path mr v \<in> taken (fs w) mr (length (json_name v))"
      by (simp add: taken_def manifest_path_def)
    have lt: "length (json_name v) < length (json_name ?v)" by (simp add: json_name_def)
    then have "manifest_path mr v \<notin> taken (fs w) mr (length (json_name ?v))"
      by (simp add: taken_def manifest_path_def)
    moreover have "taken (fs w) mr (length (json_name ?v)) \<subseteq> taken (fs w) mr (length (json_name v))"
      using lt by (auto simp: taken_def)
    ultimately have "taken (fs w) mr (length (json_name ?v)) \<subset> taken (fs w) mr (length (json_name v))"
      using mem by blast
    moreover have "finite (taken (fs w) mr (length (json_name v)))" by (simp add: taken_def)
    ultimately have "card (taken (fs w) mr (length (json_name ?v))) < card (taken (fs w) mr (length (json_name v)))"
      by (rule psubset_card_mono [rotated])
    with Suc.prems(3) s have "card (taken (fs u) mr (length (json_name ?v))) < k" by simp
    from Suc.IH [OF _ version_name_append [OF Suc.prems(2)] this] s Suc.prems(1)
    show ?thesis by (simp only: free_version_id.simps bnd_Ok [of "path_exists (manifest_path mr v)", OF 3] if_True)
  qed (simp_all add: bnd_def ret_def)
qed simp

lemma new_version_id_outcome:
  assumes "tame D (fs w)" and "\<And>v. version_name v \<Longrightarrow> in_region D (manifest_path mr v)" and "stamp_ok x"
  shows "(\<exists>v u. new_version_id x mr w = (Ok v, u)) \<or> (\<exists>u. new_version_id x mr w = (Halt, u))"
proof -
  have "card (taken (fs w) mr k) \<le> card (fst ` set (fs w))" for k
    by (rule card_mono) (auto simp: taken_def)
  moreover have "card (fst ` set (fs w)) \<le> length (fs w)"
    using card_image_le [of "set (fs w)" fst] card_length [of "fs w"] by simp
  ultimately have "card (taken (fs w) mr k) < Suc (length (fs w))" for k
    by (meson le_imp_less_Suc le_trans)
  note fuel = this
  show ?thesis
    unfolding new_version_id_def by (rule free_version_id_outcome [OF assms(1,2) version_name_stamp [OF assms(3)] fuel])
qed

end
