(* ===== verification/Gc_Laws.thy ===== *)
theory Gc_Laws
  imports Commit_Laws
begin

text \<open>
  Garbage collection as a step that keeps the invariant: when no existence test is blind, the hashes
  collected from the manifests cover every hash a manifest refers to, so only blobs without a
  reference are removed.
\<close>

section \<open>The references found\<close>

text \<open>The hashes in the manifests of one source.\<close>

definition source_refs :: "ext \<Rightarrow> path \<Rightarrow> (path \<Rightarrow> bytes option) \<Rightarrow> string \<Rightarrow> string set" where
  "source_refs x d g sid = {h. \<exists>v raw m. version_name v \<and> g (manifest_file d sid v) = Some raw \<and>
    parse_manifest x raw = Some m \<and> h \<in> set (manifest_hashes m)}"

definition version_refs :: "ext \<Rightarrow> path \<Rightarrow> (path \<Rightarrow> bytes option) \<Rightarrow> string \<Rightarrow> string \<Rightarrow> string set" where
  "version_refs x d g sid n = {h. \<exists>v raw m. n = json_name v \<and> version_name v \<and> g (manifest_file d sid v) = Some raw \<and>
    parse_manifest x raw = Some m \<and> h \<in> set (manifest_hashes m)}"

lemma manifest_hashes_iff:
  assumes "bt_ok (mf_entries m)"
  shows "h \<in> set (manifest_hashes m) \<longleftrightarrow> (\<exists>k e. bt_get (mf_entries m) k = Some e \<and> me_sha256 e = Some h)"
proof -
  have "h \<in> set (manifest_hashes m) \<longleftrightarrow> (\<exists>e \<in> set (bt_values (mf_entries m)). me_sha256 e = Some h)"
    by (force simp: manifest_hashes_def List.map_filter_def)
  then show ?thesis unfolding Bex_def bt_values_iff [OF assms] by blast
qed

lemma referenced_iff: "referenced x d g h \<longleftrightarrow> (\<exists>sid. good_name sid \<and> h \<in> source_refs x d g sid)"
  unfolding referenced_def source_refs_def
  using manifest_hashes_iff [OF parse_manifest_ok] by (auto; blast)

lemma triple_gc_read_manifest:
  assumes "context_ok c" and "good_name sid" and Z: "\<And>g. Q g \<Longrightarrow> Z g"
  shows "triple (keeps c (\<lambda>g. Q g \<and> (\<forall>k \<in> seen. version_refs (sc_ext c) (sc_dest c) g sid k \<subseteq> set refd)
      \<and> set old \<subseteq> set refd))
    (gc_read_manifest (sc_ext c) (manifests_dir (sc_dest c) sid) n refd)
    (\<lambda>refd. keeps c (\<lambda>g. Q g \<and> (\<forall>k \<in> insert n seen. version_refs (sc_ext c) (sc_dest c) g sid k \<subseteq> set refd)
      \<and> set old \<subseteq> set refd)) (keeps c Z)"
proof (rule triple_keep_learn_upto)
  let ?x = "sc_ext c" and ?d = "sc_dest c"
  show "moves still (gc_read_manifest ?x (manifests_dir ?d sid) n refd)"
    unfolding gc_read_manifest_def next_entry_def by (intro still_all_intros moves_still_call) auto
  fix w g r v
  assume g: "good_files c g" "Q g \<and> (\<forall>k \<in> seen. version_refs ?x ?d g sid k \<subseteq> set refd) \<and> set old \<subseteq> set refd" "sees ?d g w"
    and m: "gc_read_manifest ?x (manifests_dir ?d sid) n refd w = (Ok r, v)"
  from m obtain u where u: "next_entry w = (Ok (), u)"
    and r: "(if file_extension n \<noteq> Some ''json'' then ret refd
      else bnd (read_file (manifests_dir ?d sid @ [n])) (\<lambda>raw. case parse_manifest ?x raw of
        None \<Rightarrow> throw (Bail ''versioned::gc_unreferenced_blobs failed to parse'')
      | Some m \<Rightarrow> ret (refd @ manifest_hashes m))) u = (Ok r, v)"
    unfolding gc_read_manifest_def by (auto elim!: bnd_OkE)
  have fu: "fs u = fs w" using call_Ok [OF u [unfolded next_entry_def]] by auto
  have sub: "set refd \<subseteq> set r"
    using r by (auto simp: ret_def throw_def elim!: bnd_OkE split: if_splits option.splits)
  have "h \<in> set r" if "h \<in> version_refs ?x ?d g sid n" for h
  proof -
    from that obtain vs raw m where vs: "n = json_name vs" "version_name vs" "g (manifest_file ?d sid vs) = Some raw"
      "parse_manifest ?x raw = Some m" "h \<in> set (manifest_hashes m)" by (auto simp: version_refs_def)
    have T: "target ?d (manifest_file ?d sid vs)" using assms vs(2) by (intro target_manifest) (simp_all add: context_ok_def)
    from r vs(1) version_name_file(3) [OF vs(2)] obtain raw' m' s
      where rd: "read_file (manifest_file ?d sid vs) u = (Ok raw', s)" and m': "parse_manifest ?x raw' = Some m'"
        and r': "r = refd @ manifest_hashes m'"
      by (auto simp: manifest_file_def manifest_path_def ret_def throw_def elim!: bnd_OkE split: option.splits)
    have "file_at (fs u) (manifest_file ?d sid vs) = Some raw'"
      by (rule read_file_value [OF _ targetD(4) [OF T] rd]) (use g(3) fu in \<open>simp add: sees_def\<close>)
    with g(3) fu targetD(6) [OF T] vs(3) have "raw' = raw" by (simp add: sees_def)
    with m' vs(4,5) r' show ?thesis by simp
  qed
  with g(2) sub show "Q g \<and> (\<forall>k \<in> insert n seen. version_refs ?x ?d g sid k \<subseteq> set r) \<and> set old \<subseteq> set r" by blast
qed (use Z in blast)

text \<open>A directory listing names every file of the directory.\<close>

lemma read_dir_names:
  assumes "tame D (fs w)" and "in_region D p" and "read_dir p w = (Ok ns, v)"
  shows "n \<in> set ns \<longleftrightarrow> node_at (fs w) (p @ [n]) \<noteq> None" and "n \<in> set ns \<Longrightarrow> good_name n"
proof -
  from call_Ok [OF assms(3) [unfolded read_dir_def]] obtain q where "resolve (fs w) p = Inr q" and ns: "ns = children (fs w) q"
    by (auto simp: f_read_dir_def split: sum.splits option.splits node.splits)
  then have "q = p" using resolve_plain [OF in_region_plain [OF assms(1,2)]] by blast
  with ns show 1: "n \<in> set ns \<longleftrightarrow> node_at (fs w) (p @ [n]) \<noteq> None" by (simp add: children_iff)
  show "good_name n" if "n \<in> set ns"
  proof -
    from 1 that obtain nd where "node_at (fs w) (p @ [n]) = Some nd" by auto
    from fs_wf_good_path [OF _ this] assms(1) show ?thesis by (simp add: tame_def)
  qed
qed

lemma in_region_manifests: "context_ok c \<Longrightarrow> good_name sid \<Longrightarrow> in_region (sc_dest c) (manifests_dir (sc_dest c) sid)"
  using prefix_store(1) [of "sc_dest c" sid] good_src_dir [of "sc_dest c" sid]
  by (simp add: in_region_def manifests_dir_def context_ok_def good_name_def)

lemma in_region_roots:
  "context_ok c \<Longrightarrow> in_region (sc_dest c) (sources_root (store_root (sc_dest c)))"
  "context_ok c \<Longrightarrow> in_region (sc_dest c) (blobs_root (store_root (sc_dest c)))"
  using good_store [of "sc_dest c"] good_blobs_root [of "sc_dest c"] prefix_store(2) [of "sc_dest c"]
  by (simp_all add: in_region_def context_ok_def sources_root_def store_root_def good_name_def)

lemma seen_file_node:
  "sees D g w \<Longrightarrow> \<not> temp_path p \<Longrightarrow> g p \<noteq> None \<Longrightarrow> node_at (fs w) p \<noteq> None"
  by (auto simp: sees_def file_at_def split: option.splits)

lemma triple_gc_read_source:
  assumes "context_ok c" and "good_name s" and Z: "\<And>g. Q g \<Longrightarrow> Z g"
  shows "triple (keeps c (\<lambda>g. Q g \<and> (\<forall>k \<in> seen. source_refs (sc_ext c) (sc_dest c) g k \<subseteq> set refd)))
    (gc_read_source (sc_ext c) (sources_root (store_root (sc_dest c))) s refd)
    (\<lambda>refd. keeps c (\<lambda>g. Q g \<and> (\<forall>k \<in> insert s seen. source_refs (sc_ext c) (sc_dest c) g k \<subseteq> set refd))) (keeps c Z)"
proof -
  let ?x = "sc_ext c" and ?d = "sc_dest c"
  let ?I = "\<lambda>refd g. Q g \<and> (\<forall>k \<in> seen. source_refs ?x ?d g k \<subseteq> set refd)"
  let ?R = "\<lambda>refd. keeps c (\<lambda>g. Q g \<and> (\<forall>k \<in> insert s seen. source_refs ?x ?d g k \<subseteq> set refd))"
  let ?md = "manifests_dir ?d s"
  have eq: "sources_root (store_root ?d) @ [s, ''manifests''] = ?md" by (simp add: manifests_dir_def src_dir_def)
  have T: "target ?d (manifest_file ?d s v)" if "version_name v" for v
    using assms that by (intro target_manifest) (simp_all add: context_ok_def)
  have there: "node_at (fs w) (?md @ [json_name v]) \<noteq> None" if "sees ?d g w" "version_name v" "g (manifest_file ?d s v) = Some raw" for g w v raw
    using seen_file_node [OF that(1) targetD(6) [OF T [OF that(2)]]] that(3) by (simp add: manifest_file_def manifest_path_def)
  have ex: "triple (keeps c (?I refd)) (path_exists ?md) (\<lambda>e. keeps c (\<lambda>g. ?I refd g \<and> (\<not> e \<longrightarrow> source_refs ?x ?d g s = {}))) (keeps c Z)"
  proof (rule triple_keep_learn_upto [OF moves_still_prims(1)])
    fix w g e v assume g: "good_files c g" "?I refd g" "sees ?d g w" "fair ?d w" and m: "path_exists ?md w = (Ok e, v)"
    have tame: "tame ?d (fs w)" using g(3) by (simp add: sees_def)
    have "node_at (fs w) ?md \<noteq> None" if "h \<in> source_refs ?x ?d g s" for h
    proof -
      from that obtain v raw where "version_name v" "g (manifest_file ?d s v) = Some raw" by (auto simp: source_refs_def)
      from there [OF g(3) this] obtain nd where "node_at (fs w) (?md @ [json_name v]) = Some nd" by blast
      from fs_wf_prefix_dir [OF _ this] tame show ?thesis by (simp add: tame_def)
    qed
    then show "?I refd g \<and> (\<not> e \<longrightarrow> source_refs ?x ?d g s = {})"
      using g(2,4) path_exists_sighted [OF _ tame in_region_manifests [OF assms(1,2)] m] unfolding fair_def by blast
  qed (use Z in blast)
  have ls: "triple (keeps c (\<lambda>g. ?I refd g \<and> (\<not> True \<longrightarrow> source_refs ?x ?d g s = {}))) (read_dir ?md)
      (\<lambda>ns. keeps c (\<lambda>g. (?I refd g \<and> source_refs ?x ?d g s \<subseteq> (\<Union>n \<in> set ns. version_refs ?x ?d g s n)))) (keeps c Z)"
  proof (rule triple_keep_learn_upto [OF moves_still_prims(6)])
    fix w g ns v assume g: "good_files c g" "?I refd g \<and> (\<not> True \<longrightarrow> source_refs ?x ?d g s = {})" "sees ?d g w"
      and m: "read_dir ?md w = (Ok ns, v)"
    have tame: "tame ?d (fs w)" using g(3) by (simp add: sees_def)
    have "json_name v \<in> set ns" if "version_name v" "g (manifest_file ?d s v) = Some raw" for v raw
      using read_dir_names(1) [OF tame in_region_manifests [OF assms(1,2)] m] there [OF g(3) that] by simp
    then show "?I refd g \<and> source_refs ?x ?d g s \<subseteq> (\<Union>n \<in> set ns. version_refs ?x ?d g s n)"
      using g(2) unfolding source_refs_def version_refs_def by blast
  qed (use Z in blast)
  have fold: "triple (keeps c (\<lambda>g. (?I refd g \<and> source_refs ?x ?d g s \<subseteq> (\<Union>n \<in> set ns. version_refs ?x ?d g s n))))
      (fold_act (gc_read_manifest ?x ?md) ns refd) ?R (keeps c Z)" for ns
  proof -
    let ?Q = "\<lambda>g. ?I refd g \<and> source_refs ?x ?d g s \<subseteq> (\<Union>n \<in> set ns. version_refs ?x ?d g s n)"
    have "triple (keeps c (\<lambda>g. ?Q g \<and> (\<forall>k \<in> {}. version_refs ?x ?d g s k \<subseteq> set refd) \<and> set refd \<subseteq> set refd))
        (fold_act (gc_read_manifest ?x ?md) ns refd)
        (\<lambda>r. keeps c (\<lambda>g. ?Q g \<and> (\<forall>k \<in> {} \<union> set ns. version_refs ?x ?d g s k \<subseteq> set r) \<and> set refd \<subseteq> set r)) (keeps c Z)"
      by (rule triple_fold_done [where I = "\<lambda>seen r. keeps c (\<lambda>g. ?Q g \<and> (\<forall>k \<in> seen. version_refs ?x ?d g s k \<subseteq> set r)
            \<and> set refd \<subseteq> set r)"]) (rule triple_gc_read_manifest [OF assms(1,2)], use Z in blast)
    then show ?thesis by (rule triple_conseq) (auto elim!: keeps_mono, blast+)
  qed
  have nx: "triple (keeps c (?I refd)) next_entry (\<lambda>_. keeps c (?I refd)) (keeps c Z)"
    by (rule triple_keep_still_upto) (auto simp: next_entry_def Z intro!: moves_still_call)
  have skip: "triple (keeps c (\<lambda>g. ?I refd g \<and> (\<not> False \<longrightarrow> source_refs ?x ?d g s = {}))) (ret refd) ?R (keeps c Z)"
    by (rule triple_ret) (auto elim!: keeps_mono)
  have "triple (keeps c (\<lambda>g. ?I refd g \<and> (\<not> e \<longrightarrow> source_refs ?x ?d g s = {})))
      (if \<not> e then ret refd else bnd (read_dir ?md) (\<lambda>ns. fold_act (gc_read_manifest ?x ?md) ns refd)) ?R (keeps c Z)" for e
    using skip triple_bnd [OF ls fold] by (cases e) simp_all
  then show ?thesis unfolding gc_read_source_def eq by (intro triple_bnd [OF nx] triple_bnd [OF ex])
qed

section \<open>What is removed\<close>

text \<open>The facts garbage collection relies on while it removes blobs.\<close>

definition covered :: "store_context \<Rightarrow> string list \<Rightarrow> (path \<Rightarrow> bytes option) \<Rightarrow> bool" where
  "covered c refd g \<longleftrightarrow> (\<forall>h. referenced (sc_ext c) (sc_dest c) g h \<longrightarrow> h \<in> set refd)"

definition unblobbed :: "store_context \<Rightarrow> ((path \<Rightarrow> bytes option) \<Rightarrow> bool) \<Rightarrow> bool" where
  "unblobbed c Q \<longleftrightarrow> (\<forall>g p. prefix (blobs_root (store_root (sc_dest c))) p \<longrightarrow> Q g \<longrightarrow> Q (g(p := None)))"

lemma blobs_not_manifest: "prefix (blobs_root (store_root d)) p \<Longrightarrow> p \<noteq> manifest_file d sid v \<and> p \<noteq> index_file d sid"
  by (auto simp: layout_defs prefix_def)

lemma unblobbed_committed: "unblobbed c (committed c ix)"
  using committed_upd blobs_not_manifest unfolding unblobbed_def by blast

lemma referenced_blob_upd:
  assumes "prefix (blobs_root (store_root d)) p"
  shows "referenced x d (g(p := b)) = referenced x d g"
proof -
  have "(g(p := b)) (manifest_file d sid v) = g (manifest_file d sid v)" for sid v
    using blobs_not_manifest [OF assms] by auto
  then show ?thesis unfolding referenced_def [abs_def] by simp
qed

lemma referenced_hash:
  assumes "store_ok x cd d g" and "referenced x d g h"
  shows "is_lower_hex_sha256 h"
proof -
  from assms(2) obtain sid v raw m k e where r: "good_name sid" "version_name v" "g (manifest_file d sid v) = Some raw"
    "parse_manifest x raw = Some m" "bt_get (mf_entries m) k = Some e" "me_sha256 e = Some h"
    unfolding referenced_def by blast
  with assms(1) have "entries_ok (mf_entries m)" by (auto simp: store_ok_def manifests_ok_def backed_def)
  from entry_ok_hash [OF entries_ok_get [OF this r(5)] r(6)] show ?thesis .
qed

lemma good_files_collect:
  assumes "good_files c g" and "covered c refd g" and "n \<notin> set refd"
  shows "good_files c (g(blobs_root (store_root (sc_dest c)) @ [p, n] := None))"
proof -
  let ?x = "sc_ext c" and ?d = "sc_dest c"
  let ?q = "blobs_root (store_root ?d) @ [p, n]"
  have st: "store_ok ?x (sc_codec c) ?d g" using assms(1) by (simp add: good_files_def)
  have "\<not> referenced ?x ?d g h" if "?q = blob_file ?x ?d h" for h
  proof
    assume r: "referenced ?x ?d g h"
    with referenced_hash [OF st] that have "h = n" by (simp add: blob_file_def blob_path_def)
    with r assms(2,3) show False by (simp add: covered_def)
  qed
  moreover have pre: "prefix (blobs_root (store_root ?d)) ?q" by (simp add: prefix_def)
  ultimately have "store_ok ?x (sc_codec c) ?d (g(?q := None))" by (rule store_ok_collect [OF st])
  with assms(1) show ?thesis using framed_upd [of ?d _ _ g ?q None] pre by (simp add: good_files_def)
qed

text \<open>Removing a file, visible or temporary.\<close>

lemma triple_keep_remove_any:
  assumes "in_region (sc_dest c) p"
    and "\<And>g. good_files c g \<Longrightarrow> Q g \<Longrightarrow> good_files c (g(p := None)) \<and> Q (g(p := None))"
  shows "triple (keeps c Q) (remove_file p) (\<lambda>_. keeps c Q) (keeps c Q)"
proof (cases "temp_path p")
  case True
  show ?thesis
  proof (rule triple_keeps [OF _ ordf.unlink_law [OF assms(1)]])
    fix g assume g: "good_files c g" "Q g"
    have "moves (confined (sc_dest c) {}) (remove_file p)" by (rule moves_within_remove_file [OF assms(1)]) (simp add: True)
    from triple_unseen [OF this] show "triple (sees (sc_dest c) g) (remove_file p)
        (\<lambda>_ w. \<exists>g'. good_files c g' \<and> Q g' \<and> sees (sc_dest c) g' w) (\<lambda>w. \<exists>g'. good_files c g' \<and> Q g' \<and> sees (sc_dest c) g' w)"
      by (rule triple_conseq) (use g in blast)+
  qed
qed (rule triple_keep_remove [OF assms(1) _ assms(2)])

lemma triple_gc_blob:
  assumes "context_ok c" and "unblobbed c Q" and "good_name p" and "good_name n" and Z: "\<And>g. Q g \<Longrightarrow> Z g"
  shows "triple (keeps c (\<lambda>g. Q g \<and> covered c refd g)) (gc_blob refd (blobs_root (store_root (sc_dest c)) @ [p]) n)
    (\<lambda>_. keeps c (\<lambda>g. Q g \<and> covered c refd g)) (keeps c Z)"
proof -
  let ?I = "\<lambda>g. Q g \<and> covered c refd g"
  let ?q = "(blobs_root (store_root (sc_dest c)) @ [p]) @ [n]"
  have st: "triple (keeps c ?I) m (\<lambda>_. keeps c ?I) (keeps c Z)" if "moves still m" for m :: "'a io"
    by (rule triple_keep_still_upto [OF that]) (simp add: Z)
  have nx: "moves still next_entry" unfolding next_entry_def by (rule moves_still_call) auto
  have rm: "triple (keeps c ?I) (bnd (attempt (remove_file ?q)) (\<lambda>_. ret ())) (\<lambda>_. keeps c ?I) (keeps c Z)" if n: "n \<notin> set refd"
  proof (rule triple_bnd [where Q = "\<lambda>_. keeps c ?I"])
    have "triple (keeps c ?I) (remove_file ?q) (\<lambda>_. keeps c ?I) (keeps c ?I)"
    proof (rule triple_keep_remove_any)
      show "in_region (sc_dest c) ?q"
        using in_region_roots(2) [OF assms(1)] prefix_store(2) [of "sc_dest c"] assms(3,4) by (simp add: in_region_def)
      show "good_files c (g(?q := None)) \<and> ?I (g(?q := None))" if "good_files c g" "?I g" for g
        using that good_files_collect [of c g refd n p] n assms(2) referenced_blob_upd [of "sc_dest c" ?q]
        by (simp add: unblobbed_def covered_def)
    qed
    then show "triple (keeps c ?I) (attempt (remove_file ?q)) (\<lambda>_. keeps c ?I) (keeps c Z)"
      by (rule triple_conseq [OF triple_attempt]) (use Z in \<open>auto elim!: keeps_mono split: sum.splits\<close>)
  qed (auto intro: triple_ret)
  show ?thesis
    unfolding gc_blob_def
    by (intro triple_bnd [OF st [OF nx]] triple_bnd [OF st [OF moves_still_prims(5)]] triple_if rm triple_ret)
qed

text \<open>A listing below a directory of the store, with the names it may contain.\<close>

lemma triple_keep_listing:
  assumes "in_region (sc_dest c) p" and Z: "\<And>g. Q g \<Longrightarrow> Z g"
  shows "triple (keeps c Q) (read_dir p) (\<lambda>ns. keeps c (\<lambda>g. Q g \<and> list_all good_name ns)) (keeps c Z)"
  by (rule triple_keep_learn_upto [OF moves_still_prims(6)])
    (auto simp: sees_def list_all_iff Z dest: read_dir_names(2) [OF _ assms(1)])

lemma triple_for_names:
  assumes "\<And>n. good_name n \<Longrightarrow> triple (keeps c Q) (f n) (\<lambda>_. keeps c Q) (keeps c Z)"
  shows "triple (keeps c (\<lambda>g. Q g \<and> list_all good_name ns)) (for_each f ns) (\<lambda>_. keeps c Q) (keeps c Z)"
proof (rule triple_given [where F = "list_all good_name ns"])
  assume "list_all good_name ns"
  then have "triple (keeps c Q) (for_each f ns) (\<lambda>_. keeps c Q) (keeps c Z)"
    unfolding for_each_def by (intro triple_fold [where I = "\<lambda>_. keeps c Q"] assms) (auto simp: list_all_iff)
  then show "triple (keeps c (\<lambda>g. Q g \<and> list_all good_name ns)) (for_each f ns) (\<lambda>_. keeps c Q) (keeps c Z)"
    by (rule triple_pre) (auto elim: keeps_mono)
qed (auto elim: keepsE)

lemma triple_gc_prefix:
  assumes "context_ok c" and "unblobbed c Q" and "good_name p" and Z: "\<And>g. Q g \<Longrightarrow> Z g"
  shows "triple (keeps c (\<lambda>g. Q g \<and> covered c refd g)) (gc_prefix refd (blobs_root (store_root (sc_dest c))) p)
    (\<lambda>_. keeps c (\<lambda>g. Q g \<and> covered c refd g)) (keeps c Z)"
proof -
  let ?I = "\<lambda>g. Q g \<and> covered c refd g"
  have st: "triple (keeps c ?I) m (\<lambda>_. keeps c ?I) (keeps c Z)" if "moves still m" for m :: "'a io"
    by (rule triple_keep_still_upto [OF that]) (simp add: Z)
  have nx: "moves still next_entry" unfolding next_entry_def by (rule moves_still_call) auto
  have reg: "in_region (sc_dest c) (blobs_root (store_root (sc_dest c)) @ [p])"
    using in_region_roots(2) [OF assms(1)] prefix_store(2) [of "sc_dest c"] assms(3) by (simp add: in_region_def)
  show ?thesis
    unfolding gc_prefix_def
    by (intro triple_bnd [OF st [OF nx]] triple_bnd [OF st [OF moves_still_prims(5)]] triple_if triple_ret
        triple_bnd [OF triple_keep_listing [OF reg]] triple_for_names triple_gc_blob [OF assms(1,2,3)]) (simp_all add: Z)
qed

lemma sources_listed:
  assumes "context_ok c" and "sees (sc_dest c) g w" and "read_dir (sources_root (store_root (sc_dest c))) w = (Ok ns, v)"
    and "good_name sid" and "h \<in> source_refs (sc_ext c) (sc_dest c) g sid"
  shows "sid \<in> set ns"
proof -
  let ?d = "sc_dest c"
  from assms(5) obtain vs raw where vs: "version_name vs" "g (manifest_file ?d sid vs) = Some raw" by (auto simp: source_refs_def)
  have "target ?d (manifest_file ?d sid vs)" using assms(1,4) vs(1) by (intro target_manifest) (simp_all add: context_ok_def)
  from seen_file_node [OF assms(2) targetD(6) [OF this]] vs(2) obtain nd where
    "node_at (fs w) ((sources_root (store_root ?d) @ [sid]) @ [''manifests'', json_name vs]) = Some nd"
    by (auto simp: manifest_file_def manifest_path_def manifests_dir_def src_dir_def)
  from fs_wf_prefix_dir [OF _ this] assms(2) have "node_at (fs w) (sources_root (store_root ?d) @ [sid]) \<noteq> None"
    by (simp add: sees_def tame_def)
  with read_dir_names(1) [OF _ in_region_roots(1) [OF assms(1)] assms(3)] assms(2) show ?thesis by (simp add: sees_def)
qed

lemma triple_gc_collect:
  assumes "context_ok c" and Z: "\<And>g. Q g \<Longrightarrow> Z g"
  shows "triple (keeps c Q) (bnd (read_dir (sources_root (store_root (sc_dest c)))) (\<lambda>srcs.
      fold_act (gc_read_source (sc_ext c) (sources_root (store_root (sc_dest c)))) srcs []))
    (\<lambda>refd. keeps c (\<lambda>g. Q g \<and> covered c refd g)) (keeps c Z)"
proof -
  let ?x = "sc_ext c" and ?d = "sc_dest c"
  let ?sr = "sources_root (store_root ?d)"
  let ?L = "\<lambda>ns g. list_all good_name ns \<and> (\<forall>sid h. good_name sid \<longrightarrow> h \<in> source_refs ?x ?d g sid \<longrightarrow> sid \<in> set ns)"
  have ls: "triple (keeps c Q) (read_dir ?sr) (\<lambda>ns. keeps c (\<lambda>g. Q g \<and> ?L ns g)) (keeps c Z)"
  proof (rule triple_keep_learn_upto [OF moves_still_prims(6)])
    fix w g ns v assume g: "good_files c g" "Q g" "sees ?d g w" and m: "read_dir ?sr w = (Ok ns, v)"
    have "list_all good_name ns"
      using read_dir_names(2) [OF _ in_region_roots(1) [OF assms(1)] m] g(3) by (simp add: list_all_iff sees_def)
    with g(2) sources_listed [OF assms(1) g(3) m] show "Q g \<and> ?L ns g" by blast
  qed (use Z in blast)
  have "triple (keeps c (\<lambda>g. Q g \<and> ?L ns g)) (fold_act (gc_read_source ?x ?sr) ns []) (\<lambda>refd. keeps c (\<lambda>g. Q g \<and> covered c refd g)) (keeps c Z)" for ns
  proof (rule triple_given [where F = "list_all good_name ns"])
    assume good: "list_all good_name ns"
    let ?J = "\<lambda>seen refd. keeps c (\<lambda>g. (Q g \<and> ?L ns g) \<and> (\<forall>k \<in> seen. source_refs ?x ?d g k \<subseteq> set refd))"
    have "triple (?J {} []) (fold_act (gc_read_source ?x ?sr) ns []) (?J ({} \<union> set ns)) (keeps c Z)"
    proof (rule triple_fold_done)
      fix s seen refd assume "s \<in> set ns"
      with good have "good_name s" by (simp add: list_all_iff)
      from triple_gc_read_source [OF assms(1) this, of "\<lambda>g. Q g \<and> ?L ns g" Z] Z
      show "triple (?J seen refd) (gc_read_source ?x ?sr s refd) (?J (insert s seen)) (keeps c Z)" by blast
    qed
    then show ?thesis
      by (rule triple_conseq) (auto simp: covered_def referenced_iff elim!: keeps_mono)
  qed (auto elim: keepsE)
  then show ?thesis by (rule triple_bnd [OF ls])
qed

lemma gc_split:
  "gc_unreferenced_blobs x st br =
    bnd (path_exists (sources_root st)) (\<lambda>e.
    if \<not> e then ret ()
    else bnd (bnd (read_dir (sources_root st)) (\<lambda>srcs. fold_act (gc_read_source x (sources_root st)) srcs [])) (\<lambda>refd.
      bnd (path_exists br) (\<lambda>e.
      if \<not> e then ret ()
      else bnd (read_dir br) (for_each (gc_prefix refd br)))))"
  unfolding gc_unreferenced_blobs_def bnd_assoc by (rule refl)

lemma triple_keep_gc_upto:
  assumes "context_ok c" and "unblobbed c Q" and Z: "\<And>g. Q g \<Longrightarrow> Z g"
  shows "triple (keeps c Q) (gc_unreferenced_blobs (sc_ext c) (store_root (sc_dest c)) (blobs_root (store_root (sc_dest c))))
    (\<lambda>_. keeps c Q) (keeps c Z)"
proof -
  let ?br = "blobs_root (store_root (sc_dest c))"
  have st: "triple (keeps c P) m (\<lambda>_. keeps c P) (keeps c Z)" if "moves still m" "\<And>g. P g \<Longrightarrow> Z g" for m :: "'a io" and P
    by (rule triple_keep_still_upto [OF that])
  have drop: "triple (keeps c (\<lambda>g. Q g \<and> covered c refd g)) m (\<lambda>_. keeps c Q) (keeps c Z)"
    if "triple (keeps c (\<lambda>g. Q g \<and> covered c refd g)) m (\<lambda>_. keeps c (\<lambda>g. Q g \<and> covered c refd g)) (keeps c Z)"
    for refd and m :: "unit io"
    by (rule triple_conseq [OF that]) (auto elim: keeps_mono)
  have sweep: "triple (keeps c (\<lambda>g. Q g \<and> covered c refd g)) (bnd (path_exists ?br) (\<lambda>e.
      if \<not> e then ret () else bnd (read_dir ?br) (for_each (gc_prefix refd ?br)))) (\<lambda>_. keeps c Q) (keeps c Z)" for refd
    by (intro drop triple_bnd [OF st [OF moves_still_prims(1)]] triple_if triple_ret
        triple_bnd [OF triple_keep_listing [OF in_region_roots(2) [OF assms(1)]]] triple_for_names triple_gc_prefix [OF assms(1,2)])
      (simp_all add: Z)
  show ?thesis
    unfolding gc_split
    by (intro triple_bnd [OF st [OF moves_still_prims(1)]] triple_if triple_ret triple_bnd [OF triple_gc_collect [OF assms(1)]] sweep)
      (simp_all add: Z)
qed

lemmas triple_keep_gc = triple_keep_gc_upto [where Z = "\<lambda>_. True", OF _ _ TrueI]

end
