(* ===== verification/Crash_Safety.thy ===== *)
theory Crash_Safety
  imports Gc_Laws
begin

text \<open>
  The composition of the stages: a backup of one folder, and the removal of a kept safety version,
  leave a well-formed store whatever fails and wherever the process dies. The theorems at the end
  state this for the visible files of the destination, with the frame that other sources and the
  manifests of surviving versions are untouched.
\<close>

section \<open>The commit\<close>

lemma collect_prunable_subset: "set (collect_prunable_versions ix keep) \<subseteq> set (vx_versions ix)"
  unfolding collect_prunable_take using set_take_subset by fastforce

lemma commit_index_facts:
  assumes "commit_index desc ix vid t had = (ix1, pruned)"
  shows "set (version_ids ix1) \<subseteq> insert vid (set (version_ids ix))"
    and "v \<in> set pruned \<Longrightarrow> vi_id v \<in> insert vid (set (version_ids ix)) \<and> vi_id v \<notin> set (version_ids ix1)"
proof -
  let ?vs = "sort_key version_key (vx_versions ix @ [\<lparr>vi_id = vid, vi_created_at_unix = t\<rparr>])"
  let ?ix = "ix\<lparr>vx_schema_version := STORE_SCHEMA_VERSION, vx_source_path := path_text (fd_source_path desc), vx_versions := ?vs\<rparr>"
  have p: "pruned = (if had then [] else collect_prunable_versions ?ix (fd_keep_versions desc))"
    and i: "ix1 = ?ix\<lparr>vx_versions := filter (\<lambda>v. vi_id v \<notin> vi_id ` set pruned) ?vs\<rparr>"
    using assms by (auto simp: commit_index_def Let_def)
  have sub: "set pruned \<subseteq> set ?vs" using collect_prunable_subset [of ?ix "fd_keep_versions desc"] by (auto simp: p)
  show "set (version_ids ix1) \<subseteq> insert vid (set (version_ids ix))" by (auto simp: i version_ids_def)
  show "vi_id v \<in> insert vid (set (version_ids ix)) \<and> vi_id v \<notin> set (version_ids ix1)" if "v \<in> set pruned"
  proof -
    have "vi_id v \<in> vi_id ` set pruned" using that by (rule imageI)
    moreover have "vi_id u \<notin> vi_id ` set pruned" if "u \<in> set (vx_versions ix1)" for u using that by (simp add: i)
    ultimately have "vi_id v \<notin> set (version_ids ix1)" unfolding version_ids_def set_map by (metis imageE)
    moreover have "v \<in> set ?vs" using that sub by blast
    ultimately show ?thesis by (auto simp: version_ids_def)
  qed
qed

lemma triple_commit_version:
  assumes "context_ok c" and "version_name vid" and "sc_files c (manifest_file (sc_dest c) (sc_source c) vid) = None"
    and "\<And>v. v \<in> set (version_ids ix) \<Longrightarrow> version_name v"
    and "sp_source_root paths = src_dir (sc_dest c) (sc_source c)"
    and "sp_manifests_root paths = manifests_dir (sc_dest c) (sc_source c)"
  shows "triple (keeps c (\<lambda>g. (listed c ix g \<and> intact c g) \<and> backed (sc_ext c) (sc_dest c) g (mf_entries snap)))
    (commit_version (sc_ext c) desc paths (store_root (sc_dest c)) (blobs_root (store_root (sc_dest c))) vid snap ix had)
    (\<lambda>_. keeps c (committed c (fst (commit_index desc ix vid (mf_created_at_unix snap) had)))) (kept c)"
proof -
  obtain ix1 pruned where ci: "commit_index desc ix vid (mf_created_at_unix snap) had = (ix1, pruned)" by fastforce
  note F = commit_index_facts [OF ci]
  have names: "version_name (vi_id v) \<and> vi_id v \<notin> set (version_ids ix1)" if "v \<in> set pruned" for v
    using F(2) [OF that] assms(2,4) by auto
  have rep: "triple (keeps c (committed c ix1)) (write_scan_report (sc_ext c) (src_dir (sc_dest c) (sc_source c)) snap (Some vid) (sp_destination_root paths))
      (\<lambda>_. keeps c (committed c ix1)) (kept c)"
    by (rule triple_keep_report [OF assms(1)]) (rule committed_upd, auto)
  have sync: "triple (keeps c (committed c ix1)) (attempt (sync_dir p)) (\<lambda>_. keeps c (committed c ix1)) (kept c)" for p
    by (rule triple_keep_still) (intro st.moves_attempt moves_still_sync_dir)
  have idx: "triple (keeps c (\<lambda>g. listed c ix g \<and> has_manifest (sc_ext c) (sc_dest c) (sc_source c) g vid))
      (write_index (sc_ext c) (src_dir (sc_dest c) (sc_source c)) ix1 (sp_destination_root paths)) (\<lambda>_. keeps c (committed c ix1)) (kept c)"
    by (rule triple_pre [OF triple_keep_index [OF assms(1)]]) (use F(1) in \<open>auto elim!: keeps_mono simp: listed_def, blast\<close>)
  show ?thesis
  proof (rule triple_given [where F = "entries_ok (mf_entries snap)"])
    assume ok: "entries_ok (mf_entries snap)"
    show ?thesis
      unfolding commit_version_def assms(5,6) ci case_prod_conv Let_def fst_conv manifest_file_def [symmetric]
      by (intro triple_bnd [OF triple_keep_manifest [OF assms(1,2) ok assms(3)]] triple_bnd [OF idx] triple_bnd [OF rep] triple_if
          triple_ret triple_bnd [OF triple_keep_remove_pruned [OF assms(1) names]] triple_bnd [OF sync]
          triple_keep_gc [OF assms(1) unblobbed_committed])
  qed (auto simp: backed_def elim: keepsE)
qed

section \<open>A scan without a new version\<close>

lemma listed_cong: "vx_versions ix' = vx_versions ix \<Longrightarrow> listed c ix' = listed c ix"
  by (simp add: fun_eq_iff listed_def version_ids_def)

lemma triple_keep_pin:
  "triple (keeps c Q) (maybe_pin_large_deletion_baseline x cfg wp p n ix mr had)
    (\<lambda>a. keeps c (\<lambda>g. Q g \<and> vx_versions (snd a) = vx_versions ix)) (kept c)"
proof (rule triple_keep_learn [OF moves_still_pin])
  fix w g a v assume "Q g" and "maybe_pin_large_deletion_baseline x cfg wp p n ix mr had w = (Ok a, v)"
  moreover obtain wn ch ix' where "a = ((wn, ch), ix')" by (metis prod.collapse)
  ultimately show "Q g \<and> vx_versions (snd a) = vx_versions ix"
    using pin_facts [of x cfg wp p n ix mr had w wn ch ix' v] by simp
qed

lemma triple_keep_report_kept:
  assumes "context_ok c"
  shows "triple (kept c) (write_scan_report (sc_ext c) (src_dir (sc_dest c) (sc_source c)) m vid base) (\<lambda>_. kept c) (kept c)"
  by (rule triple_keep_report [OF assms]) simp

lemma triple_finish_scan:
  assumes "context_ok c" and "sp_source_root paths = src_dir (sc_dest c) (sc_source c)"
  shows "triple (keeps c (listed c ix)) (finish_scan_without_new_version (sc_ext c) cfg wp prev snap ix paths out)
    (\<lambda>r w. kept c w \<and> fr_version_id r = None) (kept c)"
proof -
  have idx: "triple (keeps c (\<lambda>g. listed c ix g \<and> vx_versions ix' = vx_versions ix))
      (bnd (if b then write_index (sc_ext c) (src_dir (sc_dest c) (sc_source c)) ix' base else ret ()) (\<lambda>_. ret wn)) (\<lambda>_. kept c) (kept c)"
    for ix' b base and wn :: "safety_warning option"
  proof (rule triple_bnd [where Q = "\<lambda>_. kept c"])
    have "triple (keeps c (\<lambda>g. listed c ix g \<and> vx_versions ix' = vx_versions ix))
        (write_index (sc_ext c) (src_dir (sc_dest c) (sc_source c)) ix' base) (\<lambda>_. kept c) (kept c)"
      by (rule triple_conseq [OF triple_keep_index [OF assms(1), of ix']]) (use listed_cong [of ix' ix c] in \<open>auto elim!: keeps_mono keeps_kept\<close>)
    then show "triple (keeps c (\<lambda>g. listed c ix g \<and> vx_versions ix' = vx_versions ix))
        (if b then write_index (sc_ext c) (src_dir (sc_dest c) (sc_source c)) ix' base else ret ()) (\<lambda>_. kept c) (kept c)"
      by (intro triple_if triple_ret) (auto elim: keeps_kept)
  qed (auto intro: triple_ret)
  have pin: "triple (keeps c (listed c ix)) (case prev of
        None \<Rightarrow> ret None
      | Some p \<Rightarrow> bnd (maybe_pin_large_deletion_baseline (sc_ext c) cfg wp p snap ix mr had) (\<lambda>a.
          bnd (if snd (fst a) then write_index (sc_ext c) (src_dir (sc_dest c) (sc_source c)) (snd a) base else ret ()) (\<lambda>_.
          ret (fst (fst a))))) (\<lambda>_. kept c) (kept c)" for mr had base
    by (cases prev) (auto intro!: triple_ret triple_bnd [OF triple_keep_pin] idx elim: keeps_kept)
  have fin: "triple (kept c) (ret r) (\<lambda>r w. kept c w \<and> fr_version_id r = None) (kept c)" if "fr_version_id r = None" for r :: folder_backup_result
    by (rule triple_ret) (simp add: that)
  show ?thesis
    unfolding finish_scan_without_new_version_def assms(2)
    by (intro triple_bnd [OF pin] triple_bnd [OF triple_keep_report_kept [OF assms(1)]] fin) simp
qed

section \<open>A new version\<close>

text \<open>The index on disk is the one that commits the version.\<close>

definition published :: "store_context \<Rightarrow> folder_descriptor \<Rightarrow> version_index \<Rightarrow> string \<Rightarrow> (path \<Rightarrow> bytes option) \<Rightarrow> bool" where
  "published c desc ix v g \<longleftrightarrow> (\<forall>u \<in> insert v (set (version_ids ix)). version_name u) \<and>
    (\<exists>ix' t had. vx_versions ix' = vx_versions ix \<and> committed c (fst (commit_index desc ix' v t had)) g)"

lemma publishedI:
  "committed c (fst (commit_index desc ix' v t had)) g \<Longrightarrow> vx_versions ix' = vx_versions ix \<Longrightarrow>
    (\<And>u. u \<in> insert v (set (version_ids ix)) \<Longrightarrow> version_name u) \<Longrightarrow> published c desc ix v g"
  unfolding published_def by blast

definition reported :: "store_context \<Rightarrow> folder_descriptor \<Rightarrow> version_index \<Rightarrow> folder_backup_result \<Rightarrow> (path \<Rightarrow> bytes option) \<Rightarrow> bool" where
  "reported c desc ix r g \<longleftrightarrow> (case fr_version_id r of None \<Rightarrow> True | Some v \<Rightarrow> published c desc ix v g)"

definition folder_context :: "store_context \<Rightarrow> folder_descriptor \<Rightarrow> bool" where
  "folder_context c desc \<longleftrightarrow> context_ok c \<and> stamp_ok (sc_ext c) \<and> fd_destination_root desc = sc_dest c
    \<and> source_id (sc_ext c) (fd_source_path desc) = sc_source c"

lemma folder_paths_context:
  assumes "folder_context c desc"
  shows "sp_source_root (folder_paths (sc_ext c) desc) = src_dir (sc_dest c) (sc_source c)"
    "sp_manifests_root (folder_paths (sc_ext c) desc) = manifests_dir (sc_dest c) (sc_source c)"
    "sp_destination_root (folder_paths (sc_ext c) desc) = sc_dest c"
  using assms by (simp_all add: folder_context_def folder_paths_def source_root_def src_dir_def manifests_dir_def Let_def)

lemma triple_pin_and_commit:
  assumes fc: "folder_context c desc" and ids: "\<And>v. v \<in> set (version_ids ix) \<Longrightarrow> version_name v"
    and v: "version_name vid" "sc_files c (manifest_file (sc_dest c) (sc_source c) vid) = None"
  shows "triple (keeps c (\<lambda>g. (listed c ix g \<and> intact c g) \<and> backed (sc_ext c) (sc_dest c) g (mf_entries snap)))
      (bnd (case prev of
           None \<Rightarrow> ret (None, ix)
         | Some p \<Rightarrow> bnd (maybe_pin_large_deletion_baseline (sc_ext c) cfg wp p snap ix mr had) (\<lambda>a. ret (fst (fst a), snd a))) (\<lambda>(wn, ix1).
       bnd (commit_version (sc_ext c) desc (folder_paths (sc_ext c) desc) (store_root (sc_dest c)) (blobs_root (store_root (sc_dest c))) vid snap ix1 had) (\<lambda>_.
       ret \<lparr>fr_changed = True, fr_version_id = Some vid, fr_blobs_written = b1, fr_bytes_written = b2, fr_safety_warning = wn\<rparr>)))
      (\<lambda>r. keeps c (reported c desc ix r)) (kept c)"
    (is "triple (keeps c ?P) (bnd ?pin (\<lambda>(wn, ix1). bnd (?commit ix1) (\<lambda>_. ret (?r wn)))) ?R (kept c)")
proof (rule triple_bnd [where Q = "\<lambda>a. keeps c (\<lambda>g. ?P g \<and> vx_versions (snd a) = vx_versions ix)"])
  note P = folder_paths_context [OF fc]
  have ok: "context_ok c" using fc by (simp add: folder_context_def)
  show "triple (keeps c ?P) ?pin (\<lambda>a. keeps c (\<lambda>g. ?P g \<and> vx_versions (snd a) = vx_versions ix)) (kept c)"
    by (cases prev) (auto intro!: triple_ret triple_bnd [OF triple_keep_pin])
  show "triple (keeps c (\<lambda>g. ?P g \<and> vx_versions (snd a) = vx_versions ix)) (case a of (wn, ix1) \<Rightarrow> bnd (?commit ix1) (\<lambda>_. ret (?r wn))) ?R (kept c)" for a
  proof (rule triple_given [where F = "vx_versions (snd a) = vx_versions ix"])
    assume same: "vx_versions (snd a) = vx_versions ix"
    then have ids': "v \<in> set (version_ids (snd a)) \<Longrightarrow> version_name v" for v using ids by (simp add: version_ids_def)
    have "triple (keeps c (\<lambda>g. ?P g \<and> vx_versions (snd a) = vx_versions ix)) (?commit (snd a)) (\<lambda>_. keeps c (published c desc ix vid)) (kept c)"
      by (rule triple_conseq [OF triple_commit_version [OF ok v ids' P(1,2)]])
        (use same listed_cong [OF same] ids v(1) in \<open>auto elim!: keeps_mono publishedI\<close>)
    moreover have "triple (keeps c (published c desc ix vid)) (ret (?r wn)) ?R (kept c)" for wn
      by (rule triple_ret) (auto simp: reported_def elim: keeps_mono)
    ultimately show ?thesis by (cases a) (auto intro: triple_bnd)
  qed (auto elim: keepsE)
qed

lemma triple_write_version:
  assumes fc: "folder_context c desc" and ids: "\<And>v. v \<in> set (version_ids ix) \<Longrightarrow> version_name v"
    and snap: "entries_ok (mf_entries snap0)"
  shows "triple (keeps c (known c (\<lambda>g. listed c ix g \<and> intact c g) prev))
    (write_version (sc_ext c) cfg wp desc (sc_codec c) delays sr prev ix snap0) (\<lambda>r. keeps c (reported c desc ix r)) (kept c)"
proof -
  let ?x = "sc_ext c" and ?d = "sc_dest c" and ?s = "sc_source c" and ?paths = "folder_paths (sc_ext c) desc"
  let ?L = "\<lambda>g. listed c ix g \<and> intact c g"
  let ?K = "known c ?L prev"
  note P = folder_paths_context [OF fc]
  have ok: "context_ok c" "stamp_ok ?x" and d: "fd_destination_root desc = ?d" using fc by (simp_all add: folder_context_def)
  have bs: "blob_stable c ?L" using blob_stable_listed [of c ix] by (auto simp: blob_stable_def intact_def)
  have new: "triple (keeps c ?K) (new_version_id ?x (manifests_dir ?d ?s))
      (\<lambda>v. keeps c (\<lambda>g. ?K g \<and> version_name v \<and> sc_files c (manifest_file ?d ?s v) = None)) (kept c)"
    by (rule triple_keep_new_version_id [OF ok]) (simp add: known_def)
  have finish: "triple (keeps c (\<lambda>g. ?K g \<and> backed ?x ?d g es))
      (finish_scan_without_new_version ?x cfg wp prev snap ix ?paths out) (\<lambda>r. keeps c (reported c desc ix r)) (kept c)" for es snap out
    by (rule triple_conseq [OF triple_finish_scan [OF ok(1) P(1), of ix]])
      (auto simp: known_def reported_def elim!: keeps_mono split: option.splits)
  have commit: "triple (keeps c (\<lambda>g. ?K g \<and> backed ?x ?d g (mf_entries snap))) m R (kept c)"
    if "triple (keeps c (\<lambda>g. ?L g \<and> backed ?x ?d g (mf_entries snap))) m R (kept c)" for snap m and R :: "folder_backup_result \<Rightarrow> _"
    using that by (rule triple_pre) (auto simp: known_def elim: keeps_mono)
  show ?thesis
    unfolding write_version_def Let_def P d
  proof (rule triple_bnd [OF new])
    fix vid
    let ?m = "write_missing_blobs_for_snapshot ?x snap0 \<lparr>bx_cfg = cfg, bx_watched = wp, bx_scan_root = sr, bx_prev = prev,
      bx_blobs_root = blobs_root (store_root ?d), bx_codec = sc_codec c, bx_retry_delays = delays, bx_destination_root = ?d\<rparr>"
    have pass: "triple (keeps c ?K) ?m (\<lambda>st. keeps c (\<lambda>g. ?K g \<and> backed ?x ?d g (mf_entries (fst st)))) (kept c)"
      by (rule triple_blob_pass [OF ok(1) _ bs snap]) (simp add: pass_context_def)
    show "triple (keeps c (\<lambda>g. ?K g \<and> version_name vid \<and> sc_files c (manifest_file ?d ?s vid) = None))
      (bnd ?m (\<lambda>(snap, out).
     if \<not> is_changed prev snap
     then finish_scan_without_new_version ?x cfg wp prev snap ix ?paths (out\<lparr>bw_had_read_failures := mf_read_failures snap0 \<noteq> [] \<or> bw_had_read_failures out\<rparr>)
     else bnd (case prev of
           None \<Rightarrow> ret (None, ix)
         | Some p \<Rightarrow> bnd (maybe_pin_large_deletion_baseline ?x cfg wp p snap ix (manifests_dir ?d ?s) (mf_read_failures snap0 \<noteq> [] \<or> bw_had_read_failures out)) (\<lambda>a.
             ret (fst (fst a), snd a))) (\<lambda>(warn, ix1).
       bnd (commit_version ?x desc ?paths (store_root ?d) (blobs_root (store_root ?d)) vid snap ix1 (mf_read_failures snap0 \<noteq> [] \<or> bw_had_read_failures out)) (\<lambda>_.
       ret \<lparr>fr_changed = True, fr_version_id = Some vid, fr_blobs_written = bw_blobs_written out,
         fr_bytes_written = bw_bytes_written out, fr_safety_warning = warn\<rparr>))))
      (\<lambda>r. keeps c (reported c desc ix r)) (kept c)"
    proof (rule triple_given [where F = "version_name vid \<and> sc_files c (manifest_file ?d ?s vid) = None"])
      assume "version_name vid \<and> sc_files c (manifest_file ?d ?s vid) = None"
      then have v: "version_name vid" "sc_files c (manifest_file ?d ?s vid) = None" by auto
      show ?thesis
        apply (rule triple_bnd [OF triple_pre [OF pass]])
         apply (erule keeps_mono, simp)
        subgoal for st
          by (cases st) (simp only: prod.case fst_conv, intro triple_if finish commit triple_pin_and_commit [OF fc ids v])
        done
    qed (auto elim: keepsE)
  qed
qed

section \<open>One folder\<close>

lemma known_prev_ok: "known c L prev g \<Longrightarrow> prev_ok prev"
  by (auto simp: known_def prev_ok_def backed_def split: option.splits)

lemma triple_keep_scan:
  assumes "context_ok c"
  shows "triple (keeps c (known c L prev)) (scan_snapshot (sc_ext c) cfg wp sp prev delays)
    (\<lambda>m. keeps c (\<lambda>g. known c L prev g \<and> entries_ok (mf_entries m))) (kept c)"
proof (rule triple_keep_learn [OF moves_still_scan_snapshot])
  fix w g m v assume "known c L prev g" and "scan_snapshot (sc_ext c) cfg wp sp prev delays w = (Ok m, v)"
  then show "known c L prev g \<and> entries_ok (mf_entries m)"
    using scan_entries_ok [OF _ known_prev_ok] assms by (auto simp: context_ok_def)
qed

lemma triple_backup_scanned:
  assumes fc: "folder_context c desc" and val: "validate_version_index ix = Inr ()"
  shows "triple (keeps c (known c (\<lambda>g. listed c ix g \<and> intact c g) prev))
    (bnd (scan_snapshot (sc_ext c) cfg wp (sv_scan_path view) prev delays) (\<lambda>scanned.
      let snap = scanned\<lparr>mf_source_snapshot := sv_snapshot view, mf_source_snapshot_error := sv_snapshot_error view\<rparr> in
      if \<not> is_changed prev snap
      then finish_scan_without_new_version (sc_ext c) cfg wp prev snap ix (folder_paths (sc_ext c) desc) (out snap)
      else write_version (sc_ext c) cfg wp desc (sc_codec c) delays (sv_scan_path view) prev ix snap))
    (\<lambda>r. keeps c (reported c desc ix r)) (kept c)"
proof -
  let ?K = "known c (\<lambda>g. listed c ix g \<and> intact c g) prev"
  note P = folder_paths_context [OF fc]
  have ok: "context_ok c" using fc by (simp add: folder_context_def)
  have ids: "version_name v" if "v \<in> set (version_ids ix)" for v by (rule valid_ids [OF val that])
  have finish: "triple (keeps c (\<lambda>g. ?K g \<and> F))
      (finish_scan_without_new_version (sc_ext c) cfg wp prev snap ix (folder_paths (sc_ext c) desc) o') (\<lambda>r. keeps c (reported c desc ix r)) (kept c)" for snap o' F
    by (rule triple_conseq [OF triple_finish_scan [OF ok P(1), of ix]])
      (auto simp: known_def reported_def elim!: keeps_mono split: option.splits)
  have commits: "triple (keeps c (\<lambda>g. ?K g \<and> entries_ok (mf_entries scanned)))
      (write_version (sc_ext c) cfg wp desc (sc_codec c) delays sp prev ix (scanned\<lparr>mf_source_snapshot := a, mf_source_snapshot_error := b\<rparr>))
      (\<lambda>r. keeps c (reported c desc ix r)) (kept c)" for scanned sp a b
  proof (rule triple_given [where F = "entries_ok (mf_entries scanned)"])
    assume "entries_ok (mf_entries scanned)"
    then show ?thesis
      by (intro triple_pre [OF triple_write_version [OF fc ids]]) (auto elim: keeps_mono)
  qed (auto elim: keepsE)
  show ?thesis
    unfolding Let_def by (intro triple_bnd [OF triple_keep_scan [OF ok]] triple_if finish commits)
qed

lemma triple_backup_one_folder:
  assumes fc: "folder_context c desc"
  shows "triple (keeps c (\<lambda>g. g = sc_files c)) (backup_one_folder (sc_ext c) cfg wp desc (sc_codec c))
    (\<lambda>r w. \<exists>ix. index_read c ix (sc_files c) \<and> keeps c (reported c desc ix r) w) (kept c)"
proof -
  let ?x = "sc_ext c" and ?d = "sc_dest c" and ?s = "sc_source c"
  note P = folder_paths_context [OF fc]
  have ok: "context_ok c" "good_name ?s" and d: "fd_destination_root desc = ?d" using fc by (simp_all add: folder_context_def context_ok_def)
  let ?I = "\<lambda>ix g. g = sc_files c \<and> index_read c ix g \<and> listed c ix g \<and> validate_version_index ix = Inr ()"
  let ?L = "\<lambda>ix g. listed c ix g \<and> intact c g"
  have now: "triple (keeps c (\<lambda>g. g = sc_files c)) get_now (\<lambda>_. keeps c (\<lambda>g. g = sc_files c)) (kept c)"
    by (rule triple_keep_still [OF moves_still_get_now])
  have dirs: "triple (keeps c (?I ix)) (create_dir_all_durable (blobs_root (store_root ?d)) b) (\<lambda>_. keeps c (?I ix)) (kept c)"
    "triple (keeps c (?I ix)) (create_dir_all_durable (manifests_dir ?d ?s) b) (\<lambda>_. keeps c (?I ix)) (kept c)" for ix b
    by (intro triple_keep_mkdirs in_region_roots in_region_manifests okdirs_roots okdirs_source ok)+
  have last: "triple (keeps c (?I ix)) (latest_manifest ?x (manifests_dir ?d ?s) ix)
      (\<lambda>prev. keeps c (\<lambda>g. known c (?L ix) prev g)) (kept c)" if "validate_version_index ix = Inr ()" for ix
    by (rule triple_conseq [OF triple_keep_latest [OF ok(1) that, of "?L ix"]]) (auto simp: intact_def elim: keeps_mono)
  have view: "triple (keeps c Q) (prepare_source_view p b) (\<lambda>_. keeps c Q) (kept c)" for Q p b
    by (rule triple_keep_still [OF moves_still_prepare_source_view])
  have rest: "triple (keeps c (?I ix)) (bnd (latest_manifest ?x (manifests_dir ?d ?s) ix) (\<lambda>prev.
      bnd (prepare_source_view (wp_path wp) (rt_source_snapshots_enabled (cf_runtime cfg))) (\<lambda>view.
      bnd (scan_snapshot ?x cfg wp (sv_scan_path view) prev delays) (\<lambda>scanned.
      let snap = scanned\<lparr>mf_source_snapshot := sv_snapshot view, mf_source_snapshot_error := sv_snapshot_error view\<rparr> in
      if \<not> is_changed prev snap
      then finish_scan_without_new_version ?x cfg wp prev snap ix (folder_paths ?x desc)
        \<lparr>bw_blobs_written = 0, bw_bytes_written = 0, bw_had_read_failures = (mf_read_failures snap \<noteq> [])\<rparr>
      else write_version ?x cfg wp desc (sc_codec c) delays (sv_scan_path view) prev ix snap))))
    (\<lambda>r w. \<exists>ix. index_read c ix (sc_files c) \<and> keeps c (reported c desc ix r) w) (kept c)" for ix delays
  proof (rule triple_given [where F = "index_read c ix (sc_files c) \<and> validate_version_index ix = Inr ()"])
    assume "index_read c ix (sc_files c) \<and> validate_version_index ix = Inr ()"
    then have ix: "index_read c ix (sc_files c)" and val: "validate_version_index ix = Inr ()" by auto
    show ?thesis
      by (rule triple_conseq [OF triple_bnd [OF last [OF val] triple_bnd [OF view triple_backup_scanned [OF fc val]]]]) (use ix in auto)
  qed (auto elim: keepsE)
  show ?thesis
    unfolding backup_one_folder_def Let_def [of "retry_delays _ _ _"] Let_def [of "folder_paths _ _"] Let_def [of "store_root _"]
      Let_def [of "blobs_root _"] P d
    by (intro triple_bnd [OF now] triple_bnd [OF triple_keep_load_index [OF ok(1)]] triple_bnd [OF dirs(1)] triple_bnd [OF dirs(2)] rest)
qed

section \<open>Removing a kept safety version\<close>

lemma listed_subset: "listed c ix g \<Longrightarrow> set (version_ids ix') \<subseteq> set (version_ids ix) \<Longrightarrow> listed c ix' g"
  by (auto simp: listed_def)

lemma clear_safety_ids [simp]: "version_ids (clear_safety ix) = version_ids ix"
  by (simp add: clear_safety_def version_ids_def)

lemma triple_remove_kept:
  assumes ok: "context_ok c" and sid: "source_id (sc_ext c) src = sc_source c"
  shows "triple (kept c) (remove_kept_safety_version_locked (sc_ext c) (sc_dest c) src)
    (\<lambda>r. keeps c (\<lambda>g. case r of None \<Rightarrow> True | Some v \<Rightarrow> \<exists>ix. committed c ix g \<and> v \<notin> set (version_ids ix)
      \<and> vx_safety_pinned_version_id ix = None \<and> vx_safety_pending_version_id ix = None)) (kept c)"
    (is "triple _ _ ?R _")
proof -
  let ?x = "sc_ext c" and ?d = "sc_dest c" and ?s = "sc_source c"
  let ?I = "\<lambda>ix g. True \<and> index_read c ix g \<and> listed c ix g \<and> validate_version_index ix = Inr ()"
  have paths: "source_root ?x ?d src = src_dir ?d ?s" "src_dir ?d ?s @ [''manifests''] = manifests_dir ?d ?s"
    by (simp_all add: source_root_def src_dir_def manifests_dir_def sid)
  have none: "triple (keeps c Q) (ret None) ?R (kept c)" for Q
    by (rule triple_ret) (auto elim: keeps_kept)
  have idx: "triple (keeps c (?I ix)) (write_index ?x (src_dir ?d ?s) ix' ?d) (\<lambda>_. keeps c (committed c ix')) (kept c)"
    if "set (version_ids ix') \<subseteq> set (version_ids ix)" for ix ix'
    by (rule triple_pre [OF triple_keep_index [OF ok]]) (use that in \<open>auto elim!: keeps_mono listed_subset\<close>)
  have rest: "triple (keeps c (?I ix)) (bnd (write_index ?x (src_dir ?d ?s) (clear_safety (ix\<lparr>vx_versions := filter (\<lambda>v. vi_id v \<noteq> k) (vx_versions ix)\<rparr>)) ?d) (\<lambda>_.
           bnd (remove_file (manifest_path (manifests_dir ?d ?s) k)) (\<lambda>_.
           bnd (attempt (sync_dir (manifests_dir ?d ?s))) (\<lambda>_.
           bnd (gc_unreferenced_blobs ?x (store_root ?d) (blobs_root (store_root ?d))) (\<lambda>_. ret (Some k)))))) ?R (kept c)"
    if k: "k \<in> set (version_ids ix)" for ix k
  proof (rule triple_given [where F = "validate_version_index ix = Inr ()"])
    let ?ix = "clear_safety (ix\<lparr>vx_versions := filter (\<lambda>v. vi_id v \<noteq> k) (vx_versions ix)\<rparr>)"
    assume "validate_version_index ix = Inr ()"
    then have name: "version_name k" using k by (rule valid_ids)
    have sub: "set (version_ids ?ix) \<subseteq> set (version_ids ix)" and out: "k \<notin> set (version_ids ?ix)"
      by (auto simp: version_ids_def clear_safety_def)
    have rm: "triple (keeps c (committed c ?ix)) (remove_file (manifest_file ?d ?s k)) (\<lambda>_. keeps c (committed c ?ix)) (kept c)"
      by (rule triple_conseq [OF triple_keep_unlist [OF ok name out]]) (auto intro: keeps_kept)
    have sync: "triple (keeps c (committed c ?ix)) (attempt (sync_dir p)) (\<lambda>_. keeps c (committed c ?ix)) (kept c)" for p
      by (rule triple_keep_still) (intro st.moves_attempt moves_still_sync_dir)
    have fin: "triple (keeps c (committed c ?ix)) (ret (Some k)) ?R (kept c)"
      by (rule triple_ret, erule keeps_mono) (use out in \<open>auto simp: clear_safety_def\<close>)
    show ?thesis
      unfolding manifest_file_def [symmetric]
      by (intro triple_bnd [OF idx [OF sub]] triple_bnd [OF rm] triple_bnd [OF sync]
          triple_bnd [OF triple_keep_gc [OF ok unblobbed_committed]] fin)
  qed (auto elim: keepsE)
  have body: "triple (keeps c (?I ix)) (case kp of
       None \<Rightarrow> ret None
     | Some k \<Rightarrow>
         if k \<notin> set (version_ids ix)
         then bnd (write_index ?x (src_dir ?d ?s) (clear_safety ix) ?d) (\<lambda>_. ret None)
         else bnd (write_index ?x (src_dir ?d ?s) (clear_safety (ix\<lparr>vx_versions := filter (\<lambda>v. vi_id v \<noteq> k) (vx_versions ix)\<rparr>)) ?d) (\<lambda>_.
           bnd (remove_file (manifest_path (manifests_dir ?d ?s) k)) (\<lambda>_.
           bnd (attempt (sync_dir (manifests_dir ?d ?s))) (\<lambda>_.
           bnd (gc_unreferenced_blobs ?x (store_root ?d) (blobs_root (store_root ?d))) (\<lambda>_. ret (Some k)))))) ?R (kept c)" for ix kp
  proof (cases kp)
    case (Some k)
    show ?thesis
      unfolding Some option.case by (intro triple_if triple_bnd [OF idx] none rest) simp_all
  qed (simp add: none)
  show ?thesis
    unfolding remove_kept_safety_version_locked_def Let_def paths
    by (rule triple_bnd [OF triple_keep_load_index [OF ok, of "\<lambda>_. True"] body])
qed

end
