(* ===== verification/Sample_Store.thy ===== *)
theory Sample_Store
  imports Crash_Safety
begin

text \<open>
  A concrete destination with one version of one source, on which the theorems about stores are
  instantiated.
\<close>

section \<open>Checking a concrete file system\<close>

lemma fs_wf_list:
  assumes "distinct (map fst F)"
    and "list_all (\<lambda>(p, n). p \<noteq> [] \<and> good_name (last p) \<and> node_at F (butlast p) = Some Dir) F"
  shows "fs_wf F"
  unfolding fs_wf_def
proof (intro conjI allI impI assms(1))
  fix p n assume "map_of F p = Some n"
  then have "(p, n) \<in> set F" by (rule map_of_SomeD)
  with assms(2) have "p \<noteq> [] \<and> good_name (last p) \<and> node_at F (butlast p) = Some Dir" by (auto simp: list_all_iff)
  then show "p \<noteq> []" "good_name (last p)" "node_at F (butlast p) = Some Dir" by auto
qed

lemma no_links_clear:
  assumes "good_path D" and "list_all (\<lambda>(p, n). \<not> is_link_node n) F"
  shows "clear_region D F"
proof -
  have "node_at F q \<noteq> Some (Link t)" for q t
    using assms(2) by (auto simp: node_at_def list_all_iff dest!: map_of_SomeD)
  with assms(1) show ?thesis by (simp add: clear_region_def)
qed

section \<open>The store\<close>

definition plain_codec :: blob_codec where
  "plain_codec = \<lparr>cd_cipher = None, cd_write_compression_enabled = False,
    cd_write_compression_chunk_bytes = 4, cd_write_compression_zstd_level = 3\<rparr>"

definition sample_sid :: string where
  "sample_sid = source_id sample_ext [''src'']"

definition sample_hash :: string where
  "sample_hash = sha256_hex sample_ext [1, 2]"

definition stored_manifest :: manifest where
  "stored_manifest = \<lparr>mf_schema_version = 1, mf_source_path = ''/src'', mf_created_at_unix = 0,
    mf_source_snapshot = None, mf_source_snapshot_error = None, mf_read_failures = [],
    mf_entries = [(''a'', file_entry ''a'' 2 (5, 0) (Some sample_hash))]\<rparr>"

definition stored_index :: version_index where
  "stored_index = \<lparr>vx_schema_version = 1, vx_source_path = ''/src'',
    vx_versions = [\<lparr>vi_id = ''1-0'', vi_created_at_unix = 0\<rparr>], vx_safety_pinned_version_id = None,
    vx_safety_pending_version_id = Some ''1-0'', vx_safety_pending_first_seen_unix = Some 0\<rparr>"

definition stored_fs :: filesystem where
  "stored_fs =
    [([''dst'', STORE_DIR, ''v1'', ''blobs'', ''sha256'', take 2 sample_hash, sample_hash], File [1, 2] 0 0),
     ([''dst'', STORE_DIR, ''v1'', ''blobs'', ''sha256'', take 2 sample_hash], Dir),
     ([''dst'', STORE_DIR, ''v1'', ''blobs'', ''sha256''], Dir),
     ([''dst'', STORE_DIR, ''v1'', ''blobs''], Dir),
     ([''dst'', STORE_DIR, ''v1'', ''sources'', sample_sid, ''manifests'', json_name ''1-0''],
       File (x_manifest_enc sample_ext stored_manifest) 0 0),
     ([''dst'', STORE_DIR, ''v1'', ''sources'', sample_sid, ''manifests''], Dir),
     ([''dst'', STORE_DIR, ''v1'', ''sources'', sample_sid, ''index.json''],
       File (x_index_enc sample_ext stored_index) 0 0),
     ([''dst'', STORE_DIR, ''v1'', ''sources'', sample_sid], Dir),
     ([''dst'', STORE_DIR, ''v1'', ''sources''], Dir),
     ([''dst'', STORE_DIR, ''v1''], Dir),
     ([''dst'', STORE_DIR], Dir),
     ([''dst''], Dir),
     ([''src'', ''a''], File [1, 2] 5 0),
     ([''src''], Dir)]"

lemma sample_hash_ok: "is_lower_hex_sha256 sample_hash"
  unfolding sample_hash_def by (rule is_lower_hex_sha256_hex) simp

lemma sample_sid_ok: "good_name sample_sid" "\<not> is_temp_name sample_sid"
  unfolding sample_sid_def source_id_def
  by (rule hash_names, rule is_lower_hex_sha256_hex, simp)+

lemmas sample_names = sample_sid_ok hash_names [OF sample_hash_ok]

lemma stored_names [simp]:
  "good_name ''dst''" "good_name ''src''" "good_name ''a''" "good_name STORE_DIR" "good_name ''v1''" "good_name ''sources''"
  "good_name ''blobs''" "good_name ''sha256''" "good_name ''manifests''" "good_name ''index.json''" "good_name (json_name ''1-0'')"
  by (simp_all add: good_name_def STORE_DIR_def json_name_def)

lemma stored_tame: "tame [''dst''] stored_fs"
proof -
  have "fs_wf stored_fs"
    by (rule fs_wf_list) (simp_all add: stored_fs_def node_at_def sample_names)
  moreover have "clear_region [''dst''] stored_fs"
    by (rule no_links_clear) (simp_all add: stored_fs_def)
  ultimately show ?thesis by (simp add: tame_def)
qed

text \<open>Its visible files.\<close>

definition stored_files :: "path \<Rightarrow> bytes option" where
  "stored_files = file_at stored_fs"

lemma stored_blob:
  "stored_files (blob_file sample_ext [''dst''] h) = (if h = sample_hash then Some [1, 2] else None)"
proof (cases "is_lower_hex_sha256 h")
  case True
  then show ?thesis
    by (auto simp: stored_files_def file_at_def node_at_def stored_fs_def blob_path_def layout_defs)
next
  case False
  then have "h \<noteq> sample_hash" using sample_hash_ok by auto
  moreover have "''__invalid__'' \<noteq> take 2 sample_hash" using sample_names(6) by simp
  ultimately show ?thesis
    using False by (simp add: stored_files_def file_at_def node_at_def stored_fs_def blob_path_def layout_defs)
qed

lemma stored_manifest_file:
  "stored_files (manifest_file [''dst''] sid v)
    = (if sid = sample_sid \<and> v = ''1-0'' then Some (x_manifest_enc sample_ext stored_manifest) else None)"
  by (auto simp: stored_files_def file_at_def node_at_def stored_fs_def layout_defs)

lemma stored_index_file:
  "stored_files (index_file [''dst''] sid) = (if sid = sample_sid then Some (x_index_enc sample_ext stored_index) else None)"
  by (auto simp: stored_files_def file_at_def node_at_def stored_fs_def layout_defs)

lemma stored_entries_ok: "entries_ok (mf_entries stored_manifest)"
  using sample_hash_ok
  by (simp add: entries_ok_def stored_manifest_def bt_ok_def entry_ok_def file_entry_def)

lemma parse_stored:
  "parse_manifest sample_ext (x_manifest_enc sample_ext stored_manifest) = Some stored_manifest"
  "parse_index sample_ext (x_index_enc sample_ext stored_index) = Some stored_index"
  using stored_entries_ok by (auto simp: entries_ok_def intro: parse_manifest_enc parse_index_enc)

lemma stored_store_ok: "store_ok sample_ext plain_codec [''dst''] stored_files"
proof -
  have b: "backed sample_ext [''dst''] stored_files (mf_entries stored_manifest)"
    using stored_entries_ok
    by (auto simp: backed_def stored_blob stored_manifest_def bt_get_def file_entry_def split: if_splits)
  have "holds_hash sample_ext plain_codec sample_hash [1, 2]"
  proof -
    have "[1, 2] \<noteq> ENC_MAGIC" "[1, 2] \<noteq> COMP_MAGIC" by (rule notI, drule arg_cong [where f = length], simp)+
    then show ?thesis by (simp add: holds_hash_def decode_blob_def sample_hash_def)
  qed
  then show ?thesis
    using b parse_stored
    by (auto simp: store_ok_def blobs_ok_def manifests_ok_def indexes_ok_def stored_blob stored_manifest_file
        stored_index_file has_manifest_def version_ids_def stored_index_def split: if_splits)
qed

lemma stored_fair: "fs w = stored_fs \<Longrightarrow> sighted w \<Longrightarrow> fair [''dst''] w"
  by (auto simp: fair_def only_files_def blob_slots_def layout_defs stored_fs_def node_at_def split: if_splits)

lemma stored_sees: "fs w = stored_fs \<Longrightarrow> sees [''dst''] stored_files w"
  using stored_tame by (simp add: sees_def stored_files_def)

definition stored_world :: world where
  "stored_world = \<lparr>fs = stored_fs, events = [], now = 0\<rparr>"

lemma stored_world_fs: "fs stored_world = stored_fs" "sighted stored_world"
  by (simp_all add: stored_world_def sighted_def)

section \<open>Running in a world without events\<close>

lemma call_quiet:
  "events w = [] \<Longrightarrow> call f w = (case f (fs w) of Inl k \<Rightarrow> (Err (Io k), w) | Inr (a, F) \<Rightarrow> (Ok a, w\<lparr>fs := F\<rparr>))"
  by (simp add: call_def next_event_def calm_def)

lemma probe_quiet: "events w = [] \<Longrightarrow> probe f w = (Ok (f (fs w)), w)"
  by (simp add: probe_def next_event_def calm_def)

lemmas quiet_run =
  path_exists_def path_is_dir_def read_file_def metadata_def symlink_metadata_def create_dir_def remove_file_def
  read_dir_def append_file_def sync_path_def persist_def get_now_def call_quiet probe_quiet
  f_read_def f_stat_def f_lstat_def f_mkdir_def f_create_new_def f_append_def f_unlink_def f_rename_def f_read_dir_def
  f_new_temp_def f_persist_def stat_def lstat_def resolve_def lresolve_def present_def present_dir_def node_at_def
  children_def bnd_def ret_def throw_def attempt_def lift_def in_context_def

lemmas write_run =
  write_json_atomic_durable_def create_dir_all_durable_def quiet_run with_temp_def sample_ext_def sync_file_def
  sync_dir_def parent_of_def

section \<open>A first backup\<close>

definition fresh_fs :: filesystem where
  "fresh_fs =
    [([''dst'', STORE_DIR, ''v1'', ''blobs'', ''sha256''], Dir),
     ([''dst'', STORE_DIR, ''v1'', ''blobs''], Dir),
     ([''dst'', STORE_DIR, ''v1'', ''sources'', sample_sid, ''manifests''], Dir),
     ([''dst'', STORE_DIR, ''v1'', ''sources'', sample_sid], Dir),
     ([''dst'', STORE_DIR, ''v1'', ''sources''], Dir),
     ([''dst'', STORE_DIR, ''v1''], Dir),
     ([''dst'', STORE_DIR], Dir),
     ([''dst''], Dir),
     ([''src''], Dir)]"

definition fresh_world :: world where
  "fresh_world = \<lparr>fs = fresh_fs, events = [], now = 0\<rparr>"

definition sample_desc :: folder_descriptor where
  "sample_desc = \<lparr>fd_source_path = [''src''], fd_destination_root = [''dst''], fd_keep_versions = 1\<rparr>"

definition fresh_manifest :: manifest where
  "fresh_manifest = \<lparr>mf_schema_version = 1, mf_source_path = ''/src'', mf_created_at_unix = 0,
    mf_source_snapshot = None, mf_source_snapshot_error = None, mf_read_failures = [], mf_entries = []\<rparr>"

definition fresh_index :: version_index where
  "fresh_index = \<lparr>vx_schema_version = STORE_SCHEMA_VERSION, vx_source_path = ''/src'', vx_versions = [],
    vx_safety_pinned_version_id = None, vx_safety_pending_version_id = None, vx_safety_pending_first_seen_unix = None\<rparr>"

definition first_index :: version_index where
  "first_index = fresh_index\<lparr>vx_versions := [\<lparr>vi_id = ''1-0'', vi_created_at_unix = 0\<rparr>]\<rparr>"

definition manifest_node :: "bytes \<Rightarrow> path \<times> node" where
  "manifest_node raw = ([''dst'', STORE_DIR, ''v1'', ''sources'', sample_sid, ''manifests'', ''1-0.json''], File raw 0 0)"

definition index_node :: "bytes \<Rightarrow> path \<times> node" where
  "index_node raw = ([''dst'', STORE_DIR, ''v1'', ''sources'', sample_sid, ''index.json''], File raw 0 0)"

definition report_node :: "bytes \<Rightarrow> path \<times> node" where
  "report_node raw = ([''dst'', STORE_DIR, ''v1'', ''sources'', sample_sid, ''last_scan_report.json''], File raw 0 0)"

definition first_fs :: filesystem where
  "first_fs = report_node (ser_string ''/src'') # index_node (x_index_enc sample_ext first_index)
    # manifest_node (x_manifest_enc sample_ext fresh_manifest) # fresh_fs"

definition fresh_result :: folder_backup_result where
  "fresh_result = \<lparr>fr_changed = True, fr_version_id = Some ''1-0'', fr_blobs_written = 0, fr_bytes_written = 0,
    fr_safety_warning = None\<rparr>"

lemma plain_names:
  "sample_sid \<noteq> ''..''" "STORE_DIR \<noteq> ''..''" "sample_hash \<noteq> ''..''" "take 2 sample_hash \<noteq> ''..''"
  using sample_names by (auto simp: good_name_def STORE_DIR_def)

lemma show_nat_0: "show_nat 0 = ''0''"
  by code_simp

lemma fresh_load:
  "load_index sample_ext (src_dir [''dst''] sample_sid) [''src''] fresh_world = (Ok fresh_index, fresh_world)"
  by (simp add: load_index_def fresh_world_def fresh_fs_def quiet_run layout_defs plain_names fresh_index_def path_text_def)

lemma fresh_dirs:
  "create_dir_all_durable (blobs_root (store_root [''dst''])) [''dst''] fresh_world = (Ok (), fresh_world)"
  "create_dir_all_durable (manifests_dir [''dst''] sample_sid) [''dst''] fresh_world = (Ok (), fresh_world)"
  by (simp_all add: create_dir_all_durable_def fresh_world_def fresh_fs_def quiet_run layout_defs plain_names)

lemma fresh_scan:
  "scan_snapshot sample_ext sample_config sample_watched [''src''] None delays fresh_world = (Ok fresh_manifest, fresh_world)"
  by (simp add: scan_snapshot_def fresh_world_def fresh_fs_def quiet_run build_ignore_set_def sample_ext_def sample_config_def
      sample_watched_def walk_dir_def sample_walk_def scan_item_def strip_prefix_def unix_now_def STORE_SCHEMA_VERSION_def
      path_text_def fresh_manifest_def)

lemma fresh_new_id:
  "new_version_id sample_ext (manifests_dir [''dst''] sample_sid) fresh_world = (Ok ''1-0'', fresh_world)"
  by (simp add: new_version_id_def fresh_world_def fresh_fs_def quiet_run layout_defs plain_names sample_ext_def json_name_def show_nat_0)

lemma fresh_paths:
  "sp_source_root (folder_paths sample_ext sample_desc) = src_dir [''dst''] sample_sid"
  "sp_manifests_root (folder_paths sample_ext sample_desc) = manifests_dir [''dst''] sample_sid"
  "sp_destination_root (folder_paths sample_ext sample_desc) = [''dst'']"
  by (simp_all add: folder_paths_def sample_desc_def source_root_def src_dir_def manifests_dir_def Let_def sample_sid_def)

lemma fresh_commit_index: "commit_index sample_desc fresh_index ''1-0'' 0 False = (first_index, [])"
  by (simp add: commit_index_def fresh_index_def first_index_def sample_desc_def collect_prunable_take protected_ids_def path_text_def)

lemma first_writes:
  "write_json_atomic_durable sample_ext (fst (manifest_node raw)) raw [''dst''] fresh_world
    = (Ok (), fresh_world\<lparr>fs := manifest_node raw # fresh_fs\<rparr>)"
  "write_json_atomic_durable sample_ext (fst (index_node raw')) raw' [''dst''] (fresh_world\<lparr>fs := manifest_node raw # fresh_fs\<rparr>)
    = (Ok (), fresh_world\<lparr>fs := index_node raw' # manifest_node raw # fresh_fs\<rparr>)"
  "write_json_atomic_durable sample_ext (fst (report_node raw'')) raw'' [''dst'']
      (fresh_world\<lparr>fs := index_node raw' # manifest_node raw # fresh_fs\<rparr>)
    = (Ok (), fresh_world\<lparr>fs := report_node raw'' # index_node raw' # manifest_node raw # fresh_fs\<rparr>)"
  by (simp_all add: write_run fresh_world_def fresh_fs_def plain_names manifest_node_def index_node_def report_node_def)

lemma fresh_commit:
  "commit_version sample_ext sample_desc (folder_paths sample_ext sample_desc) (store_root [''dst''])
      (blobs_root (store_root [''dst''])) ''1-0'' fresh_manifest fresh_index False fresh_world
    = (Ok (), fresh_world\<lparr>fs := first_fs\<rparr>)"
proof -
  have p: "manifest_path (manifests_dir [''dst''] sample_sid) ''1-0'' = fst (manifest_node raw)"
    "src_dir [''dst''] sample_sid @ [''index.json''] = fst (index_node raw)"
    "src_dir [''dst''] sample_sid @ [''last_scan_report.json''] = fst (report_node raw)" for raw
    by (simp_all add: layout_defs json_name_def manifest_node_def index_node_def report_node_def)
  have c: "mf_created_at_unix fresh_manifest = 0" "mf_source_path fresh_manifest = ''/src''" by (simp_all add: fresh_manifest_def)
  have r: "x_report_enc sample_ext r = ser_string (lr_source_path r)" for r by (simp add: sample_ext_def)
  have w: "write_index sample_ext (src_dir [''dst''] sample_sid) ix [''dst''] u
      = write_json_atomic_durable sample_ext (fst (index_node (x_index_enc sample_ext ix))) (x_index_enc sample_ext ix) [''dst''] u"
    "write_scan_report sample_ext (src_dir [''dst''] sample_sid) fresh_manifest vid [''dst''] u
      = write_json_atomic_durable sample_ext (fst (report_node (ser_string ''/src''))) (ser_string ''/src'') [''dst''] u" for ix vid u
    by (simp_all add: write_index_def write_scan_report_def p(2) [symmetric] p(3) [symmetric] r c)
  show ?thesis
    unfolding commit_version_def fresh_paths c fresh_commit_index Let_def case_prod_conv
      p(1) [of "x_manifest_enc sample_ext fresh_manifest"]
    by (simp add: bnd_Ok first_writes w ret_def first_fs_def)
qed

lemma fresh_write_version:
  "write_version sample_ext sample_config sample_watched sample_desc plain_codec delays [''src''] None fresh_index fresh_manifest fresh_world
    = (Ok fresh_result, fresh_world\<lparr>fs := first_fs\<rparr>)"
proof -
  have f: "file_rel_paths fresh_manifest = []" "mf_read_failures fresh_manifest = []" "fd_destination_root sample_desc = [''dst'']"
    by (simp_all add: fresh_manifest_def file_rel_paths_def bt_values_def sample_desc_def)
  show ?thesis
    unfolding write_version_def Let_def fresh_paths f
    by (simp add: bnd_Ok fresh_new_id write_missing_blobs_for_snapshot_def f is_changed_def fresh_commit)
      (simp add: ret_def fresh_result_def)
qed

lemma fresh_backup:
  "backup_one_folder sample_ext sample_config sample_watched sample_desc plain_codec fresh_world
    = (Ok fresh_result, fresh_world\<lparr>fs := first_fs\<rparr>)"
proof -
  have v: "prepare_source_view [''src''] False fresh_world
      = (Ok \<lparr>sv_scan_path = [''src''], sv_snapshot = None, sv_snapshot_error = None\<rparr>, fresh_world)"
    by (simp add: prepare_source_view_def ret_def)
  have e: "rt_source_snapshots_enabled (cf_runtime sample_config) = False" "wp_path sample_watched = [''src'']"
    "fd_source_path sample_desc = [''src'']" "fd_destination_root sample_desc = [''dst'']"
    by (simp_all add: sample_config_def default_runtime_tuning_def default_source_snapshots_enabled_def sample_watched_def sample_desc_def)
  have l: "latest_manifest sample_ext mr fresh_index u = (Ok None, u)" for mr u
    by (simp add: latest_manifest_def fresh_index_def ret_def)
  have up: "fresh_manifest\<lparr>mf_source_snapshot := None, mf_source_snapshot_error := None\<rparr> = fresh_manifest"
    by (simp add: fresh_manifest_def)
  show ?thesis
    unfolding backup_one_folder_def Let_def fresh_paths e
    by (simp add: bnd_Ok get_now_def fresh_load fresh_dirs v fresh_scan l up is_changed_def fresh_write_version)
qed

lemma fresh_sees: "sees [''dst''] (\<lambda>_. None) fresh_world"
proof -
  have "fs_wf fresh_fs"
    by (rule fs_wf_list) (simp_all add: fresh_fs_def node_at_def sample_names)
  moreover have "clear_region [''dst''] fresh_fs" by (rule no_links_clear) (simp_all add: fresh_fs_def)
  moreover have "file_at fresh_fs p = None" for p
    by (simp add: file_at_def node_at_def fresh_fs_def)
  ultimately show ?thesis by (simp add: sees_def tame_def fresh_world_def)
qed

lemma fresh_fair: "fair [''dst''] fresh_world"
  by (auto simp: fair_def sighted_def only_files_def blob_slots_def layout_defs fresh_world_def fresh_fs_def node_at_def split: if_splits)

end
