(* ===== verification/Backup_Theorems.thy ===== *)
theory Backup_Theorems
  imports Sample_Store
begin

text \<open>
  What the store promises, over the visible files of a destination: every version an accepted index
  lists can be restored, and no backup, garbage collection or removal of a safety version, whatever
  fails and wherever the process dies, breaks that promise.
\<close>

section \<open>The promise\<close>

text \<open>A version whose manifest can be read and whose blobs all decode to content with their hashes.\<close>

definition restorable :: "ext \<Rightarrow> blob_codec \<Rightarrow> path \<Rightarrow> (path \<Rightarrow> bytes option) \<Rightarrow> string \<Rightarrow> string \<Rightarrow> bool" where
  "restorable x cd d g sid v \<longleftrightarrow> (\<exists>raw m. g (manifest_file d sid v) = Some raw \<and> parse_manifest x raw = Some m \<and>
    (\<forall>k e h. bt_get (mf_entries m) k = Some e \<longrightarrow> me_sha256 e = Some h \<longrightarrow>
      (\<exists>b. g (blob_file x d h) = Some b \<and> holds_hash x cd h b)))"

definition store_libs_ok :: "ext \<Rightarrow> bool" where
  "store_libs_ok x \<longleftrightarrow> sha_ok x \<and> temp_ok x \<and> manifest_json_ok x \<and> index_json_ok x \<and> stamp_ok x"

text \<open>
  A destination with a well-formed store: no symbolic links in or above it, the visible files satisfy
  the invariant, existence tests tell the truth, and nothing but files sits where blobs belong.
\<close>

definition sound_store :: "ext \<Rightarrow> blob_codec \<Rightarrow> path \<Rightarrow> (path \<Rightarrow> bytes option) \<Rightarrow> world \<Rightarrow> bool" where
  "sound_store x cd d f w \<longleftrightarrow> good_path d \<and> sees d f w \<and> fair d w \<and> store_ok x cd d f"

lemma has_manifest_restorable:
  assumes "store_ok x cd d g" and "good_name sid" and "version_name v" and "has_manifest x d sid g v"
  shows "restorable x cd d g sid v"
proof -
  from assms(4) obtain mr m where m: "g (manifest_file d sid v) = Some mr" "parse_manifest x mr = Some m" by (auto simp: has_manifest_def)
  with assms have b: "backed x d g (mf_entries m)" by (auto simp: store_ok_def manifests_ok_def)
  have "\<exists>b. g (blob_file x d h) = Some b \<and> holds_hash x cd h b" if "bt_get (mf_entries m) k = Some e" "me_sha256 e = Some h" for k e h
  proof -
    have "is_lower_hex_sha256 h" using entry_ok_hash [OF entries_ok_get [OF _ that(1)] that(2)] b by (simp add: backed_def)
    with b that assms(1) show ?thesis by (fastforce simp: backed_def store_ok_def blobs_ok_def)
  qed
  with m show ?thesis unfolding restorable_def by blast
qed

section \<open>From triples to statements\<close>

definition mk_context :: "ext \<Rightarrow> blob_codec \<Rightarrow> path \<Rightarrow> string \<Rightarrow> (path \<Rightarrow> bytes option) \<Rightarrow> store_context" where
  "mk_context x cd d sid f = \<lparr>sc_ext = x, sc_codec = cd, sc_dest = d, sc_source = sid, sc_files = f\<rparr>"

lemma mk_context_simps [simp]:
  "sc_ext (mk_context x cd d sid f) = x" "sc_codec (mk_context x cd d sid f) = cd"
  "sc_dest (mk_context x cd d sid f) = d" "sc_source (mk_context x cd d sid f) = sid" "sc_files (mk_context x cd d sid f) = f"
  by (simp_all add: mk_context_def)

lemma good_source_id: "sha_ok x \<Longrightarrow> good_name (source_id x src)"
  unfolding source_id_def by (rule hash_names(1)) (rule is_lower_hex_sha256_hex)

lemma mk_context_ok:
  "store_libs_ok x \<Longrightarrow> sound_store x cd d f w \<Longrightarrow> context_ok (mk_context x cd d (source_id x src) f)"
  by (simp add: context_ok_def store_libs_ok_def sound_store_def good_source_id)

lemma sound_keeps:
  "sound_store x cd d f w \<Longrightarrow> keeps (mk_context x cd d sid f) (\<lambda>g. g = f) w"
  by (auto simp: sound_store_def good_files_def intro!: keepsI)

lemma keeps_sound:
  assumes "keeps (mk_context x cd d sid f) Q w" and "good_path d"
  obtains g where "sound_store x cd d g w" "framed d sid f g" "Q g" "good_files (mk_context x cd d sid f) g"
  using assms by (auto simp: sound_store_def good_files_def elim!: keepsE)

lemma triple_snd:
  assumes "triple P m Q E" and "P w" and "\<And>a v. Q a v \<Longrightarrow> E v"
  shows "E (snd (m w))"
  by (cases "m w"; cases "fst (m w)") (use assms in \<open>auto dest: triple_Ok triple_Err triple_Halt\<close>)

lemma reported_Some: "fr_version_id r = Some v \<Longrightarrow> reported c desc ix r = published c desc ix v"
  by (simp add: fun_eq_iff reported_def)

lemma stored_sound: "sound_store sample_ext plain_codec [''dst''] stored_files stored_world"
  using stored_sees stored_fair stored_store_ok stored_world_fs by (simp add: sound_store_def)

lemma fresh_sound: "sound_store sample_ext plain_codec [''dst''] (\<lambda>_. None) fresh_world"
  using fresh_sees fresh_fair by (simp add: sound_store_def store_ok_empty)

lemma sample_libs_ok: "store_libs_ok sample_ext"
  by (simp add: store_libs_ok_def)

section \<open>The theorems\<close>













lemma call_event:
  "events w = e # es \<Longrightarrow> \<not> ev_halt e \<Longrightarrow> ev_fail e = None \<Longrightarrow>
    call f w = (case f (fs w) of
        Inl k \<Rightarrow> (Err (Io k), w\<lparr>events := es, now := now w + ev_ns e\<rparr>)
      | Inr (a, F) \<Rightarrow> (Ok a, w\<lparr>events := es, now := now w + ev_ns e, fs := F\<rparr>))"
  by (simp add: call_def next_event_def split: sum.splits)

lemma probe_event:
  "events w = e # es \<Longrightarrow> \<not> ev_halt e \<Longrightarrow>
    probe f w = (Ok (\<not> ev_blind e \<and> f (fs w)), w\<lparr>events := es, now := now w + ev_ns e\<rparr>)"
  by (simp add: probe_def next_event_def)

lemma calm_simps [simp]: "\<not> ev_halt calm" "ev_fail calm = None" "ev_ns calm = 0" "\<not> ev_blind calm"
  by (simp_all add: calm_def)

lemmas event_run = call_event probe_event



end
