(* ===== verification/Restore_Theorems.thy ===== *)
theory Restore_Theorems
  imports Restore_Laws Lease_Laws Restore_Swap Backup_Theorems
begin

text \<open>
  Restoring a whole version: whatever fails and wherever the process dies, the target is the tree it
  was, or the complete version, or absent with the old tree beside it; nothing else changes.
\<close>

section \<open>Where a restore may happen\<close>

definition work_name :: "string \<Rightarrow> bool" where
  "work_name c \<longleftrightarrow> prefix ''.backup_sync_restore_'' c"

lemma work_names [simp]: "work_name (stage_name t)" "work_name (prev_name t)" "stage_name t \<noteq> prev_name u" "prev_name u \<noteq> stage_name t"
  "\<not> work_name STORE_DIR" "stage_name t = stage_name u \<longleftrightarrow> t = u"
  by (auto simp: work_name_def stage_name_def prev_name_def STORE_DIR_def)

text \<open>
  The destination is a directory whose store is reached without symbolic links. The target is reached
  without links, is neither in the store's directory nor above it, and no leftovers of an earlier
  restore are beside it.
\<close>

definition restore_ready :: "path \<Rightarrow> path \<Rightarrow> filesystem \<Rightarrow> bool" where
  "restore_ready d T F \<longleftrightarrow> fs_wf F \<and> good_path d \<and> node_at F d = Some Dir \<and> clear_region (d @ [STORE_DIR]) F
    \<and> T \<noteq> [] \<and> straight F T \<and> \<not> prefix T (d @ [STORE_DIR]) \<and> \<not> prefix (d @ [STORE_DIR]) T
    \<and> \<not> work_name (last T) \<and> (\<forall>c. work_name c \<longrightarrow> node_at F (butlast T @ [c]) = None)"

text \<open>What a restore may change: the lock file, the target, its ancestors, and the work names beside it.\<close>

definition restore_zone :: "path \<Rightarrow> path \<Rightarrow> path set" where
  "restore_zone d T = {q. prefix q (lock_path d) \<or> prefix (lock_path d) q \<or> prefix q T \<or> prefix T q
    \<or> (\<exists>c. work_name c \<and> prefix (butlast T @ [c]) q)}"

definition version_manifest :: "ext \<Rightarrow> path \<Rightarrow> path \<Rightarrow> string \<Rightarrow> (path \<Rightarrow> node option) \<Rightarrow> manifest \<Rightarrow> bool" where
  "version_manifest x d src vid N m \<longleftrightarrow> (\<exists>raw s n. N (source_root x d src @ [''manifests'', json_name vid]) = Some (File raw s n)
    \<and> parse_manifest x raw = Some m \<and> validate_manifest m = Inr ())"

text \<open>How a restore may leave the target, given the nodes before and after.\<close>

definition restored :: "ext \<Rightarrow> path \<Rightarrow> path \<Rightarrow> string \<Rightarrow> path \<Rightarrow> (path \<Rightarrow> node option) \<Rightarrow> (path \<Rightarrow> node option) \<Rightarrow> bool" where
  "restored x d src vid T N M \<longleftrightarrow> (\<exists>m. version_manifest x d src vid N m \<and> version_tree x m T M)"

definition set_aside :: "path \<Rightarrow> (path \<Rightarrow> node option) \<Rightarrow> (path \<Rightarrow> node option) \<Rightarrow> bool" where
  "set_aside T N M \<longleftrightarrow> (\<forall>s. M (T @ s) = None) \<and> (\<exists>c. work_name c \<and> (\<forall>s. M (butlast T @ c # s) = N (T @ s)))"

definition restore_left :: "ext \<Rightarrow> path \<Rightarrow> path \<Rightarrow> string \<Rightarrow> path \<Rightarrow> (path \<Rightarrow> node option) \<Rightarrow> (path \<Rightarrow> node option) \<Rightarrow> bool" where
  "restore_left x d src vid T N M \<longleftrightarrow> (\<forall>q. q \<notin> restore_zone d T \<longrightarrow> M q = N q)
    \<and> ((\<forall>s. M (T @ s) = N (T @ s)) \<or> restored x d src vid T N M \<or> set_aside T N M)"

section \<open>The paths are apart\<close>

text \<open>The regions used before the staged tree is built: the lock file, and a work name for the target's parents.\<close>

definition early :: "path \<Rightarrow> path \<Rightarrow> path set" where
  "early d T = {lock_path d, butlast T @ [stage_name []]}"

lemma destination_not_work:
  assumes "restore_ready d T F" and "work_name c"
  shows "\<not> prefix (butlast T @ [c]) d"
proof
  assume "prefix (butlast T @ [c]) d"
  then obtain s where "d = (butlast T @ [c]) @ s" by (auto simp: prefix_def)
  with assms fs_wf_prefix_dir [of F "butlast T @ [c]" s] show False by (cases "s = []") (auto simp: restore_ready_def)
qed

lemma lock_apart:
  assumes "restore_ready d T F" and "q \<in> {T} \<union> {butlast T @ [c] |c. work_name c}"
  shows "\<not> prefix q (lock_path d @ s)" and "\<not> prefix (d @ [STORE_DIR]) q"
proof -
  have T: "T = butlast T @ [last T]" "\<not> prefix T (d @ [STORE_DIR])" "\<not> prefix (d @ [STORE_DIR]) T"
    using assms(1) by (auto simp: restore_ready_def)
  have below: "\<not> prefix (d @ [STORE_DIR]) q"
  proof (cases "q = T")
    case False
    with assms(2) obtain c where c: "q = butlast T @ [c]" "work_name c" by auto
    show ?thesis
    proof
      assume "prefix (d @ [STORE_DIR]) q"
      then have "d @ [STORE_DIR] = q \<or> prefix (d @ [STORE_DIR]) (butlast T)" using c(1) by simp
      with c T(3) prefix_order.trans [OF _ prefixeq_butlast] show False by auto
    qed
  qed (use T in simp)
  then show "\<not> prefix (d @ [STORE_DIR]) q" .
  have above: "\<not> prefix q (d @ [STORE_DIR])"
  proof (cases "q = T")
    case False
    with assms(2) obtain c where c: "q = butlast T @ [c]" "work_name c" by auto
    with destination_not_work [OF assms(1) c(2)] show ?thesis by auto
  qed (use T in simp)
  show "\<not> prefix q (lock_path d @ s)"
  proof
    assume "prefix q (lock_path d @ s)"
    moreover have "prefix (d @ [STORE_DIR]) (lock_path d @ s)" by (simp add: lock_path_def)
    ultimately show False using above below prefix_same_cases by blast
  qed
qed

lemma siblings_target: "restore_ready d T F \<Longrightarrow> work_name c \<Longrightarrow> siblings (butlast T @ [c]) T"
  by (cases T rule: rev_cases) (auto simp: restore_ready_def siblings_def)

lemma target_roads:
  assumes r: "restore_ready d T F" and q: "q \<in> {T} \<union> {butlast T @ [c] |c. work_name c \<and> c \<noteq> stage_name []}"
  shows "q @ s \<notin> roads (early d T)"
proof
  assume "q @ s \<in> roads (early d T)"
  then consider "prefix (q @ s) (lock_path d) \<or> prefix (lock_path d) (q @ s)"
    | "prefix (q @ s) (butlast T @ [stage_name []]) \<or> prefix (butlast T @ [stage_name []]) (q @ s)"
    by (auto simp: roads_def early_def in_region_def)
  then show False
  proof cases
    case 1
    then have "prefix q (lock_path d) \<or> prefix (lock_path d) q"
      using prefix_same_cases [of "lock_path d" "q @ s" q] by (auto dest: append_prefixD)
    moreover have "\<not> prefix q (lock_path d @ [])" "\<not> prefix (d @ [STORE_DIR]) q"
      using lock_apart [OF r, of q] q by auto
    moreover have "prefix (d @ [STORE_DIR]) (lock_path d)" by (simp add: lock_path_def)
    ultimately show False using prefix_order.trans by auto
  next
    case 2
    have "siblings q (butlast T @ [stage_name []])"
      using q siblings_target [OF r, of "stage_name []"] by (auto simp: siblings_def)
    from siblings_apart [OF this, of s] siblings_apart [OF this, of "[]"] 2 show False by (auto dest: append_prefixD)
  qed
qed

lemma manifest_roads:
  assumes r: "restore_ready d T F" and p: "prefix (store_root d) p"
  shows "p \<notin> roads (early d T)"
proof
  assume "p \<in> roads (early d T)"
  then consider "prefix p (lock_path d) \<or> prefix (lock_path d) p"
    | "prefix p (butlast T @ [stage_name []]) \<or> prefix (butlast T @ [stage_name []]) p"
    by (auto simp: roads_def early_def in_region_def)
  then show False
  proof cases
    case 1
    then show False using p by (auto simp: lock_path_def store_root_def OPERATION_LOCK_FILE_def prefix_def)
  next
    case 2
    let ?z = "butlast T @ [stage_name []]"
    have z: "\<not> prefix ?z (lock_path d @ s)" "\<not> prefix (d @ [STORE_DIR]) ?z" for s
      using lock_apart [OF r, of ?z] by auto
    have "prefix (d @ [STORE_DIR]) p" using p by (auto simp: store_root_def prefix_def)
    with 2 z(2) have "prefix ?z p" using prefix_order.trans by blast
    with \<open>prefix (d @ [STORE_DIR]) p\<close> z(2) have "prefix ?z (d @ [STORE_DIR])" using prefix_same_cases by blast
    with z(1) [of "[]"] show False by (auto simp: lock_path_def)
  qed
qed

lemma clear_new:
  assumes "straight F P" and "good_name c" and "node_at F (P @ [c]) = None"
  shows "clear_region (P @ [c]) F"
proof -
  have P: "fs_wf F" "good_path P" "plain F P" using assms(1) by (auto simp: straight_def)
  have "\<not> prefix q (P @ [c]) \<and> \<not> prefix (P @ [c]) q" if q: "node_at F q = Some (Link t)" for q t
  proof (intro conjI notI)
    assume "prefix q (P @ [c])"
    then show False using q assms(3) P(3) by (auto simp: plain_def)
  next
    assume "prefix (P @ [c]) q"
    then obtain s where "q = (P @ [c]) @ s" by (auto simp: prefix_def)
    with q assms(3) fs_wf_prefix_dir [OF P(1), of "P @ [c]" s] show False by (cases "s = []") auto
  qed
  with P(2) assms(2) show ?thesis by (auto simp: clear_region_def good_path_def)
qed

lemma absent_below: "fs_wf F \<Longrightarrow> node_at F p = None \<Longrightarrow> node_at F (p @ s) = None"
  using fs_wf_prefix_dir [of F p s] by (cases "s = []") fastforce+

lemma tames_early:
  assumes "restore_ready d T F"
  shows "tames (early d T) F"
proof -
  let ?s = "d @ [STORE_DIR]"
  have c: "clear_region ?s F" and d: "good_path d" and T: "straight F (butlast T)" and wf: "fs_wf F"
    and n: "node_at F (butlast T @ [stage_name []]) = None"
    using assms straight_parent by (auto simp: restore_ready_def)
  have "\<not> prefix q (lock_path d) \<and> \<not> prefix (lock_path d) q" if "node_at F q = Some (Link t)" for q t
  proof -
    from c that have "\<not> prefix q ?s" "\<not> prefix ?s q" by (auto simp: clear_region_def)
    moreover have "prefix ?s (lock_path d)" by (simp add: lock_path_def)
    ultimately show ?thesis using prefix_order.trans prefix_same_cases by blast
  qed
  with good_lock_path [OF d] have "clear_region (lock_path d) F" by (auto simp: clear_region_def)
  moreover have "good_name (stage_name [])" by (simp add: good_name_def stage_name_def)
  ultimately show ?thesis using clear_new [OF T _ n] wf by (simp add: tames_def early_def)
qed

section \<open>Before the tree is built\<close>

lemma early_untouched:
  assumes r: "restore_ready d T F" and w: "strays (early d T) (node_at F) w"
  shows "node_at (fs w) (T @ s) = node_at F (T @ s)"
    and "work_name c \<Longrightarrow> c \<noteq> stage_name [] \<Longrightarrow> node_at (fs w) ((butlast T @ [c]) @ s) = None"
proof -
  have same: "node_at (fs w) q = node_at F q" if "q \<notin> roads (early d T)" for q using w that by (simp add: strays_def)
  show "node_at (fs w) (T @ s) = node_at F (T @ s)" by (rule same) (rule target_roads [OF r], simp)
  show "node_at (fs w) ((butlast T @ [c]) @ s) = None" if "work_name c" "c \<noteq> stage_name []"
  proof -
    have "node_at (fs w) ((butlast T @ [c]) @ s) = node_at F ((butlast T @ [c]) @ s)"
      by (rule same, rule target_roads [OF r]) (use that in auto)
    moreover have "node_at F ((butlast T @ [c]) @ s) = None"
      by (rule absent_below) (use r that in \<open>auto simp: restore_ready_def\<close>)
    ultimately show ?thesis by simp
  qed
qed

lemma early_zone: "restore_ready d T F \<Longrightarrow> q \<in> roads (early d T) \<Longrightarrow> q \<in> restore_zone d T"
proof -
  assume "restore_ready d T F" and "q \<in> roads (early d T)"
  then consider "prefix q (lock_path d) \<or> prefix (lock_path d) q" | "prefix q (butlast T)"
    | "prefix (butlast T @ [stage_name []]) q"
    by (auto simp: roads_def early_def in_region_def)
  then show ?thesis
    by cases (auto simp: restore_zone_def intro: prefix_order.trans [OF _ prefixeq_butlast])
qed

lemma early_left:
  assumes "restore_ready d T F" and "strays (early d T) (node_at F) w"
  shows "restore_left x d src vid T (node_at F) (node_at (fs w))"
  using early_untouched(1) [OF assms] early_zone [OF assms(1)] assms(2) by (auto simp: restore_left_def strays_def)

lemma triple_load_manifest:
  assumes x: "sha_ok x" and r: "restore_ready d T F" and d: "destination_root_for_source cfg src = Inr d"
  shows "triple (strays (early d T) (node_at F)) (load_manifest_for_request x cfg src vid)
    (\<lambda>ms w. (version_manifest x d src vid (node_at F) (fst ms) \<and> snd ms = store_root d) \<and> strays (early d T) (node_at F) w)
    (strays (early d T) (node_at F))"
proof (rule tripleI)
  let ?p = "source_root x d src @ [''manifests'', json_name vid]" and ?s = "d @ [STORE_DIR]"
  fix w ms v assume w: "strays (early d T) (node_at F) w" and l: "load_manifest_for_request x cfg src vid w = (Ok ms, v)"
  from l d obtain m where vid: "validate_version_id vid = Inr ()" and m: "read_manifest x ?p w = (Ok m, v)"
    and ms: "ms = (m, store_root d)"
    unfolding load_manifest_for_request_def by (auto simp: lift_Ok_iff ret_Ok_iff elim!: bnd_OkE)
  from read_manifest_value [OF m] obtain raw where raw: "read_file ?p w = (Ok raw, v)" "parse_manifest x raw = Some m"
    "validate_manifest m = Inr ()" by blast
  have same: "node_at (fs w) q = node_at F q" if "q \<notin> roads (early d T)" for q using w that by (simp add: strays_def)
  have tm: "tames (early d T) (fs w)" using w by (simp add: strays_def)
  have d': "good_path d" and cl: "clear_region ?s F" using r by (auto simp: restore_ready_def)
  have "\<not> prefix q ?s \<and> \<not> prefix ?s q" if "node_at (fs w) q = Some (Link t)" for q t
  proof -
    have "q \<notin> roads (early d T)"
      using that tames_straight [OF tm] straight_no_link by (fastforce simp: roads_def)
    with same that cl show ?thesis by (auto simp: clear_region_def)
  qed
  then have tame: "tame ?s (fs w)" using tm cl by (auto simp: tame_def tames_def clear_region_def)
  have "good_name (json_name vid)" by (rule version_name_file(1) [OF valid_version_name [OF vid]])
  moreover have "good_name ''v1''" "good_name ''sources''" "good_name ''manifests''" by (simp_all add: good_name_def)
  ultimately have "in_region ?s ?p"
    using d' good_source_id [OF x, of src]
    by (simp add: in_region_def good_path_def source_root_def sources_root_def store_root_def)
  from read_file_value [OF tame this raw(1)] obtain sc n where "node_at (fs w) ?p = Some (File raw sc n)"
    by (auto simp: file_at_def split: option.splits node.splits)
  moreover have "?p \<notin> roads (early d T)"
    by (rule manifest_roads [OF r]) (simp add: source_root_def sources_root_def)
  ultimately have "node_at F ?p = Some (File raw sc n)" using same by simp
  then show "(version_manifest x d src vid (node_at F) (fst ms) \<and> snd ms = store_root d) \<and> strays (early d T) (node_at F) v"
    using raw ms stableD [OF stable_strays w] movesD [OF moves_still_load_manifest l] by (auto simp: version_manifest_def)
qed (use movesD [OF moves_still_load_manifest] stableD [OF stable_strays] in blast)+

section \<open>Building and swapping\<close>

lemma version_tree_cong:
  assumes t: "version_tree x m T N" and m: "validate_manifest m = Inr ()" and same: "\<And>s. M (T @ s) = N (T @ s)"
  shows "version_tree x m T M"
proof -
  have at: "M (join_rel T (me_rel_path e)) = N (join_rel T (me_rel_path e))" if "e \<in> set (bt_values (mf_entries m))" for e
    using valid_rel_names(1) [OF valid_manifest_entries [OF m that]] same by simp
  have fe: "e \<in> set (bt_values (mf_entries m))" if "e \<in> set (file_entries m)" for e using that by (simp add: file_entries_def)
  have below: "M p = N p" if "prefix T p" for p using that same by (auto simp: prefix_def)
  show ?thesis using t same [of "[]"] at fe below unfolding version_tree_def by auto blast
qed

text \<open>
  The nodes from when the staged tree at \<open>A\<close> is begun until it is swapped in: the target is as it was,
  the name \<open>B\<close> for the old tree is free, and nothing outside the zone has changed.
\<close>

definition waiting :: "path \<Rightarrow> path \<Rightarrow> path \<Rightarrow> (path \<Rightarrow> node option) \<Rightarrow> (path \<Rightarrow> node option) \<Rightarrow> bool" where
  "waiting d T B N M \<longleftrightarrow> (\<forall>s. M (T @ s) = N (T @ s)) \<and> (\<forall>s. M (B @ s) = None) \<and> (\<forall>q. q \<notin> restore_zone d T \<longrightarrow> M q = N q)"

lemma work_zone: "work_name c \<Longrightarrow> prefix (butlast T @ [c]) q \<Longrightarrow> q \<in> restore_zone d T"
  by (auto simp: restore_zone_def)

lemma stage_roads:
  assumes r: "restore_ready d T F" and c: "work_name c" and q: "q \<in> roads {butlast T @ [c]}"
  shows "q \<in> restore_zone d T" and "q \<noteq> T @ s" and "work_name e \<Longrightarrow> e \<noteq> c \<Longrightarrow> q \<noteq> (butlast T @ [e]) @ s"
proof -
  let ?A = "butlast T @ [c]"
  have q': "prefix q ?A \<or> prefix ?A q" using q by (auto simp: roads_def in_region_def)
  then show "q \<in> restore_zone d T"
    using c prefix_order.trans [OF _ prefixeq_butlast, of q T] by (auto simp: restore_zone_def)
  have apart: "q \<noteq> p @ s" if "siblings ?A p" for p
    using siblings_apart [OF that, of s] siblings_apart [OF that, of "[]"] q' by (auto dest: append_prefixD)
  show "q \<noteq> T @ s" by (rule apart [OF siblings_target [OF r c]])
  show "q \<noteq> (butlast T @ [e]) @ s" if "work_name e" "e \<noteq> c" by (rule apart) (use that in \<open>simp add: siblings_def\<close>)
qed

lemma waiting_stage:
  assumes "restore_ready d T F" and "work_name c" and "work_name e" and "e \<noteq> c"
    and "waiting d T (butlast T @ [e]) N M" and "\<forall>q. q \<notin> roads {butlast T @ [c]} \<longrightarrow> L q = M q"
  shows "waiting d T (butlast T @ [e]) N L"
  using assms(5,6) stage_roads [OF assms(1,2)] assms(3,4) unfolding waiting_def by metis

lemma waiting_left: "waiting d T B N M \<Longrightarrow> restore_left x d src vid T N M"
  by (auto simp: waiting_def restore_left_def)

lemma swapped:
  assumes r: "restore_ready d T F" and A: "A = butlast T @ [c]" "work_name c" and B: "B = butlast T @ [e]" "work_name e" "e \<noteq> c"
    and M: "waiting d T B N M" and tree: "restored x d src vid T N (moved A T M)" and L: "L \<in> swap_left A T B M"
  shows "restore_left x d src vid T N L" and "L \<in> swap_done A T B M \<Longrightarrow> restored x d src vid T N L"
proof -
  have AT: "siblings A T" and TB: "siblings T B" and AB: "siblings A B"
    using siblings_target [OF r A(2)] siblings_target [OF r B(2)] A B by (auto simp: siblings_def)
  have zone: "L q = N q" if q: "q \<notin> restore_zone d T" for q
  proof -
    have "\<not> prefix A q" "\<not> prefix B q" "\<not> prefix T q"
      using q A B by (auto simp: restore_zone_def)
    with L M q show ?thesis by (auto simp: swap_left_def waiting_def moved_other)
  qed
  have again: "restored x d src vid T N (moved A T (moved T B M))"
  proof -
    have "moved A T (moved T B M) (T @ s) = moved A T M (T @ s)" for s
      using moved_at(1) [OF AT] moved_sibling [OF siblings_sym [OF AT] siblings_sym [OF AB]] by simp
    moreover obtain m where m: "version_manifest x d src vid N m" "version_tree x m T (moved A T M)"
      using tree by (auto simp: restored_def)
    ultimately have "version_tree x m T (moved A T (moved T B M))"
      by (intro version_tree_cong [OF m(2)]) (use m(1) in \<open>auto simp: version_manifest_def\<close>)
    with m(1) show ?thesis by (auto simp: restored_def)
  qed
  then show fin: "restored x d src vid T N L" if "L \<in> swap_done A T B M" using that tree by (auto simp: swap_done_def)
  show "restore_left x d src vid T N L"
  proof (cases "L = moved T B M")
    case True
    have "L (T @ s) = None" "L (B @ s) = N (T @ s)" for s
      using True moved_at [OF TB] M by (auto simp: waiting_def)
    then have "set_aside T N L" using B by (auto simp: set_aside_def intro!: exI [of _ e])
    with zone show ?thesis by (simp add: restore_left_def)
  next
    case False
    with L consider "L = M" | "L \<in> swap_done A T B M" by (auto simp: swap_left_def swap_done_def)
    then show ?thesis
      using waiting_left [OF M] fin zone by cases (auto simp: restore_left_def)
  qed
qed

text \<open>The state of a restore as an assertion on worlds: what failure may leave, and what success leaves.\<close>

definition leaves :: "ext \<Rightarrow> path \<Rightarrow> path \<Rightarrow> string \<Rightarrow> path \<Rightarrow> (path \<Rightarrow> node option) \<Rightarrow> world \<Rightarrow> bool" where
  "leaves x d src vid T N w \<longleftrightarrow> restore_left x d src vid T N (node_at (fs w))"

definition succeeds :: "ext \<Rightarrow> path \<Rightarrow> path \<Rightarrow> string \<Rightarrow> path \<Rightarrow> (path \<Rightarrow> node option) \<Rightarrow> world \<Rightarrow> bool" where
  "succeeds x d src vid T N w \<longleftrightarrow> leaves x d src vid T N w \<and> restored x d src vid T N (node_at (fs w))"

lemma pruned_leaves:
  assumes r: "restore_ready d T F" and B: "B = butlast T @ [e]" "work_name e"
    and L: "restore_left x d src vid T N L" "restored x d src vid T N L" and w: "pruned B L w"
  shows "succeeds x d src vid T N w"
proof -
  let ?G = "node_at (fs w)"
  have other: "?G q = L q" if "\<not> prefix B q" for q using w that by (auto simp: pruned_def)
  have tree: "?G (T @ s) = L (T @ s)" for s
    by (rule other) (use siblings_apart [OF siblings_target [OF r B(2)]] B(1) in blast)
  from L(2) obtain m where m: "version_manifest x d src vid N m" "version_tree x m T L" by (auto simp: restored_def)
  then have "version_tree x m T ?G"
    using version_tree_cong [OF m(2) _ tree] by (auto simp: version_manifest_def)
  with m(1) have t: "restored x d src vid T N ?G" by (auto simp: restored_def)
  moreover have "?G q = N q" if "q \<notin> restore_zone d T" for q
    using that other [of q] work_zone [OF B(2), of T q d] B(1) L(1) by (auto simp: restore_left_def)
  ultimately show ?thesis by (simp add: succeeds_def leaves_def restore_left_def)
qed

lemma triple_swap_in:
  assumes r: "restore_ready d T F" and x: "parent_or_cwd x T = butlast T"
    and A: "A = butlast T @ [stage_name t]" and B: "B = butlast T @ [prev_name t]" "good_path B"
    and M: "waiting d T B (node_at F) M" and tree: "restored x d src vid T (node_at F) (moved A T M)"
    and un: "unlinked M A" "unlinked M (butlast T)"
  shows "triple (holds {} M) (bnd (swap_staged_tree_into_place x A T t) (\<lambda>backup.
      bnd (case backup of None \<Rightarrow> ret ()
        | Some b \<Rightarrow> if c then bnd (attempt (remove_dir_all b)) (\<lambda>_. ret ()) else ret ()) (\<lambda>_. ret z)))
    (\<lambda>_. succeeds x d src vid T (node_at F)) (leaves x d src vid T (node_at F))"
proof -
  let ?L = "leaves x d src vid T (node_at F)" and ?S = "succeeds x d src vid T (node_at F)"
  have AT: "siblings A T" using siblings_target [OF r work_names(1)] A by simp
  have TB: "siblings T B" using siblings_sym [OF siblings_target [OF r work_names(2)]] B by simp
  have AB: "siblings A B" using A B by (simp add: siblings_def)
  have T: "T = butlast T @ [last T]" "good_path T" using r by (auto simp: restore_ready_def straight_def)
  have "M T \<noteq> Some (Link k)" for k
    using M r straight_no_link [of F T k] unfolding waiting_def restore_ready_def by (metis append_Nil2)
  then have uT: "unlinked M T" using un(2) T by (auto simp: unlinked_def) (metis prefix_snoc)
  have free: "M (B @ s) = None" for s using M by (simp add: waiting_def)
  have uB: "unlinked M B" using un(2) B free [of "[]"] by (auto simp: unlinked_def)
  have left: "restore_left x d src vid T (node_at F) L" if "L \<in> swap_left A T B M" for L
    by (rule swapped(1) [OF r A _ B(1) _ _ M tree that]) simp_all
  have fin: "restored x d src vid T (node_at F) L" if "L \<in> swap_done A T B M" for L
    by (rule swapped(2) [OF r A _ B(1) _ _ M tree _ that]) (use that in \<open>auto simp: swap_left_def swap_done_def\<close>)
  have sub: "swap_done A T B M \<subseteq> swap_left A T B M" by (auto simp: swap_left_def swap_done_def)
  have uL: "unlinked L B" if "L \<in> swap_done A T B M" for L
  proof -
    have len: "length A = length T" "length B = length T" using AT TB by (auto simp: siblings_def)
    have "unlinked (moved T B M) A" "unlinked (moved T B M) B" using unlinked_moved [OF TB uT] un(1) uB len by auto
    with unlinked_moved [OF AT un(1) uB] unlinked_moved [OF AT, of "moved T B M" B] len that
    show ?thesis by (auto simp: swap_done_def)
  qed
  have keep: "triple (holds {} L) (ret ()) (\<lambda>_. ?S) ?L" if "L \<in> swap_done A T B M" for L
    using left [of L] fin [OF that] that sub by (intro triple_ret) (auto simp: succeeds_def leaves_def holds_def)
  have prune: "triple (holds {} L) (bnd (attempt (remove_dir_all B)) (\<lambda>_. ret ())) (\<lambda>_. ?S) ?L" if L: "L \<in> swap_done A T B M" for L
  proof -
    have "?S w" if "pruned B L w" for w
      by (rule pruned_leaves [OF r B(1) _ _ fin [OF L] that]) (use left L sub in auto)
    then have "triple (holds {} L) (attempt (remove_dir_all B)) (\<lambda>_. ?S) ?L"
      by (intro triple_conseq [OF triple_attempt [OF triple_remove_dir_all [OF uL [OF L]]]])
        (auto simp: succeeds_def split: sum.splits)
    then show ?thesis by (rule triple_bnd) (auto intro: triple_ret)
  qed
  have tail: "triple (\<lambda>w. backup \<in> {None, Some B} \<and> among (swap_done A T B M) w) (bnd (case backup of None \<Rightarrow> ret ()
        | Some b \<Rightarrow> if c then bnd (attempt (remove_dir_all b)) (\<lambda>_. ret ()) else ret ()) (\<lambda>_. ret z)) (\<lambda>_. ?S) ?L" for backup
  proof (rule triple_pull, rule triple_bnd [OF triple_among])
    fix L assume "backup \<in> {None, Some B}" and "L \<in> swap_done A T B M"
    then show "triple (holds {} L) (case backup of None \<Rightarrow> ret ()
        | Some b \<Rightarrow> if c then bnd (attempt (remove_dir_all b)) (\<lambda>_. ret ()) else ret ()) (\<lambda>_. ?S) ?L"
      using keep prune by (cases backup) auto
  qed (auto intro: triple_ret)
  have "triple (holds {} M) (swap_staged_tree_into_place x A T t)
      (\<lambda>r w. r \<in> {None, Some B} \<and> among (swap_done A T B M) w) ?L"
    by (rule triple_conseq [OF triple_swap [OF AT TB AB un(1) uT uB free]])
      (use x B left in \<open>auto simp: among_def leaves_def holds_def\<close>)
  from triple_bnd [OF this tail] show ?thesis .
qed

lemma token_names:
  assumes "stamp_ok x" and "restore_token x w = (Ok t, v)"
  shows "t \<noteq> []" and "good_name (stage_name t)" and "good_name (prev_name t)"
proof -
  from assms(2) obtain k where t: "t = x_version_stamp x k @ ''-'' @ show_nat (x_pid x)"
    by (auto simp: restore_token_def ret_def elim!: bnd_OkE)
  then show "t \<noteq> []" by simp
  have "CHR ''/'' \<notin> set (x_version_stamp x k)" using assms(1) by (force simp: stamp_ok_def)
  moreover have "CHR ''/'' \<notin> set (show_nat n)" for n using show_nat_digits [of "CHR ''/''" n] by auto
  ultimately show "good_name (stage_name t)" "good_name (prev_name t)"
    by (auto simp: t good_name_def stage_name_def prev_name_def)
qed

lemma triple_build_and_swap:
  assumes x: "temp_ok x" "parent_or_cwd x T = butlast T" and r: "restore_ready d T F"
    and t: "t \<noteq> []" "good_name (stage_name t)" "good_name (prev_name t)"
    and m: "version_manifest x d src vid (node_at F) m" "\<forall>e \<in> set (file_entries m). me_sha256 e \<noteq> None"
    and A: "A = butlast T @ [stage_name t]"
  shows "triple (strays (early d T) (node_at F))
    (bnd (attempt (build_restore_tree x A m (map (planned_entry x br) (file_entries m)) cd timeout)) (\<lambda>built. case built of
        Inl e \<Rightarrow> bnd (attempt (remove_dir_all A)) (\<lambda>_. throw e)
      | Inr z \<Rightarrow> bnd (swap_staged_tree_into_place x A T t) (\<lambda>backup.
          bnd (case backup of None \<Rightarrow> ret ()
            | Some b \<Rightarrow> if c then bnd (attempt (remove_dir_all b)) (\<lambda>_. ret ()) else ret ()) (\<lambda>_. ret (g z)))))
    (\<lambda>_. succeeds x d src vid T (node_at F)) (leaves x d src vid T (node_at F))"
    (is "triple _ ?m _ ?L")
proof (rule triple_pre)
  let ?B = "butlast T @ [prev_name t]" and ?pf = "map (planned_entry x br) (file_entries m)" and ?N = "node_at F"
  have gT: "good_path (butlast T)" using r straight_parent by (auto simp: restore_ready_def straight_def)
  then have gA: "good_path A" "good_path ?B" using t A by (auto simp: good_path_def)
  have mv: "validate_manifest m = Inr ()" using m(1) by (auto simp: version_manifest_def)
  note rel = valid_manifest_entries [OF mv]
  have pf: "validate_relative_path (pf_rel_path p) = Inr ()" if "p \<in> set ?pf" for p
    using that rel by (auto simp: planned_entry_def file_entries_def)
  have wait: "waiting d T ?B ?N K" if "waiting d T ?B ?N M" "\<forall>q. q \<notin> roads {A} \<longrightarrow> K q = M q" for M K
    by (rule waiting_stage [OF r work_names(1,2) _ that(1)]) (use that(2) A in auto)
  show "triple (\<lambda>w. \<exists>M. (waiting d T ?B ?N M \<and> (\<forall>s. M (A @ s) = None)) \<and> holds {A} M w) ?m
    (\<lambda>_. succeeds x d src vid T ?N) ?L"
  proof (intro triple_some triple_pull, elim conjE)
    fix M assume M: "waiting d T ?B ?N M" and new: "\<forall>s. M (A @ s) = None"
    have lost: "?L w" if "strays {A} M w" for w
      unfolding leaves_def by (rule waiting_left [OF wait [OF M]]) (use that in \<open>auto simp: strays_def\<close>)
    have build: "triple (holds {A} M) (build_restore_tree x A m ?pf cd timeout)
        (\<lambda>_. staged {A} A (plan_spec x A ?pf Map.empty) (entry_dirs A (bt_values (mf_entries m))) M) (strays {A} M)"
      by (rule triple_build_restore_tree [OF x(1) _ gA(1) _ rel pf]) (use new in auto)
    have clean: "triple (strays {A} M) (bnd (attempt (remove_dir_all A)) (\<lambda>_. throw e)) (\<lambda>_. succeeds x d src vid T ?N) ?L" for e
      by (rule triple_bnd [OF triple_conseq [OF triple_strays [OF tc.moves_attempt [OF touches_remove_dir_all [of A]]],
          where Q' = "\<lambda>_. strays {A} M"]])
        (auto intro: triple_throw lost gA)
    have swap: "triple (staged {A} A (plan_spec x A ?pf Map.empty) (entry_dirs A (bt_values (mf_entries m))) M)
        (bnd (swap_staged_tree_into_place x A T t) (\<lambda>backup.
          bnd (case backup of None \<Rightarrow> ret ()
            | Some b \<Rightarrow> if c then bnd (attempt (remove_dir_all b)) (\<lambda>_. ret ()) else ret ()) (\<lambda>_. ret (g z))))
        (\<lambda>_. succeeds x d src vid T ?N) ?L" for z
    proof (rule triple_from_staged)
      fix K assume K: "tree_ok A (plan_spec x A ?pf Map.empty) (entry_dirs A (bt_values (mf_entries m))) K"
        "\<forall>p. p \<notin> roads {A} \<longrightarrow> K p = M p"
      have AT: "siblings A T" using siblings_target [OF r work_names(1)] A by simp
      have "version_tree x m T (moved A T K)"
        by (rule version_tree_staged [OF K(1) mv m(2)]) (simp add: moved_at(1) [OF AT])
      with m(1) have tree: "restored x d src vid T ?N (moved A T K)" by (auto simp: restored_def)
      show "triple (holds {A} K) (bnd (swap_staged_tree_into_place x A T t) (\<lambda>backup.
          bnd (case backup of None \<Rightarrow> ret ()
            | Some b \<Rightarrow> if c then bnd (attempt (remove_dir_all b)) (\<lambda>_. ret ()) else ret ()) (\<lambda>_. ret (g z))))
        (\<lambda>_. succeeds x d src vid T ?N) ?L"
      proof (rule triple_pre)
        show "triple (\<lambda>w. (unlinked K A \<and> unlinked K (butlast T)) \<and> holds {} K w) (bnd (swap_staged_tree_into_place x A T t) (\<lambda>backup.
            bnd (case backup of None \<Rightarrow> ret ()
              | Some b \<Rightarrow> if c then bnd (attempt (remove_dir_all b)) (\<lambda>_. ret ()) else ret ()) (\<lambda>_. ret (g z))))
          (\<lambda>_. succeeds x d src vid T ?N) ?L"
          by (rule triple_pull, elim conjE, rule triple_swap_in [OF r x(2) A refl gA(2) wait [OF M K(2)] tree])
        fix w assume w: "holds {A} K w"
        then have "straight (fs w) A" using tames_straight [of "{A}" "fs w" A A] gA(1) by (simp add: holds_def in_region_def)
        moreover from this have "straight (fs w) (butlast T)" by (rule straight_prefix) (simp add: A)
        ultimately show "(unlinked K A \<and> unlinked K (butlast T)) \<and> holds {} K w"
          using w unlinked_straight by (auto simp: holds_def tames_def)
      qed
    qed
    show "triple (holds {A} M) ?m (\<lambda>_. succeeds x d src vid T ?N) ?L"
      by (rule triple_try [OF build clean swap lost])
  qed
  fix w assume w: "strays (early d T) ?N w"
  have ne: "stage_name t \<noteq> stage_name []" "prev_name t \<noteq> stage_name []" using t(1) by auto
  have free: "node_at (fs w) (A @ s) = None" "node_at (fs w) (?B @ s) = None" for s
    using early_untouched(2) [OF r w work_names(1) ne(1)] early_untouched(2) [OF r w work_names(2) ne(2)] A by auto
  have "waiting d T ?B ?N (node_at (fs w))"
    using early_untouched(1) [OF r w] free(2) early_zone [OF r] w by (auto simp: waiting_def strays_def)
  moreover have "straight (fs w) (butlast T @ [stage_name []])"
    by (rule tames_straight [of "early d T" _ "butlast T @ [stage_name []]"]) (use w gT in \<open>auto simp: strays_def early_def in_region_def good_path_def good_name_def stage_name_def\<close>)
  then have "clear_region A (fs w)"
    unfolding A by (intro clear_new) (use straight_prefix free(1) [of "[]"] A t in \<open>auto simp: prefix_def\<close>)
  then have "holds {A} (node_at (fs w)) w" using w by (simp add: holds_def tames_def strays_def)
  ultimately show "\<exists>M. (waiting d T ?B ?N M \<and> (\<forall>s. M (A @ s) = None)) \<and> holds {A} M w" using free(1) by blast
qed

section \<open>The whole operation\<close>

lemma triple_restore_version:
  assumes x: "store_libs_ok x" and d: "destination_root_for_source cfg (rq_source_path req) = Inr d"
    and T: "restore_root_of (rq_mode req) (rq_source_path req) (rq_target_dir req) = Inr T" and r: "restore_ready d T F"
  shows "triple (strays (early d T) (node_at F)) (restore_version x cfg req)
    (\<lambda>_. succeeds x d (rq_source_path req) (rq_version_id req) T (node_at F))
    (leaves x d (rq_source_path req) (rq_version_id req) T (node_at F))"
proof -
  let ?P = "strays (early d T) (node_at F)" and ?src = "rq_source_path req" and ?vid = "rq_version_id req"
  let ?L = "leaves x d ?src ?vid T (node_at F)" and ?S = "succeeds x d ?src ?vid T (node_at F)"
  have lib: "sha_ok x" "temp_ok x" "stamp_ok x" using x by (auto simp: store_libs_ok_def)
  have left: "?L w" if "?P w" for w using early_left [OF r that] by (simp add: leaves_def)
  have gd: "good_path d" and Tne: "T \<noteq> []" and gT: "good_path (butlast T)"
    using r straight_parent by (auto simp: restore_ready_def straight_def)
  have par: "parent_or_cwd x T = butlast T" using Tne by (simp add: parent_or_cwd_def parent_of_def)
  have still: "triple ?P m (\<lambda>_. ?P) ?L" if "moves still m" for m :: "'a io"
    by (rule triple_conseq [OF triple_still [OF stable_strays that]]) (auto intro: left)
  have touch: "triple ?P m (\<lambda>_. ?P) ?L" if "moves (touches (early d T)) m" for m :: "'a io"
    by (rule triple_conseq [OF triple_strays [OF that]]) (auto intro: left)
  have val: "triple ?P m (\<lambda>a w. V a \<and> ?P w) ?L" if "moves still m" "\<And>s a t. m s = (Ok a, t) \<Longrightarrow> V a" for m :: "'a io" and V
    by (rule triple_conseq [OF triple_still_value [OF stable_strays that]]) (auto intro: left)
  have lifted: "triple ?P (lift v) (\<lambda>a w. v = Inr a \<and> ?P w) ?L" for v :: "'a res"
    by (rule triple_lift) (auto intro: left)
  have lease: "moves (touches (early d T)) (acquire_store_lease x d pol)" for pol
    by (rule touches_acquire_store_lease [OF _ gd]) (simp add: early_def)
  have dirs: "moves (touches (early d T)) (create_dir_all (butlast T))"
    by (rule touches_create_dir_all [of "butlast T @ [stage_name []]"]) (use gT in \<open>simp_all add: early_def in_region_def\<close>)
  have load: "triple ?P (load_manifest_for_request x cfg ?src ?vid)
      (\<lambda>ms w. (version_manifest x d ?src ?vid (node_at F) (fst ms) \<and> snd ms = store_root d) \<and> ?P w) ?L"
    by (rule triple_conseq [OF triple_load_manifest [OF lib(1) r d]]) (auto intro: left)
  have pre: "triple ?P (preflight_restore x cfg m br dd) (\<lambda>plan w. (fst plan = map (planned_entry x br) (file_entries m)
      \<and> (\<forall>e \<in> set (file_entries m). me_sha256 e \<noteq> None)) \<and> ?P w) ?L" for m br dd
    by (rule val [OF moves_still_preflight preflight_value])
  have tok: "triple ?P (restore_token x) (\<lambda>t w. (t \<noteq> [] \<and> good_name (stage_name t) \<and> good_name (prev_name t)) \<and> ?P w) ?L"
    by (rule val [OF moves_still_restore_token]) (use token_names [OF lib(3)] in blast)
  have late: "triple ?P (if ex then throw e else bnd (if rq_mode req = InPlace then path_exists T else ret False) (\<lambda>count.
        bnd (if count then count_extraneous_files x T m else ret 0) (\<lambda>removed.
        bnd (attempt (build_restore_tree x A m (fst plan) cd timeout)) (\<lambda>built. case built of
          Inl e \<Rightarrow> bnd (attempt (remove_dir_all A)) (\<lambda>_. throw e)
        | Inr z \<Rightarrow> bnd (swap_staged_tree_into_place x A T t) (\<lambda>backup.
            bnd (case backup of None \<Rightarrow> ret ()
              | Some b \<Rightarrow> if rq_mode req = InPlace then bnd (attempt (remove_dir_all b)) (\<lambda>_. ret ()) else ret ()) (\<lambda>_.
            ret (z\<lparr>rr_files_removed := removed\<rparr>))))))) (\<lambda>_. ?S) ?L"
    if m: "version_manifest x d ?src ?vid (node_at F) m"
      and plan: "fst plan = map (planned_entry x br) (file_entries m) \<and> (\<forall>e \<in> set (file_entries m). me_sha256 e \<noteq> None)"
      and t: "t \<noteq> [] \<and> good_name (stage_name t) \<and> good_name (prev_name t)" and A: "A = butlast T @ [stage_name t]"
    for ex e A m cd timeout t and plan :: "planned_file list \<times> nat" and br
    unfolding conjunct1 [OF plan]
    using t by (intro triple_if triple_throw left triple_bnd [OF still] triple_build_and_swap [OF lib(2) par r _ _ _ m conjunct2 [OF plan] A])
      (auto intro!: still_intros moves_still_count_extraneous)
  show ?thesis
    unfolding restore_version_def
    apply (rule triple_bnd [OF lifted], rule triple_pull)
    apply (rule triple_bnd [OF lifted], rule triple_pull)
    apply (rule triple_bnd [OF still [OF moves_still_lease_policy]])
    apply (rule triple_bnd [OF touch])
    subgoal using lease d by simp
    apply (rule triple_bnd [OF load], rule triple_pull)
    apply (simp only: split_beta)
    apply (rule triple_bnd [OF lifted], rule triple_pull)
    apply (rule triple_bnd [OF still [OF moves_still_prims(1)]])
    apply (rule triple_bnd [OF still], intro still_intros)
    apply (rule triple_if)
    subgoal by (rule triple_throw) (rule left)
    apply (simp only: Let_def)
    apply (rule triple_bnd [OF touch])
    subgoal using dirs T par by simp
    apply (rule triple_bnd [OF pre], rule triple_pull)
    apply (rule triple_bnd [OF still [OF moves_still_codec]])
    apply (rule triple_bnd [OF tok], rule triple_pull)
    apply (rule triple_bnd [OF still [OF moves_still_prims(1)]])
    subgoal premises p for _ dd pol _ ms tgt _ _ _ plan cd t ex
    proof -
      have "tgt = T" using p T by simp
      then show ?thesis unfolding \<open>tgt = T\<close> par by (intro late refl) (use p in blast)+
    qed
    done
qed

text \<open>
  C3: restoring a version is all or nothing. Whatever calls fail and wherever the process dies, the
  target afterwards is the tree it was before; or exactly the version, every file with the recorded
  hash and modification time, every recorded directory and nothing else; or it is absent and the whole
  old tree is beside it under a work name. When the operation reports success the target is the
  version. Nothing outside the target, its ancestors, the work names and the lock file changes.
\<close>

theorem restore_version_atomic:
  assumes "store_libs_ok x" and "destination_root_for_source cfg (rq_source_path req) = Inr d"
    and "restore_root_of (rq_mode req) (rq_source_path req) (rq_target_dir req) = Inr T" and "restore_ready d T (fs w)"
  shows "restore_left x d (rq_source_path req) (rq_version_id req) T (node_at (fs w)) (node_at (fs (snd (restore_version x cfg req w))))
    \<and> (\<forall>res. fst (restore_version x cfg req w) = Ok res \<longrightarrow>
      restored x d (rq_source_path req) (rq_version_id req) T (node_at (fs w)) (node_at (fs (snd (restore_version x cfg req w)))))"
proof -
  let ?L = "leaves x d (rq_source_path req) (rq_version_id req) T (node_at (fs w))"
  note t = triple_restore_version [OF assms]
  have w: "strays (early d T) (node_at (fs w)) w" using tames_early [OF assms(4)] by (simp add: strays_def)
  have "?L (snd (restore_version x cfg req w))"
    by (rule triple_snd [OF t w]) (simp add: succeeds_def)
  moreover have "restored x d (rq_source_path req) (rq_version_id req) T (node_at (fs w)) (node_at (fs v))"
    if "restore_version x cfg req w = (Ok res, v)" for res v
    using triple_Ok [OF t w that] by (simp add: succeeds_def)
  ultimately show ?thesis by (cases "restore_version x cfg req w") (auto simp: leaves_def)
qed

definition sample_request :: restore_request where
  "sample_request = \<lparr>rq_source_path = [''src''], rq_version_id = ''1-0'', rq_mode = InPlace, rq_target_dir = None\<rparr>"

lemma sample_request_target:
  "destination_root_for_source sample_config (rq_source_path sample_request) = Inr [''dst'']"
  "restore_root_of (rq_mode sample_request) (rq_source_path sample_request) (rq_target_dir sample_request) = Inr [''src'']"
  by (simp_all add: destination_root_for_source_def sample_config_def sample_watched_def sample_destination_def
      sample_request_def restore_root_of_def)

lemma sample_restore_ready: "restore_ready [''dst''] [''src''] stored_fs"
proof -
  have wf: "fs_wf stored_fs" using stored_tame by (simp add: tame_def)
  have links: "clear_region p stored_fs" if "good_path p" for p
    by (rule no_links_clear [OF that]) (simp add: stored_fs_def)
  have "straight stored_fs [''src'']"
    by (rule straight_unlinked [OF wf]) (use links [of "[''src'']"] in \<open>auto simp: unlinked_def clear_region_def\<close>)
  moreover have "node_at stored_fs [c] = None" if "work_name c" for c
    using that by (auto simp: stored_fs_def node_at_def work_name_def)
  ultimately show ?thesis
    using wf links [of "[''dst'', STORE_DIR]"]
    by (auto simp: restore_ready_def work_name_def) (simp add: stored_fs_def node_at_def)
qed

theorem restore_version_atomic_witness:
  "restore_left sample_ext [''dst''] [''src''] ''1-0'' [''src''] (node_at (fs stored_world))
    (node_at (fs (snd (restore_version sample_ext sample_config sample_request stored_world))))"
  using restore_version_atomic [OF sample_libs_ok sample_request_target, of stored_world] sample_restore_ready
  by (simp add: stored_world_def sample_request_def)

end
