(* ===== verification/Selected_Laws.thy ===== *)
theory Selected_Laws
  imports Restore Tree_Ops Sample
begin

text \<open>
  Placing one selected file below a directory that may contain symbolic links. Every parent is looked
  at without following links, or created, before anything is written; so that only the path asked for
  and a temporary file beside it can change, wherever links below the directory point.
\<close>

section \<open>Calls on a path whose parent is a directory\<close>

definition parented :: "filesystem \<Rightarrow> path \<Rightarrow> bool" where
  "parented F p \<longleftrightarrow> fs_wf F \<and> good_path p \<and> p \<noteq> [] \<and> node_at F (butlast p) = Some Dir"

lemma dir_straight:
  assumes "fs_wf F" and "good_path p" and "node_at F p = Some Dir"
  shows "straight F p"
proof -
  have "node_at F q \<noteq> Some (Link t)" if q: "prefix q p" for q t
  proof -
    from q obtain s where "p = q @ s" by (auto simp: prefix_def)
    with assms fs_wf_prefix_dir [OF assms(1), of q s] show ?thesis by (cases "s = []") auto
  qed
  with assms show ?thesis by (auto simp: straight_def plain_def good_path_def good_name_def)
qed

lemma parented_straight: "parented F p \<Longrightarrow> straight F (butlast p)"
  by (rule dir_straight) (auto simp: parented_def good_path_def dest: in_set_butlastD)

lemma parented_lresolve: "parented F p \<Longrightarrow> lresolve F p = Inr p"
proof -
  assume p: "parented F p"
  have "last p \<noteq> ''..''" using p good_path_last by (auto simp: parented_def good_name_def)
  moreover have "resolve F (butlast p) = Inr (butlast p)"
    using parented_straight [OF p] p by (intro resolve_found) (auto simp: straight_def parented_def)
  ultimately show ?thesis using p by (simp add: lresolve_def parented_def)
qed

lemma parented_plain: "parented F p \<Longrightarrow> \<forall>t. node_at F p \<noteq> Some (Link t) \<Longrightarrow> straight F p"
  using parented_straight [of F p]
  by (auto simp: straight_def parented_def plain_def good_path_def good_name_def)
    (metis append_butlast_last_id prefix_snoc)

lemma parented_rename:
  assumes t: "parented F t" "node_at F t = Some (File b s n)" and p: "parented F p" and ne: "t \<noteq> p"
    and G: "f_rename t p F = Inr (a, G)"
  shows "fs_wf G \<and> node_at G = (node_at F)(t := None, p := Some (File b s n))"
proof -
  have wf: "fs_wf F" and pp: "p \<noteq> []" "t \<noteq> []" "good_path p" "node_at F (butlast p) = Some Dir" using t p by (auto simp: parented_def)
  from G parented_lresolve [OF t(1)] parented_lresolve [OF p] t(2) ne
  have G': "G = (p, File b s n) # AList.delete p (AList.delete t F)" and nd: "node_at F p \<noteq> Some Dir"
    by (auto simp: f_rename_def split: option.splits node.splits)
  have wf1: "fs_wf (AList.delete t F)" by (rule fs_wf_delete_file [OF wf t(2) _ pp(2)]) simp
  have wf2: "fs_wf (AList.delete p (AList.delete t F))"
  proof (cases "node_at F p")
    case None
    then have "map_of (AList.delete t F) p = None" using pp by (simp add: node_at_def delete_conv')
    then have "p \<notin> fst ` set (AList.delete t F)" by (simp only: map_of_eq_None_iff simp_thms)
    then show ?thesis using wf1 by (simp add: delete_id)
  next
    case (Some m)
    with nd ne show ?thesis by (intro fs_wf_delete_file [OF wf1, of p m]) (auto simp: node_at_delete pp)
  qed
  have "node_at (AList.delete p (AList.delete t F)) (butlast p) = Some Dir"
    using pp t(2) nd by (auto simp: node_at_delete node_at_Nil_dir)
  with fs_wf_Cons [OF wf2 _ this good_path_last [OF pp(3,1)]] pp nd show ?thesis
    by (auto simp: G' node_at_fun_upd)
qed

lemma parented_unlink:
  assumes p: "parented F p" and G: "f_unlink p F = Inr (a, G)"
  shows "fs_wf G \<and> node_at G = (node_at F)(p := None)"
proof -
  from G parented_lresolve [OF p] obtain n where "node_at F p = Some n" "n \<noteq> Dir" "G = AList.delete p F"
    by (auto simp: f_unlink_def split: option.splits node.splits)
  with p fs_wf_delete_file [of F p n] show ?thesis by (auto simp: parented_def node_at_fun_upd)
qed

section \<open>What may change\<close>

text \<open>
  The path of a file and everything above it, and temporary names beside it. \<open>N\<close> are the nodes before.
\<close>

definition lane :: "path \<Rightarrow> path set" where
  "lane out = {q. prefix q out \<or> (\<exists>c. is_temp_name c \<and> q = butlast out @ [c])}"

definition kept_off :: "path \<Rightarrow> (path \<Rightarrow> node option) \<Rightarrow> world \<Rightarrow> bool" where
  "kept_off out N w \<longleftrightarrow> fs_wf (fs w) \<and> (\<forall>q. q \<notin> lane out \<longrightarrow> node_at (fs w) q = N q)"

text \<open>The same, when a directory of the way has been reached.\<close>

definition reached :: "path \<Rightarrow> (path \<Rightarrow> node option) \<Rightarrow> path \<Rightarrow> world \<Rightarrow> bool" where
  "reached out N p w \<longleftrightarrow> kept_off out N w \<and> node_at (fs w) p = Some Dir"

lemma stable_reached [simp]: "stable (reached out N p)"
  and stable_kept_off [simp]: "stable (kept_off out N)"
  by (auto simp: stable_def still_def reached_def kept_off_def)

lemma reached_kept: "reached out N p w \<Longrightarrow> kept_off out N w"
  by (simp add: reached_def)

lemma kept_off_upd:
  "kept_off out N w \<Longrightarrow> q \<in> lane out \<Longrightarrow> fs_wf (fs v) \<Longrightarrow> node_at (fs v) = (node_at (fs w))(q := k) \<Longrightarrow> kept_off out N v"
  by (auto simp: kept_off_def)

lemma triple_reached_still:
  "moves still m \<Longrightarrow> triple (reached out N p) m (\<lambda>_. reached out N p) (kept_off out N)"
  by (rule triple_conseq [OF triple_still [OF stable_reached]]) (auto intro: reached_kept)

text \<open>Looking at a path below a directory tells whether it is a directory.\<close>

lemma moves_still_inspect: "moves still (inspect p)"
  unfolding inspect_def by (intro still_intros) (auto split: sum.splits intro!: still_intros)

lemma inspect_value:
  assumes "inspect p w = (Ok (Some n), v)" and "straight (fs w) (butlast p)" and "good_path p" and "p \<noteq> []"
  shows "node_at (fs w) p = Some n"
proof -
  from assms(1) have "symlink_metadata p w = (Ok n, v)"
    by (auto simp: inspect_def attempt_def bnd_def ret_def throw_def split: prod.splits outcome.splits if_splits sum.splits)
  from call_Ok [OF this [unfolded symlink_metadata_def]] have l: "lstat (fs w) p = Inr n"
    by (auto simp: f_lstat_def split: sum.splits)
  then obtain q where q: "lresolve (fs w) p = Inr q" and n: "node_at (fs w) q = Some n"
    by (auto simp: lstat_def split: sum.splits option.splits)
  have "last p \<noteq> ''..''" using assms(3,4) good_path_last by (auto simp: good_name_def)
  with q resolve_plain [of "fs w" "butlast p"] assms(2,4) have "q = p"
    by (auto simp: lresolve_def straight_def split: sum.splits option.splits node.splits)
  with n show ?thesis by simp
qed

lemma triple_reached_create:
  assumes out: "good_path out" and p: "prefix p out" "p \<noteq> []"
  shows "triple (reached out N (butlast p)) (create_dir p) (\<lambda>_. reached out N p) (kept_off out N)"
  unfolding create_dir_def
proof (rule triple_call)
  fix w a G and v :: world
  assume w: "reached out N (butlast p) w" and G: "f_mkdir p (fs w) = Inr (a, G)" and v: "fs v = G"
  have gp: "good_path p" using out p(1) by (auto simp: good_path_def dest: set_mono_prefix)
  then have par: "parented (fs w) p" using w p by (simp add: parented_def reached_def kept_off_def)
  then have n: "node_at (fs w) p = None" using G parented_lresolve [OF par] by (auto simp: f_mkdir_def split: if_splits)
  from f_mkdir_node [OF parented_plain [OF par] G] n have "fs_wf G" "node_at G = (node_at (fs w))(p := Some Dir)" by auto
  with w v p kept_off_upd [of out N w p v] show "reached out N p v" by (auto simp: reached_def lane_def)
qed (auto intro: reached_kept)

section \<open>The parents\<close>

lemma triple_reached_inspect:
  assumes out: "good_path out" and p: "prefix p out" "p \<noteq> []"
  shows "triple (reached out N (butlast p)) (inspect p)
    (\<lambda>n w. reached out N (if n = Some Dir then p else butlast p) w) (kept_off out N)"
proof (rule tripleI)
  fix w n v assume w: "reached out N (butlast p) w" and i: "inspect p w = (Ok n, v)"
  have gp: "good_path p" using out p(1) by (auto simp: good_path_def dest: set_mono_prefix)
  have "straight (fs w) (butlast p)"
    using w gp by (intro dir_straight) (auto simp: reached_def kept_off_def good_path_def dest: in_set_butlastD)
  from inspect_value [OF _ this gp p(2)] i w have "n = Some Dir \<Longrightarrow> reached out N p w" by (auto simp: reached_def)
  with w stableD [OF stable_reached _ movesD [OF moves_still_inspect i]]
  show "reached out N (if n = Some Dir then p else butlast p) v" by auto
qed (use movesD [OF moves_still_inspect] stableD [OF stable_reached] reached_kept in blast)+

lemma triple_create_parents:
  assumes out: "good_path out"
  shows "prefix (cur @ cs) out \<Longrightarrow>
    triple (reached out N cur) (create_parents cur cs k) (\<lambda>_. reached out N (cur @ cs)) (kept_off out N)"
proof (induction cs arbitrary: cur k)
  case (Cons c cs)
  have p: "prefix (cur @ [c]) out" using Cons.prems append_prefixD [of "cur @ [c]" cs out] by simp
  have look: "triple (reached out N cur) (inspect (cur @ [c]))
      (\<lambda>n w. reached out N (if n = Some Dir then cur @ [c] else cur) w) (kept_off out N)"
    using triple_reached_inspect [OF out p, of N] by (simp cong: if_cong)
  have make: "triple (reached out N cur) (create_dir (cur @ [c])) (\<lambda>_. reached out N (cur @ [c])) (kept_off out N)"
    using triple_reached_create [OF out p] by simp
  have go: "triple (reached out N (cur @ [c])) (create_parents (cur @ [c]) cs k') (\<lambda>_. reached out N (cur @ c # cs)) (kept_off out N)" for k'
    using Cons.IH [of "cur @ [c]" k'] Cons.prems by simp
  have stop: "triple (reached out N cur) (throw e) Q (kept_off out N)" for e and Q :: "nat \<Rightarrow> world \<Rightarrow> bool"
    by (rule triple_throw) (rule reached_kept)
  show ?case
    unfolding create_parents.simps
  proof (rule triple_bnd [OF look])
    fix n
    show "triple (reached out N (if n = Some Dir then cur @ [c] else cur)) (case n of
        Some Dir \<Rightarrow> create_parents (cur @ [c]) cs k
      | Some (Link t) \<Rightarrow> throw (Bail ''versioned::restore_files target path contains a symlink component'')
      | Some _ \<Rightarrow> throw (Bail ''versioned::restore_files target parent is not a directory'')
      | None \<Rightarrow> bnd (create_dir (cur @ [c])) (\<lambda>_. create_parents (cur @ [c]) cs (k + 1)))
      (\<lambda>_. reached out N (cur @ c # cs)) (kept_off out N)"
      by (auto split: option.splits node.splits intro: go stop triple_bnd [OF make])
  qed
qed (auto intro: triple_ret)

text \<open>What is missing of a path: the prefixes beyond the longest existing directory.\<close>

definition prefixes_from :: "nat \<Rightarrow> path \<Rightarrow> path list" where
  "prefixes_from k p = map (\<lambda>i. take i p) [Suc k..<Suc (length p)]"

lemma prefixes_from_simps:
  "prefixes_from (length p) p = []"
  "k < length p \<Longrightarrow> prefixes_from k p = take (Suc k) p # prefixes_from (Suc k) p"
  "k \<le> length p \<Longrightarrow> prefixes_from k (p @ [c]) = prefixes_from k p @ [p @ [c]]"
proof -
  show "prefixes_from (length p) p = []" by (simp add: prefixes_from_def)
  show "k < length p \<Longrightarrow> prefixes_from k p = take (Suc k) p # prefixes_from (Suc k) p"
    by (simp add: prefixes_from_def upt_conv_Cons)
  assume k: "k \<le> length p"
  then have "[Suc k..<Suc (length (p @ [c]))] = [Suc k..<Suc (length p)] @ [Suc (length p)]" by simp
  moreover have "map (\<lambda>i. take i (p @ [c])) [Suc k..<Suc (length p)] = map (\<lambda>i. take i p) [Suc k..<Suc (length p)]"
    by (rule map_cong) auto
  ultimately show "prefixes_from k (p @ [c]) = prefixes_from k p @ [p @ [c]]"
    by (simp only: prefixes_from_def map_append) simp
qed

lemma moves_still_missing: "moves still (missing_directories up acc)"
proof (induction up arbitrary: acc)
  case Nil
  show ?case
    by (subst missing_directories.simps)
      (auto intro!: st.moves_bnd moves_still_inspect st.moves_ret st.moves_throw split: option.splits node.splits)
next
  case (Cons c up)
  show ?case
    by (subst missing_directories.simps)
      (auto intro!: st.moves_bnd moves_still_inspect st.moves_ret st.moves_throw Cons.IH split: option.splits node.splits)
qed

lemma missing_directories_value:
  assumes "missing_directories (rev p) acc w = (Ok ls, v)" and "straight (fs w) (butlast p)" and "good_path p"
  shows "\<exists>k \<le> length p. node_at (fs w) (take k p) = Some Dir \<and> ls = acc @ rev (prefixes_from k p)"
  using assms
proof (induction p arbitrary: acc w rule: rev_induct)
  case Nil
  then have "ls = acc" by (subst (asm) missing_directories.simps)
    (auto simp: ret_def throw_def split: option.splits node.splits elim!: bnd_OkE)
  then show ?case by (simp add: prefixes_from_def node_at_Nil_dir)
next
  case (snoc c p)
  obtain n u where i: "inspect (p @ [c]) w = (Ok n, u)" and r: "(case n of
      Some Dir \<Rightarrow> ret acc
    | Some (Link t) \<Rightarrow> throw (Bail ''versioned::restore_files directory path contains a symlink component'')
    | Some _ \<Rightarrow> throw (Bail ''versioned::restore_files directory path component is not a directory'')
    | None \<Rightarrow> missing_directories (rev p) (acc @ [p @ [c]])) u = (Ok ls, v)"
    using snoc.prems(1) by (subst (asm) missing_directories.simps) (auto elim!: bnd_OkE)
  have u: "fs u = fs w" using movesD [OF moves_still_inspect i] by (simp add: still_def)
  show ?case
  proof (cases n)
    case None
    have gp: "good_path p" using snoc.prems(3) by simp
    have "straight (fs u) (butlast p)" using straight_parent snoc.prems(2) u by simp
    from snoc.IH [OF _ this gp, of "acc @ [p @ [c]]"] r None obtain k where k: "k \<le> length p" "node_at (fs u) (take k p) = Some Dir"
      "ls = (acc @ [p @ [c]]) @ rev (prefixes_from k p)" by auto
    then show ?thesis using u by (intro exI [of _ k]) (simp add: prefixes_from_simps(3))
  next
    case (Some m)
    with r have "m = Dir" and l: "ls = acc" by (auto simp: ret_def throw_def split: node.splits)
    with inspect_value [of "p @ [c]" w Dir u] i Some snoc.prems(2,3) have d: "node_at (fs w) (p @ [c]) = Some Dir" by simp
    show ?thesis
      by (rule exI [of _ "length (p @ [c])"]) (use d l prefixes_from_simps(1) [of "p @ [c]"] in simp)
  qed
qed

lemma triple_create_chain:
  assumes out: "good_path out" and p: "prefix p out" and k: "k \<le> length p"
  shows "triple (reached out N (take k p)) (for_each create_verified_dir (prefixes_from k p)) (\<lambda>_. reached out N p) (kept_off out N)"
  using k
proof (induction "length p - k" arbitrary: k)
  case 0
  then have "k = length p" by simp
  then show ?case by (auto simp: prefixes_from_simps(1) for_each_def intro: triple_ret)
next
  case (Suc j)
  let ?q = "take (Suc k) p"
  have q: "prefix ?q out" "?q \<noteq> []" "butlast ?q = take k p" and k: "k < length p"
    using Suc.hyps(2) p prefix_order.trans [OF take_is_prefix p] by (auto simp: butlast_take)
  have one: "triple (reached out N (take k p)) (create_verified_dir ?q) (\<lambda>_. reached out N ?q) (kept_off out N)"
    unfolding create_verified_dir_def
    by (intro triple_bnd [OF triple_reached_create [OF out q(1,2), unfolded q(3)]]
        triple_bnd [OF triple_reached_still [OF moves_still_prims(5)]] triple_if triple_throw triple_ret reached_kept)
  have "triple (reached out N ?q) (for_each create_verified_dir (prefixes_from (Suc k) p)) (\<lambda>_. reached out N p) (kept_off out N)"
    using Suc.hyps k by simp
  from triple_bnd [OF one this] show ?case by (simp add: prefixes_from_simps(2) [OF k] for_each_def)
qed

lemma triple_create_safe_directory_path:
  assumes out: "good_path out" and T: "prefix T out"
  shows "triple (\<lambda>w. kept_off out N w \<and> straight (fs w) (butlast T)) (create_safe_directory_path T)
    (\<lambda>_. reached out N T) (kept_off out N)"
  unfolding create_safe_directory_path_def
proof (rule triple_bnd [where Q = "\<lambda>ls w. \<exists>k. (k \<le> length T \<and> ls = rev (prefixes_from k T)) \<and> reached out N (take k T) w"])
  let ?P = "\<lambda>w. kept_off out N w \<and> straight (fs w) (butlast T)"
  have st: "stable ?P" by (auto simp: stable_def still_def kept_off_def)
  have gT: "good_path T" using out T by (auto simp: good_path_def dest: set_mono_prefix)
  show "triple ?P (missing_directories (rev T) [])
    (\<lambda>ls w. \<exists>k. (k \<le> length T \<and> ls = rev (prefixes_from k T)) \<and> reached out N (take k T) w) (kept_off out N)"
  proof (rule tripleI)
    fix w ls v assume w: "?P w" and m: "missing_directories (rev T) [] w = (Ok ls, v)"
    have v: "still w v" by (rule movesD [OF moves_still_missing m])
    from missing_directories_value [OF m _ gT] w obtain k where "k \<le> length T" "ls = rev (prefixes_from k T)"
      "node_at (fs w) (take k T) = Some Dir" by auto
    with w v show "\<exists>k. (k \<le> length T \<and> ls = rev (prefixes_from k T)) \<and> reached out N (take k T) v"
      by (auto simp: reached_def still_def kept_off_def)
  qed (use movesD [OF moves_still_missing] stableD [OF st] in blast)+
  fix ls
  have "triple (\<lambda>w. \<exists>k. (k \<le> length T \<and> ls = rev (prefixes_from k T)) \<and> reached out N (take k T) w)
      (for_each create_verified_dir (rev ls)) (\<lambda>_. reached out N T) (kept_off out N)"
    by (intro triple_some triple_pull, elim conjE) (use triple_create_chain [OF out T] in simp)
  then show "triple (\<lambda>w. \<exists>k. (k \<le> length T \<and> ls = rev (prefixes_from k T)) \<and> reached out N (take k T) w)
      (bnd (for_each create_verified_dir (rev ls)) (\<lambda>_. ret (length ls))) (\<lambda>_. reached out N T) (kept_off out N)"
    by (rule triple_bnd) (auto intro: triple_ret)
qed

lemma moves_still_validate_restore_root: "moves still (validate_restore_root p)"
  unfolding validate_restore_root_def
  by (intro st.moves_bnd moves_still_inspect) (auto split: option.splits node.splits intro!: still_intros)

lemma moves_still_check_parents: "moves still (check_parents cur cs)"
  by (induction cs arbitrary: cur)
    (auto intro!: st.moves_bnd moves_still_inspect st.moves_ret st.moves_throw split: option.splits node.splits)

lemma moves_still_validate_target_path: "moves still (validate_target_path p rel)"
  unfolding validate_target_path_def
  by (intro st.moves_bnd moves_still_inspect moves_still_validate_restore_root moves_still_check_parents)
    (auto split: option.splits node.splits intro!: still_intros)

lemma triple_create_safe_target_parents:
  assumes rel: "validate_relative_path rel = Inr ()" and T: "good_path T"
  shows "triple (\<lambda>w. kept_off (join_rel T rel) N w \<and> straight (fs w) (butlast T)) (create_safe_target_parents T rel)
    (\<lambda>_. reached (join_rel T rel) N (butlast (join_rel T rel))) (kept_off (join_rel T rel) N)"
proof -
  let ?out = "join_rel T rel"
  have out: "good_path ?out" "prefix T ?out" "T @ parent_names rel = butlast ?out"
    using valid_rel_names [OF rel] T by (auto simp: good_path_def parent_names_def butlast_append map_butlast)
  have par: "triple (reached ?out N T) (create_parents T (parent_names rel) k) (\<lambda>_. reached ?out N (butlast ?out)) (kept_off ?out N)" for k
    using triple_create_parents [OF out(1), of T "parent_names rel"] out(3) by (simp add: prefixeq_butlast)
  show ?thesis
    unfolding create_safe_target_parents_def
    by (intro triple_bnd [OF triple_create_safe_directory_path [OF out(1,2)]]
        triple_bnd [OF triple_reached_still [OF moves_still_validate_restore_root]] triple_bnd [OF par]
        triple_bnd [OF triple_reached_still [OF moves_still_validate_target_path]] triple_ret)
qed

section \<open>The file\<close>

text \<open>A temporary file beside the target, with its content so far.\<close>

definition drafted :: "path \<Rightarrow> (path \<Rightarrow> node option) \<Rightarrow> path \<Rightarrow> bytes \<Rightarrow> int \<Rightarrow> nat \<Rightarrow> world \<Rightarrow> bool" where
  "drafted out N t b s n w \<longleftrightarrow> reached out N (butlast out) w \<and> node_at (fs w) t = Some (File b s n)"

definition beside :: "path \<Rightarrow> path \<Rightarrow> bool" where
  "beside out t \<longleftrightarrow> good_path t \<and> t \<noteq> [] \<and> butlast t = butlast out \<and> is_temp_name (last t)"

lemma beside_lane: "beside out t \<Longrightarrow> t \<in> lane out"
  unfolding beside_def lane_def by (metis (mono_tags, lifting) append_butlast_last_id mem_Collect_eq)

lemma stable_drafted [simp]: "stable (drafted out N t b s n)"
  by (auto simp: stable_def still_def drafted_def reached_def kept_off_def)

lemma drafted_kept: "drafted out N t b s n w \<Longrightarrow> kept_off out N w"
  by (simp add: drafted_def reached_def)

lemma drafted_straight:
  assumes "drafted out N t b s n w" and "beside out t"
  shows "parented (fs w) t" and "straight (fs w) t"
proof -
  show p: "parented (fs w) t" using assms by (auto simp: drafted_def reached_def kept_off_def beside_def parented_def)
  show "straight (fs w) t" by (rule parented_plain [OF p]) (use assms(1) in \<open>simp add: drafted_def\<close>)
qed

lemma drafted_upd:
  assumes "drafted out N t b s n w" and "beside out t" and "out \<noteq> []" and "fs_wf (fs v)"
    and "node_at (fs v) = (node_at (fs w))(t := Some (File b' s' n'))"
  shows "drafted out N t b' s' n' v"
proof -
  have "butlast out \<noteq> t" using assms(2) butlast_neq [of t] by (auto simp: beside_def)
  with assms kept_off_upd [OF drafted_kept [OF assms(1)] beside_lane [OF assms(2)] assms(4,5)]
  show ?thesis by (auto simp: drafted_def reached_def)
qed

lemma drafted_reached: "drafted out N t b s n w \<Longrightarrow> reached out N (butlast out) w"
  by (simp add: drafted_def)

lemma triple_draft_call:
  assumes "beside out t" and "out \<noteq> []"
    and "\<And>F a G. straight F t \<Longrightarrow> node_at F t = Some (File b s n) \<Longrightarrow> f F = Inr (a, G) \<Longrightarrow>
      fs_wf G \<and> node_at G = (node_at F)(t := Some (File b' s' n'))"
  shows "triple (drafted out N t b s n) (call f) (\<lambda>_. drafted out N t b' s' n') (reached out N (butlast out))"
proof (rule triple_call)
  fix w a G and v :: world
  assume w: "drafted out N t b s n w" and G: "f (fs w) = Inr (a, G)" and v: "fs v = G"
  from assms(3) [OF drafted_straight(2) [OF w assms(1)] _ G] w v show "drafted out N t b' s' n' v"
    by (intro drafted_upd [OF w assms(1,2)]) (auto simp: drafted_def)
qed (auto intro: drafted_reached)

lemma triple_draft_append:
  assumes "beside out t" and "out \<noteq> []"
  shows "triple (drafted out N t b s n) (append_file t c) (\<lambda>_. drafted out N t (b @ c) s n) (reached out N (butlast out))"
  unfolding append_file_def
  by (rule triple_draft_call [OF assms]) (drule (1) f_append_node [rotated], auto)

lemma triple_draft_mtime:
  assumes "beside out t" and "out \<noteq> []"
  shows "triple (drafted out N t b 0 0) (restore_mtime t s n)
    (\<lambda>_ w. \<exists>s' n'. (s \<le> 0 \<or> s' = s \<and> n' = n) \<and> drafted out N t b s' n' w) (reached out N (butlast out))"
proof -
  have "triple (drafted out N t b 0 0) (set_file_mtime t s n) (\<lambda>_. drafted out N t b s n) (reached out N (butlast out))"
    unfolding set_file_mtime_def
    by (rule triple_draft_call [OF assms]) (drule (1) f_set_mtime_node [rotated], auto)
  then have "triple (drafted out N t b 0 0) (set_file_mtime t s n)
      (\<lambda>_ w. \<exists>s' n'. (s \<le> 0 \<or> s' = s \<and> n' = n) \<and> drafted out N t b s' n' w) (reached out N (butlast out))"
    by (rule triple_conseq) auto
  then show ?thesis unfolding restore_mtime_def by (auto intro: triple_ret)
qed

lemma triple_draft_still: "moves still m \<Longrightarrow> triple (drafted out N t b s n) m (\<lambda>_. drafted out N t b s n) (reached out N (butlast out))"
  by (rule triple_conseq [OF triple_still [OF stable_drafted [of out N t b s n]]]) (auto intro: drafted_reached)

lemma triple_draft_copy:
  assumes "beside out t" and "out \<noteq> []"
  shows "triple (drafted out N t b s n) (io_copy x t h) (\<lambda>_. drafted out N t (b @ h) s n) (reached out N (butlast out))"
proof (induction h arbitrary: b rule: length_induct)
  case (1 h)
  show ?case
    unfolding io_copy.simps [of x t h]
  proof (rule triple_bnd [where Q = "\<lambda>a w. (h = fst a @ snd a \<and> (fst a = [] \<longleftrightarrow> h = [])) \<and> drafted out N t b s n w"])
    show "triple (drafted out N t b s n) (read_some x 8192 h)
        (\<lambda>a w. (h = fst a @ snd a \<and> (fst a = [] \<longleftrightarrow> h = [])) \<and> drafted out N t b s n w) (reached out N (butlast out))"
    proof (rule tripleI)
      fix w a v assume w: "drafted out N t b s n w" and r: "read_some x 8192 h w = (Ok a, v)"
      have d: "drafted out N t b s n v" by (rule stableD [OF stable_drafted w movesD [OF moves_still_read_some r]])
      from r have "read_some x 8192 h w = (Ok (fst a, snd a), v)" by (simp only: prod.collapse)
      from read_some_value [OF this] d show "(h = fst a @ snd a \<and> (fst a = [] \<longleftrightarrow> h = [])) \<and> drafted out N t b s n v"
        by (simp only: zero_neq_numeral [symmetric] simp_thms)
    qed (rule drafted_reached, erule stableD [OF stable_drafted], erule movesD [OF moves_still_read_some])+
    fix a :: "bytes \<times> bytes"
    show "triple (\<lambda>w. (h = fst a @ snd a \<and> (fst a = [] \<longleftrightarrow> h = [])) \<and> drafted out N t b s n w)
        (if fst a = [] then ret () else bnd (append_file t (fst a)) (\<lambda>_. io_copy x t (snd a)))
        (\<lambda>_. drafted out N t (b @ h) s n) (reached out N (butlast out))"
    proof (rule triple_pull)
      assume a: "h = fst a @ snd a \<and> (fst a = [] \<longleftrightarrow> h = [])"
      show "triple (drafted out N t b s n) (if fst a = [] then ret () else bnd (append_file t (fst a)) (\<lambda>_. io_copy x t (snd a)))
          (\<lambda>_. drafted out N t (b @ h) s n) (reached out N (butlast out))"
      proof (rule triple_if)
        assume "fst a = []"
        with a show "triple (drafted out N t b s n) (ret ()) (\<lambda>_. drafted out N t (b @ h) s n) (reached out N (butlast out))"
          by (auto intro: triple_ret)
      next
        assume "fst a \<noteq> []"
        with a have "length (snd a) < length h" by simp
        with 1 have "triple (drafted out N t (b @ fst a) s n) (io_copy x t (snd a)) (\<lambda>_. drafted out N t ((b @ fst a) @ snd a) s n) (reached out N (butlast out))"
          by blast
        with a show "triple (drafted out N t b s n) (bnd (append_file t (fst a)) (\<lambda>_. io_copy x t (snd a)))
            (\<lambda>_. drafted out N t (b @ h) s n) (reached out N (butlast out))"
          by (intro triple_bnd [OF triple_draft_append [OF assms]]) simp
      qed
    qed
  qed
qed

definition placed :: "path \<Rightarrow> (path \<Rightarrow> node option) \<Rightarrow> (bytes \<Rightarrow> bool) \<Rightarrow> int \<Rightarrow> nat \<Rightarrow> world \<Rightarrow> bool" where
  "placed out N C s n w \<longleftrightarrow> kept_off out N w
    \<and> (\<exists>b s' n'. node_at (fs w) out = Some (File b s' n') \<and> C b \<and> (s \<le> 0 \<or> s' = s \<and> n' = n))"

lemma triple_draft_persist:
  assumes t: "beside out t" and out: "out \<noteq> []" "good_path out"
  shows "triple (drafted out N t b s n) (persist t out)
    (\<lambda>_ w. kept_off out N w \<and> node_at (fs w) out = Some (File b s n)) (reached out N (butlast out))"
  unfolding persist_def
proof (rule triple_call)
  fix w a G and v :: world
  assume w: "drafted out N t b s n w" and G: "f_persist t out (fs w) = Inr (a, G)" and v: "fs v = G"
  have n: "node_at (fs w) t = Some (File b s n)" and k: "kept_off out N w" using w by (auto simp: drafted_def reached_def)
  have pt: "parented (fs w) t" by (rule drafted_straight(1) [OF w t])
  have po: "parented (fs w) out" using w out by (auto simp: drafted_def reached_def kept_off_def parented_def)
  have r: "f_rename t out (fs w) = Inr (a, G)"
    using G n parented_lresolve [OF pt] by (simp add: f_persist_def lstat_def)
  show "kept_off out N v \<and> node_at (fs v) out = Some (File b s n)"
  proof (cases "t = out")
    case True
    with r n parented_lresolve [OF pt] have "G = fs w" by (auto simp: f_rename_def)
    with k n True v show ?thesis by (simp add: kept_off_def)
  next
    case False
    from parented_rename [OF pt n po False r] k v beside_lane [OF t] show ?thesis
      by (auto simp: kept_off_def lane_def)
  qed
qed (auto intro: drafted_reached)

lemma triple_replace_file:
  assumes x: "temp_ok x" and out: "out \<noteq> []" "good_path out"
    and C: "\<And>w h v. kept_off out N w \<Longrightarrow> read_file staged w = (Ok h, v) \<Longrightarrow> C h"
  shows "triple (reached out N (butlast out)) (replace_file_from_staged x staged out s n) (\<lambda>_. placed out N C s n) (kept_off out N)"
proof -
  have tn: "temp_namer_ok (x_temp x)" using x by (simp add: temp_ok_def)
  have new: "triple (reached out N (butlast out)) (call (f_new_temp (x_temp x) (butlast out)))
      (\<lambda>t w. beside out t \<and> drafted out N t [] 0 0 w) (kept_off out N)"
  proof (rule triple_call)
    fix w t G and v :: world
    assume w: "reached out N (butlast out) w" and G: "f_new_temp (x_temp x) (butlast out) (fs w) = Inr (t, G)" and v: "fs v = G"
    let ?c = "x_temp x (fs w) (butlast out)"
    from G have t: "t = butlast out @ [?c]" and c: "f_create_new t (fs w) = Inr ((), G)"
      by (auto simp: f_new_temp_def split: sum.splits)
    have "good_name ?c" "is_temp_name ?c" using tn good_temp_name by (auto simp: temp_namer_ok_def)
    then have b: "beside out t" using out by (auto simp: t beside_def good_path_def dest: in_set_butlastD)
    then have par: "parented (fs w) t" using w by (auto simp: parented_def beside_def reached_def kept_off_def)
    have "node_at (fs w) t = None" using c parented_lresolve [OF par] by (auto simp: f_create_new_def split: if_splits)
    with f_create_new_node [OF parented_plain [OF par] c] have g: "fs_wf G" "node_at G = (node_at (fs w))(t := Some (File [] 0 0))" by auto
    moreover have "butlast out \<noteq> t" by (simp add: t)
    ultimately show "beside out t \<and> drafted out N t [] 0 0 v"
      using b w v kept_off_upd [OF reached_kept [OF w] beside_lane [OF b]] by (auto simp: drafted_def reached_def)
  qed (auto intro: reached_kept)
  have body: "triple (drafted out N t [] 0 0) (bnd (read_file staged) (\<lambda>h. bnd (io_copy x t h) (\<lambda>_.
      bnd (restore_mtime t s n) (\<lambda>_. bnd sync_file (\<lambda>_. persist t out))))) (\<lambda>_. placed out N C s n) (reached out N (butlast out))"
    if t: "beside out t" for t
  proof (rule triple_bnd [where Q = "\<lambda>h w. C h \<and> drafted out N t [] 0 0 w"])
    show "triple (drafted out N t [] 0 0) (read_file staged) (\<lambda>h w. C h \<and> drafted out N t [] 0 0 w) (reached out N (butlast out))"
    proof (rule tripleI)
      fix w h v assume w: "drafted out N t [] 0 0 w" and r: "read_file staged w = (Ok h, v)"
      show "C h \<and> drafted out N t [] 0 0 v"
        using C [OF drafted_kept [OF w] r] stableD [OF stable_drafted w movesD [OF moves_still_prims(3) r]] by simp
    qed (rule drafted_reached, erule stableD [OF stable_drafted], erule movesD [OF moves_still_prims(3)])+
    fix h
    have fin: "triple (drafted out N t h s' n') (bnd sync_file (\<lambda>_. persist t out)) (\<lambda>_. placed out N C s n) (reached out N (butlast out))"
      if "s \<le> 0 \<or> s' = s \<and> n' = n" "C h" for s' n'
      by (rule triple_bnd [OF triple_draft_still [OF moves_still_sync_file]],
          rule triple_conseq [OF triple_draft_persist [OF t out]]) (use that in \<open>auto simp: placed_def\<close>)
    have copy: "triple (drafted out N t [] 0 0) (io_copy x t h) (\<lambda>_. drafted out N t h 0 0) (reached out N (butlast out))"
      using triple_draft_copy [OF t out(1), of N "[]"] by simp
    show "triple (\<lambda>w. C h \<and> drafted out N t [] 0 0 w) (bnd (io_copy x t h) (\<lambda>_.
        bnd (restore_mtime t s n) (\<lambda>_. bnd sync_file (\<lambda>_. persist t out)))) (\<lambda>_. placed out N C s n) (reached out N (butlast out))"
    proof (rule triple_pull)
      assume "C h"
      then show "triple (drafted out N t [] 0 0) (bnd (io_copy x t h) (\<lambda>_.
          bnd (restore_mtime t s n) (\<lambda>_. bnd sync_file (\<lambda>_. persist t out)))) (\<lambda>_. placed out N C s n) (reached out N (butlast out))"
        by (intro triple_bnd [OF copy] triple_bnd [OF triple_draft_mtime [OF t out(1)]] triple_some triple_pull fin)
    qed
  qed
  have drop: "triple (reached out N (butlast out)) (remove_file t) (\<lambda>_. kept_off out N) (kept_off out N)" if t: "beside out t" for t
    unfolding remove_file_def
  proof (rule triple_call)
    fix w a G and v :: world
    assume w: "reached out N (butlast out) w" and G: "f_unlink t (fs w) = Inr (a, G)" and v: "fs v = G"
    have "parented (fs w) t" using w t by (auto simp: parented_def beside_def reached_def kept_off_def)
    from parented_unlink [OF this G] v show "kept_off out N v"
      by (intro kept_off_upd [OF reached_kept [OF w] beside_lane [OF t]]) auto
  qed (auto intro: reached_kept)
  have clean: "triple (reached out N (butlast out)) (bnd (attempt (remove_file t)) (\<lambda>_. throw e)) (\<lambda>_. placed out N C s n) (kept_off out N)"
    if "beside out t" for t e
    by (rule triple_bnd [OF triple_attempt [OF drop [OF that]]]) (auto intro: triple_throw split: sum.splits)
  have rest: "triple (\<lambda>w. beside out t \<and> drafted out N t [] 0 0 w) (bnd (attempt (bnd (read_file staged) (\<lambda>h. bnd (io_copy x t h) (\<lambda>_.
      bnd (restore_mtime t s n) (\<lambda>_. bnd sync_file (\<lambda>_. persist t out)))))) (\<lambda>r. case r of
        Inr a \<Rightarrow> ret a | Inl e \<Rightarrow> bnd (attempt (remove_file t)) (\<lambda>_. throw e))) (\<lambda>_. placed out N C s n) (kept_off out N)" for t
  proof (rule triple_pull)
    assume t: "beside out t"
    show "triple (drafted out N t [] 0 0) (bnd (attempt (bnd (read_file staged) (\<lambda>h. bnd (io_copy x t h) (\<lambda>_.
      bnd (restore_mtime t s n) (\<lambda>_. bnd sync_file (\<lambda>_. persist t out)))))) (\<lambda>r. case r of
        Inr a \<Rightarrow> ret a | Inl e \<Rightarrow> bnd (attempt (remove_file t)) (\<lambda>_. throw e))) (\<lambda>_. placed out N C s n) (kept_off out N)"
      by (rule triple_try [OF body [OF t] clean [OF t]]) (auto intro: triple_ret reached_kept)
  qed
  from triple_bnd [OF new rest] show ?thesis
    unfolding replace_file_from_staged_def with_temp_def using out by (simp add: parent_of_def)
qed

section \<open>One selected file\<close>

text \<open>A staged file off the lane keeps its content while another is placed.\<close>

lemma staged_read:
  assumes "kept_off out N w" and "N p = Some (File h s n)" and "p \<notin> lane out" and "good_path p"
    and "read_file p w = (Ok b, v)"
  shows "b = h"
proof -
  have f: "node_at (fs w) p = Some (File h s n)" and wf: "fs_wf (fs w)" using assms(1-3) by (auto simp: kept_off_def)
  then have "p \<noteq> []" by (auto simp: node_at_Nil_dir)
  then have "parented (fs w) p" using f wf assms(4) fs_wf_parent [OF wf f] by (simp add: parented_def)
  then have "plain (fs w) p" using parented_plain [of "fs w" p] f by (simp add: straight_def)
  with f wf stat_plain_iff [of "fs w" p "File h s n"] have "stat (fs w) p = Inr (File h s n)" by simp
  with call_Ok [OF assms(5) [unfolded read_file_def]] show ?thesis by (simp add: f_read_def)
qed

lemma triple_place_file:
  assumes x: "temp_ok x" and T: "good_path T" and rel: "validate_relative_path (pf_rel_path pf) = Inr ()"
    and C: "\<And>w h v. kept_off (join_rel T (pf_rel_path pf)) N w \<Longrightarrow> read_file (join_rel stage (pf_rel_path pf)) w = (Ok h, v) \<Longrightarrow> C h"
  shows "triple (\<lambda>w. kept_off (join_rel T (pf_rel_path pf)) N w \<and> straight (fs w) (butlast T)) (place_file x stage T pf r)
    (\<lambda>_. placed (join_rel T (pf_rel_path pf)) N C (pf_mtime_unix pf) (pf_mtime_nanos pf)) (kept_off (join_rel T (pf_rel_path pf)) N)"
proof -
  have out: "join_rel T (pf_rel_path pf) \<noteq> []" "good_path (join_rel T (pf_rel_path pf))"
    using valid_rel_names [OF rel] T by (auto simp: good_path_def)
  show ?thesis
    unfolding place_file_def
    by (rule triple_bnd [OF triple_create_safe_target_parents [OF rel T]],
        rule triple_bnd [OF triple_replace_file [OF x out C]]) (auto intro: triple_ret)
qed

text \<open>
  C6: placing a selected file cannot be led astray by symbolic links. Whatever links there are below
  the restore root, whatever fails and wherever the process dies, nothing changes except the path asked
  for, the directories on the way to it and temporary names beside it; and when it succeeds the file has
  the staged content and the recorded modification time.
\<close>

theorem place_file_confined:
  assumes "temp_ok x" and "good_path T" and "validate_relative_path (pf_rel_path pf) = Inr ()"
    and "fs_wf (fs w)" and "straight (fs w) (butlast T)"
    and "node_at (fs w) (join_rel stage (pf_rel_path pf)) = Some (File h s n)" and "good_path (join_rel stage (pf_rel_path pf))"
    and "join_rel stage (pf_rel_path pf) \<notin> lane (join_rel T (pf_rel_path pf))"
  shows "(\<forall>q. q \<notin> lane (join_rel T (pf_rel_path pf)) \<longrightarrow>
      node_at (fs (snd (place_file x stage T pf r w))) q = node_at (fs w) q)
    \<and> (\<forall>res. fst (place_file x stage T pf r w) = Ok res \<longrightarrow>
      (\<exists>s' n'. node_at (fs (snd (place_file x stage T pf r w))) (join_rel T (pf_rel_path pf)) = Some (File h s' n')
        \<and> (pf_mtime_unix pf \<le> 0 \<or> s' = pf_mtime_unix pf \<and> n' = pf_mtime_nanos pf)))"
proof -
  let ?out = "join_rel T (pf_rel_path pf)" and ?N = "node_at (fs w)"
  have w: "kept_off ?out ?N w \<and> straight (fs w) (butlast T)" using assms(4,5) by (simp add: kept_off_def)
  have C: "b = h" if "kept_off ?out ?N u" "read_file (join_rel stage (pf_rel_path pf)) u = (Ok b, v)" for u b v
    by (rule staged_read [OF that(1) assms(6,8,7) that(2)])
  note t = triple_place_file [where N = ?N and C = "\<lambda>b. b = h" and r = r, OF assms(1-3) C]
  obtain q v where run: "place_file x stage T pf r w = (q, v)" by fastforce
  show ?thesis
  proof (cases q)
    case (Ok res)
    from triple_Ok [OF t w run [unfolded Ok]] run Ok show ?thesis by (auto simp: placed_def kept_off_def)
  next
    case (Err e)
    from triple_Err [OF t w run [unfolded Err]] run Err show ?thesis by (auto simp: kept_off_def)
  next
    case Halt
    from triple_Halt [OF t w run [unfolded Halt]] run Halt show ?thesis by (auto simp: kept_off_def)
  qed
qed

text \<open>A root with a link to another directory where a parent of the file belongs.\<close>

definition baited_world :: world where
  "baited_world = \<lparr>fs = [([''t''], Dir), ([''t'', ''d''], Link [''etc'']), ([''etc''], Dir), ([''s''], Dir), ([''s'', ''d''], Dir),
     ([''s'', ''d'', ''f''], File [7] 0 0)], events = [], now = 0\<rparr>"

definition baited_file :: planned_file where
  "baited_file = \<lparr>pf_rel_path = ''d/f'', pf_blob_path = [], pf_expected_sha256 = [], pf_mtime_unix = 3, pf_mtime_nanos = 4\<rparr>"

lemma baited_paths:
  "validate_relative_path (pf_rel_path baited_file) = Inr ()"
  "join_rel [''t''] (pf_rel_path baited_file) = [''t'', ''d'', ''f'']" "join_rel [''s''] (pf_rel_path baited_file) = [''s'', ''d'', ''f'']"
  by (simp_all add: baited_file_def validate_relative_path_iff components_def tail_components_def component_of_def is_normal_def
      join_rel_def push_component_def has_windows_drive_prefix_def)

lemma baited_wf: "fs_wf (fs baited_world)"
  by (auto simp: baited_world_def fs_wf_def node_at_def good_name_def split: if_splits)

theorem place_file_confined_witness:
  "node_at (fs (snd (place_file sample_ext [''s''] [''t''] baited_file no_result baited_world))) [''etc'', ''f''] = None"
proof -
  have "straight (fs baited_world) (butlast [''t''])"
    using baited_wf by (auto simp: straight_def good_path_def plain_def node_at_Nil_dir)
  moreover have "[''s'', ''d'', ''f''] \<notin> lane [''t'', ''d'', ''f'']" "[''etc'', ''f''] \<notin> lane [''t'', ''d'', ''f'']"
    by (auto simp: lane_def is_temp_name_def)
  moreover have "node_at (fs baited_world) [''s'', ''d'', ''f''] = Some (File [7] 0 0)" "node_at (fs baited_world) [''etc'', ''f''] = None"
    "good_path [''t'']" "good_path [''s'', ''d'', ''f'']"
    by (simp_all add: baited_world_def node_at_def good_path_def good_name_def)
  ultimately show ?thesis
    using place_file_confined [of sample_ext "[''t'']" baited_file baited_world "[''s'']" "[7]" 0 0 no_result] baited_wf
    by (simp add: baited_paths)
qed

end
