(* ===== verification/Config_Validation.thy ===== *)
theory Config_Validation
  imports Key_File Blob_Codec Text
begin

text \<open>
  The checks a configuration must pass before anything runs (\<open>config/validate\<close>): bounds of every tuning
  value, codec settings, the key file, ignore patterns, destinations and watched paths. Checks are
  made in the order of the code, so that the first violation decides the error. Warnings that are only
  logged leave no trace in the model.
\<close>

section \<open>Limits\<close>

record validation_limits =
  vl_min_interval_seconds :: nat
  vl_max_interval_seconds :: nat
  vl_min_verify_interval_seconds :: nat
  vl_max_verify_interval_seconds :: nat
  vl_max_backups_per_file :: nat
  vl_max_parallel_copies :: nat
  vl_max_copy_buffer_bytes :: nat
  vl_max_copy_timeout_seconds :: nat
  vl_max_free_space_safety_buffer_bytes :: nat
  vl_max_prune_interval_cycles :: nat
  vl_max_force_full_scan_interval_cycles :: nat
  vl_max_watcher_debounce_seconds :: nat
  vl_max_recent_activity_cap :: nat
  vl_max_retry_delays :: nat
  vl_max_retry_delay_ms :: nat
  vl_max_retry_jitter_pct :: real
  vl_max_hash_buffer_bytes :: nat
  vl_max_hash_timeout_seconds :: nat
  vl_max_ipc_timeout_seconds :: nat
  vl_max_ipc_request_max_bytes :: nat
  vl_max_ipc_response_max_bytes :: nat
  vl_max_ipc_read_chunk_bytes :: nat
  vl_max_daemon_shutdown_join_timeout_seconds :: nat
  vl_max_scan_timeout_seconds :: nat
  vl_max_service_command_timeout_seconds :: nat
  vl_max_service_command_retry_delay_ms :: nat
  vl_max_service_command_poll_interval_ms :: nat
  vl_max_source_snapshot_timeout_seconds :: nat
  vl_max_tray_tooltip_refresh_seconds :: nat
  vl_max_tray_full_check_min_interval_seconds :: nat
  vl_max_tray_full_check_timeout_seconds :: nat
  vl_max_tray_low_space_warning_bytes :: nat
  vl_max_scan_capacity_multiplier :: nat
  vl_max_log_tail_lines :: nat
  vl_max_log_tail_read_chunk_bytes :: nat
  vl_max_log_tail_max_bytes :: nat
  vl_max_simulation_sample_limit :: nat
  vl_max_hardening_snapshot_probe_timeout_seconds :: nat
  vl_max_gui_close_final_backup_debounce_ms :: nat
  vl_max_gui_close_final_backup_reset_delay_seconds :: nat
  vl_max_gui_quit_final_backup_timeout_seconds :: nat
  vl_max_gui_daemon_stop_timeout_seconds :: nat
  vl_max_gui_quit_force_exit_timeout_seconds :: nat
  vl_max_replication_max_manifest_deletes_per_cycle :: nat
  vl_max_blob_encryption_chunk_bytes :: nat
  vl_max_blob_compression_chunk_bytes :: nat
  vl_min_blob_compression_zstd_level :: int
  vl_max_blob_compression_zstd_level :: int
  vl_max_scrub_sample_blobs :: nat
  vl_max_scrub_sample_versions_per_source :: nat
  vl_max_ignore_patterns :: nat
  vl_max_watched :: nat
  vl_max_blocking_io_backoff_poll_interval_ms :: nat

definition default_validation_limits :: validation_limits where
  "default_validation_limits = \<lparr>
    vl_min_interval_seconds = 5,
    vl_max_interval_seconds = 86400 * 30,
    vl_min_verify_interval_seconds = 60,
    vl_max_verify_interval_seconds = 86400 * 365,
    vl_max_backups_per_file = 1000,
    vl_max_parallel_copies = 64,
    vl_max_copy_buffer_bytes = 8 * 1024 * 1024,
    vl_max_copy_timeout_seconds = 3600,
    vl_max_free_space_safety_buffer_bytes = 10 * 1024 * 1024 * 1024,
    vl_max_prune_interval_cycles = 1000,
    vl_max_force_full_scan_interval_cycles = 100000,
    vl_max_watcher_debounce_seconds = 60,
    vl_max_recent_activity_cap = 1000,
    vl_max_retry_delays = 10,
    vl_max_retry_delay_ms = 30000,
    vl_max_retry_jitter_pct = 1,
    vl_max_hash_buffer_bytes = 8 * 1024 * 1024,
    vl_max_hash_timeout_seconds = 3600,
    vl_max_ipc_timeout_seconds = 60,
    vl_max_ipc_request_max_bytes = 16 * 1024 * 1024,
    vl_max_ipc_response_max_bytes = 64 * 1024 * 1024,
    vl_max_ipc_read_chunk_bytes = 1024 * 1024,
    vl_max_daemon_shutdown_join_timeout_seconds = 3600,
    vl_max_scan_timeout_seconds = 3600,
    vl_max_service_command_timeout_seconds = 300,
    vl_max_service_command_retry_delay_ms = 60000,
    vl_max_service_command_poll_interval_ms = 5000,
    vl_max_source_snapshot_timeout_seconds = 300,
    vl_max_tray_tooltip_refresh_seconds = 3600,
    vl_max_tray_full_check_min_interval_seconds = 3600,
    vl_max_tray_full_check_timeout_seconds = 300,
    vl_max_tray_low_space_warning_bytes = 1024 * 1024 * 1024 * 1024,
    vl_max_scan_capacity_multiplier = 128,
    vl_max_log_tail_lines = 5000,
    vl_max_log_tail_read_chunk_bytes = 1024 * 1024,
    vl_max_log_tail_max_bytes = 16 * 1024 * 1024,
    vl_max_simulation_sample_limit = 1000,
    vl_max_hardening_snapshot_probe_timeout_seconds = 300,
    vl_max_gui_close_final_backup_debounce_ms = 10000,
    vl_max_gui_close_final_backup_reset_delay_seconds = 120,
    vl_max_gui_quit_final_backup_timeout_seconds = 300,
    vl_max_gui_daemon_stop_timeout_seconds = 300,
    vl_max_gui_quit_force_exit_timeout_seconds = 3600,
    vl_max_replication_max_manifest_deletes_per_cycle = 1000000,
    vl_max_blob_encryption_chunk_bytes = 8 * 1024 * 1024,
    vl_max_blob_compression_chunk_bytes = 8 * 1024 * 1024,
    vl_min_blob_compression_zstd_level = 1,
    vl_max_blob_compression_zstd_level = 22,
    vl_max_scrub_sample_blobs = 50000,
    vl_max_scrub_sample_versions_per_source = 1000,
    vl_max_ignore_patterns = 200,
    vl_max_watched = 500,
    vl_max_blocking_io_backoff_poll_interval_ms = 5000\<rparr>"

section \<open>Numbers\<close>

definition ensure_nonzero :: "string \<Rightarrow> string \<Rightarrow> nat \<Rightarrow> unit res" where
  "ensure_nonzero label field v = check (v \<noteq> 0) (label @ '' '' @ field @ '' must be > 0'')"

definition ensure_at_most :: "string \<Rightarrow> string \<Rightarrow> nat \<Rightarrow> nat \<Rightarrow> unit res" where
  "ensure_at_most label field v m = check (v \<le> m) (label @ '' '' @ field @ '' too large'')"

text \<open>The pair of checks most values have: not zero, and not above a limit.\<close>

definition bounded :: "string \<Rightarrow> string \<Rightarrow> nat \<Rightarrow> nat \<Rightarrow> unit res" where
  "bounded label field v m = rbind (ensure_nonzero label field v) (\<lambda>_. ensure_at_most label field v m)"

text \<open>A sequence of checks; the first that is violated decides.\<close>

definition all_checks :: "unit res list \<Rightarrow> unit res" where
  "all_checks cs = rfold (\<lambda>c _. c) cs ()"

definition validate_backup_root :: "config \<Rightarrow> string \<Rightarrow> unit res" where
  "validate_backup_root cfg label = check (path_text (cf_backup_root cfg) \<noteq> []) (label @ '' backup_root is missing'')"

definition validate_interval :: "config \<Rightarrow> validation_limits \<Rightarrow> string \<Rightarrow> unit res" where
  "validate_interval cfg l label = all_checks
    [check (vl_min_interval_seconds l \<le> cf_interval_seconds cfg) (label @ '' interval_seconds must be larger to avoid busy looping''),
     ensure_at_most label ''interval_seconds'' (cf_interval_seconds cfg) (vl_max_interval_seconds l)]"

text \<open>The loop over the retry delays, with the previous delay.\<close>

fun validate_delays :: "validation_limits \<Rightarrow> string \<Rightarrow> bool \<Rightarrow> nat \<Rightarrow> nat list \<Rightarrow> unit res" where
  "validate_delays l label first last_delay [] = Inr ()"
| "validate_delays l label first last_delay (d # ds) =
    rbind (bounded label ''execution.retry_delays_ms'' d (vl_max_retry_delay_ms l)) (\<lambda>_.
    rbind (check (first \<or> last_delay \<le> d) (label @ '' execution.retry_delays_ms must be non-decreasing to preserve backoff'')) (\<lambda>_.
    validate_delays l label False d ds))"

definition validate_execution_limits :: "config \<Rightarrow> validation_limits \<Rightarrow> string \<Rightarrow> unit res" where
  "validate_execution_limits cfg l label = (let e = cf_execution cfg in all_checks
    [bounded label ''max_backups_per_file'' (cf_max_backups_per_file cfg) (vl_max_backups_per_file l),
     bounded label ''max_parallel_copies'' (cf_max_parallel_copies cfg) (vl_max_parallel_copies l),
     check (cf_max_bytes_per_second cfg \<noteq> Some 0) (label @ '' max_bytes_per_second must be > 0 when set''),
     check (cf_min_free_space_bytes cfg \<noteq> Some 0) (label @ '' min_free_space_bytes must be > 0 when set''),
     bounded label ''execution.copy_buffer_bytes'' (et_copy_buffer_bytes e) (vl_max_copy_buffer_bytes l),
     bounded label ''execution.copy_timeout_seconds'' (et_copy_timeout_seconds e) (vl_max_copy_timeout_seconds l),
     ensure_at_most label ''execution.free_space_safety_buffer_bytes'' (et_free_space_safety_buffer_bytes e)
       (vl_max_free_space_safety_buffer_bytes l),
     bounded label ''execution.recent_activity_cap'' (et_recent_activity_cap e) (vl_max_recent_activity_cap l),
     check (et_retry_delays_ms e \<noteq> []) (label @ '' execution.retry_delays_ms must contain at least one delay''),
     check (length (et_retry_delays_ms e) \<le> vl_max_retry_delays l) (label @ '' execution.retry_delays_ms has too many entries''),
     validate_delays l label True 0 (et_retry_delays_ms e),
     check (\<not> et_retry_jitter_pct e < 0) (label @ '' execution.retry_jitter_pct must be >= 0''),
     check (\<not> et_retry_jitter_pct e > vl_max_retry_jitter_pct l) (label @ '' execution.retry_jitter_pct too large''),
     bounded label ''execution.blocking_io_backoff_poll_interval_ms'' (et_blocking_io_backoff_poll_interval_ms e)
       (vl_max_blocking_io_backoff_poll_interval_ms l)])"

definition validate_hashing_limits :: "config \<Rightarrow> validation_limits \<Rightarrow> string \<Rightarrow> unit res" where
  "validate_hashing_limits cfg l label = all_checks
    [bounded label ''hashing.buffer_bytes'' (ht_buffer_bytes (cf_hashing cfg)) (vl_max_hash_buffer_bytes l),
     bounded label ''hashing.timeout_seconds'' (ht_timeout_seconds (cf_hashing cfg)) (vl_max_hash_timeout_seconds l)]"

definition validate_planning_limits :: "config \<Rightarrow> validation_limits \<Rightarrow> string \<Rightarrow> unit res" where
  "validate_planning_limits cfg l label = (let p = cf_planning cfg in all_checks
    [ensure_nonzero label ''planning.hash_check_interval'' (pt_hash_check_interval p),
     ensure_nonzero label ''planning.max_plan_items'' (pt_max_plan_items p),
     bounded label ''planning.scan_timeout_seconds'' (pt_scan_timeout_seconds p) (vl_max_scan_timeout_seconds l),
     bounded label ''planning.scan_capacity_multiplier'' (pt_scan_capacity_multiplier p) (vl_max_scan_capacity_multiplier l)])"

text \<open>The checks of the runtime section, in groups.\<close>

definition validate_scrub_limits :: "runtime_tuning \<Rightarrow> validation_limits \<Rightarrow> string \<Rightarrow> unit res" where
  "validate_scrub_limits r l label = all_checks
    [bounded label ''runtime.prune_interval_cycles'' (rt_prune_interval_cycles r) (vl_max_prune_interval_cycles l),
     bounded label ''runtime.force_full_scan_interval_cycles'' (rt_force_full_scan_interval_cycles r) (vl_max_force_full_scan_interval_cycles l),
     check (vl_min_verify_interval_seconds l \<le> rt_verify_interval_seconds r) (label @ '' runtime.verify_interval_seconds too small''),
     ensure_at_most label ''runtime.verify_interval_seconds'' (rt_verify_interval_seconds r) (vl_max_verify_interval_seconds l),
     bounded label ''runtime.scrub_full_interval_seconds'' (rt_scrub_full_interval_seconds r) (vl_max_verify_interval_seconds l),
     bounded label ''runtime.scrub_sample_blobs'' (rt_scrub_sample_blobs r) (vl_max_scrub_sample_blobs l),
     bounded label ''runtime.scrub_sample_versions_per_source'' (rt_scrub_sample_versions_per_source r) (vl_max_scrub_sample_versions_per_source l),
     bounded label ''runtime.watcher_debounce_seconds'' (rt_watcher_debounce_seconds r) (vl_max_watcher_debounce_seconds l)]"

definition validate_ipc_limits :: "runtime_tuning \<Rightarrow> validation_limits \<Rightarrow> string \<Rightarrow> unit res" where
  "validate_ipc_limits r l label = all_checks
    [bounded label ''runtime.ipc_timeout_seconds'' (rt_ipc_timeout_seconds r) (vl_max_ipc_timeout_seconds l),
     bounded label ''runtime.ipc_request_max_bytes'' (rt_ipc_request_max_bytes r) (vl_max_ipc_request_max_bytes l),
     bounded label ''runtime.ipc_response_max_bytes'' (rt_ipc_response_max_bytes r) (vl_max_ipc_response_max_bytes l),
     bounded label ''runtime.ipc_read_chunk_bytes'' (rt_ipc_read_chunk_bytes r) (vl_max_ipc_read_chunk_bytes l),
     bounded label ''runtime.daemon_shutdown_join_timeout_seconds'' (rt_daemon_shutdown_join_timeout_seconds r) (vl_max_daemon_shutdown_join_timeout_seconds l)]"

definition validate_service_limits :: "runtime_tuning \<Rightarrow> validation_limits \<Rightarrow> string \<Rightarrow> unit res" where
  "validate_service_limits r l label = all_checks
    [bounded label ''runtime.service_command_timeout_seconds'' (rt_service_command_timeout_seconds r) (vl_max_service_command_timeout_seconds l),
     bounded label ''runtime.service_command_retry_delay_ms'' (rt_service_command_retry_delay_ms r) (vl_max_service_command_retry_delay_ms l),
     bounded label ''runtime.service_command_poll_interval_ms'' (rt_service_command_poll_interval_ms r) (vl_max_service_command_poll_interval_ms l),
     bounded label ''runtime.source_snapshot_timeout_seconds'' (rt_source_snapshot_timeout_seconds r) (vl_max_source_snapshot_timeout_seconds l)]"

definition validate_tray_limits :: "runtime_tuning \<Rightarrow> validation_limits \<Rightarrow> string \<Rightarrow> unit res" where
  "validate_tray_limits r l label = all_checks
    [bounded label ''runtime.tray_tooltip_refresh_seconds'' (rt_tray_tooltip_refresh_seconds r) (vl_max_tray_tooltip_refresh_seconds l),
     bounded label ''runtime.tray_full_check_min_interval_seconds'' (rt_tray_full_check_min_interval_seconds r) (vl_max_tray_full_check_min_interval_seconds l),
     bounded label ''runtime.tray_full_check_timeout_seconds'' (rt_tray_full_check_timeout_seconds r) (vl_max_tray_full_check_timeout_seconds l),
     bounded label ''runtime.tray_low_space_warning_bytes'' (rt_tray_low_space_warning_bytes r) (vl_max_tray_low_space_warning_bytes l)]"

definition validate_log_limits :: "runtime_tuning \<Rightarrow> validation_limits \<Rightarrow> string \<Rightarrow> unit res" where
  "validate_log_limits r l label = all_checks
    [bounded label ''runtime.log_tail_lines'' (rt_log_tail_lines r) (vl_max_log_tail_lines l),
     bounded label ''runtime.log_tail_read_chunk_bytes'' (rt_log_tail_read_chunk_bytes r) (vl_max_log_tail_read_chunk_bytes l),
     bounded label ''runtime.log_tail_max_bytes'' (rt_log_tail_max_bytes r) (vl_max_log_tail_max_bytes l)]"

definition validate_gui_limits :: "runtime_tuning \<Rightarrow> validation_limits \<Rightarrow> string \<Rightarrow> unit res" where
  "validate_gui_limits r l label = all_checks
    [bounded label ''runtime.simulation_sample_limit'' (rt_simulation_sample_limit r) (vl_max_simulation_sample_limit l),
     bounded label ''runtime.hardening_snapshot_probe_timeout_seconds'' (rt_hardening_snapshot_probe_timeout_seconds r) (vl_max_hardening_snapshot_probe_timeout_seconds l),
     bounded label ''runtime.gui_close_final_backup_debounce_ms'' (rt_gui_close_final_backup_debounce_ms r) (vl_max_gui_close_final_backup_debounce_ms l),
     bounded label ''runtime.gui_close_final_backup_reset_delay_seconds'' (rt_gui_close_final_backup_reset_delay_seconds r) (vl_max_gui_close_final_backup_reset_delay_seconds l),
     bounded label ''runtime.gui_quit_final_backup_timeout_seconds'' (rt_gui_quit_final_backup_timeout_seconds r) (vl_max_gui_quit_final_backup_timeout_seconds l),
     bounded label ''runtime.gui_daemon_stop_timeout_seconds'' (rt_gui_daemon_stop_timeout_seconds r) (vl_max_gui_daemon_stop_timeout_seconds l),
     bounded label ''runtime.gui_quit_force_exit_timeout_seconds'' (rt_gui_quit_force_exit_timeout_seconds r) (vl_max_gui_quit_force_exit_timeout_seconds l)]"

definition validate_replication_limits :: "runtime_tuning \<Rightarrow> validation_limits \<Rightarrow> string \<Rightarrow> unit res" where
  "validate_replication_limits r l label = all_checks
    [ensure_at_most label ''runtime.replication_max_manifest_deletes_per_cycle'' (rt_replication_max_manifest_deletes_per_cycle r)
       (vl_max_replication_max_manifest_deletes_per_cycle l),
     check (0 \<le> rt_large_deletion_keep_extra_threshold_ratio r \<and> rt_large_deletion_keep_extra_threshold_ratio r \<le> 1)
       (label @ '' runtime.large_deletion_keep_extra_threshold_ratio must be  [0.0, 1.0]'')]"

definition validate_runtime_limits :: "config \<Rightarrow> validation_limits \<Rightarrow> string \<Rightarrow> unit res" where
  "validate_runtime_limits cfg l label = (let r = cf_runtime cfg in all_checks
    [validate_scrub_limits r l label, validate_ipc_limits r l label, validate_service_limits r l label,
     validate_tray_limits r l label, validate_log_limits r l label, validate_gui_limits r l label,
     validate_replication_limits r l label])"

definition validate_tuning :: "config \<Rightarrow> validation_limits \<Rightarrow> string \<Rightarrow> unit res" where
  "validate_tuning cfg l label = all_checks
    [validate_backup_root cfg label, validate_interval cfg l label, validate_execution_limits cfg l label,
     validate_hashing_limits cfg l label, validate_planning_limits cfg l label, validate_runtime_limits cfg l label]"

section \<open>Codec, key and patterns\<close>

definition validate_compression :: "config \<Rightarrow> validation_limits \<Rightarrow> string \<Rightarrow> unit res" where
  "validate_compression cfg l label = (let c = cf_compression cfg in
    if \<not> cc_enabled c then Inr ()
    else all_checks
      [ensure_nonzero label ''compression.blob_chunk_bytes'' (cc_blob_chunk_bytes c),
       ensure_at_most label ''compression.blob_chunk_bytes'' (cc_blob_chunk_bytes c) (vl_max_blob_compression_chunk_bytes l),
       check (\<not> (cc_zstd_level c < vl_min_blob_compression_zstd_level l \<or> cc_zstd_level c > vl_max_blob_compression_zstd_level l))
         (label @ '' compression.zstd_level out of range'')])"

definition path_is_file :: "path \<Rightarrow> bool io" where
  "path_is_file p = probe (\<lambda>F. case stat F p of Inr n \<Rightarrow> is_file_node n | Inl _ \<Rightarrow> False)"

definition validate_encryption :: "ext \<Rightarrow> config \<Rightarrow> validation_limits \<Rightarrow> string \<Rightarrow> unit io" where
  "validate_encryption x cfg l label = (let e = cf_encryption cfg in
    if \<not> ec_enabled e then ret ()
    else bnd (lift (all_checks
        [ensure_nonzero label ''encryption.blob_chunk_bytes'' (ec_blob_chunk_bytes e),
         ensure_at_most label ''encryption.blob_chunk_bytes'' (ec_blob_chunk_bytes e) (vl_max_blob_encryption_chunk_bytes l)])) (\<lambda>_.
      bnd (lift (resolve_key_path x cfg)) (\<lambda>kp.
      bnd (path_exists kp) (\<lambda>there.
      if \<not> there then throw (Bail (label @ '' encryption enabled but key file does not exist''))
      else bnd (path_is_file kp) (\<lambda>is_file.
        if \<not> is_file then throw (Bail (label @ '' encryption enabled but key path is not a file''))
        else case ec_key_id e of
            None \<Rightarrow> throw (Bail (label @ '' encryption enabled but encryption.key_id is missing''))
          | Some expected \<Rightarrow> bnd (load_key_file x kp) (\<lambda>info.
              if ki_key_id info \<noteq> expected then throw (Bail (label @ '' encryption key_id mismatch'')) else ret ()))))))"

definition validate_ignore_patterns :: "ext \<Rightarrow> config \<Rightarrow> validation_limits \<Rightarrow> string \<Rightarrow> unit res" where
  "validate_ignore_patterns x cfg l label =
    rbind (rfold (\<lambda>pat _. check (x_glob x pat \<noteq> None) (label @ '' invalid ignore pattern: '' @ pat)) (cf_ignore_patterns cfg) ()) (\<lambda>_.
    check (length (cf_ignore_patterns cfg) \<le> vl_max_ignore_patterns l) (label @ '' too many ignore patterns''))"

section \<open>Destinations\<close>

text \<open>The index of destinations is a hash map from identifiers to paths.\<close>

type_synonym destination_index = "(string \<times> path) list"

definition validate_one_destination :: "config \<Rightarrow> destination \<Rightarrow> string \<Rightarrow> string list \<Rightarrow> string list io" where
  "validate_one_destination cfg d label ids =
    bnd (lift (all_checks
      [check (trim (dest_id d) \<noteq> []) (label @ '' destination id cannot be empty''),
       check (dest_id d \<notin> set ids) (label @ '' duplicate destination id: '' @ dest_id d),
       check ((case dest_max_backups_per_file d of Some n \<Rightarrow> n | None \<Rightarrow> cf_max_backups_per_file cfg) \<noteq> 0)
         (label @ '' destination max_backups_per_file must be > 0''),
       check (path_text (dest_path d) \<noteq> []) (label @ '' destination has empty path'')])) (\<lambda>_.
    bnd (case parent_of (dest_path d) of
        Some p \<Rightarrow> bnd (path_exists p) (\<lambda>_. ret ())
      | None \<Rightarrow> throw (Bail (label @ '' destination cannot be filesystem root''))) (\<lambda>_.
    bnd (path_exists (dest_path d)) (\<lambda>ex.
    bnd (if ex then path_is_file (dest_path d) else ret False) (\<lambda>is_file.
    if is_file then throw (Bail (label @ '' destination points to a file''))
    else bnd (path_exists (dest_path d)) (\<lambda>ex.
      if \<not> ex then ret (dest_id d # ids)
      else bnd (attempt (run_with_policy bootstrap_defaults None (create_dir_all (dest_path d)))) (\<lambda>r. case r of
          Inl e \<Rightarrow> throw (Bail (label @ '' destination is not writable or creatable''))
        | Inr _ \<Rightarrow> ret (dest_id d # ids)))))))"

definition validate_replication_targets :: "config \<Rightarrow> string \<Rightarrow> destination_index \<Rightarrow> unit res" where
  "validate_replication_targets cfg label by_id = rfold (\<lambda>d _. rfold (\<lambda>t _. all_checks
      [check (trim t \<noteq> []) (label @ '' replicate_to cannot contain empty ids''),
       check (t \<noteq> dest_id d) (label @ '' replicate_to cannot include itself''),
       check (map_of by_id t \<noteq> None) (label @ '' replicate_to references unknown destination id '' @ t)])
     (dest_replicate_to d) ()) (cf_destinations cfg) ()"

definition validate_and_index :: "config \<Rightarrow> string \<Rightarrow> destination_index io" where
  "validate_and_index cfg label =
    (if cf_destinations cfg = [] then throw (Bail (label @ '' no destinations configured''))
     else bnd (fold_act (\<lambda>d (ids, by_id).
         bnd (validate_one_destination cfg d label ids) (\<lambda>ids. ret (ids, (dest_id d, dest_path d) # by_id)))
         (cf_destinations cfg) ([], [])) (\<lambda>(_, by_id).
       bnd (lift (validate_replication_targets cfg label by_id)) (\<lambda>_. ret by_id)))"

section \<open>Watched paths\<close>

definition validate_count :: "config \<Rightarrow> validation_limits \<Rightarrow> string \<Rightarrow> unit res" where
  "validate_count cfg l label = check (length (cf_watched cfg) \<le> vl_max_watched l) (label @ '' too many watched entries'')"

definition validate_watched :: "string \<Rightarrow> destination_index \<Rightarrow> watched_path \<Rightarrow> (path \<times> string) list \<Rightarrow> (path \<times> string) list res" where
  "validate_watched label by_id w seen =
    rbind (check (parent_of (wp_path w) \<noteq> None) (label @ '' watched path cannot be filesystem root'')) (\<lambda>_.
    rbind (check ((wp_path w, wp_destination_id w) \<notin> set seen) (label @ '' duplicate watched path/destination pair'')) (\<lambda>_.
    case map_of by_id (wp_destination_id w) of
      None \<Rightarrow> Inl (Bail (label @ '' watched path missing destination '' @ wp_destination_id w))
    | Some d \<Rightarrow>
        rbind (check (\<not> prefix d (wp_path w)) (label @ '' watched path is inside destination'')) (\<lambda>_.
        rbind (check (\<not> prefix (wp_path w) d) (label @ '' destination is inside a watched path'')) (\<lambda>_.
        Inr ((wp_path w, wp_destination_id w) # seen)))))"

text \<open>The existence tests of the loop only decide about warnings; they are the calls they are.\<close>

fun any_exists :: "watched_path list \<Rightarrow> bool io" where
  "any_exists [] = ret False"
| "any_exists (w # ws) = bnd (path_exists (wp_path w)) (\<lambda>e. if e then ret True else any_exists ws)"

definition validate_paths :: "config \<Rightarrow> string \<Rightarrow> destination_index \<Rightarrow> unit io" where
  "validate_paths cfg label by_id =
    (if cf_watched cfg = [] then ret ()
     else bnd (any_exists (cf_watched cfg)) (\<lambda>_.
       bnd (fold_act (\<lambda>w seen.
         bnd (lift (validate_watched label by_id w seen)) (\<lambda>seen.
         bnd (path_exists (wp_path w)) (\<lambda>_. ret seen))) (cf_watched cfg) []) (\<lambda>_. ret ())))"

section \<open>The whole validation\<close>

definition validate_with_limits :: "ext \<Rightarrow> config \<Rightarrow> validation_limits \<Rightarrow> unit io" where
  "validate_with_limits x cfg l = (let label = ''config::validate_with_limits'' in
    bnd (lift (validate_tuning cfg l label)) (\<lambda>_.
    bnd (lift (validate_compression cfg l label)) (\<lambda>_.
    bnd (validate_encryption x cfg l label) (\<lambda>_.
    bnd (lift (validate_ignore_patterns x cfg l label)) (\<lambda>_.
    bnd (lift (validate_count cfg l label)) (\<lambda>_.
    bnd (validate_and_index cfg label) (\<lambda>by_id.
    validate_paths cfg label by_id)))))))"

definition validate_config :: "ext \<Rightarrow> config \<Rightarrow> unit io" where
  "validate_config x cfg = validate_with_limits x cfg default_validation_limits"

end
