(* ===== verification/Config_Theorems.thy ===== *)
theory Config_Theorems
  imports Config_Validation Restore Codec_Laws Sample_Store
begin

text \<open>
  What an accepted configuration guarantees to the components that use it: the codec's chunk sizes are
  in the range its round trip needs, hashing has a buffer and a time limit, and the different ways in
  which the code looks up a destination agree.
\<close>

section \<open>Sequences of checks\<close>

lemma all_checks_Inr [simp]: "all_checks cs = Inr u \<longleftrightarrow> (\<forall>c \<in> set cs. c = Inr ())"
  by (induction cs) (auto simp: all_checks_def rbind_eq_Inr)

lemma ensure_nonzero_Inr [simp]: "ensure_nonzero label field v = Inr u \<longleftrightarrow> 0 < v"
  by (simp add: ensure_nonzero_def)

lemma ensure_at_most_Inr [simp]: "ensure_at_most label field v m = Inr u \<longleftrightarrow> v \<le> m"
  by (simp add: ensure_at_most_def)

lemma bounded_Inr [simp]: "bounded label field v m = Inr u \<longleftrightarrow> 0 < v \<and> v \<le> m"
  by (auto simp: bounded_def rbind_eq_Inr)

lemma validate_delays_Inr:
  "validate_delays l label first n ds = Inr () \<longleftrightarrow>
    (\<forall>d \<in> set ds. 0 < d \<and> d \<le> vl_max_retry_delay_ms l) \<and> sorted ds \<and> (first \<or> ds = [] \<or> n \<le> hd ds)"
proof (induction ds arbitrary: first n)
  case (Cons d ds)
  have "validate_delays l label first n (d # ds) = Inr () \<longleftrightarrow> (0 < d \<and> d \<le> vl_max_retry_delay_ms l) \<and> (first \<or> n \<le> d)
      \<and> (\<forall>e \<in> set ds. 0 < e \<and> e \<le> vl_max_retry_delay_ms l) \<and> sorted ds \<and> (ds = [] \<or> d \<le> hd ds)"
    by (simp add: rbind_eq_Inr Cons.IH)
  moreover have "sorted (d # ds) \<longleftrightarrow> sorted ds \<and> (ds = [] \<or> d \<le> hd ds)" by (cases ds) auto
  ultimately show ?case by (simp del: sorted_simps) blast
qed simp

section \<open>Destinations and watched paths\<close>

lemma validate_one_destination_value:
  assumes "validate_one_destination cfg d label ids w = (Ok ids', v)"
  shows "dest_id d \<notin> set ids \<and> ids' = dest_id d # ids \<and> dest_path d \<noteq> []
    \<and> (case dest_max_backups_per_file d of Some n \<Rightarrow> n | None \<Rightarrow> cf_max_backups_per_file cfg) \<noteq> 0"
  using assms unfolding validate_one_destination_def
  by (elim bnd_OkE)
    (auto simp: lift_Ok_iff ret_Ok_iff throw_def parent_of_def split: if_splits sum.splits elim!: bnd_OkE)

lemma validate_index_loop:
  assumes "fold_act (\<lambda>d (ids, by_id). bnd (validate_one_destination cfg d label ids) (\<lambda>ids. ret (ids, (dest_id d, dest_path d) # by_id)))
    ds (ids, by_id) w = (Ok (ids', out), v)" and "distinct ids"
  shows "distinct ids' \<and> ids' = rev (map dest_id ds) @ ids
    \<and> out = rev (map (\<lambda>d. (dest_id d, dest_path d)) ds) @ by_id
    \<and> (\<forall>d \<in> set ds. dest_path d \<noteq> [])"
  using assms
proof (induction ds arbitrary: ids by_id w)
  case (Cons d ds)
  from Cons.prems(1) obtain i u where i: "validate_one_destination cfg d label ids w = (Ok i, u)"
    and r: "fold_act (\<lambda>d (ids, by_id). bnd (validate_one_destination cfg d label ids) (\<lambda>ids. ret (ids, (dest_id d, dest_path d) # by_id)))
      ds (i, (dest_id d, dest_path d) # by_id) u = (Ok (ids', out), v)"
    by (auto simp: bnd_assoc elim!: bnd_OkE)
  from validate_one_destination_value [OF i] Cons.prems(2) have "distinct i" by simp
  note fin = Cons.IH [OF r this] and val = validate_one_destination_value [OF i]
  show ?case by (rule conjI [OF fin [THEN conjunct1]]) (use fin val in simp)
qed (auto simp: ret_def)

lemma validate_and_index_value:
  assumes "validate_and_index cfg label w = (Ok by_id, v)"
  shows "distinct (map dest_id (cf_destinations cfg)) \<and> by_id = rev (map (\<lambda>d. (dest_id d, dest_path d)) (cf_destinations cfg))
    \<and> (\<forall>d \<in> set (cf_destinations cfg). dest_path d \<noteq> []) \<and> validate_replication_targets cfg label by_id = Inr ()"
proof -
  from assms obtain ids u where
    f: "fold_act (\<lambda>d (ids, by_id). bnd (validate_one_destination cfg d label ids) (\<lambda>ids. ret (ids, (dest_id d, dest_path d) # by_id)))
      (cf_destinations cfg) ([], []) w = (Ok (ids, by_id), u)" and r: "validate_replication_targets cfg label by_id = Inr ()"
    unfolding validate_and_index_def
    by (auto simp: throw_def lift_Ok_iff ret_Ok_iff split: if_splits prod.splits elim!: bnd_OkE)
  from validate_index_loop [OF f] r show ?thesis by (auto simp: distinct_rev)
qed

text \<open>The ways of finding a destination: the first match, and a hash map that keeps the last.\<close>

lemma destination_found:
  assumes "distinct (map dest_id (cf_destinations cfg))" and "d \<in> set (cf_destinations cfg)"
  shows "find (\<lambda>e. dest_id e = dest_id d) (cf_destinations cfg) = Some d" and "destination_by_id cfg (dest_id d) = Some d"
    and "map_of (rev (map (\<lambda>d. (dest_id d, dest_path d)) (cf_destinations cfg))) (dest_id d) = Some (dest_path d)"
proof -
  let ?ds = "cf_destinations cfg"
  have "distinct (map dest_id ds) \<Longrightarrow> d \<in> set ds \<Longrightarrow> find (\<lambda>e. dest_id e = dest_id d) ds = Some d" for ds
    by (induction ds) auto
  then show "find (\<lambda>e. dest_id e = dest_id d) ?ds = Some d" using assms by blast
  have k: "distinct (map (\<lambda>d. dest_id d) (rev ?ds))" using assms(1) by (simp add: rev_map [symmetric])
  show "destination_by_id cfg (dest_id d) = Some d"
    unfolding destination_by_id_def using k assms(2) by (intro map_of_is_SomeI) (auto simp: rev_map comp_def)
  show "map_of (rev (map (\<lambda>d. (dest_id d, dest_path d)) ?ds)) (dest_id d) = Some (dest_path d)"
    using k assms(2) by (intro map_of_is_SomeI) (auto simp: rev_map comp_def)
qed

lemma destinations_agree:
  assumes "distinct (map dest_id (cf_destinations cfg))"
  shows "find (\<lambda>d. dest_id d = i) (cf_destinations cfg) = destination_by_id cfg i"
proof (cases "i \<in> dest_id ` set (cf_destinations cfg)")
  case True
  then show ?thesis using destination_found [OF assms] by auto
next
  case False
  then have "find (\<lambda>d. dest_id d = i) (cf_destinations cfg) = None" by (auto simp: find_None_iff)
  moreover have "destination_by_id cfg i = None"
    using False by (auto simp: destination_by_id_def map_of_eq_None_iff image_iff)
  ultimately show ?thesis by simp
qed

lemma validate_watched_value:
  assumes "validate_watched label by_id w seen = Inr seen'"
  shows "(wp_path w, wp_destination_id w) \<notin> set seen \<and> seen' = (wp_path w, wp_destination_id w) # seen
    \<and> (\<exists>d. map_of by_id (wp_destination_id w) = Some d \<and> \<not> prefix d (wp_path w) \<and> \<not> prefix (wp_path w) d)"
  using assms by (auto simp: validate_watched_def rbind_eq_Inr split: option.splits)

lemma validate_paths_loop:
  assumes "fold_act (\<lambda>w seen. bnd (lift (validate_watched label by_id w seen)) (\<lambda>seen. bnd (path_exists (wp_path w)) (\<lambda>_. ret seen)))
    ws seen u = (Ok seen', v)" and "distinct seen"
  shows "distinct seen' \<and> seen' = rev (map (\<lambda>w. (wp_path w, wp_destination_id w)) ws) @ seen
    \<and> (\<forall>w \<in> set ws. \<exists>d. map_of by_id (wp_destination_id w) = Some d \<and> \<not> prefix d (wp_path w) \<and> \<not> prefix (wp_path w) d)"
  using assms
proof (induction ws arbitrary: seen u)
  case (Cons w ws)
  from Cons.prems(1) obtain s t where s: "validate_watched label by_id w seen = Inr s"
    and r: "fold_act (\<lambda>w seen. bnd (lift (validate_watched label by_id w seen)) (\<lambda>seen. bnd (path_exists (wp_path w)) (\<lambda>_. ret seen)))
      ws s t = (Ok seen', v)"
    by (auto simp: lift_Ok_iff ret_Ok_iff elim!: bnd_OkE)
  note val = validate_watched_value [OF s]
  from val Cons.prems(2) have "distinct s" by simp
  note fin = Cons.IH [OF r this]
  show ?case by (rule conjI [OF fin [THEN conjunct1]]) (use fin val in simp)
qed (auto simp: ret_def)

lemma validate_paths_value:
  assumes "validate_paths cfg label by_id u = (Ok (), v)"
  shows "distinct (map (\<lambda>w. (wp_path w, wp_destination_id w)) (cf_watched cfg))
    \<and> (\<forall>w \<in> set (cf_watched cfg). \<exists>d. map_of by_id (wp_destination_id w) = Some d \<and> \<not> prefix d (wp_path w) \<and> \<not> prefix (wp_path w) d)"
proof (cases "cf_watched cfg = []")
  case False
  then obtain seen t s where f: "fold_act (\<lambda>w seen. bnd (lift (validate_watched label by_id w seen))
      (\<lambda>seen. bnd (path_exists (wp_path w)) (\<lambda>_. ret seen))) (cf_watched cfg) [] t = (Ok seen, s)"
    using assms by (auto simp: validate_paths_def elim!: bnd_OkE)
  from validate_paths_loop [OF f] show ?thesis by auto
qed simp

section \<open>The codec of an accepted configuration\<close>

lemma codec_from_config_value:
  assumes "codec_from_config x cfg u = (Ok cd, v)"
  shows "cd_write_compression_enabled cd = cc_enabled (cf_compression cfg)"
    and "cd_write_compression_chunk_bytes cd = max (cc_blob_chunk_bytes (cf_compression cfg)) 1"
    and "cd_cipher cd = Some c \<Longrightarrow> ec_enabled (cf_encryption cfg) \<and>
      bc_chunk_bytes c = (if cc_enabled (cf_compression cfg) then max (cc_blob_chunk_bytes (cf_compression cfg)) 1
        else max (ec_blob_chunk_bytes (cf_encryption cfg)) 1)"
  using assms unfolding codec_from_config_def cipher_from_config_def
  by (auto simp: ret_Ok_iff throw_def lift_Ok_iff split: if_splits option.splits elim!: bnd_OkE)

lemma validate_encryption_value:
  assumes "validate_encryption x cfg l label u = (Ok (), v)" and "ec_enabled (cf_encryption cfg)"
  shows "0 < ec_blob_chunk_bytes (cf_encryption cfg) \<and> ec_blob_chunk_bytes (cf_encryption cfg) \<le> vl_max_blob_encryption_chunk_bytes l
    \<and> ec_key_id (cf_encryption cfg) \<noteq> None"
  using assms by (auto simp: validate_encryption_def Let_def lift_Ok_iff throw_def split: option.splits if_splits elim!: bnd_OkE)

section \<open>What validation guarantees\<close>

text \<open>The numbers other components divide by, wait for or index with.\<close>

definition tuning_wf :: "config \<Rightarrow> bool" where
  "tuning_wf cfg \<longleftrightarrow> (let e = cf_execution cfg; r = cf_runtime cfg in
    0 < cf_max_backups_per_file cfg \<and> 0 < cf_max_parallel_copies cfg \<and> 0 < et_copy_buffer_bytes e \<and> 0 < et_copy_timeout_seconds e
    \<and> 0 < ht_buffer_bytes (cf_hashing cfg) \<and> 0 < ht_timeout_seconds (cf_hashing cfg)
    \<and> et_retry_delays_ms e \<noteq> [] \<and> sorted (et_retry_delays_ms e) \<and> 0 < hd (et_retry_delays_ms e)
    \<and> 0 \<le> et_retry_jitter_pct e \<and> et_retry_jitter_pct e \<le> 1
    \<and> 0 \<le> rt_large_deletion_keep_extra_threshold_ratio r \<and> rt_large_deletion_keep_extra_threshold_ratio r \<le> 1
    \<and> 0 < rt_scrub_sample_blobs r \<and> 0 < rt_scrub_sample_versions_per_source r)"

text \<open>
  Destinations have distinct identifiers, are not the root directory and replicate to other existing
  destinations; every watched path has a destination, neither lies in the other, and no pair is repeated.
\<close>

definition layout_wf :: "config \<Rightarrow> bool" where
  "layout_wf cfg \<longleftrightarrow> (let ds = cf_destinations cfg; ids = map dest_id ds in
    distinct ids \<and> distinct (map (\<lambda>w. (wp_path w, wp_destination_id w)) (cf_watched cfg))
    \<and> (\<forall>d \<in> set ds. dest_path d \<noteq> [] \<and> (\<forall>t \<in> set (dest_replicate_to d). t \<noteq> dest_id d \<and> t \<in> set ids))
    \<and> (\<forall>w \<in> set (cf_watched cfg). \<exists>d \<in> set ds. dest_id d = wp_destination_id w
        \<and> \<not> prefix (dest_path d) (wp_path w) \<and> \<not> prefix (wp_path w) (dest_path d)))"

lemma validate_tuning_wf:
  assumes "validate_tuning cfg default_validation_limits label = Inr ()"
  shows "tuning_wf cfg"
proof -
  from assms have e: "validate_execution_limits cfg default_validation_limits label = Inr ()"
    and h: "validate_hashing_limits cfg default_validation_limits label = Inr ()"
    and r: "validate_scrub_limits (cf_runtime cfg) default_validation_limits label = Inr ()"
      "validate_replication_limits (cf_runtime cfg) default_validation_limits label = Inr ()"
    by (simp_all add: validate_tuning_def validate_runtime_limits_def Let_def)
  note ds = e [unfolded validate_execution_limits_def Let_def, simplified validate_delays_Inr all_checks_Inr]
  show ?thesis
    using ds h r unfolding tuning_wf_def Let_def
    by (simp add: validate_delays_Inr validate_hashing_limits_def validate_scrub_limits_def validate_replication_limits_def
        default_validation_limits_def)
qed

lemma replication_targets_known:
  assumes "validate_replication_targets cfg label (rev (map (\<lambda>d. (dest_id d, dest_path d)) (cf_destinations cfg))) = Inr ()"
    and "d \<in> set (cf_destinations cfg)" and "t \<in> set (dest_replicate_to d)"
  shows "t \<noteq> dest_id d \<and> t \<in> set (map dest_id (cf_destinations cfg))"
proof -
  let ?ix = "rev (map (\<lambda>d. (dest_id d, dest_path d)) (cf_destinations cfg))"
  have "\<forall>d \<in> set (cf_destinations cfg). \<forall>t \<in> set (dest_replicate_to d). t \<noteq> dest_id d \<and> map_of ?ix t \<noteq> None"
    using assms(1) by (simp only: validate_replication_targets_def rfold_unit_Inr all_checks_Inr list.set ball_simps check_eq_Inr) simp
  then have "map_of ?ix t \<noteq> None \<and> t \<noteq> dest_id d" using assms(2, 3) by blast
  then show ?thesis by (simp add: map_of_eq_None_iff image_image)
qed

lemma layout_wfI:
  assumes idx: "validate_and_index cfg label u = (Ok by_id, u')" and pa: "validate_paths cfg label by_id u' = (Ok (), v)"
  shows "layout_wf cfg"
proof -
  let ?ds = "cf_destinations cfg"
  note i = validate_and_index_value [OF idx] and p = validate_paths_value [OF pa]
  have "\<exists>d \<in> set ?ds. dest_id d = wp_destination_id w \<and> \<not> prefix (dest_path d) (wp_path w) \<and> \<not> prefix (wp_path w) (dest_path d)"
    if "w \<in> set (cf_watched cfg)" for w
    using p i that by (fastforce dest!: map_of_SomeD)
  moreover have "t \<noteq> dest_id d \<and> t \<in> set (map dest_id ?ds)" if "d \<in> set ?ds" and "t \<in> set (dest_replicate_to d)" for d t
    using replication_targets_known [OF _ that, of label] i by blast
  ultimately show ?thesis using i p by (simp add: layout_wf_def Let_def)
qed

lemma chunks_okI:
  assumes "validate_compression cfg default_validation_limits label = Inr ()" and "codec_from_config x cfg u = (Ok cd, u')"
  shows "chunks_ok cd"
  using assms(1) codec_from_config_value [OF assms(2)]
  by (auto simp: chunks_ok_def validate_compression_def Let_def default_validation_limits_def MAX_DECOMPRESSED_CHUNK_BYTES_def
      split: option.splits)


text \<open>The sample configuration without ignore patterns, on the store of the sample destination.\<close>

definition plain_config :: config where
  "plain_config = sample_config\<lparr>cf_ignore_patterns := []\<rparr>"

lemmas runtime_defaults =
  default_runtime_tuning_def
  default_daemon_shutdown_join_timeout_seconds_def default_force_full_scan_interval_cycles_def default_gui_close_final_backup_debounce_ms_def
  default_gui_close_final_backup_reset_delay_seconds_def default_gui_daemon_stop_timeout_seconds_def
  default_gui_quit_final_backup_timeout_seconds_def default_gui_quit_force_exit_timeout_seconds_def
  default_hardening_snapshot_probe_timeout_seconds_def default_ipc_read_chunk_bytes_def default_ipc_request_max_bytes_def
  default_ipc_response_max_bytes_def default_ipc_timeout_seconds_def default_large_deletion_keep_extra_threshold_ratio_def
  default_log_tail_lines_def default_log_tail_max_bytes_def default_log_tail_read_chunk_bytes_def default_prune_interval_cycles_def
  default_replication_enabled_def default_replication_max_manifest_deletes_per_cycle_def default_replication_mirror_manifests_def
  default_scrub_full_interval_seconds_def default_scrub_sample_blobs_def default_scrub_sample_versions_per_source_def
  default_service_command_poll_interval_ms_def default_service_command_retry_delay_ms_def default_service_command_timeout_seconds_def
  default_simulation_sample_limit_def default_source_snapshot_timeout_seconds_def default_source_snapshots_enabled_def
  default_tray_full_check_min_interval_seconds_def default_tray_full_check_timeout_seconds_def default_tray_low_space_warning_bytes_def
  default_tray_tooltip_refresh_seconds_def default_verify_interval_seconds_def default_watcher_debounce_seconds_def

lemma sample_runtime_accepted: "validate_runtime_limits plain_config default_validation_limits label = Inr ()"
proof -
  let ?r = "cf_runtime plain_config" and ?l = default_validation_limits
  have "validate_scrub_limits ?r ?l label = Inr ()"
    by (simp add: validate_scrub_limits_def plain_config_def sample_config_def default_validation_limits_def runtime_defaults)
  moreover have "validate_ipc_limits ?r ?l label = Inr ()"
    by (simp add: validate_ipc_limits_def plain_config_def sample_config_def default_validation_limits_def runtime_defaults)
  moreover have "validate_service_limits ?r ?l label = Inr ()"
    by (simp add: validate_service_limits_def plain_config_def sample_config_def default_validation_limits_def runtime_defaults)
  moreover have "validate_tray_limits ?r ?l label = Inr ()"
    by (simp add: validate_tray_limits_def plain_config_def sample_config_def default_validation_limits_def runtime_defaults)
  moreover have "validate_log_limits ?r ?l label = Inr ()"
    by (simp add: validate_log_limits_def plain_config_def sample_config_def default_validation_limits_def runtime_defaults)
  moreover have "validate_gui_limits ?r ?l label = Inr ()"
    by (simp add: validate_gui_limits_def plain_config_def sample_config_def default_validation_limits_def runtime_defaults)
  moreover have "validate_replication_limits ?r ?l label = Inr ()"
    by (simp add: validate_replication_limits_def plain_config_def sample_config_def default_validation_limits_def runtime_defaults)
  ultimately show ?thesis by (simp add: validate_runtime_limits_def Let_def)
qed

lemma sample_tuning_accepted: "validate_tuning plain_config default_validation_limits label = Inr ()"
proof -
  have "validate_execution_limits plain_config default_validation_limits label = Inr ()"
    by (simp add: validate_execution_limits_def Let_def validate_delays_Inr rbind_eq_Inr plain_config_def sample_config_def default_validation_limits_def
        default_execution_tuning_def default_max_backups_per_file_def default_max_parallel_copies_def default_max_bytes_per_second_def
        default_min_free_space_bytes_def default_copy_buffer_bytes_def default_copy_timeout_seconds_def default_retry_delays_ms_def
        default_free_space_safety_buffer_bytes_def default_recent_activity_cap_def default_retry_jitter_pct_def
        default_blocking_io_backoff_poll_interval_ms_def)
  moreover have "validate_hashing_limits plain_config default_validation_limits label = Inr ()"
    by (simp add: validate_hashing_limits_def plain_config_def sample_config_def default_validation_limits_def default_hashing_tuning_def
        default_hash_buffer_bytes_def default_hash_timeout_seconds_def)
  moreover have "validate_planning_limits plain_config default_validation_limits label = Inr ()"
    by (simp add: validate_planning_limits_def Let_def plain_config_def sample_config_def default_validation_limits_def default_planning_tuning_def
        default_hash_check_interval_def default_max_plan_items_def default_scan_timeout_seconds_def default_scan_capacity_multiplier_def)
  moreover have "validate_interval plain_config default_validation_limits label = Inr ()"
    by (simp add: validate_interval_def plain_config_def sample_config_def default_validation_limits_def default_interval_seconds_def)
  moreover have "validate_runtime_limits plain_config default_validation_limits label = Inr ()"
    by (rule sample_runtime_accepted)
  moreover have "validate_backup_root plain_config label = Inr ()"
    by (simp add: validate_backup_root_def plain_config_def sample_config_def path_text_def)
  ultimately show ?thesis by (simp add: validate_tuning_def)
qed

lemma sample_codec_accepted:
  "validate_compression plain_config default_validation_limits label = Inr ()"
  "validate_encryption sample_ext plain_config default_validation_limits label = ret ()"
  "validate_ignore_patterns sample_ext plain_config default_validation_limits label = Inr ()"
  "validate_count plain_config default_validation_limits label = Inr ()"
  by (simp_all add: validate_compression_def validate_encryption_def validate_ignore_patterns_def validate_count_def Let_def
      plain_config_def sample_config_def default_validation_limits_def default_compression_config_def default_encryption_config_def
      default_ignore_patterns_def sample_ext_def default_blob_compression_chunk_bytes_def default_blob_compression_zstd_level_def
      rbind_eq_Inr)

lemma sample_probes:
  "path_exists [] stored_world = (Ok True, stored_world)" "path_exists [''dst''] stored_world = (Ok True, stored_world)"
  "path_exists [''src''] stored_world = (Ok True, stored_world)" "path_is_file [''dst''] stored_world = (Ok False, stored_world)"
  "create_dir_all [''dst''] stored_world = (Ok (), stored_world)" "get_now stored_world = (Ok 0, stored_world)"
  by (simp_all add: stored_world_def stored_fs_def quiet_run path_is_file_def create_dir_all_def)

lemma sample_policy_run:
  "run_with_policy bootstrap_defaults None (create_dir_all [''dst'']) stored_world = (Ok (), stored_world)"
  by (cases "bp_retry_delays bootstrap_defaults")
    (simp_all add: run_with_policy_def ensure_active_def is_cancelled_def bnd_def attempt_def sample_probes ret_def)

lemma sample_destination_accepted:
  "validate_one_destination plain_config sample_destination label [] stored_world = (Ok [default_destination_id], stored_world)"
proof -
  have "trim default_destination_id \<noteq> []" by code_simp
  then show ?thesis
    unfolding validate_one_destination_def
    by (simp add: sample_destination_def plain_config_def sample_config_def default_max_backups_per_file_def path_text_def
        all_checks_def check_def parent_of_def sample_probes sample_policy_run bnd_def lift_def ret_def attempt_def)
qed

lemma sample_index_accepted:
  "validate_and_index plain_config label stored_world = (Ok [(default_destination_id, [''dst''])], stored_world)"
proof -
  have d: "cf_destinations plain_config = [sample_destination]" by (simp add: plain_config_def sample_config_def)
  moreover have "validate_replication_targets plain_config label by_id = Inr ()" for by_id
    by (simp add: validate_replication_targets_def d sample_destination_def)
  ultimately show ?thesis
    by (simp add: validate_and_index_def sample_destination_accepted bnd_def lift_def ret_def)
      (simp add: sample_destination_def)
qed

lemma sample_paths_accepted:
  "validate_paths plain_config label [(default_destination_id, [''dst''])] stored_world = (Ok (), stored_world)"
  by (simp add: validate_paths_def validate_watched_def plain_config_def sample_config_def sample_watched_def parent_of_def
      sample_probes check_def bnd_def lift_def ret_def)

lemma sample_config_accepted: "validate_config sample_ext plain_config stored_world = (Ok (), stored_world)"
  by (simp add: validate_config_def validate_with_limits_def Let_def sample_tuning_accepted sample_codec_accepted
      sample_index_accepted sample_paths_accepted bnd_def lift_def ret_def)


end
