(* ===== verification/Scrub.thy ===== *)
theory Scrub
  imports Restore Codec_Laws "HOL-Library.Multiset"
begin

text \<open>
  Checking a store against its manifests (\<open>scrub.rs\<close>): the listed versions of every enabled source are
  read, the blobs they refer to are looked for, and all of them or a sample are decoded and hashed.
  The iteration order of the hash map of destinations is a parameter.
\<close>

section \<open>Choosing a sample\<close>

datatype scrub_mode = Sampled | Full

record scrub_result =
  sr_mode :: scrub_mode
  sr_manifests_checked :: nat
  sr_manifests_bad :: nat
  sr_referenced_blobs :: nat
  sr_missing_blobs :: nat
  sr_blobs_hashed :: nat
  sr_hash_mismatches :: nat

fun greatest_common_divisor :: "nat \<Rightarrow> nat \<Rightarrow> nat" where
  "greatest_common_divisor left right =
    (if right = 0 then left else greatest_common_divisor right (left mod right))"

declare greatest_common_divisor.simps [simp del]

lemma greatest_common_divisor_gcd: "greatest_common_divisor a b = gcd a b"
proof (induction a b rule: greatest_common_divisor.induct)
  case (1 a b)
  then show ?case by (subst greatest_common_divisor.simps) (use gcd_red_nat [of a b] in auto)
qed

definition advance_step :: "nat \<Rightarrow> nat \<Rightarrow> nat" where
  "advance_step n step = (let s = (step + 1) mod n in if s = 0 then 1 else s)"

text \<open>
  The search for a step that visits every index. The code never gets here with an empty list, for
  which the remainder would panic.
\<close>

function coprime_step :: "nat \<Rightarrow> nat \<Rightarrow> nat" where
  "coprime_step n step =
    (if n \<noteq> 0 \<and> greatest_common_divisor step n \<noteq> 1 then coprime_step n (advance_step n step) else step)"
  by pat_completeness auto
termination
proof (relation "measure (\<lambda>(n, s). if s = 1 then 0 else if s < n then n - s else Suc n)")
  fix n s :: nat assume a: "n \<noteq> 0 \<and> greatest_common_divisor s n \<noteq> 1"
  then have s: "s \<noteq> 1" by (auto simp: greatest_common_divisor_gcd)
  have lt: "(s + 1) mod n < n" using a by simp
  consider "s + 1 < n" | "s + 1 = n" | "n \<le> s" by linarith
  then show "((n, advance_step n s), n, s) \<in> measure (\<lambda>(n, s). if s = 1 then 0 else if s < n then n - s else Suc n)"
    by cases (use s lt a in \<open>auto simp: advance_step_def Let_def\<close>)
qed simp

declare coprime_step.simps [simp del]

fun sample_loop :: "string list \<Rightarrow> nat \<Rightarrow> nat \<Rightarrow> nat \<Rightarrow> string list" where
  "sample_loop hashes step idx 0 = []"
| "sample_loop hashes step idx (Suc k) = hashes ! idx # sample_loop hashes step ((idx + step) mod length hashes) k"

definition select_hashes_for_mode :: "string list \<Rightarrow> nat \<Rightarrow> scrub_mode \<Rightarrow> nat \<Rightarrow> string list" where
  "select_hashes_for_mode hashes sample_blobs mode seed =
    (if mode = Full \<or> hashes = [] then []
     else let n = length hashes; m = min sample_blobs n in
       if m = n then hashes
       else let first = 97 mod n; step = coprime_step n (if first = 0 then 1 else first)
         in sample_loop hashes step (seed mod n) m)"

section \<open>What the manifests refer to\<close>

type_synonym scrub_refs = "(path \<times> string list) list"

fun refs_update :: "path \<Rightarrow> (string list \<Rightarrow> string list) \<Rightarrow> scrub_refs \<Rightarrow> scrub_refs" where
  "refs_update d f [] = [(d, f [])]"
| "refs_update d f ((e, s) # r) = (if e = d then (e, f s) # r else (e, s) # refs_update d f r)"

text \<open>A \<open>BTreeSet\<close> of strings is the increasing list of its elements.\<close>

definition scrub_entry :: "manifest_entry \<Rightarrow> string list \<Rightarrow> string list" where
  "scrub_entry e s = (if me_kind e \<noteq> FileEntry then s else case me_sha256 e of Some h \<Rightarrow> insort_insert h s | None \<Rightarrow> s)"

definition unhashed :: "manifest \<Rightarrow> nat" where
  "unhashed m = length (filter (\<lambda>e. me_kind e = FileEntry \<and> me_sha256 e = None) (bt_values (mf_entries m)))"

definition scrub_manifest :: "ext \<Rightarrow> path \<Rightarrow> path \<Rightarrow> version_info \<Rightarrow> scrub_refs \<times> nat \<times> nat \<Rightarrow> (scrub_refs \<times> nat \<times> nat) io" where
  "scrub_manifest x d mr v = (\<lambda>(refs, checked, bad).
    bnd (path_exists (mr @ [json_name (vi_id v)])) (\<lambda>ex.
    if \<not> ex then ret (refs, checked, bad + 1)
    else bnd (attempt (read_file (mr @ [json_name (vi_id v)]))) (\<lambda>raw. case raw of
        Inl _ \<Rightarrow> ret (refs, checked, bad + 1)
      | Inr raw \<Rightarrow> (case parse_manifest x raw of
          None \<Rightarrow> ret (refs, checked, bad + 1)
        | Some m \<Rightarrow> ret (refs_update d (fold scrub_entry (bt_values (mf_entries m))) refs, checked + 1, bad + unhashed m)))))"

definition versions_for_mode :: "scrub_mode \<Rightarrow> nat \<Rightarrow> version_info list \<Rightarrow> version_info list" where
  "versions_for_mode mode n vs = (if mode = Full then vs else drop (length vs - max n 1) vs)"

definition scrub_source :: "ext \<Rightarrow> config \<Rightarrow> scrub_mode \<Rightarrow> nat \<Rightarrow> watched_path \<Rightarrow> scrub_refs \<times> nat \<times> nat \<Rightarrow> (scrub_refs \<times> nat \<times> nat) io" where
  "scrub_source x cfg mode n w st = (case destination_by_id cfg (wp_destination_id w) of
      None \<Rightarrow> throw (Bail ''versioned::scrub_versioned_store missing destination id'')
    | Some d \<Rightarrow>
        let ip = version_index_path x (dest_path d) (wp_path w) in
        bnd (path_exists ip) (\<lambda>ex.
        if \<not> ex then ret st
        else bnd (read_index x ip) (\<lambda>ix.
          fold_act (scrub_manifest x (dest_path d) (source_root x (dest_path d) (wp_path w) @ [''manifests'']))
            (versions_for_mode mode n (vx_versions ix)) st)))"

section \<open>Looking at the blobs\<close>

definition scrub_blob :: "ext \<Rightarrow> blob_codec \<Rightarrow> nat \<Rightarrow> scrub_mode \<Rightarrow> path \<Rightarrow> string list \<Rightarrow> string \<Rightarrow> nat \<times> nat \<times> nat \<Rightarrow> (nat \<times> nat \<times> nat) io" where
  "scrub_blob x cd timeout mode blobs selected h = (\<lambda>(missing, hashed, mismatches).
    bnd (path_exists (blob_path x blobs h)) (\<lambda>ex.
    if \<not> ex then ret (missing + 1, hashed, mismatches)
    else if mode = Full \<or> h \<in> set selected
    then bnd (sha256_plaintext_blob x cd (blob_path x blobs h) timeout) (\<lambda>computed.
      ret (missing, hashed + 1, if computed \<noteq> h then mismatches + 1 else mismatches))
    else ret (missing, hashed, mismatches)))"

definition scrub_destination :: "ext \<Rightarrow> blob_codec \<Rightarrow> nat \<Rightarrow> scrub_mode \<Rightarrow> nat \<Rightarrow> nat \<Rightarrow> path \<times> string list
    \<Rightarrow> nat \<times> nat \<times> nat \<Rightarrow> (nat \<times> nat \<times> nat) io" where
  "scrub_destination x cd timeout mode sample_blobs seed = (\<lambda>(d, referenced).
    fold_act (scrub_blob x cd timeout mode (blobs_root (store_root d)) (select_hashes_for_mode referenced sample_blobs mode seed))
      referenced)"

definition enabled_destinations :: "config \<Rightarrow> path list res" where
  "enabled_destinations cfg = rfold (\<lambda>w acc. case destination_by_id cfg (wp_destination_id w) of
      None \<Rightarrow> Inl (Bail ''versioned::scrub_versioned_store missing destination id'')
    | Some d \<Rightarrow> Inr (acc @ [dest_path d])) (filter wp_enabled (cf_watched cfg)) []"

definition scrub_versioned_store :: "ext \<Rightarrow> (scrub_refs \<Rightarrow> scrub_refs) \<Rightarrow> config \<Rightarrow> hashing_tuning \<Rightarrow> scrub_mode \<Rightarrow> nat \<Rightarrow> nat \<Rightarrow> nat
    \<Rightarrow> scrub_result io" where
  "scrub_versioned_store x hash_order cfg hashing mode sample_blobs sample_versions_per_source seed =
    bnd (lift (enabled_destinations cfg)) (\<lambda>ds.
    bnd (lease_policy x cfg) (\<lambda>pol.
    bnd (acquire_store_leases x ds pol) (\<lambda>_.
    bnd (codec_from_config x cfg) (\<lambda>cd.
    bnd (fold_act (scrub_source x cfg mode sample_versions_per_source) (filter wp_enabled (cf_watched cfg)) ([], 0, 0)) (\<lambda>(refs, checked, bad).
    bnd (fold_act (scrub_destination x cd (ht_timeout_seconds hashing) mode sample_blobs seed) (hash_order refs) (0, 0, 0))
      (\<lambda>(missing, hashed, mismatches).
    ret \<lparr>sr_mode = mode, sr_manifests_checked = checked, sr_manifests_bad = bad,
      sr_referenced_blobs = sum_list (map (length \<circ> snd) refs), sr_missing_blobs = missing,
      sr_blobs_hashed = hashed, sr_hash_mismatches = mismatches\<rparr>))))))"

end
