(* ===== verification/Scrub_Theorems.thy ===== *)
theory Scrub_Theorems
  imports Scrub Sample_Store Lease_Laws Restore_Laws Codec_Theorems
begin

text \<open>
  A sample has the requested size, no repetitions and can contain every blob. A full scrub that reports
  nothing bad has looked at everything: every listed version can be restored.
\<close>

section \<open>The sample\<close>

lemma coprime_step_coprime: "n \<noteq> 0 \<Longrightarrow> coprime (coprime_step n step) n"
proof (induction n step rule: coprime_step.induct)
  case (1 n s)
  then show ?case by (subst coprime_step.simps) (auto simp: greatest_common_divisor_gcd coprime_iff_gcd_eq_1)
qed

lemma steps_distinct:
  assumes "coprime t (n :: nat)" and "(s + i * t) mod n = (s + j * t) mod n" and "i < n" and "j < n"
  shows "i = j"
proof -
  have key: "a = b" if "(s + a * t) mod n = (s + b * t) mod n" and "b < n" and "a \<le> b" for a b
  proof -
    have "n dvd (s + b * t) - (s + a * t)" using that(1, 3) by (metis mod_eq_dvd_iff_nat add_le_cancel_left mult_le_mono1)
    then have "n dvd (b - a) * t" by (simp add: diff_mult_distrib)
    then have "n dvd b - a" using assms(1) by (simp add: coprime_commute coprime_dvd_mult_left_iff)
    then show ?thesis using that(2, 3) by (metis dvd_imp_le diff_le_self leD le_neq_implies_less le_less_trans zero_less_diff)
  qed
  show ?thesis using key [of i j] key [of j i] assms(2-4) by (cases "i \<le> j") auto
qed

lemma sample_loop_nth:
  assumes "hashes \<noteq> []" and "i < length hashes"
  shows "sample_loop hashes step i k = map (\<lambda>j. hashes ! ((i + j * step) mod length hashes)) [0..<k]"
  using assms(2)
proof (induction k arbitrary: i)
  case (Suc k)
  let ?n = "length hashes"
  have "(i + step) mod ?n < ?n" using assms(1) by simp
  note ih = Suc.IH [OF this]
  have "((i + step) mod ?n + j * step) mod ?n = (i + Suc j * step) mod ?n" for j by (simp add: mod_simps add.assoc)
  then have "sample_loop hashes step i (Suc k) = hashes ! i # map (\<lambda>j. hashes ! ((i + Suc j * step) mod ?n)) [0..<k]"
    by (simp add: ih)
  also have "\<dots> = map (\<lambda>j. hashes ! ((i + j * step) mod ?n)) [0..<Suc k]"
    using Suc.prems by (simp add: upt_conv_Cons map_Suc_upt [symmetric] comp_def del: upt_Suc map_Suc_upt)
  finally show ?case .
qed simp

text \<open>
  C28: A sampled scrub hashes exactly as many different blobs as asked for, or all of them if there are
  fewer; the search for the step and the sampling loop end; and with a positive sample size no blob is
  out of reach, because some seed selects it.
\<close>

theorem select_hashes_sample:
  assumes "distinct hashes"
  shows "distinct (select_hashes_for_mode hashes k Sampled seed)
    \<and> set (select_hashes_for_mode hashes k Sampled seed) \<subseteq> set hashes
    \<and> length (select_hashes_for_mode hashes k Sampled seed) = min k (length hashes)
    \<and> (\<forall>h \<in> set hashes. k > 0 \<longrightarrow> (\<exists>s < length hashes. h \<in> set (select_hashes_for_mode hashes k Sampled s)))"
proof (cases "hashes = [] \<or> min k (length hashes) = length hashes")
  case True
  then show ?thesis using assms by (auto simp: select_hashes_for_mode_def Let_def intro!: exI [of _ 0])
next
  case False
  let ?n = "length hashes" and ?k = "min k (length hashes)"
  define step where "step = coprime_step ?n (if 97 mod ?n = 0 then 1 else 97 mod ?n)"
  have n: "?n \<noteq> 0" "?k < ?n" using False by auto
  have co: "coprime step ?n" unfolding step_def by (rule coprime_step_coprime) (use n in simp)
  have sel: "select_hashes_for_mode hashes k Sampled s = map (\<lambda>j. hashes ! ((s mod ?n + j * step) mod ?n)) [0..<?k]" for s
    using False sample_loop_nth [of hashes "s mod ?n" step ?k] by (simp add: select_hashes_for_mode_def Let_def step_def)
  have "inj_on (\<lambda>j. hashes ! ((seed mod ?n + j * step) mod ?n)) {0..<?k}"
  proof (rule inj_onI)
    fix i j assume ij: "i \<in> {0..<?k}" "j \<in> {0..<?k}"
      and "hashes ! ((seed mod ?n + i * step) mod ?n) = hashes ! ((seed mod ?n + j * step) mod ?n)"
    then have "(seed mod ?n + i * step) mod ?n = (seed mod ?n + j * step) mod ?n"
      using nth_eq_iff_index_eq [OF assms] n(1) by simp
    then show "i = j" by (rule steps_distinct [OF co]) (use ij n in auto)
  qed
  moreover have "\<exists>s < ?n. h \<in> set (select_hashes_for_mode hashes k Sampled s)" if "h \<in> set hashes" and "k > 0" for h
  proof -
    from that(1) obtain s where s: "s < ?n" "hashes ! s = h" by (auto simp: in_set_conv_nth)
    have "0 \<in> {0..<?k}" using that n by simp
    then have "hashes ! ((s mod ?n + 0 * step) mod ?n) \<in> set (select_hashes_for_mode hashes k Sampled s)" 
      unfolding sel set_map set_upt by (rule imageI)
    with s show ?thesis by auto
  qed
  moreover have "set (select_hashes_for_mode hashes k Sampled seed) \<subseteq> set hashes" using n by (auto simp: sel)
  ultimately show ?thesis using n by (simp add: sel distinct_map)
qed

theorem select_hashes_sample_witness:
  "length (select_hashes_for_mode [''a'', ''b'', ''c''] 2 Sampled 1) = 2"
  using select_hashes_sample [of "[''a'', ''b'', ''c'']" 2 1] by simp

section \<open>What a scrub has to find\<close>

text \<open>
  A blob is sound when its file decodes to content with the hash it is stored under, a version when
  its manifest can be read and all its blobs are sound, a source when all versions its index lists are.
\<close>

definition blob_sound :: "ext \<Rightarrow> blob_codec \<Rightarrow> filesystem \<Rightarrow> path \<Rightarrow> string \<Rightarrow> bool" where
  "blob_sound x cd F d h \<longleftrightarrow>
    (\<exists>raw. f_read (blob_path x (blobs_root (store_root d)) h) F = Inr (raw, F) \<and> holds_hash x cd h raw)"

definition version_file :: "ext \<Rightarrow> path \<Rightarrow> path \<Rightarrow> version_info \<Rightarrow> path" where
  "version_file x d src v = source_root x d src @ [''manifests'', json_name (vi_id v)]"

definition manifest_read :: "ext \<Rightarrow> filesystem \<Rightarrow> path \<Rightarrow> manifest \<Rightarrow> bool" where
  "manifest_read x F p m \<longleftrightarrow> (\<exists>raw. f_read p F = Inr (raw, F) \<and> parse_manifest x raw = Some m)"

definition version_sound :: "ext \<Rightarrow> blob_codec \<Rightarrow> filesystem \<Rightarrow> path \<Rightarrow> path \<Rightarrow> version_info \<Rightarrow> bool" where
  "version_sound x cd F d src v \<longleftrightarrow> (\<exists>m. manifest_read x F (version_file x d src v) m \<and>
    (\<forall>e \<in> set (bt_values (mf_entries m)). me_kind e = FileEntry \<longrightarrow> (\<exists>h. me_sha256 e = Some h \<and> blob_sound x cd F d h)))"

definition index_read :: "ext \<Rightarrow> filesystem \<Rightarrow> path \<Rightarrow> version_index \<Rightarrow> bool" where
  "index_read x F p ix \<longleftrightarrow> (\<exists>raw. f_read p F = Inr (raw, F) \<and> parse_index x raw = Some ix \<and> validate_version_index ix = Inr ())"

definition source_sound :: "ext \<Rightarrow> blob_codec \<Rightarrow> filesystem \<Rightarrow> path \<Rightarrow> path \<Rightarrow> bool" where
  "source_sound x cd F d src \<longleftrightarrow> (present F (version_index_path x d src) \<longrightarrow>
    (\<exists>ix. index_read x F (version_index_path x d src) ix \<and> (\<forall>v \<in> set (vx_versions ix). version_sound x cd F d src v)))"

section \<open>Blobs\<close>

definition same_view :: "world \<Rightarrow> world \<Rightarrow> bool" where
  "same_view w v \<longleftrightarrow> fs v = fs w \<and> sighted v"

lemma still_view: "sighted w \<Longrightarrow> still w v \<Longrightarrow> same_view w v"
  using stableD [OF stable_sighted] by (auto simp: same_view_def still_def)

lemma path_exists_view:
  assumes "sighted w" and "path_exists p w = (Ok b, v)"
  shows "b = present (fs w) p \<and> same_view w v"
  using probe_sighted [OF assms(1), of "\<lambda>F. present F p"] assms still_view by (auto simp: path_exists_def)

lemma read_file_view:
  assumes "sighted w" and "read_file p w = (Ok raw, v)"
  shows "f_read p (fs w) = Inr (raw, fs w) \<and> same_view w v"
proof -
  have s: "still w v" by (rule movesD [OF moves_still_prims(3) assms(2)])
  then show ?thesis
    using call_Ok [OF assms(2) [unfolded read_file_def]] still_view [OF assms(1) s] by (auto simp: still_def)
qed

lemma f_read_present: "f_read p F = Inr (raw, G) \<Longrightarrow> present F p"
  by (auto simp: f_read_def present_def stat_def split: sum.splits option.splits node.splits)

lemma scrub_blob_full:
  "scrub_blob x cd timeout Full br sel h (m, k, mm) = bnd (path_exists (blob_path x br h)) (\<lambda>ex.
    if \<not> ex then ret (m + 1, k, mm) else bnd (sha256_plaintext_blob x cd (blob_path x br h) timeout) (\<lambda>computed.
      ret (m, k + 1, if computed \<noteq> h then mm + 1 else mm)))"
  by (simp add: scrub_blob_def cong: if_cong)

lemma scrub_blob_value:
  assumes "sighted w" and "scrub_blob x cd timeout Full (blobs_root (store_root d)) sel h (m, k, mm) w = (Ok (m', k', mm'), v)"
  shows "same_view w v \<and> m \<le> m' \<and> mm \<le> mm' \<and> (m' = m \<and> mm' = mm \<longleftrightarrow> blob_sound x cd (fs w) d h)"
proof -
  let ?p = "blob_path x (blobs_root (store_root d)) h"
  from assms(2) obtain ex u where ex: "path_exists ?p w = (Ok ex, u)" and r:
    "(if \<not> ex then ret (m + 1, k, mm) else bnd (sha256_plaintext_blob x cd ?p timeout) (\<lambda>computed.
      ret (m, k + 1, if computed \<noteq> h then mm + 1 else mm))) u = (Ok (m', k', mm'), v)"
    unfolding scrub_blob_full by (rule bnd_OkE)
  note e = path_exists_view [OF assms(1) ex]
  show ?thesis
  proof (cases ex)
    case False
    then have "\<not> blob_sound x cd (fs w) d h" using e f_read_present by (auto simp: blob_sound_def)
    then show ?thesis using False r e by (simp add: ret_def)
  next
    case True
    with r obtain c z where c: "sha256_plaintext_blob x cd ?p timeout u = (Ok c, z)"
      and o: "z = v" "m' = m" "mm' = (if c \<noteq> h then mm + 1 else mm)"
      by (auto simp: ret_Ok_iff elim!: bnd_OkE)
    from sha256_plaintext_value [OF c] obtain raw pt t where r: "read_file ?p u = (Ok raw, t)"
      and d: "decode_blob x (cd_cipher cd) raw = Some pt" "c = sha256_hex x pt" by blast
    have u: "fs u = fs w" "sighted u" using e by (auto simp: same_view_def)
    have "same_view u v" using still_view [OF u(2) movesD [OF moves_still_sha256_plaintext c]] o by simp
    moreover have "blob_sound x cd (fs w) d h \<longleftrightarrow> c = h"
      using read_file_view [OF u(2) r] d u by (auto simp: blob_sound_def holds_hash_def)
    ultimately show ?thesis using o u by (auto simp: same_view_def)
  qed
qed

lemma scrub_blobs_value:
  assumes "sighted w"
    and "fold_act (scrub_blob x cd timeout Full (blobs_root (store_root d)) sel) hs (m, k, mm) w = (Ok (m', k', mm'), v)"
  shows "same_view w v \<and> m \<le> m' \<and> mm \<le> mm' \<and> (m' = m \<and> mm' = mm \<longleftrightarrow> (\<forall>h \<in> set hs. blob_sound x cd (fs w) d h))"
  using assms
proof (induction hs arbitrary: m k mm w)
  case Nil
  then show ?case by (auto simp: ret_def same_view_def)
next
  case (Cons h hs)
  from Cons.prems(2) obtain a b c u where s: "scrub_blob x cd timeout Full (blobs_root (store_root d)) sel h (m, k, mm) w = (Ok (a, b, c), u)"
    and r: "fold_act (scrub_blob x cd timeout Full (blobs_root (store_root d)) sel) hs (a, b, c) u = (Ok (m', k', mm'), v)"
    by (auto elim!: bnd_OkE)
  note one = scrub_blob_value [OF Cons.prems(1) s]
  then have "sighted u" "fs u = fs w" by (auto simp: same_view_def)
  note rest = Cons.IH [OF this(1) r]
  from one rest \<open>fs u = fs w\<close> show ?case by (auto simp: same_view_def)
qed

lemma scrub_destinations_value:
  assumes "sighted w" and "fold_act (scrub_destination x cd timeout Full sample seed) refs (m, k, mm) w = (Ok (m', k', mm'), v)"
  shows "same_view w v \<and> m \<le> m' \<and> mm \<le> mm'
    \<and> (m' = m \<and> mm' = mm \<longleftrightarrow> (\<forall>(d, hs) \<in> set refs. \<forall>h \<in> set hs. blob_sound x cd (fs w) d h))"
  using assms
proof (induction refs arbitrary: m k mm w)
  case Nil
  then show ?case by (auto simp: ret_def same_view_def)
next
  case (Cons e refs)
  obtain d hs where e: "e = (d, hs)" by fastforce
  from Cons.prems(2) obtain a b c u where s: "scrub_destination x cd timeout Full sample seed (d, hs) (m, k, mm) w = (Ok (a, b, c), u)"
    and r: "fold_act (scrub_destination x cd timeout Full sample seed) refs (a, b, c) u = (Ok (m', k', mm'), v)"
    by (auto simp: e elim!: bnd_OkE)
  note one = scrub_blobs_value [OF Cons.prems(1) s [unfolded scrub_destination_def prod.case]]
  then have "sighted u" "fs u = fs w" by (auto simp: same_view_def)
  note rest = Cons.IH [OF this(1) r]
  from one rest \<open>fs u = fs w\<close> show ?case by (auto simp: same_view_def e)
qed

section \<open>References\<close>

definition refs_of :: "scrub_refs \<Rightarrow> path \<Rightarrow> string set" where
  "refs_of refs d = {h. \<exists>hs. (d, hs) \<in> set refs \<and> h \<in> set hs}"

definition file_hashes :: "manifest \<Rightarrow> string set" where
  "file_hashes m = {h. \<exists>e \<in> set (bt_values (mf_entries m)). me_kind e = FileEntry \<and> me_sha256 e = Some h}"

lemma scrub_entries_set:
  "set (fold scrub_entry es s) = set s \<union> {h. \<exists>e \<in> set es. me_kind e = FileEntry \<and> me_sha256 e = Some h}"
  by (induction es arbitrary: s) (auto simp: scrub_entry_def set_insort_insert split: option.splits)

lemma scrub_manifest_set: "set (fold scrub_entry (bt_values (mf_entries m)) s) = set s \<union> file_hashes m"
  by (simp add: scrub_entries_set file_hashes_def)

lemma refs_of_simps [simp]:
  "refs_of [] e = {}" "refs_of ((a, hs) # r) e = (if a = e then set hs else {}) \<union> refs_of r e"
  by (auto simp: refs_of_def)

lemma refs_update_of:
  "refs_of (refs_update d (fold scrub_entry (bt_values (mf_entries m))) refs) e
    = refs_of refs e \<union> (if e = d then file_hashes m else {})"
proof (induction refs)
  case Nil
  show ?case by (simp add: scrub_manifest_set)
next
  case (Cons r refs)
  obtain a hs where "r = (a, hs)" by fastforce
  then show ?case using Cons by (cases "a = d"; cases "e = d") (simp_all add: scrub_manifest_set Un_ac)
qed

lemma unhashed_zero: "unhashed m = 0 \<longleftrightarrow> (\<forall>e \<in> set (bt_values (mf_entries m)). me_kind e = FileEntry \<longrightarrow> me_sha256 e \<noteq> None)"
  by (auto simp: unhashed_def filter_empty_conv)

text \<open>
  What reading a set of manifests does to the references and the count of bad manifests: nothing is
  lost, everything added comes from one of the manifests, and a count that does not grow means that
  all of them were read and hashed.
\<close>

definition gathers :: "ext \<Rightarrow> filesystem \<Rightarrow> (path \<times> path) set \<Rightarrow> scrub_refs \<times> nat \<times> nat \<Rightarrow> scrub_refs \<times> nat \<times> nat \<Rightarrow> bool" where
  "gathers x F K s t \<longleftrightarrow> snd (snd s) \<le> snd (snd t) \<and> (\<forall>e. refs_of (fst s) e \<subseteq> refs_of (fst t) e)
    \<and> (snd (snd t) = snd (snd s) \<longrightarrow>
        (\<forall>(d, p) \<in> K. \<exists>m. manifest_read x F p m \<and> unhashed m = 0 \<and> file_hashes m \<subseteq> refs_of (fst t) d))
    \<and> (\<forall>e h. h \<in> refs_of (fst t) e \<longrightarrow> h \<in> refs_of (fst s) e \<or> (\<exists>p m. (e, p) \<in> K \<and> manifest_read x F p m \<and> h \<in> file_hashes m))"

lemma gathers_refl: "gathers x F {} s s"
  by (auto simp: gathers_def)

lemma gathers_trans:
  assumes st: "gathers x F K s t" and tu: "gathers x F L t u"
  shows "gathers x F (K \<union> L) s u"
proof -
  have le: "snd (snd s) \<le> snd (snd u)" and sub: "refs_of (fst s) e \<subseteq> refs_of (fst u) e" for e
    using st tu unfolding gathers_def by (meson order_trans subset_trans)+
  have "\<exists>m. manifest_read x F p m \<and> unhashed m = 0 \<and> file_hashes m \<subseteq> refs_of (fst u) d"
    if "snd (snd u) = snd (snd s)" and "(d, p) \<in> K \<union> L" for d p
  proof -
    have "snd (snd t) = snd (snd s)" "snd (snd u) = snd (snd t)" using that(1) st tu unfolding gathers_def by linarith+
    then show ?thesis using that(2) st tu unfolding gathers_def by fastforce
  qed
  moreover have "h \<in> refs_of (fst s) e \<or> (\<exists>p m. (e, p) \<in> K \<union> L \<and> manifest_read x F p m \<and> h \<in> file_hashes m)"
    if "h \<in> refs_of (fst u) e" for e h using that st tu unfolding gathers_def by blast
  ultimately show ?thesis using le sub unfolding gathers_def by blast
qed

lemma fold_gathers:
  assumes "\<And>y a w a' v. y \<in> set ys \<Longrightarrow> sighted w \<Longrightarrow> fs w = F \<Longrightarrow> f y a w = (Ok a', v) \<Longrightarrow>
      same_view w v \<and> gathers x F (K y) a a' \<and> Q y"
    and "sighted w" and "fs w = F" and "fold_act f ys a w = (Ok a', v)"
  shows "same_view w v \<and> gathers x F (\<Union>y \<in> set ys. K y) a a' \<and> (\<forall>y \<in> set ys. Q y)"
  using assms
proof (induction ys arbitrary: a w)
  case Nil
  then show ?case by (auto simp: ret_def same_view_def gathers_refl)
next
  case (Cons y ys)
  from Cons.prems(4) obtain b u where s: "f y a w = (Ok b, u)" and r: "fold_act f ys b u = (Ok a', v)"
    by (auto elim!: bnd_OkE)
  have one: "same_view w u \<and> gathers x F (K y) a b \<and> Q y" by (rule Cons.prems(1) [OF _ Cons.prems(2,3) s]) simp
  then have u: "sighted u" "fs u = F" using Cons.prems(3) by (auto simp: same_view_def)
  have rest: "same_view u v \<and> gathers x F (\<Union>y \<in> set ys. K y) b a' \<and> (\<forall>y \<in> set ys. Q y)"
    by (rule Cons.IH [OF _ u r], rule Cons.prems(1)) simp_all
  have "gathers x F (K y \<union> (\<Union>y \<in> set ys. K y)) a a'" using one rest gathers_trans by blast
  with one rest u Cons.prems(3) show ?case by (simp add: same_view_def)
qed

lemma scrub_manifest_value:
  assumes "sighted w" and "fs w = F" and "scrub_manifest x d mr v a w = (Ok a', u)"
  shows "same_view w u \<and> gathers x F {(d, mr @ [json_name (vi_id v)])} a a'"
proof -
  let ?p = "mr @ [json_name (vi_id v)]"
  obtain refs c b where a: "a = (refs, c, b)" by (cases a) auto
  have bad: "gathers x F {(d, ?p)} a (refs, c, b + 1)" by (simp add: gathers_def a)
  from assms(3) obtain ex t where ex: "path_exists ?p w = (Ok ex, t)" and r:
    "(if \<not> ex then ret (refs, c, b + 1) else bnd (attempt (read_file ?p)) (\<lambda>raw. case raw of
        Inl _ \<Rightarrow> ret (refs, c, b + 1)
      | Inr raw \<Rightarrow> (case parse_manifest x raw of
          None \<Rightarrow> ret (refs, c, b + 1)
        | Some m \<Rightarrow> ret (refs_update d (fold scrub_entry (bt_values (mf_entries m))) refs, c + 1, b + unhashed m)))) t = (Ok a', u)"
    unfolding scrub_manifest_def a prod.case by (rule bnd_OkE)
  note e = path_exists_view [OF assms(1) ex]
  then have t: "sighted t" "fs t = F" using assms(2) by (auto simp: same_view_def)
  show ?thesis
  proof (cases ex)
    case False
    then show ?thesis using r e bad by (auto simp: ret_def)
  next
    case True
    from r [unfolded if_not_P [of "\<not> ex", unfolded not_not, OF True]] obtain o' z where o: "attempt (read_file ?p) t = (Ok o', z)" and k: "(case o' of Inl _ \<Rightarrow> ret (refs, c, b + 1)
      | Inr raw \<Rightarrow> (case parse_manifest x raw of
          None \<Rightarrow> ret (refs, c, b + 1)
        | Some m \<Rightarrow> ret (refs_update d (fold scrub_entry (bt_values (mf_entries m))) refs, c + 1, b + unhashed m))) z = (Ok a', u)"
      by (rule bnd_OkE)
    have z: "same_view w z"
      using still_view [OF t(1) movesD [OF st.moves_attempt [OF moves_still_prims(3)] o]] t assms(2) by (simp add: same_view_def)
    show ?thesis
    proof (cases "\<exists>raw m. o' = Inr raw \<and> parse_manifest x raw = Some m")
      case True
      then obtain raw m where m: "o' = Inr raw" "parse_manifest x raw = Some m" by blast
      have "read_file ?p t = (Ok raw, z)" using o m(1) by (auto simp: attempt_def split: prod.splits outcome.splits)
      then have "manifest_read x F ?p m" using read_file_view [OF t(1)] t(2) m(2) by (auto simp: manifest_read_def)
      then have "gathers x F {(d, ?p)} a (refs_update d (fold scrub_entry (bt_values (mf_entries m))) refs, c + 1, b + unhashed m)"
        by (auto simp: gathers_def a refs_update_of split: if_splits)
      then show ?thesis using k m z by (auto simp: ret_def)
    next
      case False
      then show ?thesis using k z bad by (auto simp: ret_def split: sum.splits option.splits)
    qed
  qed
qed

section \<open>Sources\<close>

definition listed_manifests :: "ext \<Rightarrow> filesystem \<Rightarrow> path \<Rightarrow> path \<Rightarrow> (path \<times> path) set" where
  "listed_manifests x F d src =
    {(e, p). e = d \<and> (\<exists>ix v. index_read x F (version_index_path x d src) ix \<and> v \<in> set (vx_versions ix) \<and> p = version_file x d src v)}"

definition source_of :: "config \<Rightarrow> watched_path \<Rightarrow> path option" where
  "source_of cfg w = map_option dest_path (destination_by_id cfg (wp_destination_id w))"

lemma index_read_fun: "index_read x F p ix \<Longrightarrow> index_read x F p ix' \<Longrightarrow> ix = ix'"
  by (auto simp: index_read_def)

lemma manifest_read_fun: "manifest_read x F p m \<Longrightarrow> manifest_read x F p m' \<Longrightarrow> m = m'"
  by (auto simp: manifest_read_def)

lemma index_read_present: "index_read x F p ix \<Longrightarrow> present F p"
  by (auto simp: index_read_def dest: f_read_present)

lemma read_index_view:
  assumes "sighted w" and "read_index x p w = (Ok ix, v)"
  shows "index_read x (fs w) p ix \<and> same_view w v"
proof -
  from assms(2) obtain raw u where r: "read_file p w = (Ok raw, u)" and "parse_index x raw = Some ix"
    "validate_version_index ix = Inr ()" "v = u"
    by (auto simp: read_index_def throw_def lift_Ok_iff ret_Ok_iff split: option.splits elim!: bnd_OkE)
  then show ?thesis using read_file_view [OF assms(1) r] by (auto simp: index_read_def)
qed

lemma scrub_source_value:
  assumes "sighted s" and "fs s = F" and "scrub_source x cfg Full n w a s = (Ok a', u)"
  shows "same_view s u \<and> gathers x F (\<Union>d \<in> set_option (source_of cfg w). listed_manifests x F d (wp_path w)) a a'
    \<and> (\<exists>d. source_of cfg w = Some d \<and> (present F (version_index_path x d (wp_path w)) \<longrightarrow>
        (\<exists>ix. index_read x F (version_index_path x d (wp_path w)) ix)))"
proof -
  from assms(3) obtain d ex t where d: "destination_by_id cfg (wp_destination_id w) = Some d"
    and ex: "path_exists (version_index_path x (dest_path d) (wp_path w)) s = (Ok ex, t)"
    and r: "(if \<not> ex then ret a else bnd (read_index x (version_index_path x (dest_path d) (wp_path w))) (\<lambda>ix.
        fold_act (scrub_manifest x (dest_path d) (source_root x (dest_path d) (wp_path w) @ [''manifests''])) (vx_versions ix) a)) t = (Ok a', u)"
    unfolding scrub_source_def Let_def versions_for_mode_def simp_thms if_True
    by (cases "destination_by_id cfg (wp_destination_id w)") (auto simp: throw_def elim!: bnd_OkE)
  let ?ip = "version_index_path x (dest_path d) (wp_path w)"
  note e = path_exists_view [OF assms(1) ex]
  then have t: "sighted t" "fs t = F" "same_view s t" using assms(2) by (auto simp: same_view_def)
  have src: "source_of cfg w = Some (dest_path d)" using d by (simp add: source_of_def)
  show ?thesis
  proof (cases ex)
    case False
    then have np: "\<not> present F ?ip" using e assms(2) by simp
    then have "listed_manifests x F (dest_path d) (wp_path w) = {}" by (auto simp: listed_manifests_def dest: index_read_present)
    then show ?thesis using False r t src np by (simp add: ret_Ok_iff gathers_refl)
  next
    case True
    then obtain ix z where ix: "read_index x ?ip t = (Ok ix, z)"
      and f: "fold_act (scrub_manifest x (dest_path d) (source_root x (dest_path d) (wp_path w) @ [''manifests''])) (vx_versions ix) a z = (Ok a', u)"
      using r by (auto elim!: bnd_OkE)
    note i = read_index_view [OF t(1) ix]
    then have z: "sighted z" "fs z = F" using t by (auto simp: same_view_def)
    have "same_view z u \<and> gathers x F (\<Union>v \<in> set (vx_versions ix). {(dest_path d, version_file x (dest_path d) (wp_path w) v)}) a a'
        \<and> (\<forall>v \<in> set (vx_versions ix). True)"
      by (rule fold_gathers [OF _ z f])
        (use scrub_manifest_value [of _ F x "dest_path d" "source_root x (dest_path d) (wp_path w) @ [''manifests'']"] in \<open>simp add: version_file_def\<close>)
    moreover have "listed_manifests x F (dest_path d) (wp_path w) = (\<Union>v \<in> set (vx_versions ix). {(dest_path d, version_file x (dest_path d) (wp_path w) v)})"
      using i t(2) by (auto simp: listed_manifests_def dest: index_read_fun)
    ultimately show ?thesis using i t z src by (auto simp: same_view_def)
  qed
qed

section \<open>The leases\<close>

lemma moves_spends_leases: "moves spends (acquire_store_leases x ds pol)"
  unfolding acquire_store_leases_def acquire_normalized_store_lease_def Let_def
  by (intro spends_intros moves_spends_create_dir_all sp.moves_still_step [OF moves_still_lease_loop]
      sp.moves_still_step [OF moves_still_lease_order] sp.moves_still_step [OF moves_still_get_now])

section \<open>A full scrub\<close>

definition all_sound :: "ext \<Rightarrow> blob_codec \<Rightarrow> config \<Rightarrow> filesystem \<Rightarrow> bool" where
  "all_sound x cd cfg F \<longleftrightarrow> (\<forall>w \<in> set (cf_watched cfg). wp_enabled w \<longrightarrow>
    (\<exists>d. source_of cfg w = Some d \<and> source_sound x cd F d (wp_path w)))"

definition scrub_manifests :: "ext \<Rightarrow> config \<Rightarrow> filesystem \<Rightarrow> (path \<times> path) set" where
  "scrub_manifests x cfg F = (\<Union>w \<in> set (filter wp_enabled (cf_watched cfg)).
    \<Union>d \<in> set_option (source_of cfg w). listed_manifests x F d (wp_path w))"

lemma sound_references:
  assumes "all_sound x cd cfg F" and "(e, p) \<in> scrub_manifests x cfg F" and "manifest_read x F p m" and "h \<in> file_hashes m"
  shows "blob_sound x cd F e h"
proof -
  from assms(2) obtain w ix v where w: "w \<in> set (cf_watched cfg)" "wp_enabled w" "source_of cfg w = Some e"
    and ix: "index_read x F (version_index_path x e (wp_path w)) ix" "v \<in> set (vx_versions ix)" "p = version_file x e (wp_path w) v"
    by (auto simp: scrub_manifests_def listed_manifests_def)
  from assms(1) w have "source_sound x cd F e (wp_path w)" by (auto simp: all_sound_def)
  then obtain ix' where ix': "index_read x F (version_index_path x e (wp_path w)) ix'"
    and all: "\<forall>v \<in> set (vx_versions ix'). version_sound x cd F e (wp_path w) v"
    using index_read_present [OF ix(1)] by (auto simp: source_sound_def)
  have "version_sound x cd F e (wp_path w) v" using all ix(2) index_read_fun [OF ix' ix(1)] by blast
  then obtain m' where m': "manifest_read x F p m'"
    and es: "\<forall>e' \<in> set (bt_values (mf_entries m')). me_kind e' = FileEntry \<longrightarrow> (\<exists>h. me_sha256 e' = Some h \<and> blob_sound x cd F e h)"
    unfolding version_sound_def ix(3) by blast
  have "m' = m" by (rule manifest_read_fun [OF m' assms(3)])
  with es assms(4) show ?thesis by (fastforce simp: file_hashes_def)
qed

lemma manifests_sound:
  assumes "\<And>w. w \<in> set (cf_watched cfg) \<Longrightarrow> wp_enabled w \<Longrightarrow> \<exists>d. source_of cfg w = Some d \<and>
      (present F (version_index_path x d (wp_path w)) \<longrightarrow> (\<exists>ix. index_read x F (version_index_path x d (wp_path w)) ix))"
    and "\<And>e p. (e, p) \<in> scrub_manifests x cfg F \<Longrightarrow>
      \<exists>m. manifest_read x F p m \<and> unhashed m = 0 \<and> (\<forall>h \<in> file_hashes m. blob_sound x cd F e h)"
  shows "all_sound x cd cfg F"
  unfolding all_sound_def
proof (intro ballI impI)
  fix w assume w: "w \<in> set (cf_watched cfg)" "wp_enabled w"
  from assms(1) [OF w] obtain d where d: "source_of cfg w = Some d"
    and i: "present F (version_index_path x d (wp_path w)) \<longrightarrow> (\<exists>ix. index_read x F (version_index_path x d (wp_path w)) ix)" by blast
  have "version_sound x cd F d (wp_path w) v"
    if "index_read x F (version_index_path x d (wp_path w)) ix" and "v \<in> set (vx_versions ix)" for ix v
  proof -
    have "(d, version_file x d (wp_path w) v) \<in> scrub_manifests x cfg F"
      using that w d by (auto simp: scrub_manifests_def listed_manifests_def)
    from assms(2) [OF this] obtain m where m: "manifest_read x F (version_file x d (wp_path w) v) m" "unhashed m = 0"
      "\<forall>h \<in> file_hashes m. blob_sound x cd F d h" by blast
    have "\<exists>h. me_sha256 e = Some h \<and> blob_sound x cd F d h" if "e \<in> set (bt_values (mf_entries m))" and "me_kind e = FileEntry" for e
      using m(2,3) that by (auto simp: unhashed_zero file_hashes_def)
    with m(1) show ?thesis by (auto simp: version_sound_def)
  qed
  with d i show "\<exists>d. source_of cfg w = Some d \<and> source_sound x cd F d (wp_path w)" by (auto simp: source_sound_def)
qed

text \<open>The parts of a successful full scrub.\<close>

lemma scrub_parts:
  assumes "scrub_versioned_store x hash_order cfg ht Full k n seed w = (Ok r, v)" and "sighted w"
  obtains cd a b u u' refs c where "codec_from_config x cfg u = (Ok cd, u')"
    and "sighted a" and "fold_act (scrub_source x cfg Full n) (filter wp_enabled (cf_watched cfg)) ([], 0, 0) a = (Ok (refs, c, sr_manifests_bad r), b)"
    and "fold_act (scrub_destination x cd (ht_timeout_seconds ht) Full k seed) (hash_order refs) (0, 0, 0) b
      = (Ok (sr_missing_blobs r, sr_blobs_hashed r, sr_hash_mismatches r), v)"
proof -
  from assms(1) obtain ds pol l cd refs c bad o1 o2 o3 u1 u2 u3 u4
    where l: "lease_policy x cfg w = (Ok pol, u1)" "acquire_store_leases x ds pol u1 = (Ok l, u2)"
      and cd: "codec_from_config x cfg u2 = (Ok cd, u3)"
      and s: "fold_act (scrub_source x cfg Full n) (filter wp_enabled (cf_watched cfg)) ([], 0, 0) u3 = (Ok (refs, c, bad), u4)"
      and d: "fold_act (scrub_destination x cd (ht_timeout_seconds ht) Full k seed) (hash_order refs) (0, 0, 0) u4 = (Ok (o1, o2, o3), v)"
      and r: "bad = sr_manifests_bad r" "o1 = sr_missing_blobs r" "o2 = sr_blobs_hashed r" "o3 = sr_hash_mismatches r"
    unfolding scrub_versioned_store_def by (auto simp: lift_Ok_iff ret_Ok_iff elim!: bnd_OkE)
  have "sighted u1" using stableD [OF stable_sighted assms(2) movesD [OF moves_still_lease_policy l(1)]] .
  then have "sighted u2"
    using movesD [OF moves_spends_leases l(2)] by (auto simp: sighted_def spends_def dest: set_mono_suffix)
  then have "sighted u3" using stableD [OF stable_sighted _ movesD [OF moves_still_codec cd]] by blast
  from that [OF cd this] s d r show ?thesis by blast
qed

text \<open>
  C8: A full scrub that returns is right about the store it leaves. When it counts no bad manifest, no
  missing blob and no mismatch, every version listed for every enabled source can be restored: its
  manifest can be read and every file in it has a blob that decodes to content with the recorded hash.
  When all versions can be restored, it reports no missing blob and no mismatch.
\<close>

theorem scrub_full_exact:
  assumes "\<And>refs. set (hash_order refs) = set refs" and "sighted w"
    and "scrub_versioned_store x hash_order cfg ht Full k n seed w = (Ok r, v)"
  shows "\<exists>cd u u'. codec_from_config x cfg u = (Ok cd, u')
    \<and> (sr_manifests_bad r = 0 \<and> sr_missing_blobs r = 0 \<and> sr_hash_mismatches r = 0 \<longrightarrow> all_sound x cd cfg (fs v))
    \<and> (all_sound x cd cfg (fs v) \<longrightarrow> sr_missing_blobs r = 0 \<and> sr_hash_mismatches r = 0)"
proof -
  obtain cd a b u u' refs c where cd: "codec_from_config x cfg u = (Ok cd, u')" and a: "sighted a"
    and s: "fold_act (scrub_source x cfg Full n) (filter wp_enabled (cf_watched cfg)) ([], 0, 0) a = (Ok (refs, c, sr_manifests_bad r), b)"
    and d: "fold_act (scrub_destination x cd (ht_timeout_seconds ht) Full k seed) (hash_order refs) (0, 0, 0) b
      = (Ok (sr_missing_blobs r, sr_blobs_hashed r, sr_hash_mismatches r), v)"
    by (rule scrub_parts [OF assms(3,2)])
  define F where "F = fs a"
  have src: "same_view a b \<and> gathers x F (scrub_manifests x cfg F) ([], 0, 0) (refs, c, sr_manifests_bad r)
    \<and> (\<forall>w \<in> set (filter wp_enabled (cf_watched cfg)). \<exists>d. source_of cfg w = Some d \<and> (present F (version_index_path x d (wp_path w)) \<longrightarrow>
        (\<exists>ix. index_read x F (version_index_path x d (wp_path w)) ix)))"
    unfolding scrub_manifests_def
    by (rule fold_gathers [OF _ a F_def [symmetric] s]) (rule scrub_source_value)
  then have b: "sighted b" "fs b = F" by (auto simp: same_view_def F_def)
  note dst = scrub_destinations_value [OF b(1) d]
  have v: "fs v = F" using dst b by (simp add: same_view_def)
  have clean: "sr_missing_blobs r = 0 \<and> sr_hash_mismatches r = 0 \<longleftrightarrow> (\<forall>e. \<forall>h \<in> refs_of refs e. blob_sound x cd F e h)"
  proof -
    have "(\<forall>(d, hs) \<in> set (hash_order refs). \<forall>h \<in> set hs. blob_sound x cd (fs b) d h)
        \<longleftrightarrow> (\<forall>e. \<forall>h \<in> refs_of refs e. blob_sound x cd F e h)"
      unfolding b(2) assms(1) refs_of_def by blast
    with dst show ?thesis by simp
  qed
  have "all_sound x cd cfg F" if "sr_manifests_bad r = 0" and "\<forall>e. \<forall>h \<in> refs_of refs e. blob_sound x cd F e h"
    using src that unfolding gathers_def by (intro manifests_sound) fastforce+
  moreover have "\<forall>e. \<forall>h \<in> refs_of refs e. blob_sound x cd F e h" if "all_sound x cd cfg F"
    using src sound_references [OF that] unfolding gathers_def by fastforce
  ultimately have "(sr_manifests_bad r = 0 \<and> sr_missing_blobs r = 0 \<and> sr_hash_mismatches r = 0 \<longrightarrow> all_sound x cd cfg F)
      \<and> (all_sound x cd cfg F \<longrightarrow> sr_missing_blobs r = 0 \<and> sr_hash_mismatches r = 0)"
    using clean by argo
  with cd show ?thesis unfolding v by blast
qed

section \<open>A scrub of the sample store\<close>

definition leased_world :: world where
  "leased_world = stored_world\<lparr>fs := ([''dst'', STORE_DIR, OPERATION_LOCK_FILE], File [] 0 0) # stored_fs\<rparr>"

lemma leased_sighted [simp]: "sighted leased_world" "events leased_world = []"
  by (simp_all add: leased_world_def stored_world_def sighted_def)

lemma sample_canonical: "validate_and_normalize_destination [''dst''] stored_world = (Ok [''dst''], stored_world)"
proof -
  have "lexically_normalize [''dst''] = [''dst'']" by (rule lexically_normalize_id) simp
  then show ?thesis
    by (simp add: validate_and_normalize_destination_def Let_def canonicalize_def f_canonicalize_def stored_world_def
        stored_fs_def quiet_run plain_names)
qed

lemma sample_lock_file:
  "create_dir_all [''dst'', STORE_DIR] stored_world = (Ok (), stored_world)"
  "call (f_open_create [''dst'', STORE_DIR, OPERATION_LOCK_FILE]) stored_world = (Ok (), leased_world)"
  by (simp_all add: create_dir_all_def f_open_create_def leased_world_def stored_world_def stored_fs_def quiet_run plain_names
      OPERATION_LOCK_FILE_def)

lemma sample_leases: "\<exists>ls. acquire_store_leases sample_ext [[''dst'']] pol stored_world = (Ok ls, leased_world)"
proof -
  have "lease_order [[''dst'']] stored_world = (Ok [[''dst'']], stored_world)"
    by (simp add: lease_order_def bnd_def ret_def sample_canonical insort_insert_key_def)
  moreover have "lease_loop pol t p leased_world = (Ok (), leased_world)" for t p
    by (subst lease_loop.simps) (simp add: try_lock_def call_quiet)
  ultimately show ?thesis
    by (simp add: acquire_store_leases_def acquire_normalized_store_lease_def Let_def bnd_def ret_def get_now_def sample_lock_file)
qed

lemma sample_source_paths:
  "version_index_path sample_ext [''dst''] [''src''] = [''dst'', STORE_DIR, ''v1'', ''sources'', sample_sid, ''index.json'']"
  "source_root sample_ext [''dst''] [''src''] = [''dst'', STORE_DIR, ''v1'', ''sources'', sample_sid]"
  by (simp_all add: version_index_path_def source_root_def sources_root_def store_root_def sample_sid_def)

lemma json_plain: "json_name ''1-0'' \<noteq> ''..''"
  by (simp add: json_name_def)

lemma leased_reads:
  "path_exists [''dst'', STORE_DIR, ''v1'', ''sources'', sample_sid, ''index.json''] leased_world = (Ok True, leased_world)"
  "read_file [''dst'', STORE_DIR, ''v1'', ''sources'', sample_sid, ''index.json''] leased_world
    = (Ok (x_index_enc sample_ext stored_index), leased_world)"
  "path_exists [''dst'', STORE_DIR, ''v1'', ''sources'', sample_sid, ''manifests'', json_name ''1-0''] leased_world = (Ok True, leased_world)"
  "read_file [''dst'', STORE_DIR, ''v1'', ''sources'', sample_sid, ''manifests'', json_name ''1-0''] leased_world
    = (Ok (x_manifest_enc sample_ext stored_manifest), leased_world)"
  "path_exists [''dst'', STORE_DIR, ''v1'', ''blobs'', ''sha256'', take 2 sample_hash, sample_hash] leased_world = (Ok True, leased_world)"
  "read_file [''dst'', STORE_DIR, ''v1'', ''blobs'', ''sha256'', take 2 sample_hash, sample_hash] leased_world
    = (Ok [1, 2], leased_world)"
  by (simp_all add: leased_world_def stored_world_def stored_fs_def quiet_run plain_names OPERATION_LOCK_FILE_def
      json_plain)

definition sample_hashing :: hashing_tuning where
  "sample_hashing = cf_hashing sample_config"

lemma sample_codec_run:
  "\<exists>cd. cd_cipher cd = None \<and> codec_from_config sample_ext sample_config leased_world = (Ok cd, leased_world)"
  by (simp add: codec_from_config_def cipher_from_config_def sample_config_def default_encryption_config_def bnd_def ret_def)

lemma sample_index_valid: "validate_version_index stored_index = Inr ()"
  by code_simp

lemma sample_scrub_source:
  "scrub_source sample_ext sample_config Full n sample_watched ([], 0, 0) leased_world
    = (Ok ([([''dst''], [sample_hash])], 1, 0), leased_world)"
proof -
  have d: "destination_by_id sample_config (wp_destination_id sample_watched) = Some sample_destination"
    "dest_path sample_destination = [''dst'']" "wp_path sample_watched = [''src'']"
    by (simp_all add: destination_by_id_def sample_config_def sample_watched_def sample_destination_def)
  have vs: "vx_versions stored_index = [\<lparr>vi_id = ''1-0'', vi_created_at_unix = 0\<rparr>]" by (simp add: stored_index_def)
  have i: "read_index sample_ext [''dst'', STORE_DIR, ''v1'', ''sources'', sample_sid, ''index.json''] leased_world = (Ok stored_index, leased_world)"
    using parse_stored sample_index_valid by (simp add: read_index_def leased_reads bnd_def lift_def ret_def)
  have "scrub_manifest sample_ext [''dst''] [''dst'', STORE_DIR, ''v1'', ''sources'', sample_sid, ''manifests'']
      \<lparr>vi_id = ''1-0'', vi_created_at_unix = 0\<rparr> ([], 0, 0) leased_world = (Ok ([([''dst''], [sample_hash])], 1, 0), leased_world)"
    using parse_stored by (simp add: scrub_manifest_def leased_reads bnd_def attempt_def ret_def stored_manifest_def
        bt_values_def scrub_entry_def file_entry_def unhashed_def insort_insert_key_def)
  with i show ?thesis
    by (simp add: scrub_source_def Let_def d sample_source_paths leased_reads bnd_def versions_for_mode_def vs ret_def)
qed

lemma sample_scrub_blob:
  assumes "cd_cipher cd = None"
  shows "scrub_blob sample_ext cd t Full (blobs_root (store_root [''dst''])) sel sample_hash (0, 0, 0) leased_world = (Ok (0, 1, 0), leased_world)"
proof -
  have p: "blob_path sample_ext (blobs_root (store_root [''dst''])) sample_hash
      = [''dst'', STORE_DIR, ''v1'', ''blobs'', ''sha256'', take 2 sample_hash, sample_hash]"
    using sample_hash_ok by (simp add: blob_path_def blobs_root_def store_root_def)
  have "[1, 2] \<noteq> ENC_MAGIC" "[1, 2] \<noteq> COMP_MAGIC" by (rule notI, drule arg_cong [where f = length], simp)+
  then have "decode_blob sample_ext (cd_cipher cd) [1, 2] = Some [1, 2]" using assms by (simp add: decode_blob_def)
  then have "sha256_plaintext_blob sample_ext cd [''dst'', STORE_DIR, ''v1'', ''blobs'', ''sha256'', take 2 sample_hash, sample_hash] t leased_world
      = (Ok sample_hash, leased_world)"
    using quiet_sha256_plaintext [OF _ leased_reads(6), of sample_ext cd "[1, 2]" t] by (simp add: quiet_def sample_hash_def)
  then show ?thesis by (simp add: scrub_blob_full p leased_reads bnd_def ret_def)
qed

lemma sample_scrub_run:
  "\<exists>r. scrub_versioned_store sample_ext id sample_config sample_hashing Full k n seed stored_world = (Ok r, leased_world)
    \<and> sr_manifests_bad r = 0 \<and> sr_missing_blobs r = 0 \<and> sr_hash_mismatches r = 0"
proof -
  obtain cd where cd: "cd_cipher cd = None" "codec_from_config sample_ext sample_config leased_world = (Ok cd, leased_world)"
    using sample_codec_run by blast
  obtain pol where pol: "lease_policy sample_ext sample_config stored_world = (Ok pol, stored_world)"
    by (simp add: lease_policy_def get_now_def bnd_def ret_def)
  obtain ls where ls: "acquire_store_leases sample_ext [[''dst'']] pol stored_world = (Ok ls, leased_world)"
    using sample_leases by blast
  have w: "filter wp_enabled (cf_watched sample_config) = [sample_watched]" "enabled_destinations sample_config = Inr [[''dst'']]"
    by (simp_all add: sample_config_def sample_watched_def enabled_destinations_def destination_by_id_def sample_destination_def)
  have "scrub_destination sample_ext cd t Full k seed ([''dst''], [sample_hash]) (0, 0, 0) leased_world = (Ok (0, 1, 0), leased_world)" for t
    by (simp add: scrub_destination_def bnd_def ret_def sample_scrub_blob [OF cd(1)])
  then show ?thesis
    by (simp add: scrub_versioned_store_def w cd(2) pol ls sample_scrub_source bnd_def ret_def lift_def)
qed

theorem scrub_full_exact_witness:
  "\<exists>cd. all_sound sample_ext cd sample_config (fs leased_world)"
proof -
  obtain r where r: "scrub_versioned_store sample_ext id sample_config sample_hashing Full 1 1 0 stored_world = (Ok r, leased_world)"
    and "sr_manifests_bad r = 0 \<and> sr_missing_blobs r = 0 \<and> sr_hash_mismatches r = 0"
    using sample_scrub_run by blast
  with scrub_full_exact [OF _ stored_world_fs(2) r] show ?thesis by auto
qed

end
