(* ===== verification/Browse.thy ===== *)
theory Browse
  imports Restore Text Store
begin

text \<open>
  The readable view of a store (\<open>browse.rs\<close>): beside the store there is one directory per source with
  a decoded tree for the latest version and one for every earlier version. A marker file tells which
  trees the program owns; nothing without a marker is removed. The iteration order of hash maps is a
  parameter.
\<close>

section \<open>Names\<close>

definition SOURCE_MARKER_NAME :: string where
  "SOURCE_MARKER_NAME = ''.backup-sync-source.json''"

definition VERSION_MARKER_NAME :: string where
  "VERSION_MARKER_NAME = ''.backup-sync-version.json''"

definition LATEST_NAME :: string where
  "LATEST_NAME = ''Latest''"

definition PREVIOUS_NAME :: string where
  "PREVIOUS_NAME = ''Previous Versions''"

definition MARKER_SCHEMA_VERSION :: nat where
  "MARKER_SCHEMA_VERSION = 1"

text \<open>
  Characters that a name must not have become dashes. Control characters are the ASCII ones and
  U+0080 to U+009F, two bytes in UTF-8.
\<close>

definition forbidden :: "char \<Rightarrow> bool" where
  "forbidden c \<longleftrightarrow> c \<in> set [CHR ''/'', CHR 0x5C, CHR '':'', CHR ''*'', CHR ''?'', CHR 0x22, CHR ''<'', CHR ''>'', CHR 0x7C]
    \<or> of_char c < (32 :: nat) \<or> of_char c = (127 :: nat)"

fun clean_name :: "string \<Rightarrow> string" where
  "clean_name [] = []"
| "clean_name [c] = [if forbidden c then CHR ''-'' else c]"
| "clean_name (c # d # s) =
    (if of_char c = (0xC2 :: nat) \<and> (0x80 :: nat) \<le> of_char d \<and> of_char d < (0xA0 :: nat) then CHR ''-'' # clean_name s
     else (if forbidden c then CHR ''-'' else c) # clean_name (d # s))"

definition trim_dots :: "string \<Rightarrow> string" where
  "trim_dots s = (let p = (\<lambda>c. c = CHR ''.'' \<or> c = CHR '' '') in rev (dropWhile p (rev (dropWhile p s))))"

definition readable_source_name :: "path \<Rightarrow> string" where
  "readable_source_name src =
    (let raw = (if src = [] \<or> last src = ''..'' \<or> trim (last src) = [] then ''Backup'' else last src);
         cleaned = trim_dots (clean_name raw)
     in if cleaned = [] then ''Backup'' else cleaned)"

definition readable_version_name :: "ext \<Rightarrow> version_info \<Rightarrow> string" where
  "readable_version_name x v = (case x_local_stamp x (vi_created_at_unix v) of Some s \<Rightarrow> s | None \<Rightarrow> vi_id v)"

text \<open>Two names joined by a dash between spaces.\<close>

definition dashed :: "string \<Rightarrow> string \<Rightarrow> string" where
  "dashed a b = a @ [CHR '' '', CHR 0xE2, CHR 0x80, CHR 0x94, CHR '' ''] @ b"

section \<open>Markers\<close>

definition read_json_marker :: "(bytes \<Rightarrow> 'm option) \<Rightarrow> path \<Rightarrow> 'm option io" where
  "read_json_marker dec p =
    bnd (path_exists p) (\<lambda>ex.
    if \<not> ex then ret None
    else bnd (symlink_metadata p) (\<lambda>node.
      if \<not> is_file_node node then throw (Bail ''versioned::read_json_marker marker is not a regular file'')
      else bnd (read_file p) (\<lambda>raw. case dec raw of
          None \<Rightarrow> throw (Bail ''versioned::read_json_marker failed to parse'')
        | Some m \<Rightarrow> ret (Some m))))"

definition read_source_marker :: "ext \<Rightarrow> path \<Rightarrow> source_marker option io" where
  "read_source_marker x d = read_json_marker (x_source_marker_dec x) (d @ [SOURCE_MARKER_NAME])"

definition read_version_marker :: "ext \<Rightarrow> path \<Rightarrow> version_marker option io" where
  "read_version_marker x d = read_json_marker (x_version_marker_dec x) (d @ [VERSION_MARKER_NAME])"

definition write_json_marker :: "ext \<Rightarrow> path \<Rightarrow> bytes \<Rightarrow> unit io" where
  "write_json_marker x p raw = (case parent_of p of
      None \<Rightarrow> throw (Bail ''versioned::write_json_marker marker has no parent'')
    | Some d \<Rightarrow> with_temp (x_temp x) d (\<lambda>t.
        bnd (append_file t raw) (\<lambda>_.
        bnd (append_file t [10]) (\<lambda>_.
        bnd sync_file (\<lambda>_. persist t p)))))"

definition remove_managed_version_tree :: "ext \<Rightarrow> path \<Rightarrow> unit io" where
  "remove_managed_version_tree x p =
    bnd (read_version_marker x p) (\<lambda>m.
    if m = None then throw (Bail ''versioned::remove_managed_version_tree refused to remove unowned directory'')
    else remove_dir_all p)"

section \<open>Finding the view of a source\<close>

definition view_entry :: "ext \<Rightarrow> path \<Rightarrow> path \<Rightarrow> string \<Rightarrow> path option \<Rightarrow> path option io" where
  "view_entry x d src n found = (case found of
      Some p \<Rightarrow> ret (Some p)
    | None \<Rightarrow>
        bnd next_entry (\<lambda>_.
        bnd (symlink_metadata (d @ [n])) (\<lambda>node.
        if node \<noteq> Dir then ret None
        else bnd (read_source_marker x (d @ [n])) (\<lambda>m.
          ret (case m of
              Some k \<Rightarrow> if sm_source_path k = path_text src then Some (d @ [n]) else None
            | None \<Rightarrow> None)))))"

definition find_source_view :: "ext \<Rightarrow> path \<Rightarrow> path \<Rightarrow> path option io" where
  "find_source_view x d src = bnd (read_dir d) (\<lambda>ns. fold_act (view_entry x d src) ns None)"

definition source_stage :: "ext \<Rightarrow> path \<Rightarrow> path \<Rightarrow> path" where
  "source_stage x d src = d @ [''.backup-sync-source-stage-'' @ show_nat (x_pid x) @ ''-'' @ take 8 (source_id x src)]"

definition find_or_create_source_view :: "ext \<Rightarrow> path \<Rightarrow> path \<Rightarrow> path io" where
  "find_or_create_source_view x d src =
    bnd (find_source_view x d src) (\<lambda>found. case found of
        Some p \<Rightarrow> ret p
      | None \<Rightarrow>
          let base = readable_source_name src; stage = source_stage x d src in
          bnd (path_exists (d @ [base])) (\<lambda>taken.
          let tgt = (if taken then d @ [dashed base (take 8 (source_id x src))] else d @ [base]) in
          bnd (path_exists tgt) (\<lambda>ex.
          if ex then throw (Bail ''versioned::find_or_create_source_view readable source path is already occupied'')
          else bnd (path_exists stage) (\<lambda>sx.
            if sx then throw (Bail ''versioned::find_or_create_source_view source staging path already exists'')
            else bnd (create_dir stage) (\<lambda>_.
              bnd (attempt (bnd (write_json_marker x (stage @ [SOURCE_MARKER_NAME])
                  (x_source_marker_enc x \<lparr>sm_schema_version = MARKER_SCHEMA_VERSION, sm_source_path = path_text src\<rparr>)) (\<lambda>_.
                rename stage tgt))) (\<lambda>r. case r of
                  Inl e \<Rightarrow> bnd (attempt (remove_dir_all stage)) (\<lambda>_. throw e)
                | Inr _ \<Rightarrow> ret tgt))))))"

definition ensure_real_directory :: "path \<Rightarrow> unit io" where
  "ensure_real_directory p =
    bnd (path_exists p) (\<lambda>ex.
    if ex then bnd (symlink_metadata p) (\<lambda>node.
      if node \<noteq> Dir then throw (Bail ''versioned::ensure_real_directory path is not a real directory'') else ret ())
    else create_dir p)"

section \<open>Version trees\<close>

definition version_stage :: "ext \<Rightarrow> path \<Rightarrow> path \<Rightarrow> version_info \<Rightarrow> path" where
  "version_stage x parent src v = parent @ [''.backup-sync-version-stage-'' @ show_nat (x_pid x) @ ''-''
    @ take 8 (source_id x src) @ ''-'' @ take 15 (vi_id v)]"

definition materialize_managed_version :: "ext \<Rightarrow> config \<Rightarrow> path \<Rightarrow> path \<Rightarrow> version_info \<Rightarrow> path \<Rightarrow> unit io" where
  "materialize_managed_version x cfg d src v tgt =
    bnd (path_exists tgt) (\<lambda>ex.
    if ex then throw (Bail ''versioned::materialize_managed_version target already exists'')
    else case parent_of tgt of
        None \<Rightarrow> throw (Bail ''versioned::materialize_managed_version target has no parent'')
      | Some parent \<Rightarrow>
          let stage = version_stage x parent src v in
          bnd (path_exists stage) (\<lambda>sx.
          if sx then throw (Bail ''versioned::materialize_managed_version staging path already exists'')
          else bnd (attempt (
              bnd (build_version_tree_from_store x cfg d src (vi_id v) stage) (\<lambda>_.
              bnd (write_json_marker x (stage @ [VERSION_MARKER_NAME])
                (x_version_marker_enc x \<lparr>vm_schema_version = MARKER_SCHEMA_VERSION, vm_version_id = vi_id v\<rparr>)) (\<lambda>_.
              rename stage tgt)))) (\<lambda>outcome. case outcome of
                Inr _ \<Rightarrow> ret ()
              | Inl e \<Rightarrow> bnd (path_exists stage) (\<lambda>sx.
                  bnd (if sx then bnd (attempt (remove_dir_all stage)) (\<lambda>_. ret ()) else ret ()) (\<lambda>_. throw e)))))"

definition previous_entry :: "ext \<Rightarrow> path \<Rightarrow> string \<Rightarrow> (string \<times> path) list \<Rightarrow> (string \<times> path) list io" where
  "previous_entry x root_path n vs =
    bnd next_entry (\<lambda>_.
    bnd (symlink_metadata (root_path @ [n])) (\<lambda>node.
    if node \<noteq> Dir then ret vs
    else bnd (read_version_marker x (root_path @ [n])) (\<lambda>m. case m of
        None \<Rightarrow> ret vs
      | Some k \<Rightarrow>
          if map_of vs (vm_version_id k) \<noteq> None
          then throw (Bail ''versioned::previous_versions_by_id duplicate readable version'')
          else ret ((vm_version_id k, root_path @ [n]) # vs))))"

definition previous_versions_by_id :: "ext \<Rightarrow> path \<Rightarrow> (string \<times> path) list io" where
  "previous_versions_by_id x root_path = bnd (read_dir root_path) (\<lambda>ns. fold_act (previous_entry x root_path) ns [])"

definition available_version_path :: "ext \<Rightarrow> path \<Rightarrow> version_info \<Rightarrow> path io" where
  "available_version_path x root_path v =
    (let display = readable_version_name x v; preferred = root_path @ [display];
         alternate = root_path @ [dashed display (take 15 (vi_id v))] in
     bnd (path_exists preferred) (\<lambda>ex.
     if \<not> ex then ret preferred
     else bnd (read_version_marker x preferred) (\<lambda>m.
       if (case m of Some k \<Rightarrow> vm_version_id k = vi_id v | None \<Rightarrow> False) then ret preferred
       else bnd (path_exists alternate) (\<lambda>ax.
         if ax then throw (Bail ''versioned::available_version_path readable version path is occupied'')
         else ret alternate))))"

section \<open>Removing a view\<close>

definition remove_generated_plaintext_view :: "ext \<Rightarrow> ((string \<times> path) list \<Rightarrow> (string \<times> path) list) \<Rightarrow> path \<Rightarrow> path \<Rightarrow> unit io" where
  "remove_generated_plaintext_view x hash_order d src =
    bnd (path_is_dir d) (\<lambda>is_dir.
    if \<not> is_dir then ret ()
    else bnd (find_source_view x d src) (\<lambda>found. case found of
      None \<Rightarrow> ret ()
    | Some view \<Rightarrow>
        let latest = view @ [LATEST_NAME]; previous = view @ [PREVIOUS_NAME]; marker = view @ [SOURCE_MARKER_NAME] in
        bnd (path_exists latest) (\<lambda>lx.
        bnd (if lx then bnd (read_version_marker x latest) (\<lambda>m. if m \<noteq> None then remove_managed_version_tree x latest else ret ())
             else ret ()) (\<lambda>_.
        bnd (path_is_dir previous) (\<lambda>pd.
        bnd (if pd
             then bnd (previous_versions_by_id x previous) (\<lambda>vs.
               bnd (for_each (\<lambda>e. remove_managed_version_tree x (snd e)) (hash_order vs)) (\<lambda>_.
               bnd (read_dir previous) (\<lambda>ns. if ns = [] then remove_dir previous else ret ())))
             else ret ()) (\<lambda>_.
        bnd (read_dir view) (\<lambda>ns.
        bnd (for_each (\<lambda>_. next_entry) ns) (\<lambda>_.
        if list_all (\<lambda>n. view @ [n] = marker) ns
        then bnd (remove_file marker) (\<lambda>_. remove_dir view)
        else ret ()))))))))"

section \<open>Synchronising a view with the index\<close>

text \<open>The old latest tree: kept when it is the latest, archived when it is an earlier version.\<close>

definition archive_latest :: "ext \<Rightarrow> version_info \<Rightarrow> version_info list \<Rightarrow> path \<Rightarrow> path \<Rightarrow> unit io" where
  "archive_latest x latest previous latest_path previous_root =
    bnd (read_version_marker x latest_path) (\<lambda>m. case m of
        None \<Rightarrow> throw (Bail ''versioned::sync_source_readable_view cannot replace unowned'')
      | Some k \<Rightarrow>
          if vm_version_id k = vi_id latest then ret ()
          else (case find (\<lambda>v. vi_id v = vm_version_id k) previous of
              Some v \<Rightarrow> bnd (available_version_path x previous_root v) (\<lambda>tgt. rename latest_path tgt)
            | None \<Rightarrow> remove_managed_version_tree x latest_path))"

definition place_previous :: "ext \<Rightarrow> config \<Rightarrow> path \<Rightarrow> path \<Rightarrow> path \<Rightarrow> version_info \<Rightarrow> (string \<times> path) list \<Rightarrow> (string \<times> path) list io" where
  "place_previous x cfg d src previous_root v existing = (case map_of existing (vi_id v) of
      Some p \<Rightarrow>
        let preferred = previous_root @ [readable_version_name x v] in
        if p = preferred then ret existing
        else bnd (path_exists preferred) (\<lambda>ex.
          if ex then ret existing
          else bnd (rename p preferred) (\<lambda>_. ret (AList.update (vi_id v) preferred existing)))
    | None \<Rightarrow>
        bnd (available_version_path x previous_root v) (\<lambda>tgt.
        bnd (materialize_managed_version x cfg d src v tgt) (\<lambda>_.
        ret (AList.update (vi_id v) tgt existing))))"

definition sync_view :: "ext \<Rightarrow> ((string \<times> path) list \<Rightarrow> (string \<times> path) list) \<Rightarrow> config \<Rightarrow> path \<Rightarrow> path \<Rightarrow> version_index \<Rightarrow> path option io" where
  "sync_view x hash_order cfg d src ix =
    bnd (create_dir_all d) (\<lambda>_.
    bnd (find_or_create_source_view x d src) (\<lambda>view.
    let previous_root = view @ [PREVIOUS_NAME]; latest_path = view @ [LATEST_NAME];
        latest = last (vx_versions ix); previous = filter (\<lambda>v. vi_id v \<noteq> vi_id latest) (vx_versions ix) in
    bnd (ensure_real_directory previous_root) (\<lambda>_.
    bnd (path_exists latest_path) (\<lambda>lx.
    bnd (if lx then archive_latest x latest previous latest_path previous_root else ret ()) (\<lambda>_.
    bnd (previous_versions_by_id x previous_root) (\<lambda>existing.
    bnd (fold_act (place_previous x cfg d src previous_root) previous existing) (\<lambda>existing.
    bnd (for_each (\<lambda>e. if fst e \<notin> vi_id ` set previous then remove_managed_version_tree x (snd e) else ret ()) (hash_order existing)) (\<lambda>_.
    bnd (path_exists latest_path) (\<lambda>lx.
    bnd (if \<not> lx then materialize_managed_version x cfg d src latest latest_path else ret ()) (\<lambda>_.
    ret (Some view)))))))))))"

definition sync_source_readable_view :: "ext \<Rightarrow> ((string \<times> path) list \<Rightarrow> (string \<times> path) list) \<Rightarrow> config \<Rightarrow> watched_path \<Rightarrow> path
    \<Rightarrow> path option io" where
  "sync_source_readable_view x hash_order cfg w d =
    (if \<not> wp_enabled w \<or> wp_kind w \<noteq> WatchedDirectory then ret None
     else if ec_enabled (cf_encryption cfg)
     then bnd (remove_generated_plaintext_view x hash_order d (wp_path w)) (\<lambda>_. ret None)
     else let ip = version_index_path x d (wp_path w) in
       bnd (path_exists ip) (\<lambda>ex.
       if \<not> ex then ret None
       else bnd (read_index x ip) (\<lambda>ix.
         if vx_source_path ix \<noteq> path_text (wp_path w)
         then throw (Bail ''versioned::sync_source_readable_view source index does not match configured source'')
         else if vx_versions ix = [] then ret None
         else sync_view x hash_order cfg d (wp_path w) ix)))"

end
