(* ===== verification/Throttling.thy ===== *)
theory Throttling
  imports Externals
begin

text \<open>
  Limiting throughput (\<open>scheduling/throttling.rs\<close>). Instants are in nanoseconds; the floating-point
  arithmetic of the code is exact arithmetic here, and a sleep is rounded to whole nanoseconds.
\<close>

record throttle =
  th_max_bytes_per_second :: nat
  th_start :: nat
  th_written :: nat

definition throttle_new :: "nat \<Rightarrow> throttle io" where
  "throttle_new limit =
    (if limit = 0 then throw (Bail ''scheduling::throttling::Throttle::new max_bytes_per_second must be > 0'')
     else bnd get_now (\<lambda>t. ret \<lparr>th_max_bytes_per_second = limit, th_start = t, th_written = 0\<rparr>))"

definition throttle_record :: "throttle \<Rightarrow> nat \<Rightarrow> throttle io" where
  "throttle_record th n =
    (let th' = th\<lparr>th_written := sat_add (th_written th) n\<rparr>; limit = real (th_max_bytes_per_second th); written = real (th_written th') in
     bnd get_now (\<lambda>t.
     let elapsed = t - th_start th in
     if elapsed = 0 then ret th'
     else let allowed = limit * (real elapsed / 1000000000) in
       if written > allowed
       then let sleep_secs = (written - allowed) / limit in
         if sleep_secs > 0 then bnd (sleep_ns (nat (round (sleep_secs * 1000000000)))) (\<lambda>_. ret th') else ret th'
       else ret th'))"



end
