(* ===== verification/Replication.thy ===== *)
theory Replication
  imports Browse Throttling
begin

text \<open>
  Copying a store to further destinations (\<open>replication.rs\<close>). For every source the manifests and blobs
  an index refers to are copied and checked on both sides before the index itself is replaced, so that
  a replica never publishes a version it does not have.
\<close>

record replication_summary =
  rs_pairs_attempted :: nat
  rs_pairs_ok :: nat
  rs_pairs_failed :: nat
  rs_manifests_copied :: nat
  rs_blobs_copied :: nat
  rs_bytes_copied :: nat
  rs_manifests_deleted :: nat
  rs_targets_failed :: "string list"

record pair_counters =
  pc_manifests_copied :: nat
  pc_blobs_copied :: nat
  pc_bytes_copied :: nat
  pc_manifests_deleted :: nat

record blob_replication_plan =
  bp_src :: path
  bp_dst :: path
  bp_expected_sha256 :: string

record version_replication_plan =
  vp_version_id :: string
  vp_src_manifest :: path
  vp_dst_manifest :: path
  vp_blobs :: "blob_replication_plan list"

definition no_pairs :: pair_counters where
  "no_pairs = \<lparr>pc_manifests_copied = 0, pc_blobs_copied = 0, pc_bytes_copied = 0, pc_manifests_deleted = 0\<rparr>"

section \<open>Artifacts\<close>

datatype RegularFileState = Missing | Regular

definition regular_file_state :: "path \<Rightarrow> RegularFileState io" where
  "regular_file_state p =
    bnd (attempt (symlink_metadata p)) (\<lambda>r. case r of
        Inr node \<Rightarrow>
          if is_link_node node then throw (Bail ''versioned replication refuses symbolic-link artifact'')
          else if is_file_node node then ret Regular
          else throw (Bail ''versioned replication expected a regular-file artifact'')
      | Inl e \<Rightarrow> if e = Io NotFound then ret Missing else throw e)"

definition require_regular_file :: "path \<Rightarrow> unit io" where
  "require_regular_file p = bnd (regular_file_state p) (\<lambda>s.
    if s \<noteq> Regular then throw (Bail ''versioned replication missing artifact'') else ret ())"

text \<open>Looking at an open file: its length, or an error.\<close>

definition handle_len :: "bytes \<Rightarrow> nat io" where
  "handle_len h = call (\<lambda>F. Inr (length h, F))"

function compare_loop :: "ext \<Rightarrow> bytes \<Rightarrow> bytes \<Rightarrow> bool io" where
  "compare_loop x l r =
    bnd (read_some x 65536 l) (\<lambda>a.
    bnd (read_some x 65536 r) (\<lambda>b.
    if fst a \<noteq> fst b then ret False
    else if fst a = [] then ret True
    else compare_loop x (snd a) (snd b)))"
  by pat_completeness auto
termination
  by (relation "measure (\<lambda>(_, l, _). length l)") (auto dest: read_some_shrinks)

declare compare_loop.simps [simp del]

definition files_have_identical_contents :: "ext \<Rightarrow> path \<Rightarrow> path \<Rightarrow> bool io" where
  "files_have_identical_contents x left right =
    bnd (require_regular_file left) (\<lambda>_.
    bnd (require_regular_file right) (\<lambda>_.
    bnd (read_file left) (\<lambda>l.
    bnd (read_file right) (\<lambda>r.
    bnd (handle_len l) (\<lambda>ll.
    bnd (handle_len r) (\<lambda>rl.
    if ll \<noteq> rl then ret False else compare_loop x l r))))))"

definition blob_matches_plaintext_hash :: "ext \<Rightarrow> blob_codec \<Rightarrow> path \<Rightarrow> string \<Rightarrow> nat \<Rightarrow> bool io" where
  "blob_matches_plaintext_hash x cd p expected timeout =
    bnd (attempt (sha256_plaintext_blob x cd p timeout)) (\<lambda>r. ret (r = Inr expected))"

definition require_plaintext_hash :: "ext \<Rightarrow> blob_codec \<Rightarrow> path \<Rightarrow> string \<Rightarrow> nat \<Rightarrow> unit io" where
  "require_plaintext_hash x cd p expected timeout =
    bnd (sha256_plaintext_blob x cd p timeout) (\<lambda>actual.
    if actual \<noteq> expected then throw (Bail ''versioned replication plaintext hash mismatch'') else ret ())"

definition validate_blob_hash :: "string \<Rightarrow> unit res" where
  "validate_blob_hash h = check (is_lower_hex_sha256 h) ''versioned replication expected a 64-character lowercase hex sha256''"

definition read_manifest_json :: "ext \<Rightarrow> path \<Rightarrow> manifest io" where
  "read_manifest_json x p = bnd (read_file p) (\<lambda>raw. case parse_manifest x raw of
      None \<Rightarrow> throw (Bail ''versioned::read_json failed to parse'')
    | Some m \<Rightarrow> ret m)"

section \<open>Copying a file\<close>

text \<open>The loop with its total; the throttle is there when a limit is configured.\<close>

function copy_throttled :: "ext \<Rightarrow> path \<Rightarrow> nat \<Rightarrow> nat \<Rightarrow> nat \<Rightarrow> throttle option \<Rightarrow> nat \<Rightarrow> bytes \<Rightarrow> nat io" where
  "copy_throttled x t buf timeout start th tot h =
    bnd get_now (\<lambda>now.
    if timeout < now - start then throw (Bail ''versioned::copy_stream_with_throttle timed out'')
    else bnd (read_some x buf h) (\<lambda>a.
      if fst a = [] then bnd sync_file (\<lambda>_. ret tot)
      else bnd (append_file t (fst a)) (\<lambda>_.
        bnd (case th of None \<Rightarrow> ret None | Some k \<Rightarrow> bnd (throttle_record k (length (fst a))) (\<lambda>k. ret (Some k))) (\<lambda>th.
        copy_throttled x t buf timeout start th (sat_add tot (length (fst a))) (snd a)))))"
  by pat_completeness auto
termination
  by (relation "measure (\<lambda>(_, _, _, _, _, _, _, h). length h)") (auto dest: read_some_shrinks)

declare copy_throttled.simps [simp del]

definition copy_stream_with_throttle :: "ext \<Rightarrow> path \<Rightarrow> path \<Rightarrow> nat option \<Rightarrow> nat \<Rightarrow> nat \<Rightarrow> nat \<Rightarrow> nat io" where
  "copy_stream_with_throttle x src t max_bps buf timeout start =
    (if buf = 0 then throw (Bail ''versioned::copy_stream_with_throttle buffer_bytes must be > 0'')
     else bnd (read_file src) (\<lambda>h.
       bnd (case max_bps of None \<Rightarrow> ret None | Some l \<Rightarrow> bnd (throttle_new l) (\<lambda>k. ret (Some k))) (\<lambda>th.
       copy_throttled x t buf timeout start th 0 h)))"

definition sync_dir_best_effort :: "path \<Rightarrow> unit io" where
  "sync_dir_best_effort p = bnd (attempt (sync_dir p)) (\<lambda>_. ret ())"

definition copy_file_atomic :: "ext \<Rightarrow> config \<Rightarrow> path \<Rightarrow> path \<Rightarrow> nat io" where
  "copy_file_atomic x cfg src dst = (case parent_of dst of
      None \<Rightarrow> throw (Bail ''versioned::copy_file_atomic missing destination parent'')
    | Some parent \<Rightarrow>
        bnd (create_dir_all parent) (\<lambda>_.
        bnd (with_temp (x_temp x) parent (\<lambda>t.
          bnd (bnd get_now (\<lambda>start.
            bnd (copy_stream_with_throttle x src t (cf_max_bytes_per_second cfg) (et_copy_buffer_bytes (cf_execution cfg))
              (secs (max (et_copy_timeout_seconds (cf_execution cfg)) 1)) start) (\<lambda>bytes.
            bnd sync_file (\<lambda>_. ret bytes)))) (\<lambda>bytes.
          bnd (persist t dst) (\<lambda>_. ret bytes)))) (\<lambda>bytes.
        bnd (sync_dir_best_effort parent) (\<lambda>_. ret bytes))))"

section \<open>Plans\<close>

definition plan_blob :: "ext \<Rightarrow> blob_codec \<Rightarrow> nat \<Rightarrow> path \<Rightarrow> path \<Rightarrow> manifest_entry \<Rightarrow> blob_replication_plan list \<Rightarrow> blob_replication_plan list io" where
  "plan_blob x cd timeout sb db e bs =
    (if me_kind e \<noteq> FileEntry then ret bs
     else case me_sha256 e of
        None \<Rightarrow> ret bs
      | Some h \<Rightarrow>
          bnd (lift (validate_blob_hash h)) (\<lambda>_.
          if h \<in> bp_expected_sha256 ` set bs then ret bs
          else bnd (require_regular_file (blob_path x sb h)) (\<lambda>_.
            bnd (require_plaintext_hash x cd (blob_path x sb h) h timeout) (\<lambda>_.
            ret (bs @ [\<lparr>bp_src = blob_path x sb h, bp_dst = blob_path x db h, bp_expected_sha256 = h\<rparr>])))))"

definition plan_version :: "ext \<Rightarrow> blob_codec \<Rightarrow> nat \<Rightarrow> path \<Rightarrow> path \<Rightarrow> path \<Rightarrow> path \<Rightarrow> version_info \<Rightarrow> version_replication_plan list
    \<Rightarrow> version_replication_plan list io" where
  "plan_version x cd timeout sm dm sb db v ps =
    bnd (require_regular_file (sm @ [json_name (vi_id v)])) (\<lambda>_.
    bnd (read_manifest_json x (sm @ [json_name (vi_id v)])) (\<lambda>m.
    bnd (fold_act (plan_blob x cd timeout sb db) (bt_values (mf_entries m)) []) (\<lambda>bs.
    ret (ps @ [\<lparr>vp_version_id = vi_id v, vp_src_manifest = sm @ [json_name (vi_id v)],
      vp_dst_manifest = dm @ [json_name (vi_id v)], vp_blobs = bs\<rparr>]))))"

definition build_replication_plans :: "ext \<Rightarrow> blob_codec \<Rightarrow> nat \<Rightarrow> version_index \<Rightarrow> path \<Rightarrow> path \<Rightarrow> path \<Rightarrow> path
    \<Rightarrow> version_replication_plan list io" where
  "build_replication_plans x cd timeout ix sm dm sb db = fold_act (plan_version x cd timeout sm dm sb db) (vx_versions ix) []"

definition validate_artifact :: "ext \<Rightarrow> blob_codec \<Rightarrow> nat \<Rightarrow> path \<Rightarrow> manifest_entry \<Rightarrow> unit io" where
  "validate_artifact x cd timeout br e =
    (if me_kind e \<noteq> FileEntry then ret ()
     else case me_sha256 e of
        None \<Rightarrow> ret ()
      | Some h \<Rightarrow>
          bnd (lift (validate_blob_hash h)) (\<lambda>_.
          bnd (require_regular_file (blob_path x br h)) (\<lambda>_.
          require_plaintext_hash x cd (blob_path x br h) h timeout)))"

definition validate_manifest_artifacts :: "ext \<Rightarrow> blob_codec \<Rightarrow> nat \<Rightarrow> path \<Rightarrow> path \<Rightarrow> unit io" where
  "validate_manifest_artifacts x cd timeout p br =
    bnd (require_regular_file p) (\<lambda>_.
    bnd (read_manifest_json x p) (\<lambda>m. for_each (validate_artifact x cd timeout br) (bt_values (mf_entries m))))"

definition validate_plan :: "ext \<Rightarrow> blob_codec \<Rightarrow> nat \<Rightarrow> path \<Rightarrow> path \<Rightarrow> version_replication_plan \<Rightarrow> unit io" where
  "validate_plan x cd timeout sb db plan =
    bnd (files_have_identical_contents x (vp_src_manifest plan) (vp_dst_manifest plan)) (\<lambda>same.
    if \<not> same then throw (Bail ''versioned replication replica manifest differs from authoritative source'')
    else bnd (validate_manifest_artifacts x cd timeout (vp_src_manifest plan) sb) (\<lambda>_.
      validate_manifest_artifacts x cd timeout (vp_dst_manifest plan) db))"

definition validate_replication_plans :: "ext \<Rightarrow> blob_codec \<Rightarrow> nat \<Rightarrow> path \<Rightarrow> path \<Rightarrow> version_replication_plan list \<Rightarrow> unit io" where
  "validate_replication_plans x cd timeout sb db plans = for_each (validate_plan x cd timeout sb db) plans"

section \<open>Mirroring\<close>

text \<open>\<open>trim_end_matches\<close> removes the suffix as often as it occurs.\<close>

function trim_json :: "string \<Rightarrow> string" where
  "trim_json s = (if suffix ''.json'' s then trim_json (take (length s - 5) s) else s)"
  by pat_completeness auto
termination
  by (relation "measure length") (auto dest: suffix_length_le)

declare trim_json.simps [simp del]

definition walk_flat :: "ext \<Rightarrow> path \<Rightarrow> walk_item list io" where
  "walk_flat x p w = (Ok (x_walk_flat x w p), w)"

text \<open>One entry, with the number of deletions still allowed and whether the loop was left.\<close>

definition mirror_entry :: "string list \<Rightarrow> walk_item \<Rightarrow> nat \<times> nat \<times> bool \<Rightarrow> (nat \<times> nat \<times> bool) io" where
  "mirror_entry keep item = (\<lambda>(deleted, remaining, left).
    if left then ret (deleted, remaining, left)
    else case item of
        WalkErr p msg \<Rightarrow> throw (Bail ''versioned::mirror_manifest_deletions walk manifests'')
      | WalkEntry p node \<Rightarrow>
          if \<not> is_file_node node \<or> p = [] \<or> \<not> suffix ''.json'' (last p) \<or> trim_json (last p) \<in> set keep
          then ret (deleted, remaining, left)
          else if remaining = 0 then ret (deleted, remaining, True)
          else bnd (remove_file p) (\<lambda>_. ret (deleted + 1, remaining - 1, left)))"

definition mirror_manifest_deletions :: "ext \<Rightarrow> config \<Rightarrow> version_index \<Rightarrow> path \<Rightarrow> nat io" where
  "mirror_manifest_deletions x cfg ix dm =
    (let keep = map vi_id (vx_versions ix); remaining = rt_replication_max_manifest_deletes_per_cycle (cf_runtime cfg) in
     if remaining = 0 then ret 0
     else bnd (path_exists dm) (\<lambda>ex.
       if \<not> ex then ret 0
       else bnd (walk_flat x dm) (\<lambda>items.
         bnd (fold_act (mirror_entry keep) items (0, remaining, False)) (\<lambda>(deleted, _, _). ret deleted))))"

section \<open>One source\<close>

definition add_bytes :: "nat \<Rightarrow> pair_counters \<Rightarrow> pair_counters" where
  "add_bytes n p = p\<lparr>pc_bytes_copied := sat_add (pc_bytes_copied p) n\<rparr>"

definition replicate_blob :: "ext \<Rightarrow> config \<Rightarrow> blob_codec \<Rightarrow> blob_replication_plan \<Rightarrow> pair_counters \<Rightarrow> pair_counters io" where
  "replicate_blob x cfg cd b pair =
    bnd (regular_file_state (bp_dst b)) (\<lambda>s.
    bnd (if s = Missing then ret True
         else bnd (blob_matches_plaintext_hash x cd (bp_dst b) (bp_expected_sha256 b) (ht_timeout_seconds (cf_hashing cfg))) (\<lambda>ok. ret (\<not> ok))) (\<lambda>needed.
    if \<not> needed then ret pair
    else bnd (copy_file_atomic x cfg (bp_src b) (bp_dst b)) (\<lambda>bytes.
      bnd (require_plaintext_hash x cd (bp_dst b) (bp_expected_sha256 b) (ht_timeout_seconds (cf_hashing cfg))) (\<lambda>_.
      ret ((add_bytes bytes pair)\<lparr>pc_blobs_copied := pc_blobs_copied pair + 1\<rparr>)))))"

definition replicate_version :: "ext \<Rightarrow> config \<Rightarrow> blob_codec \<Rightarrow> version_replication_plan \<Rightarrow> pair_counters \<Rightarrow> pair_counters io" where
  "replicate_version x cfg cd plan pair =
    bnd (regular_file_state (vp_dst_manifest plan)) (\<lambda>s.
    bnd (if s = Missing then ret True
         else bnd (files_have_identical_contents x (vp_src_manifest plan) (vp_dst_manifest plan)) (\<lambda>same. ret (\<not> same))) (\<lambda>needed.
    bnd (if \<not> needed then ret pair
         else bnd (copy_file_atomic x cfg (vp_src_manifest plan) (vp_dst_manifest plan)) (\<lambda>bytes.
           ret ((add_bytes bytes pair)\<lparr>pc_manifests_copied := pc_manifests_copied pair + 1\<rparr>))) (\<lambda>pair.
    fold_act (replicate_blob x cfg cd) (vp_blobs plan) pair)))"

definition replicate_report :: "ext \<Rightarrow> config \<Rightarrow> path \<Rightarrow> path \<Rightarrow> pair_counters \<Rightarrow> pair_counters io" where
  "replicate_report x cfg src dst pair =
    bnd (regular_file_state src) (\<lambda>s.
    if s \<noteq> Regular then ret pair
    else bnd (regular_file_state dst) (\<lambda>_.
      bnd (attempt (copy_file_atomic x cfg src dst)) (\<lambda>r. case r of
          Inr bytes \<Rightarrow> ret (add_bytes bytes pair)
        | Inl _ \<Rightarrow> ret pair)))"

text \<open>
  The body of the loop for the directory \<open>n\<close> of a source: \<open>ss\<close> and \<open>ds\<close> are the directories of all sources
  on both sides, \<open>sb\<close> and \<open>db\<close> those of the blobs.
\<close>

definition publish_source :: "ext \<Rightarrow> config \<Rightarrow> blob_codec \<Rightarrow> path \<Rightarrow> path \<Rightarrow> path \<Rightarrow> path \<Rightarrow> version_index \<Rightarrow> version_replication_plan list
    \<Rightarrow> pair_counters \<Rightarrow> pair_counters io" where
  "publish_source x cfg cd sr dr sb db ix plans pair =
    bnd (validate_replication_plans x cd (ht_timeout_seconds (cf_hashing cfg)) sb db plans) (\<lambda>_.
    bnd (copy_file_atomic x cfg (sr @ [''index.json'']) (dr @ [''index.json''])) (\<lambda>bytes.
    let pair = add_bytes bytes pair in
    if rt_replication_mirror_manifests (cf_runtime cfg)
    then bnd (mirror_manifest_deletions x cfg ix (dr @ [''manifests''])) (\<lambda>n.
      ret (pair\<lparr>pc_manifests_deleted := pc_manifests_deleted pair + n\<rparr>))
    else ret pair))"

definition replicate_source :: "ext \<Rightarrow> config \<Rightarrow> blob_codec \<Rightarrow> path \<Rightarrow> path \<Rightarrow> path \<Rightarrow> path \<Rightarrow> string \<Rightarrow> pair_counters \<Rightarrow> pair_counters io" where
  "replicate_source x cfg cd ss ds sb db n pair =
    (let sr = ss @ [n]; dr = ds @ [n]; timeout = ht_timeout_seconds (cf_hashing cfg) in
     bnd (regular_file_state (sr @ [''index.json''])) (\<lambda>s.
     if s = Missing then ret pair
     else bnd (read_index x (sr @ [''index.json''])) (\<lambda>ix.
       bnd (create_dir_all dr) (\<lambda>_.
       bnd (regular_file_state (dr @ [''index.json''])) (\<lambda>t.
       bnd (if t = Regular then bnd (read_index x (dr @ [''index.json''])) (\<lambda>_. ret ()) else ret ()) (\<lambda>_.
       bnd (create_dir_all (dr @ [''manifests''])) (\<lambda>_.
       bnd (build_replication_plans x cd timeout ix (sr @ [''manifests'']) (dr @ [''manifests'']) sb db) (\<lambda>plans.
       bnd (fold_act (replicate_version x cfg cd) plans pair) (\<lambda>pair.
       bnd (replicate_report x cfg (sr @ [''last_scan_report.json'']) (dr @ [''last_scan_report.json'']) pair) (\<lambda>pair.
       publish_source x cfg cd sr dr sb db ix plans pair)))))))))) "

section \<open>Pairs of stores\<close>

definition replicate_item :: "ext \<Rightarrow> config \<Rightarrow> blob_codec \<Rightarrow> path \<Rightarrow> path \<Rightarrow> path \<Rightarrow> path \<Rightarrow> walk_item \<Rightarrow> pair_counters \<Rightarrow> pair_counters io" where
  "replicate_item x cfg cd ss ds sb db item pair = (case item of
      WalkErr p msg \<Rightarrow> throw (Bail ''versioned::replicate_one_pair walk source roots'')
    | WalkEntry p node \<Rightarrow> if node \<noteq> Dir \<or> p = [] then ret pair else replicate_source x cfg cd ss ds sb db (last p) pair)"

definition replicate_one_pair :: "ext \<Rightarrow> ((string \<times> path) list \<Rightarrow> (string \<times> path) list) \<Rightarrow> config \<Rightarrow> destination \<Rightarrow> destination \<Rightarrow> pair_counters io" where
  "replicate_one_pair x hash_order cfg src dst =
    (let s = store_root (dest_path src); d = store_root (dest_path dst) in
     bnd (path_exists (dest_path dst)) (\<lambda>ex.
     bnd (if ex then path_is_dir (dest_path dst) else ret False) (\<lambda>dir.
     if \<not> dir then throw (Bail ''versioned::replicate_one_pair replica destination not available'')
     else bnd (path_exists s) (\<lambda>sx.
       bnd (if sx then path_is_dir s else ret False) (\<lambda>sdir.
       if \<not> sdir then ret no_pairs
       else bnd (create_dir_all d) (\<lambda>_.
         bnd (codec_from_config x cfg) (\<lambda>cd.
         bnd (create_dir_all (sources_root d)) (\<lambda>_.
         bnd (create_dir_all (blobs_root d)) (\<lambda>_.
         bnd (walk_flat x (sources_root s)) (\<lambda>items.
         bnd (fold_act (replicate_item x cfg cd (sources_root s) (sources_root d) (blobs_root s) (blobs_root d)) items no_pairs) (\<lambda>pair.
         bnd (for_each (\<lambda>w. bnd (sync_source_readable_view x hash_order cfg w (dest_path dst)) (\<lambda>_. ret ()))
           (filter (\<lambda>w. wp_enabled w \<and> wp_destination_id w = dest_id src) (cf_watched cfg))) (\<lambda>_.
         ret pair))))))))))))"

definition replication_pairs :: "config \<Rightarrow> (destination \<times> string \<times> destination option) list" where
  "replication_pairs cfg = concat (map (\<lambda>s. map (\<lambda>t. (s, t, destination_by_id cfg t)) (dest_replicate_to s)) (cf_destinations cfg))"

definition involved_destinations :: "(destination \<times> string \<times> destination option) list \<Rightarrow> path list" where
  "involved_destinations ps = concat (map (\<lambda>(s, t, d). dest_path s # (case d of None \<Rightarrow> [] | Some d \<Rightarrow> [dest_path d])) ps)"

definition no_replication :: replication_summary where
  "no_replication = \<lparr>rs_pairs_attempted = 0, rs_pairs_ok = 0, rs_pairs_failed = 0, rs_manifests_copied = 0, rs_blobs_copied = 0,
    rs_bytes_copied = 0, rs_manifests_deleted = 0, rs_targets_failed = []\<rparr>"

definition count_pair :: "pair_counters \<Rightarrow> replication_summary \<Rightarrow> replication_summary" where
  "count_pair p s = s\<lparr>rs_pairs_ok := rs_pairs_ok s + 1, rs_manifests_copied := rs_manifests_copied s + pc_manifests_copied p,
    rs_blobs_copied := rs_blobs_copied s + pc_blobs_copied p, rs_bytes_copied := sat_add (rs_bytes_copied s) (pc_bytes_copied p),
    rs_manifests_deleted := rs_manifests_deleted s + pc_manifests_deleted p\<rparr>"

definition fail_pair :: "string \<Rightarrow> replication_summary \<Rightarrow> replication_summary" where
  "fail_pair t s = s\<lparr>rs_pairs_failed := rs_pairs_failed s + 1, rs_targets_failed := rs_targets_failed s @ [t]\<rparr>"

definition replicate_pair :: "ext \<Rightarrow> ((string \<times> path) list \<Rightarrow> (string \<times> path) list) \<Rightarrow> config \<Rightarrow> destination \<times> string \<times> destination option
    \<Rightarrow> replication_summary \<Rightarrow> replication_summary io" where
  "replicate_pair x hash_order cfg = (\<lambda>(s, t, d) sum. let sum = sum\<lparr>rs_pairs_attempted := rs_pairs_attempted sum + 1\<rparr> in
    case d of
      None \<Rightarrow> ret (fail_pair t sum)
    | Some d \<Rightarrow> bnd (attempt (replicate_one_pair x hash_order cfg s d)) (\<lambda>r. case r of
          Inr p \<Rightarrow> ret (count_pair p sum)
        | Inl e \<Rightarrow> ret (fail_pair (dest_id d) sum)))"

definition replicate_configured_stores :: "ext \<Rightarrow> ((string \<times> path) list \<Rightarrow> (string \<times> path) list) \<Rightarrow> config \<Rightarrow> replication_summary io" where
  "replicate_configured_stores x hash_order cfg =
    (if \<not> rt_replication_enabled (cf_runtime cfg) then ret no_replication
     else let pairs = replication_pairs cfg in
       bnd (lease_policy x cfg) (\<lambda>pol.
       bnd (acquire_store_leases x (involved_destinations pairs) pol) (\<lambda>_.
       fold_act (replicate_pair x hash_order cfg) pairs no_replication)))"

end
