(* ===== verification/Replication_Laws.thy ===== *)
theory Replication_Laws
  imports Replication Tree_Ops Commit_Laws Lease_Laws
begin

text \<open>
  What replicating one source changes, and what it knows about the replica when it publishes the index.
\<close>

section \<open>Steps that only look\<close>

lemma moves_still_regular_file_state: "moves still (regular_file_state p)"
  unfolding regular_file_state_def
  by (intro still_all_intros)

lemma moves_still_require_regular_file: "moves still (require_regular_file p)"
  unfolding require_regular_file_def by (intro still_intros moves_still_regular_file_state)

lemma moves_still_handle_len: "moves still (handle_len h)"
  unfolding handle_len_def by (rule moves_still_prims(7))

lemma moves_still_compare: "moves still (compare_loop x l r)"
proof (induction l arbitrary: r rule: length_induct)
  case (1 l)
  show ?case
    unfolding compare_loop.simps [of x l r]
  proof (rule st.moves_bnd_val [OF moves_still_read_some])
    fix s a t assume a: "read_some x 65536 l s = (Ok a, t)"
    have "moves still (compare_loop x (snd a) q)" if "fst a \<noteq> []" for q
      using 1 read_some_shrinks [of x 65536 l s "fst a" "snd a" t] a that by simp
    then show "moves still (bnd (read_some x 65536 r) (\<lambda>b. if fst a \<noteq> fst b then ret False
        else if fst a = [] then ret True else compare_loop x (snd a) (snd b)))"
      by (intro still_intros moves_still_read_some) auto
  qed
qed

lemma moves_still_identical: "moves still (files_have_identical_contents x l r)"
  unfolding files_have_identical_contents_def
  by (intro still_intros moves_still_require_regular_file moves_still_handle_len moves_still_compare)

lemma moves_still_hash_checks:
  "moves still (blob_matches_plaintext_hash x cd p h timeout)" "moves still (require_plaintext_hash x cd p h timeout)"
  unfolding blob_matches_plaintext_hash_def require_plaintext_hash_def
  by (intro still_intros moves_still_sha256_plaintext)+

lemma moves_still_read_manifest_json: "moves still (read_manifest_json x p)"
  unfolding read_manifest_json_def by (intro still_all_intros)

lemma moves_still_plan_blob: "moves still (plan_blob x cd timeout sb db e bs)"
  unfolding plan_blob_def
  by (intro still_all_intros moves_still_require_regular_file moves_still_hash_checks)

lemma moves_still_build_plans: "moves still (build_replication_plans x cd timeout ix sm dm sb db)"
  unfolding build_replication_plans_def plan_version_def
  by (intro still_intros moves_still_require_regular_file moves_still_read_manifest_json moves_still_plan_blob)

lemma moves_still_artifacts: "moves still (validate_manifest_artifacts x cd timeout p br)"
  unfolding validate_manifest_artifacts_def validate_artifact_def
  by (intro still_all_intros moves_still_require_regular_file moves_still_read_manifest_json moves_still_hash_checks)

lemma moves_still_validate_plans: "moves still (validate_replication_plans x cd timeout sb db plans)"
  unfolding validate_replication_plans_def validate_plan_def
  by (intro still_intros moves_still_identical moves_still_artifacts)

lemma moves_still_read_index: "moves still (read_index x p)"
  unfolding read_index_def by (intro still_all_intros)

lemma moves_still_throttle: "moves still (throttle_new l)" "moves still (throttle_record k n)"
  unfolding throttle_new_def throttle_record_def Let_def by (intro still_intros)+

section \<open>Copying a file\<close>

context time_preorder
begin

lemma moves_copy_throttled:
  assumes "\<And>b. moves R (append_file t b)"
  shows "moves R (copy_throttled x t buf timeout start th tot h)"
proof (induction h arbitrary: th tot rule: length_induct)
  case (1 h)
  show ?case
    unfolding copy_throttled.simps [of x t buf timeout start th tot h]
  proof (rule moves_bnd [OF moves_still_step [OF moves_still_get_now]], rule moves_if, rule moves_throw)
    fix t0 show "moves R (bnd (read_some x buf h) (\<lambda>a. if fst a = [] then bnd sync_file (\<lambda>_. ret tot)
      else bnd (append_file t (fst a)) (\<lambda>_.
        bnd (case th of None \<Rightarrow> ret None | Some k \<Rightarrow> bnd (throttle_record k (length (fst a))) (\<lambda>k. ret (Some k))) (\<lambda>th.
        copy_throttled x t buf timeout start th (sat_add tot (length (fst a))) (snd a)))))"
    proof (rule moves_bnd_val [OF moves_still_step [OF moves_still_read_some]])
      fix s a u assume a: "read_some x buf h s = (Ok a, u)"
      have "moves R (copy_throttled x t buf timeout start th' n (snd a))" if "fst a \<noteq> []" for th' n
        using 1 read_some_shrinks [of x buf h s "fst a" "snd a" u] a that by simp
      then show "moves R (if fst a = [] then bnd sync_file (\<lambda>_. ret tot)
          else bnd (append_file t (fst a)) (\<lambda>_.
            bnd (case th of None \<Rightarrow> ret None | Some k \<Rightarrow> bnd (throttle_record k (length (fst a))) (\<lambda>k. ret (Some k))) (\<lambda>th.
            copy_throttled x t buf timeout start th (sat_add tot (length (fst a))) (snd a))))"
        by (auto intro!: moves_basic moves_case_option assms moves_still_step [OF moves_still_throttle(2)]
            moves_still_step [OF moves_still_sync_file])
    qed
  qed
qed

lemma moves_copy_stream:
  assumes "\<And>b. moves R (append_file t b)"
  shows "moves R (copy_stream_with_throttle x src t max_bps buf timeout start)"
  unfolding copy_stream_with_throttle_def
  by (intro moves_basic moves_case_option moves_copy_throttled assms moves_still_step [OF moves_still_throttle(1)]
      moves_still_prims [THEN moves_still_step])

end

lemma copy_file_unfold:
  assumes "parent_of dst = Some d"
  shows "copy_file_atomic x cfg src dst = bnd (create_dir_all d) (\<lambda>_. bnd (with_temp (x_temp x) d (\<lambda>t.
      bnd (bnd get_now (\<lambda>start.
        bnd (copy_stream_with_throttle x src t (cf_max_bytes_per_second cfg) (et_copy_buffer_bytes (cf_execution cfg))
          (secs (max (et_copy_timeout_seconds (cf_execution cfg)) 1)) start) (\<lambda>bytes.
        bnd sync_file (\<lambda>_. ret bytes)))) (\<lambda>bytes.
      bnd (persist t dst) (\<lambda>_. ret bytes)))) (\<lambda>bytes.
    bnd (sync_dir_best_effort d) (\<lambda>_. ret bytes)))"
  by (simp add: copy_file_atomic_def assms)

lemma moves_still_sync_best_effort: "moves still (sync_dir_best_effort p)"
  unfolding sync_dir_best_effort_def sync_dir_def by (intro still_intros)

lemma moves_within_copy:
  assumes "temp_ok x" and "target D p" and "p \<in> S"
  shows "moves (confined D S) (copy_file_atomic x cfg src p)"
proof -
  note T = targetD [OF assms(2)]
  show ?thesis
    unfolding copy_file_unfold [OF T(1)]
    by (intro wi.moves_bnd moves_within_create_dir_all moves_within_with_temp within_time.moves_copy_stream moves_within_append wi.moves_ret
        moves_still_within [OF moves_still_sync_best_effort] moves_still_within [OF moves_still_sync_file]
        moves_still_within [OF moves_still_get_now] moves_within_persist [where d = "butlast p"])
      (use assms T in \<open>auto simp: temp_ok_def temp_in_def\<close>)
qed

lemma touches_copy:
  assumes "temp_ok x" and "target D p" and "D \<in> Ds"
  shows "moves (touches Ds) (copy_file_atomic x cfg src p)"
proof -
  note T = targetD [OF assms(2)]
  show ?thesis
    unfolding copy_file_unfold [OF T(1)]
    by (intro tc.moves_bnd touches_create_dir_all touches_with_temp tc.moves_copy_stream touches_append tc.moves_ret
        tc.moves_still_step [OF moves_still_sync_best_effort] tc.moves_still_step [OF moves_still_sync_file]
        tc.moves_still_step [OF moves_still_get_now] touches_persist)
      (use assms T in \<open>auto simp: temp_ok_def temp_in_def\<close>)
qed

section \<open>Changes to the replica\<close>

text \<open>
  From a state without links in both stores: no link appears, and apart from temporary names only
  files of the given set change.
\<close>

definition replica_step :: "path \<Rightarrow> path \<Rightarrow> path set \<Rightarrow> world \<Rightarrow> world \<Rightarrow> bool" where
  "replica_step s d S w v \<longleftrightarrow> (tame s (fs w) \<longrightarrow> tame d (fs w) \<longrightarrow> tame s (fs v) \<and> tame d (fs v)
    \<and> (\<forall>q. q \<notin> S \<longrightarrow> \<not> temp_path q \<longrightarrow> file_at (fs v) q = file_at (fs w) q))"

interpretation rp: time_preorder "replica_step s d S" for s d S
  by unfold_locales (auto simp: replica_step_def still_def)

lemma moves_replica_step:
  assumes "moves (confined d S) m" and "moves (touches {s, d}) m"
  shows "moves (replica_step s d S) m"
proof (rule movesI)
  fix w r v assume m: "m w = (r, v)"
  from movesD [OF assms(1) m] movesD [OF assms(2) m] show "replica_step s d S w v"
    by (auto simp: replica_step_def confined_def touches_def tames_def tame_def)
qed

lemma replica_copy: "temp_ok x \<Longrightarrow> target d p \<Longrightarrow> p \<in> S \<Longrightarrow> moves (replica_step s d S) (copy_file_atomic x cfg src p)"
  by (intro moves_replica_step moves_within_copy touches_copy) auto

lemma replica_create_dir_all: "in_region d p \<Longrightarrow> moves (replica_step s d S) (create_dir_all p)"
  by (intro moves_replica_step moves_within_create_dir_all touches_create_dir_all) auto

lemma replica_remove_file: "in_region d p \<Longrightarrow> p \<in> S \<Longrightarrow> moves (replica_step s d S) (remove_file p)"
  by (intro moves_replica_step moves_within_remove_file touches_unlink) auto

lemma replica_mono: "moves (replica_step s d S) m \<Longrightarrow> S \<subseteq> T \<Longrightarrow> moves (replica_step s d T) m"
  by (erule moves_mono) (auto simp: replica_step_def)

section \<open>Plans\<close>

text \<open>A plan of the source \<open>n\<close>: the paths are those of the two stores.\<close>

definition plan_ok :: "ext \<Rightarrow> path \<Rightarrow> path \<Rightarrow> string \<Rightarrow> version_replication_plan \<Rightarrow> bool" where
  "plan_ok x s d n p \<longleftrightarrow> vp_src_manifest p = manifest_file s n (vp_version_id p) \<and> vp_dst_manifest p = manifest_file d n (vp_version_id p)
    \<and> (\<forall>b \<in> set (vp_blobs p). \<exists>h. bp_dst b = blob_file x d h)"

lemma plan_blobs_value:
  assumes "fold_act (plan_blob x cd timeout sb db) es bs w = (Ok bs', v)" and "\<forall>b \<in> set bs. \<exists>h. bp_dst b = blob_path x db h"
  shows "\<forall>b \<in> set bs'. \<exists>h. bp_dst b = blob_path x db h"
  using assms
proof (induction es arbitrary: bs w)
  case Nil
  then show ?case by (simp add: ret_def)
next
  case (Cons e es)
  from Cons.prems(1) obtain c u where c: "plan_blob x cd timeout sb db e bs w = (Ok c, u)"
    and r: "fold_act (plan_blob x cd timeout sb db) es c u = (Ok bs', v)" by (auto elim!: bnd_OkE)
  have "\<forall>b \<in> set c. \<exists>h. bp_dst b = blob_path x db h"
    using c Cons.prems(2) by (auto simp: plan_blob_def ret_Ok_iff split: if_splits option.splits elim!: bnd_OkE) blast
  from Cons.IH [OF r this] show ?case .
qed

lemma plan_versions_value:
  assumes "fold_act (plan_version x cd timeout (manifests_dir s n) (manifests_dir d n) sb (blobs_root (store_root d))) vs ps w = (Ok ps', v)"
    and "\<forall>p \<in> set ps. plan_ok x s d n p"
  shows "(\<forall>p \<in> set ps'. plan_ok x s d n p) \<and> map vp_version_id ps' = map vp_version_id ps @ map vi_id vs"
  using assms
proof (induction vs arbitrary: ps w)
  case Nil
  then show ?case by (simp add: ret_def)
next
  case (Cons i vs)
  from Cons.prems(1) obtain c u where c: "plan_version x cd timeout (manifests_dir s n) (manifests_dir d n) sb (blobs_root (store_root d)) i ps w = (Ok c, u)"
    and r: "fold_act (plan_version x cd timeout (manifests_dir s n) (manifests_dir d n) sb (blobs_root (store_root d))) vs c u = (Ok ps', v)"
    by (auto elim!: bnd_OkE)
  from c obtain m bs z where bs: "fold_act (plan_blob x cd timeout sb (blobs_root (store_root d))) (bt_values (mf_entries (m :: manifest))) [] z = (Ok bs, u)"
    and cc: "c = ps @ [\<lparr>vp_version_id = vi_id i, vp_src_manifest = manifest_file s n (vi_id i),
      vp_dst_manifest = manifest_file d n (vi_id i), vp_blobs = bs\<rparr>]"
    unfolding plan_version_def manifest_file_def manifest_path_def by (elim bnd_OkE) (auto simp: ret_Ok_iff)
  have "\<forall>p \<in> set c. plan_ok x s d n p"
    using plan_blobs_value [OF bs] Cons.prems(2) cc by (auto simp: plan_ok_def blob_file_def)
  from Cons.IH [OF r this] cc show ?case by simp
qed

section \<open>Before the index is published\<close>

definition artifact_files :: "ext \<Rightarrow> path \<Rightarrow> string \<Rightarrow> path set" where
  "artifact_files x d n = {q. (\<exists>v. q = manifest_file d n v) \<or> (\<exists>h. q = blob_file x d h) \<or> q = report_file d n}"

lemma replica_blob:
  assumes "temp_ok x" and "sha_ok x" and "good_path d" and "bp_dst b = blob_file x d h"
  shows "moves (replica_step s d (artifact_files x d n)) (replicate_blob x cfg cd b pair)"
proof -
  have "moves (replica_step s d (artifact_files x d n)) (copy_file_atomic x cfg src (bp_dst b))" for src
    unfolding assms(4) by (rule replica_copy [OF assms(1) target_blob [OF assms(2,3)]]) (auto simp: artifact_files_def)
  then show ?thesis
    unfolding replicate_blob_def
    by (intro rp.moves_bnd rp.moves_if rp.moves_ret rp.moves_still_step [OF moves_still_regular_file_state]
        moves_still_hash_checks [THEN rp.moves_still_step])
qed

lemma replica_version:
  assumes "temp_ok x" and "sha_ok x" and "good_path d" and "good_name n" and "plan_ok x s d n p" and "version_name (vp_version_id p)"
  shows "moves (replica_step s d (artifact_files x d n)) (replicate_version x cfg cd p pair)"
proof -
  have m: "vp_dst_manifest p = manifest_file d n (vp_version_id p)" using assms(5) by (simp add: plan_ok_def)
  have "moves (replica_step s d (artifact_files x d n)) (copy_file_atomic x cfg src (vp_dst_manifest p))" for src
    unfolding m by (rule replica_copy [OF assms(1) target_manifest [OF assms(3,4,6)]]) (auto simp: artifact_files_def)
  moreover have "moves (replica_step s d (artifact_files x d n)) (fold_act (replicate_blob x cfg cd) (vp_blobs p) a)" for a
    by (rule rp.moves_fold) (use assms(5) replica_blob [OF assms(1-3)] in \<open>auto simp: plan_ok_def\<close>)
  ultimately show ?thesis
    unfolding replicate_version_def
    by (intro rp.moves_bnd rp.moves_if rp.moves_ret rp.moves_still_step [OF moves_still_regular_file_state]
        rp.moves_still_step [OF moves_still_identical])
qed

lemma replica_report:
  assumes "temp_ok x" and "good_path d" and "good_name n"
  shows "moves (replica_step s d (artifact_files x d n)) (replicate_report x cfg src (report_file d n) pair)"
proof -
  have "moves (replica_step s d (artifact_files x d n)) (copy_file_atomic x cfg src (report_file d n))"
    by (rule replica_copy [OF assms(1) target_report [OF assms(2,3)]]) (auto simp: artifact_files_def)
  then show ?thesis
    unfolding replicate_report_def
    by (intro rp.moves_basic moves_case_sum rp.moves_still_step [OF moves_still_regular_file_state])
qed

section \<open>What the check before publication establishes\<close>

lemma compare_loop_true: "compare_loop x l r w = (Ok True, v) \<Longrightarrow> l = r"
proof (induction l arbitrary: r w rule: length_induct)
  case (1 l)
  from 1(2) obtain a b s t where a: "read_some x 65536 l w = (Ok a, s)" and b: "read_some x 65536 r s = (Ok b, t)"
    and k: "(if fst a \<noteq> fst b then ret False else if fst a = [] then ret True else compare_loop x (snd a) (snd b)) t = (Ok True, v)"
    unfolding compare_loop.simps [of x l r] by (elim bnd_OkE)
  obtain ca ra cb rb where ab: "a = (ca, ra)" "b = (cb, rb)" by fastforce
  have va: "l = ca @ ra" "ca = [] \<longleftrightarrow> l = []" and vb: "r = cb @ rb" "cb = [] \<longleftrightarrow> r = []"
    using read_some_value [OF a [unfolded ab]] read_some_value [OF b [unfolded ab]] by (simp_all only: zero_neq_numeral [symmetric] simp_thms)
  from k have e: "ca = cb" by (auto simp: ab ret_Ok_iff split: if_splits)
  show ?case
  proof (cases "ca = []")
    case True
    with va(2) vb(2) e show ?thesis by metis
  next
    case False
    with k e have c: "compare_loop x ra rb t = (Ok True, v)" by (simp add: ab)
    have "length ra < length l" by (rule read_some_shrinks [OF a [unfolded ab] False])
    with 1(1) c have "ra = rb" by blast
    then show ?thesis using va vb e by metis
  qed
qed

lemma identical_value:
  assumes "files_have_identical_contents x p q w = (Ok True, v)" and "tame D (fs w)" and "in_region D p" and "tame E (fs w)" and "in_region E q"
  shows "\<exists>raw. file_at (fs w) p = Some raw \<and> file_at (fs w) q = Some raw"
proof -
  from assms(1) obtain l r u1 u2 u3 u4 u5 u6 where 1: "require_regular_file p w = (Ok (), u1)" "require_regular_file q u1 = (Ok (), u2)"
    and l: "read_file p u2 = (Ok l, u3)" and r: "read_file q u3 = (Ok r, u4)" and c: "compare_loop x l r u5 = (Ok True, u6)"
    unfolding files_have_identical_contents_def by (auto simp: ret_Ok_iff split: if_splits elim!: bnd_OkE)
  have "still w u2" using movesD [OF moves_still_require_regular_file 1(1)] movesD [OF moves_still_require_regular_file 1(2)]
    by (rule st.step_trans)
  moreover have "still u2 u3" by (rule movesD [OF moves_still_prims(3) l])
  ultimately have fs: "fs u2 = fs w" "fs u3 = fs w" by (auto simp: still_def)
  have "file_at (fs w) p = Some l" using read_file_value [of D u2 p l] l assms(2,3) fs by simp
  moreover have "file_at (fs w) q = Some r" using read_file_value [of E u3 q r] r assms(4,5) fs by simp
  ultimately show ?thesis using compare_loop_true [OF c] by blast
qed

text \<open>All blobs of a manifest are there and decode to the recorded hashes.\<close>

definition entries_backed :: "ext \<Rightarrow> blob_codec \<Rightarrow> path \<Rightarrow> (path \<Rightarrow> bytes option) \<Rightarrow> manifest \<Rightarrow> bool" where
  "entries_backed x cd d f m \<longleftrightarrow> (\<forall>e \<in> set (bt_values (mf_entries m)). me_kind e = FileEntry \<longrightarrow>
    (\<forall>h. me_sha256 e = Some h \<longrightarrow> is_lower_hex_sha256 h \<and> (\<exists>b. f (blob_file x d h) = Some b \<and> holds_hash x cd h b)))"

lemma validate_artifact_value:
  assumes "validate_artifact x cd timeout (blobs_root (store_root d)) e w = (Ok (), v)" and "tame d (fs w)" and "sha_ok x" and "good_path d"
    and "me_kind e = FileEntry" and "me_sha256 e = Some h"
  shows "is_lower_hex_sha256 h \<and> (\<exists>b. file_at (fs w) (blob_file x d h) = Some b \<and> holds_hash x cd h b)"
proof -
  let ?p = "blob_file x d h"
  from assms(1,5,6) obtain u c where v: "is_lower_hex_sha256 h" and q: "require_regular_file ?p w = (Ok (), u)"
    and c: "sha256_plaintext_blob x cd ?p timeout u = (Ok h, v)"
    by (auto simp: validate_artifact_def require_plaintext_hash_def validate_blob_hash_def lift_Ok_iff ret_Ok_iff throw_def blob_file_def
        split: if_splits elim!: bnd_OkE)
  have u: "fs u = fs w" using movesD [OF moves_still_require_regular_file q] by (simp add: still_def)
  from sha256_plaintext_value [OF c] obtain raw pt t where r: "read_file ?p u = (Ok raw, t)"
    and "decode_blob x (cd_cipher cd) raw = Some pt" "h = sha256_hex x pt" by blast
  moreover have "file_at (fs w) ?p = Some raw"
    using read_file_value [of d u ?p raw] r targetD(4) [OF target_blob [OF assms(3,4)]] assms(2) u by simp
  ultimately show ?thesis using v by (auto simp: holds_hash_def)
qed

lemma for_each_value:
  assumes "for_each f xs w = (Ok (), v)" and "\<And>y. moves still (f y)"
  shows "\<forall>y \<in> set xs. \<exists>u u'. fs u = fs w \<and> f y u = (Ok (), u')"
  using assms(1)
proof (induction xs arbitrary: w)
  case (Cons y xs)
  from Cons.prems obtain u where y: "f y w = (Ok (), u)" and r: "for_each f xs u = (Ok (), v)"
    by (auto simp: for_each_def elim!: bnd_OkE)
  have "fs u = fs w" using movesD [OF assms(2) y] by (simp add: still_def)
  with Cons.IH [OF r] y show ?case by auto
qed simp

lemma validate_artifacts_value:
  assumes "validate_manifest_artifacts x cd timeout p (blobs_root (store_root d)) w = (Ok (), v)"
    and "tame d (fs w)" and "in_region d p" and "sha_ok x" and "good_path d"
  shows "\<exists>raw m. file_at (fs w) p = Some raw \<and> parse_manifest x raw = Some m \<and> entries_backed x cd d (file_at (fs w)) m"
proof -
  from assms(1) obtain raw m u1 u2 where q: "require_regular_file p w = (Ok (), u1)" and r: "read_file p u1 = (Ok raw, u2)"
    and m: "parse_manifest x raw = Some m" and f: "for_each (validate_artifact x cd timeout (blobs_root (store_root d))) (bt_values (mf_entries m)) u2 = (Ok (), v)"
    unfolding validate_manifest_artifacts_def read_manifest_json_def
    by (auto simp: throw_def ret_Ok_iff split: option.splits elim!: bnd_OkE)
  have fs: "fs u1 = fs w" "fs u2 = fs w"
    using movesD [OF moves_still_require_regular_file q] movesD [OF moves_still_prims(3) r] by (auto simp: still_def)
  have "moves still (validate_artifact x cd timeout (blobs_root (store_root d)) e)" for e
    unfolding validate_artifact_def by (intro still_all_intros moves_still_require_regular_file moves_still_hash_checks)
  note each = for_each_value [OF f this]
  have "is_lower_hex_sha256 h \<and> (\<exists>b. file_at (fs w) (blob_file x d h) = Some b \<and> holds_hash x cd h b)"
    if "e \<in> set (bt_values (mf_entries m))" and k: "me_kind e = FileEntry" "me_sha256 e = Some h" for e h
  proof -
    from each that(1) fs obtain u u' where u: "fs u = fs w" and a: "validate_artifact x cd timeout (blobs_root (store_root d)) e u = (Ok (), u')" by metis
    from validate_artifact_value [OF a _ assms(4,5) k] assms(2) u show ?thesis by simp
  qed
  moreover have "file_at (fs w) p = Some raw" using read_file_value [of d u1 p raw] r assms(2,3) fs by simp
  ultimately show ?thesis using m by (auto simp: entries_backed_def)
qed

text \<open>
  A version is on the replica: its manifest is the source's, and its blobs are there and sound.
\<close>

definition replicated :: "ext \<Rightarrow> blob_codec \<Rightarrow> path \<Rightarrow> path \<Rightarrow> string \<Rightarrow> (path \<Rightarrow> bytes option) \<Rightarrow> string \<Rightarrow> bool" where
  "replicated x cd s d n f v \<longleftrightarrow> (\<exists>raw m. f (manifest_file s n v) = Some raw \<and> f (manifest_file d n v) = Some raw
    \<and> parse_manifest x raw = Some m \<and> entries_backed x cd d f m)"

lemma validate_plans_value:
  assumes "validate_replication_plans x cd timeout sb (blobs_root (store_root d)) plans w = (Ok (), v)"
    and "tame s (fs w)" and "tame d (fs w)" and "sha_ok x" and "good_path s" and "good_path d" and "good_name n"
    and "p \<in> set plans" and "plan_ok x s d n p" and "version_name (vp_version_id p)"
  shows "replicated x cd s d n (file_at (fs w)) (vp_version_id p)"
proof -
  let ?v = "vp_version_id p"
  have "moves still (validate_plan x cd timeout sb (blobs_root (store_root d)) q)" for q
    unfolding validate_plan_def by (intro still_intros moves_still_identical moves_still_artifacts)
  from for_each_value [OF assms(1) [unfolded validate_replication_plans_def] this] assms(8) obtain u u' where
    u: "fs u = fs w" and "validate_plan x cd timeout sb (blobs_root (store_root d)) p u = (Ok (), u')" by metis
  then obtain u1 u2 where i: "files_have_identical_contents x (manifest_file s n ?v) (manifest_file d n ?v) u = (Ok True, u1)"
    and a: "validate_manifest_artifacts x cd timeout (manifest_file d n ?v) (blobs_root (store_root d)) u2 = (Ok (), u')"
    and u2: "fs u2 = fs u1"
    using assms(9) movesD [OF moves_still_artifacts]
    by (auto simp: validate_plan_def plan_ok_def throw_def still_def split: if_splits elim!: bnd_OkE)
  have u1: "fs u1 = fs w" using movesD [OF moves_still_identical i] u by (simp add: still_def)
  have r: "in_region s (manifest_file s n ?v)" "in_region d (manifest_file d n ?v)"
    using targetD(4) [OF target_manifest [OF assms(5,7,10)]] targetD(4) [OF target_manifest [OF assms(6,7,10)]] by auto
  from identical_value [OF i _ r(1) _ r(2)] assms(2,3) u obtain raw where
    raw: "file_at (fs w) (manifest_file s n ?v) = Some raw" "file_at (fs w) (manifest_file d n ?v) = Some raw" by auto
  from validate_artifacts_value [OF a _ r(2) assms(4,6)] assms(3) u1 u2 raw show ?thesis
    by (auto simp: replicated_def)
qed

section \<open>Copying the index\<close>

definition both :: "path \<Rightarrow> path \<Rightarrow> (path \<Rightarrow> bytes option) \<Rightarrow> world \<Rightarrow> bool" where
  "both s d f w \<longleftrightarrow> sees d f w \<and> tame s (fs w)"

lemma stable_both [simp]: "stable (both s d f)"
  unfolding both_def by (intro stable_conj stable_sees stable_fs)

lemma both_step: "both s d f w \<Longrightarrow> replica_step s d {} w v \<Longrightarrow> both s d f v"
  by (auto simp: both_def sees_def replica_step_def)

lemma triple_copy_throttled:
  assumes "temp_in d b t" and "buf \<noteq> 0"
  shows "triple (sees_temp d f t c) (copy_throttled x t buf timeout start th tot h) (\<lambda>_. sees_temp d f t (c @ h)) (sees d f)"
proof (induction h arbitrary: c th tot rule: length_induct)
  case (1 h)
  note still = triple_conseq [OF triple_still [OF stable_sees_temp [of d f t]]]
  have st: "triple (sees_temp d f t c) m (\<lambda>_. sees_temp d f t c) (sees d f)" if "moves still m" for m :: "'a io" and c
    by (rule still [OF that]) (auto simp: sees_temp_def)
  have rd: "triple (sees_temp d f t c) (read_some x buf h)
      (\<lambda>a w. (h = fst a @ snd a \<and> length (fst a) \<le> buf \<and> (fst a = [] \<longleftrightarrow> buf = 0 \<or> h = [])) \<and> sees_temp d f t c w) (sees d f)"
    by (rule triple_conseq [OF triple_read_some [OF stable_sees_temp]]) (auto simp: sees_temp_def)
  show ?case
    unfolding copy_throttled.simps [of x t buf timeout start th tot h]
  proof (rule triple_bnd [OF st [OF moves_still_get_now]], rule triple_if)
    show "triple (sees_temp d f t c) (throw e) (\<lambda>_. sees_temp d f t (c @ h)) (sees d f)" for e
      by (rule triple_throw) (simp add: sees_temp_def)
    show "triple (sees_temp d f t c) (bnd (read_some x buf h) (\<lambda>a. if fst a = [] then bnd sync_file (\<lambda>_. ret tot)
      else bnd (append_file t (fst a)) (\<lambda>_.
        bnd (case th of None \<Rightarrow> ret None | Some k \<Rightarrow> bnd (throttle_record k (length (fst a))) (\<lambda>k. ret (Some k))) (\<lambda>th.
        copy_throttled x t buf timeout start th (sat_add tot (length (fst a))) (snd a))))) (\<lambda>_. sees_temp d f t (c @ h)) (sees d f)"
    proof (rule triple_bnd [OF rd], rule triple_pull)
      fix a :: "bytes \<times> bytes" assume a: "h = fst a @ snd a \<and> length (fst a) \<le> buf \<and> (fst a = [] \<longleftrightarrow> buf = 0 \<or> h = [])"
      show "triple (sees_temp d f t c) (if fst a = [] then bnd sync_file (\<lambda>_. ret tot)
        else bnd (append_file t (fst a)) (\<lambda>_.
          bnd (case th of None \<Rightarrow> ret None | Some k \<Rightarrow> bnd (throttle_record k (length (fst a))) (\<lambda>k. ret (Some k))) (\<lambda>th.
          copy_throttled x t buf timeout start th (sat_add tot (length (fst a))) (snd a)))) (\<lambda>_. sees_temp d f t (c @ h)) (sees d f)"
      proof (rule triple_if)
        assume "fst a = []"
        with a assms(2) have h: "h = []" by blast
        show "triple (sees_temp d f t c) (bnd sync_file (\<lambda>_. ret tot)) (\<lambda>_. sees_temp d f t (c @ h)) (sees d f)"
          by (rule triple_conseq [OF st [of "bnd sync_file (\<lambda>_. ret tot)"]])
            (auto simp: h intro!: still_intros moves_still_sync_file)
      next
        assume ne: "fst a \<noteq> []"
        have lt: "length (snd a) < length h" using a ne by (metis length_append length_greater_0_conv less_add_same_cancel2)
        have ap: "triple (sees_temp d f t c) (append_file t (fst a)) (\<lambda>_. sees_temp d f t (c @ fst a)) (sees d f)"
          by (rule triple_append_temp [OF assms(1)])
        have thr: "moves still (case th of None \<Rightarrow> ret None | Some k \<Rightarrow> bnd (throttle_record k (length (fst a))) (\<lambda>k. ret (Some k)))"
          by (intro still_all_intros moves_still_throttle)
        have e: "c @ h = (c @ fst a) @ snd a" using a by (metis append.assoc)
        show "triple (sees_temp d f t c) (bnd (append_file t (fst a)) (\<lambda>_.
            bnd (case th of None \<Rightarrow> ret None | Some k \<Rightarrow> bnd (throttle_record k (length (fst a))) (\<lambda>k. ret (Some k))) (\<lambda>th.
            copy_throttled x t buf timeout start th (sat_add tot (length (fst a))) (snd a)))) (\<lambda>_. sees_temp d f t (c @ h)) (sees d f)"
          unfolding e by (rule triple_bnd [OF ap], rule triple_bnd [OF st [OF thr]], rule 1 [rule_format, OF lt])
      qed
    qed
  qed
qed

definition has_copy :: "path \<Rightarrow> (path \<Rightarrow> bytes option) \<Rightarrow> path \<Rightarrow> path \<Rightarrow> world \<Rightarrow> bool" where
  "has_copy d f src p w \<longleftrightarrow> replaced d f p (\<lambda>b. f src = Some b) w"

lemma stable_drafting: "stable (\<lambda>w. sees_temp d f t c w \<and> tame s (fs w))"
  by (intro stable_conj stable_sees_temp stable_fs)

lemma triple_copy_stream:
  assumes "temp_in d b t" and "in_region s src" and "\<not> temp_path src"
  shows "triple (\<lambda>w. sees_temp d f t [] w \<and> tame s (fs w)) (copy_stream_with_throttle x src t max_bps buf timeout start)
    (\<lambda>_ w. \<exists>c. f src = Some c \<and> sees_temp d f t c w) (sees d f)"
  unfolding copy_stream_with_throttle_def
proof (rule triple_if)
  assume buf: "buf \<noteq> 0"
  have rd: "triple (\<lambda>w. sees_temp d f t [] w \<and> tame s (fs w)) (read_file src)
      (\<lambda>h w. f src = Some h \<and> sees_temp d f t [] w) (sees d f)"
    by (rule triple_conseq [OF triple_read_file [OF stable_drafting _ assms(2)]])
      (use assms(3) in \<open>auto simp: sees_temp_def sees_def\<close>)
  show "triple (\<lambda>w. sees_temp d f t [] w \<and> tame s (fs w)) (bnd (read_file src) (\<lambda>h.
      bnd (case max_bps of None \<Rightarrow> ret None | Some l \<Rightarrow> bnd (throttle_new l) (\<lambda>k. ret (Some k))) (\<lambda>th.
      copy_throttled x t buf timeout start th 0 h))) (\<lambda>_ w. \<exists>c. f src = Some c \<and> sees_temp d f t c w) (sees d f)"
  proof (rule triple_bnd [OF rd], rule triple_pull)
    fix h assume h: "f src = Some h"
    have "moves still (case max_bps of None \<Rightarrow> ret None | Some l \<Rightarrow> bnd (throttle_new l) (\<lambda>k. ret (Some k)))"
      by (intro still_all_intros moves_still_throttle)
    then have "triple (sees_temp d f t []) (case max_bps of None \<Rightarrow> ret None | Some l \<Rightarrow> bnd (throttle_new l) (\<lambda>k. ret (Some k)))
        (\<lambda>_. sees_temp d f t []) (sees d f)"
      by (rule triple_conseq [OF triple_still [OF stable_sees_temp]]) (auto simp: sees_temp_def)
    moreover have "triple (sees_temp d f t []) (copy_throttled x t buf timeout start th 0 h)
        (\<lambda>_ w. \<exists>c. f src = Some c \<and> sees_temp d f t c w) (sees d f)" for th
      by (rule triple_conseq [OF triple_copy_throttled [OF assms(1) buf, of f "[]"]]) (use h in auto)
    ultimately show "triple (sees_temp d f t []) (bnd (case max_bps of None \<Rightarrow> ret None | Some l \<Rightarrow> bnd (throttle_new l) (\<lambda>k. ret (Some k))) (\<lambda>th.
        copy_throttled x t buf timeout start th 0 h)) (\<lambda>_ w. \<exists>c. f src = Some c \<and> sees_temp d f t c w) (sees d f)"
      by (rule triple_bnd)
  qed
qed (rule triple_throw, simp add: sees_temp_def)

lemma triple_copy_body:
  assumes t: "temp_in d (butlast p) t" and "in_region s src" and "\<not> temp_path src" and "target d p"
  shows "triple (\<lambda>w. sees_temp d f t [] w \<and> tame s (fs w))
    (bnd (bnd get_now (\<lambda>start. bnd (copy_stream_with_throttle x src t max_bps buf timeout start) (\<lambda>bytes. bnd sync_file (\<lambda>_. ret bytes)))) (\<lambda>bytes.
      bnd (persist t p) (\<lambda>_. ret bytes))) (\<lambda>_. has_copy d f src p) (\<lambda>w. sees d f w \<or> has_copy d f src p w)"
proof (rule triple_bnd)
  let ?D = "\<lambda>w. \<exists>c. f src = Some c \<and> sees_temp d f t c w"
  have stD: "stable ?D" by (intro stable_ex stable_conj stable_const stable_sees_temp)
  have sync: "triple ?D (bnd sync_file (\<lambda>_. ret bytes)) (\<lambda>_. ?D) (sees d f)" for bytes :: nat
    by (rule triple_conseq [OF triple_still [OF stD, of "bnd sync_file (\<lambda>_. ret bytes)"]])
      (auto simp: sees_temp_def intro!: still_intros moves_still_sync_file)
  have nowt: "triple (\<lambda>w. sees_temp d f t [] w \<and> tame s (fs w)) get_now (\<lambda>_ w. sees_temp d f t [] w \<and> tame s (fs w)) (sees d f)"
    by (rule triple_get_now [OF stable_drafting])
  have "triple (\<lambda>w. sees_temp d f t [] w \<and> tame s (fs w)) (bnd get_now (\<lambda>start. bnd (copy_stream_with_throttle x src t max_bps buf timeout start)
      (\<lambda>bytes. bnd sync_file (\<lambda>_. ret bytes)))) (\<lambda>_. ?D) (sees d f)"
    by (rule triple_bnd [OF nowt], rule triple_bnd [OF triple_copy_stream [OF t assms(2,3)]], rule sync)
  then show "triple (\<lambda>w. sees_temp d f t [] w \<and> tame s (fs w)) (bnd get_now (\<lambda>start. bnd (copy_stream_with_throttle x src t max_bps buf timeout start)
      (\<lambda>bytes. bnd sync_file (\<lambda>_. ret bytes)))) (\<lambda>_. ?D) (\<lambda>w. sees d f w \<or> has_copy d f src p w)"
    by (rule triple_conseq) auto
  note T = targetD [OF assms(4)]
  have "triple ?D (persist t p) (\<lambda>_. has_copy d f src p) (\<lambda>w. sees d f w \<or> has_copy d f src p w)"
    by (rule triple_conseq [OF triple_persist [OF t T(4,6), where B = "\<lambda>b. f src = Some b"]]) (auto simp: has_copy_def)
  then show "triple ?D (bnd (persist t p) (\<lambda>_. ret bytes)) (\<lambda>_. has_copy d f src p) (\<lambda>w. sees d f w \<or> has_copy d f src p w)" for bytes :: nat
    by (rule triple_bnd) (auto intro: triple_ret)
qed

lemma triple_copy_file:
  assumes "temp_ok x" and "target d p" and "in_region s src" and "\<not> temp_path src"
  shows "triple (both s d f) (copy_file_atomic x cfg src p) (\<lambda>_. has_copy d f src p) (\<lambda>w. sees d f w \<or> has_copy d f src p w)"
proof -
  let ?E = "\<lambda>w. sees d f w \<or> has_copy d f src p w"
  note T = targetD [OF assms(2)]
  have tn: "temp_namer_ok (x_temp x)" using assms(1) by (simp add: temp_ok_def)
  have dirs: "triple (both s d f) (create_dir_all (butlast p)) (\<lambda>_. both s d f) ?E"
  proof -
    have "triple (both s d f) (create_dir_all (butlast p)) (\<lambda>_. both s d f) (both s d f)"
      by (rule triple_moves [OF replica_create_dir_all [OF T(5)]]) (rule both_step)
    then show ?thesis by (rule triple_conseq) (auto simp: both_def)
  qed
  have new: "triple (both s d f) (call (f_new_temp (x_temp x) (butlast p)))
      (\<lambda>t w. temp_in d (butlast p) t \<and> (sees_temp d f t [] w \<and> tame s (fs w))) ?E"
  proof -
    have "triple (both s d f) (call (f_new_temp (x_temp x) (butlast p))) (\<lambda>_ w. tame s (fs w)) (\<lambda>_. True)"
    proof (rule triple_conseq [OF triple_moves])
      show "moves (touches {s, d}) (call (f_new_temp (x_temp x) (butlast p)))"
        by (rule touches_new_temp [where D = d, OF tn _ T(2,3)]) simp
      show "tame s (fs v)" if "both s d f w" and "touches {s, d} w v" for w v
        using that by (auto simp: both_def sees_def touches_def tames_def tame_def)
    qed auto
    moreover have "triple (both s d f) (call (f_new_temp (x_temp x) (butlast p))) (\<lambda>t w. temp_in d (butlast p) t \<and> sees_temp d f t [] w) (sees d f)"
      by (rule triple_conseq [OF triple_new_temp [OF tn T(2,3), of f]]) (auto simp: both_def)
    ultimately have "triple (both s d f) (call (f_new_temp (x_temp x) (butlast p)))
        (\<lambda>t w. tame s (fs w) \<and> temp_in d (butlast p) t \<and> sees_temp d f t [] w) (\<lambda>w. True \<and> sees d f w)"
      by (rule triple_conj)
    then show ?thesis by (rule triple_conseq) auto
  qed
  have "stable (has_copy d f src p)" unfolding has_copy_def by (rule stable_replaced)
  then have post: "triple (has_copy d f src p) (bnd (sync_dir_best_effort (butlast p)) (\<lambda>_. ret bytes)) (\<lambda>_. has_copy d f src p) ?E" for bytes :: nat
    by (rule triple_conseq [OF triple_still [where m = "bnd (sync_dir_best_effort (butlast p)) (\<lambda>_. ret bytes)"]])
      (auto intro!: still_intros moves_still_sync_best_effort)
  have temp: "triple (both s d f) (with_temp (x_temp x) (butlast p) (\<lambda>t. bnd (bnd get_now (\<lambda>start.
        bnd (copy_stream_with_throttle x src t max_bps buf timeout start) (\<lambda>bytes. bnd sync_file (\<lambda>_. ret bytes)))) (\<lambda>bytes.
      bnd (persist t p) (\<lambda>_. ret bytes)))) (\<lambda>_. has_copy d f src p) ?E" for max_bps buf timeout
    unfolding with_temp_def
  proof (rule triple_bnd [OF new], rule triple_pull)
    fix t assume t: "temp_in d (butlast p) t"
    show "triple (\<lambda>w. sees_temp d f t [] w \<and> tame s (fs w)) (bnd (attempt (bnd (bnd get_now (\<lambda>start.
        bnd (copy_stream_with_throttle x src t max_bps buf timeout start) (\<lambda>bytes. bnd sync_file (\<lambda>_. ret bytes)))) (\<lambda>bytes.
      bnd (persist t p) (\<lambda>_. ret bytes)))) (\<lambda>r. case r of Inr a \<Rightarrow> ret a | Inl e \<Rightarrow> bnd (attempt (remove_file t)) (\<lambda>_. throw e)))
      (\<lambda>_. has_copy d f src p) ?E"
    proof (rule triple_try [OF triple_copy_body [OF t assms(3,4,2)]])
      show "triple ?E (bnd (attempt (remove_file t)) (\<lambda>_. throw e)) (\<lambda>_. has_copy d f src p) ?E" for e
        by (rule triple_discard [OF t]) (use sees_within replaced_within in \<open>auto simp: has_copy_def\<close>)
    qed (auto intro: triple_ret)
  qed
  show ?thesis
    unfolding copy_file_unfold [OF T(1)] by (rule triple_bnd [OF dirs], rule triple_bnd [OF temp], rule post)
qed

end
