(* ===== verification/Replication_Theorems.thy ===== *)
theory Replication_Theorems
  imports Replication_Laws Backup_Theorems
begin

text \<open>
  Publication on a replica: whenever the index of a source on the replica is replaced, every version it
  lists is there, with the manifest of the source and sound blobs; whatever fails and wherever the
  process dies.
\<close>

section \<open>Mirroring deletions\<close>

text \<open>A walk of one directory yields entries of this directory.\<close>

definition walk_flat_ok :: "ext \<Rightarrow> bool" where
  "walk_flat_ok x \<longleftrightarrow> (\<forall>w p q m. WalkEntry q m \<in> set (x_walk_flat x w p) \<longrightarrow> (\<exists>c. q = p @ [c] \<and> CHR ''/'' \<notin> set c))"

definition mirrored_files :: "path \<Rightarrow> string \<Rightarrow> string list \<Rightarrow> path set" where
  "mirrored_files d n keep = {manifests_dir d n @ [c] | c. trim_json c \<notin> set keep}"

lemma trim_json_version: "version_name v \<Longrightarrow> trim_json (json_name v) = v"
proof -
  assume v: "version_name v"
  have "\<not> suffix ''.json'' v" using version_name_chars [OF v] by (auto simp: suffix_def)
  then have "trim_json v = v" by (subst trim_json.simps) simp
  then show ?thesis by (subst trim_json.simps) (simp add: json_name_def suffix_def)
qed

lemma kept_not_mirrored: "version_name v \<Longrightarrow> v \<in> set keep \<Longrightarrow> manifest_file d n v \<notin> mirrored_files d n keep"
  by (auto simp: mirrored_files_def manifest_file_def manifest_path_def trim_json_version)

lemma others_not_mirrored:
  "index_file d' n' \<notin> mirrored_files d n keep" "blob_file x d n' \<notin> mirrored_files d n keep"
  by (auto simp: mirrored_files_def layout_defs blob_path_def)

lemma moves_replica_mirror:
  assumes "walk_flat_ok x" and "good_path d" and "good_name n"
  shows "moves (replica_step s d (mirrored_files d n (map vi_id (vx_versions ix)))) (mirror_manifest_deletions x cfg ix (manifests_dir d n))"
proof -
  let ?keep = "map vi_id (vx_versions ix)"
  let ?R = "replica_step s d (mirrored_files d n ?keep)"
  have entry: "moves ?R (mirror_entry ?keep item a)" if "item \<in> set (x_walk_flat x w (manifests_dir d n))" for item a w
  proof (cases item)
    case (WalkEntry q m)
    with that assms(1) obtain c where c: "q = manifests_dir d n @ [c]" "CHR ''/'' \<notin> set c"
      unfolding walk_flat_ok_def by blast
    have "moves ?R (remove_file q)" if "suffix ''.json'' c" and "trim_json c \<notin> set ?keep"
    proof (rule replica_remove_file)
      have "good_name c" using that c(2) by (auto simp: good_name_def suffix_def)
      then show "in_region d q" using assms(2,3) good_src_dir [OF assms(2,3)] prefix_store(1) [of d n]
        by (simp add: c in_region_def manifests_dir_def good_name_def)
      show "q \<in> mirrored_files d n ?keep" using that c by (auto simp: mirrored_files_def)
    qed
    then show ?thesis
      unfolding mirror_entry_def WalkEntry by (cases a) (auto simp: c intro!: rp.moves_basic)
  qed (cases a, auto simp: mirror_entry_def intro!: rp.moves_basic)
  have "moves ?R (bnd (walk_flat x (manifests_dir d n)) (\<lambda>items. bnd (fold_act (mirror_entry ?keep) items a) (\<lambda>(k, _, _). ret k)))" for a
  proof (rule rp.moves_bnd_val)
    show "moves ?R (walk_flat x (manifests_dir d n))" by (rule movesI) (auto simp: walk_flat_def rp.step_refl)
    fix w items v assume "walk_flat x (manifests_dir d n) w = (Ok items, v)"
    then have "items = x_walk_flat x w (manifests_dir d n)" by (auto simp: walk_flat_def)
    then show "moves ?R (bnd (fold_act (mirror_entry ?keep) items a) (\<lambda>(k, _, _). ret k))"
      by (intro rp.moves_bnd rp.moves_fold) (auto intro!: entry rp.moves_ret split: prod.splits)
  qed
  then show ?thesis
    unfolding mirror_manifest_deletions_def Let_def
    by (intro rp.moves_if rp.moves_ret rp.moves_bnd [OF rp.moves_still_step [OF moves_still_prims(1)]])
qed

section \<open>Publication\<close>

text \<open>What may change on the replica, and what a published index means.\<close>

definition replica_files :: "ext \<Rightarrow> path \<Rightarrow> string \<Rightarrow> path set" where
  "replica_files x d n = {q. prefix (src_dir d n) q \<or> (\<exists>h. q = blob_file x d h)}"

definition replica_published :: "ext \<Rightarrow> blob_codec \<Rightarrow> path \<Rightarrow> path \<Rightarrow> string \<Rightarrow> (path \<Rightarrow> bytes option) \<Rightarrow> (path \<Rightarrow> bytes option) \<Rightarrow> bool" where
  "replica_published x cd s d n f g \<longleftrightarrow> (\<exists>raw ix. f (index_file s n) = Some raw \<and> g (index_file d n) = Some raw \<and> parse_index x raw = Some ix
    \<and> (\<forall>v \<in> set (version_ids ix). replicated x cd s d n g v))"

definition unpublished_or_complete :: "ext \<Rightarrow> blob_codec \<Rightarrow> path \<Rightarrow> path \<Rightarrow> string \<Rightarrow> (path \<Rightarrow> bytes option) \<Rightarrow> world \<Rightarrow> bool" where
  "unpublished_or_complete x cd s d n f w \<longleftrightarrow> (\<forall>q. q \<notin> replica_files x d n \<longrightarrow> \<not> temp_path q \<longrightarrow> file_at (fs w) q = f q)
    \<and> (file_at (fs w) (index_file d n) = f (index_file d n) \<or> replica_published x cd s d n f (file_at (fs w)))"

lemma artifacts_in_replica: "artifact_files x d n \<subseteq> replica_files x d n"
  by (auto simp: artifact_files_def replica_files_def manifest_file_def manifest_path_def manifests_dir_def report_file_def)

lemma index_not_artifact: "index_file d' n \<notin> artifact_files x d n"
  by (auto simp: artifact_files_def layout_defs blob_path_def)

lemma mirrored_in_replica: "mirrored_files d n keep \<subseteq> replica_files x d n"
  by (auto simp: mirrored_files_def replica_files_def manifests_dir_def)

lemma replica_files_prefix: "q \<in> replica_files x d n \<Longrightarrow> prefix d q"
  by (auto simp: replica_files_def layout_defs blob_path_def prefix_def)

lemma apart_not_replica:
  assumes "\<not> prefix s d" and "\<not> prefix d s" and "prefix s q"
  shows "q \<notin> replica_files x d n"
  using assms replica_files_prefix prefix_same_cases by blast

lemma source_files_prefix: "prefix s (index_file s n)" "prefix s (manifest_file s n v)"
  by (auto simp: layout_defs)

lemma replicated_cong:
  assumes "replicated x cd s d n f v" and "g (manifest_file s n v) = f (manifest_file s n v)"
    and "g (manifest_file d n v) = f (manifest_file d n v)" and "\<And>h. g (blob_file x d h) = f (blob_file x d h)"
  shows "replicated x cd s d n g v"
  using assms by (auto simp: replicated_def entries_backed_def)

text \<open>The situation: two stores apart from each other, with the libraries as documented.\<close>

definition pair_ok :: "ext \<Rightarrow> path \<Rightarrow> path \<Rightarrow> string \<Rightarrow> bool" where
  "pair_ok x s d n \<longleftrightarrow> temp_ok x \<and> sha_ok x \<and> walk_flat_ok x \<and> good_path s \<and> good_path d \<and> good_name n \<and> \<not> prefix s d \<and> \<not> prefix d s"

definition copying :: "ext \<Rightarrow> path \<Rightarrow> path \<Rightarrow> string \<Rightarrow> (path \<Rightarrow> bytes option) \<Rightarrow> world \<Rightarrow> bool" where
  "copying x s d n f w \<longleftrightarrow> tame s (fs w) \<and> tame d (fs w)
    \<and> (\<forall>q. q \<notin> artifact_files x d n \<longrightarrow> \<not> temp_path q \<longrightarrow> file_at (fs w) q = f q)"

lemma stable_copying: "stable (copying x s d n f)"
  unfolding copying_def by (rule stable_fs)

lemma copying_step: "copying x s d n f w \<Longrightarrow> replica_step s d (artifact_files x d n) w v \<Longrightarrow> copying x s d n f v"
  by (auto simp: copying_def replica_step_def)

lemma target_nontemp: "target D p \<Longrightarrow> \<not> temp_path p"
  by (simp add: target_def)

lemma copying_unpublished:
  assumes "pair_ok x s d n" and "copying x s d n f w"
  shows "unpublished_or_complete x cd s d n f w"
proof -
  have "\<not> temp_path (index_file d n)" using assms(1) target_nontemp [OF target_index] by (simp add: pair_ok_def)
  then show ?thesis
    using assms(2) artifacts_in_replica [of x d n] index_not_artifact [of d n x d]
    by (auto simp: unpublished_or_complete_def copying_def)
qed

text \<open>The index has been copied and every listed version is there.\<close>

definition replica_complete :: "ext \<Rightarrow> blob_codec \<Rightarrow> path \<Rightarrow> path \<Rightarrow> string \<Rightarrow> (path \<Rightarrow> bytes option) \<Rightarrow> bytes \<Rightarrow> version_index \<Rightarrow> world \<Rightarrow> bool" where
  "replica_complete x cd s d n f raw ix w \<longleftrightarrow> tame s (fs w) \<and> tame d (fs w) \<and> file_at (fs w) (index_file d n) = Some raw
    \<and> (\<forall>v \<in> set (version_ids ix). replicated x cd s d n (file_at (fs w)) v)
    \<and> (\<forall>q. q \<notin> replica_files x d n \<longrightarrow> \<not> temp_path q \<longrightarrow> file_at (fs w) q = f q)"

lemma replica_complete_published:
  "replica_complete x cd s d n f raw ix w \<Longrightarrow> f (index_file s n) = Some raw \<Longrightarrow> parse_index x raw = Some ix \<Longrightarrow>
    replica_published x cd s d n f (file_at (fs w)) \<and> unpublished_or_complete x cd s d n f w"
  by (auto simp: replica_complete_def replica_published_def unpublished_or_complete_def)

lemma replica_complete_mirror_step:
  assumes "pair_ok x s d n" and "validate_version_index ix = Inr ()" and "replica_complete x cd s d n f raw ix w"
    and "replica_step s d (mirrored_files d n (map vi_id (vx_versions ix))) w v"
  shows "replica_complete x cd s d n f raw ix v"
proof -
  let ?M = "mirrored_files d n (map vi_id (vx_versions ix))"
  have ok: "temp_ok x" "sha_ok x" "good_path s" "good_path d" "good_name n" "\<not> prefix s d" "\<not> prefix d s"
    using assms(1) by (auto simp: pair_ok_def)
  have t: "tame s (fs v)" "tame d (fs v)" using assms(3,4) by (auto simp: replica_complete_def replica_step_def)
  have same: "file_at (fs v) q = file_at (fs w) q" if "q \<notin> ?M" and "\<not> temp_path q" for q
    using assms(3,4) that by (auto simp: replica_complete_def replica_step_def)
  have "replicated x cd s d n (file_at (fs v)) i" if i: "i \<in> set (version_ids ix)" for i
  proof (rule replicated_cong)
    note vn = valid_ids [OF assms(2) i]
    show "replicated x cd s d n (file_at (fs w)) i" using assms(3) i by (simp add: replica_complete_def)
    have "manifest_file s n i \<notin> ?M"
      using apart_not_replica [OF ok(6,7) source_files_prefix(2)] mirrored_in_replica by blast
    then show "file_at (fs v) (manifest_file s n i) = file_at (fs w) (manifest_file s n i)"
      using same target_nontemp [OF target_manifest [OF ok(3,5) vn]] by blast
    show "file_at (fs v) (manifest_file d n i) = file_at (fs w) (manifest_file d n i)"
      using same [OF kept_not_mirrored [OF vn]] target_nontemp [OF target_manifest [OF ok(4,5) vn]] i
      by (simp add: version_ids_def)
    show "file_at (fs v) (blob_file x d h) = file_at (fs w) (blob_file x d h)" for h
      using same [OF others_not_mirrored(2)] target_nontemp [OF target_blob [OF ok(2,4)]] by blast
  qed
  moreover have "file_at (fs v) (index_file d n) = file_at (fs w) (index_file d n)"
    using same [OF others_not_mirrored(1)] target_nontemp [OF target_index [OF ok(4,5)]] by blast
  moreover have "file_at (fs v) q = f q" if "q \<notin> replica_files x d n" and "\<not> temp_path q" for q
    using same [of q] that mirrored_in_replica [of d n _ x] assms(3) by (auto simp: replica_complete_def)
  ultimately show ?thesis using assms(3) t by (simp add: replica_complete_def)
qed

lemma triple_publish_index:
  assumes ok: "pair_ok x s d n" and valid: "validate_version_index ix = Inr ()" and raw: "f (index_file s n) = Some raw"
    and ix: "parse_index x raw = Some ix"
  shows "triple (\<lambda>w. copying x s d n f w \<and> (\<forall>v \<in> set (version_ids ix). replicated x cd s d n (file_at (fs w)) v))
    (copy_file_atomic x cfg (index_file s n) (index_file d n)) (\<lambda>_. replica_complete x cd s d n f raw ix) (unpublished_or_complete x cd s d n f)"
proof -
  have o: "temp_ok x" "sha_ok x" "good_path s" "good_path d" "good_name n" "\<not> prefix s d" "\<not> prefix d s"
    using ok by (auto simp: pair_ok_def)
  have tgt: "target d (index_file d n)" "target s (index_file s n)" using o target_index by auto
  have apart: "index_file s n \<noteq> index_file d n" "manifest_file s n v \<noteq> index_file d n" for v
    using apart_not_replica [OF o(6,7) source_files_prefix(1), of n x n] apart_not_replica [OF o(6,7) source_files_prefix(2), of n v x n]
    by (auto simp: replica_files_def index_file_def)
  note nontemp = target_nontemp [OF tgt(1)] target_nontemp [OF tgt(2)] target_nontemp [OF target_blob [OF o(2,4)]]
  have src: "index_file s n \<notin> artifact_files x d n" by (rule index_not_artifact)
  have fin: "replica_complete x cd s d n f raw ix v"
    if g: "\<forall>q. q \<notin> artifact_files x d n \<longrightarrow> \<not> temp_path q \<longrightarrow> g q = f q" and r: "\<forall>i \<in> set (version_ids ix). replicated x cd s d n g i"
      and h: "has_copy d g (index_file s n) (index_file d n) v" and t: "tame s (fs v)" for g v
  proof -
    have gs: "g (index_file s n) = Some raw" using g src nontemp(2) raw by auto
    then have sees: "sees d (g(index_file d n := Some raw)) v" using h by (auto simp: has_copy_def replaced_def)
    then have at: "file_at (fs v) q = (g(index_file d n := Some raw)) q" if "\<not> temp_path q" for q using that by (simp add: sees_def)
    have "replicated x cd s d n (file_at (fs v)) i" if i: "i \<in> set (version_ids ix)" for i
      by (rule replicated_cong [of x cd s d n g])
        (use r i apart at nontemp(3) target_nontemp [OF target_manifest [OF _ o(5) valid_ids [OF valid i]]] o(3,4) in auto)
    moreover have "file_at (fs v) q = f q" if q: "q \<notin> replica_files x d n" "\<not> temp_path q" for q
    proof -
      have "q \<notin> artifact_files x d n" using q artifacts_in_replica by blast
      moreover have "q \<noteq> index_file d n" using q by (auto simp: replica_files_def index_file_def)
      ultimately show ?thesis using at [OF q(2)] g q(2) by simp
    qed
    ultimately show ?thesis using sees t at [OF nontemp(1)] by (simp add: replica_complete_def sees_def)
  qed
  have "triple (\<lambda>w. both s d g w) (copy_file_atomic x cfg (index_file s n) (index_file d n))
      (\<lambda>_ w. has_copy d g (index_file s n) (index_file d n) w \<and> tame s (fs w))
      (\<lambda>w. (sees d g w \<or> has_copy d g (index_file s n) (index_file d n) w) \<and> tame s (fs w))" for g
  proof (rule triple_conj [OF triple_copy_file [OF o(1) tgt(1) targetD(4) [OF tgt(2)] nontemp(2)]])
    show "triple (both s d g) (copy_file_atomic x cfg (index_file s n) (index_file d n)) (\<lambda>_ w. tame s (fs w)) (\<lambda>w. tame s (fs w))"
      by (rule triple_moves [OF touches_copy [OF o(1) tgt(1), of "{s, d}"]])
        (auto simp: both_def sees_def touches_def tames_def tame_def)
  qed
  note base = this
  have old: "unpublished_or_complete x cd s d n f v"
    if g: "\<forall>q. q \<notin> artifact_files x d n \<longrightarrow> \<not> temp_path q \<longrightarrow> g q = f q" and "sees d g v" for g v
    using that artifacts_in_replica [of x d n] index_not_artifact [of d n x d] nontemp(1)
    by (auto simp: unpublished_or_complete_def sees_def)
  have one: "triple (\<lambda>w. ((\<forall>q. q \<notin> artifact_files x d n \<longrightarrow> \<not> temp_path q \<longrightarrow> g q = f q)
        \<and> (\<forall>i \<in> set (version_ids ix). replicated x cd s d n g i)) \<and> both s d g w)
      (copy_file_atomic x cfg (index_file s n) (index_file d n)) (\<lambda>_. replica_complete x cd s d n f raw ix) (unpublished_or_complete x cd s d n f)" for g
  proof (rule triple_pull)
    assume g: "(\<forall>q. q \<notin> artifact_files x d n \<longrightarrow> \<not> temp_path q \<longrightarrow> g q = f q) \<and> (\<forall>i \<in> set (version_ids ix). replicated x cd s d n g i)"
    show "triple (both s d g) (copy_file_atomic x cfg (index_file s n) (index_file d n)) (\<lambda>_. replica_complete x cd s d n f raw ix)
        (unpublished_or_complete x cd s d n f)"
    proof (rule triple_conseq [OF base])
      show "replica_complete x cd s d n f raw ix v" if "has_copy d g (index_file s n) (index_file d n) v \<and> tame s (fs v)" for a v
        using fin g that by blast
      show "unpublished_or_complete x cd s d n f v"
        if "(sees d g v \<or> has_copy d g (index_file s n) (index_file d n) v) \<and> tame s (fs v)" for v
        using that old fin g replica_complete_published [of x cd s d n f raw ix v] raw ix by blast
    qed
  qed
  show ?thesis
    by (rule triple_conseq [OF triple_some [OF one]]) (auto simp: copying_def both_def sees_def)
qed

definition plans_for :: "ext \<Rightarrow> path \<Rightarrow> path \<Rightarrow> string \<Rightarrow> version_index \<Rightarrow> version_replication_plan list \<Rightarrow> bool" where
  "plans_for x s d n ix plans \<longleftrightarrow> (\<forall>p \<in> set plans. plan_ok x s d n p) \<and> map vp_version_id plans = version_ids ix"

lemma triple_publish:
  assumes ok: "pair_ok x s d n" and valid: "validate_version_index ix = Inr ()" and raw: "f (index_file s n) = Some raw"
    and ix: "parse_index x raw = Some ix" and plans: "plans_for x s d n ix plans"
  shows "triple (copying x s d n f) (publish_source x cfg cd (src_dir s n) (src_dir d n) sb (blobs_root (store_root d)) ix plans pair)
    (\<lambda>_. replica_complete x cd s d n f raw ix) (unpublished_or_complete x cd s d n f)"
proof -
  let ?E = "unpublished_or_complete x cd s d n f" and ?C = "replica_complete x cd s d n f raw ix"
  have o: "sha_ok x" "walk_flat_ok x" "good_path s" "good_path d" "good_name n" using ok by (auto simp: pair_ok_def)
  have val: "triple (copying x s d n f) (validate_replication_plans x cd timeout sb (blobs_root (store_root d)) plans)
      (\<lambda>_ w. copying x s d n f w \<and> (\<forall>v \<in> set (version_ids ix). replicated x cd s d n (file_at (fs w)) v)) ?E" for timeout
  proof (rule tripleI)
    fix w a v assume w: "copying x s d n f w" and r: "validate_replication_plans x cd timeout sb (blobs_root (store_root d)) plans w = (Ok a, v)"
    have st: "still w v" by (rule movesD [OF moves_still_validate_plans r])
    have "replicated x cd s d n (file_at (fs v)) i" if i: "i \<in> set (version_ids ix)" for i
    proof -
      from i plans obtain p where p: "p \<in> set plans" "vp_version_id p = i" "plan_ok x s d n p"
        unfolding plans_for_def by (metis imageE list.set_map)
      have "validate_replication_plans x cd timeout sb (blobs_root (store_root d)) plans w = (Ok (), v)" using r by simp
      from validate_plans_value [OF this _ _ o(1,3,4,5) p(1,3)] w p(2) valid_ids [OF valid i] st show ?thesis
        by (simp add: copying_def still_def)
    qed
    with stableD [OF stable_copying w st] show "copying x s d n f v \<and> (\<forall>v' \<in> set (version_ids ix). replicated x cd s d n (file_at (fs v)) v')"
      by blast
  qed (use stableD [OF stable_copying] movesD [OF moves_still_validate_plans] copying_unpublished [OF ok] in blast)+
  have "triple ?C (mirror_manifest_deletions x cfg ix (manifests_dir d n)) (\<lambda>_. ?C) ?C"
    by (rule triple_moves [OF moves_replica_mirror [OF o(2,4,5)]]) (rule replica_complete_mirror_step [OF ok valid])
  then have mir: "triple ?C (mirror_manifest_deletions x cfg ix (manifests_dir d n)) (\<lambda>_. ?C) ?E"
    by (rule triple_conseq) (use replica_complete_published [of x cd s d n f raw ix] raw ix in blast)+
  show ?thesis
    unfolding publish_source_def Let_def index_file_def [symmetric] manifests_dir_def [symmetric]
    by (rule triple_bnd [OF val], rule triple_bnd [OF triple_publish_index [where f = f, OF ok valid raw ix]], rule triple_if,
        rule triple_bnd [OF mir]) (auto intro: triple_ret)
qed

lemma read_index_at:
  assumes "read_index x p w = (Ok ix, v)" and "tame D (fs w)" and "in_region D p"
  shows "\<exists>raw. file_at (fs w) p = Some raw \<and> parse_index x raw = Some ix \<and> validate_version_index ix = Inr ()"
proof -
  from assms(1) obtain raw u where r: "read_file p w = (Ok raw, u)" and "parse_index x raw = Some ix" "validate_version_index ix = Inr ()"
    by (auto simp: read_index_def throw_def lift_Ok_iff ret_Ok_iff split: option.splits elim!: bnd_OkE)
  then show ?thesis using read_file_value [OF assms(2,3) r] by blast
qed

text \<open>The steps before publication.\<close>

lemma triple_copying_still:
  assumes "pair_ok x s d n" and "moves still m"
  shows "triple (copying x s d n f) m (\<lambda>_. copying x s d n f) (unpublished_or_complete x cd s d n f)"
  by (rule triple_conseq [OF triple_still [OF stable_copying assms(2)]]) (auto intro: copying_unpublished [OF assms(1)])

lemma triple_copying_moves:
  assumes "pair_ok x s d n" and "moves (replica_step s d (artifact_files x d n)) m"
  shows "triple (copying x s d n f) m (\<lambda>_. copying x s d n f) (unpublished_or_complete x cd s d n f)"
proof -
  have "triple (copying x s d n f) m (\<lambda>_. copying x s d n f) (copying x s d n f)"
    by (rule triple_moves [OF assms(2)]) (rule copying_step)
  then show ?thesis by (rule triple_conseq) (auto intro: copying_unpublished [OF assms(1)])
qed

lemma triple_copying_mkdir:
  assumes "pair_ok x s d n" and "prefix d q" and "good_path q"
  shows "triple (copying x s d n f) (create_dir_all q) (\<lambda>_. copying x s d n f) (unpublished_or_complete x cd s d n f)"
  by (rule triple_copying_moves [OF assms(1)], rule replica_create_dir_all) (use assms in \<open>simp add: in_region_def\<close>)

lemma triple_build_plans:
  assumes "pair_ok x s d n"
  shows "triple (copying x s d n f) (build_replication_plans x cd timeout ix (manifests_dir s n) (manifests_dir d n) sb (blobs_root (store_root d)))
    (\<lambda>plans u. plans_for x s d n ix plans \<and> copying x s d n f u) (unpublished_or_complete x cd s d n f)"
proof (rule triple_conseq [OF triple_still_value [OF stable_copying moves_still_build_plans]])
  fix u plans u' assume "build_replication_plans x cd timeout ix (manifests_dir s n) (manifests_dir d n) sb (blobs_root (store_root d)) u = (Ok plans, u')"
  from plan_versions_value [OF this [unfolded build_replication_plans_def]] show "plans_for x s d n ix plans"
    by (simp add: plans_for_def version_ids_def)
qed (auto intro: copying_unpublished [OF assms])

lemma triple_replicate_versions:
  assumes "pair_ok x s d n" and "plans_for x s d n ix plans" and "validate_version_index ix = Inr ()"
  shows "triple (copying x s d n f) (fold_act (replicate_version x cfg cd) plans pair) (\<lambda>_. copying x s d n f) (unpublished_or_complete x cd' s d n f)"
proof (rule triple_copying_moves [OF assms(1)], rule rp.moves_fold, rule replica_version)
  fix p assume p: "p \<in> set plans"
  then show "plan_ok x s d n p" using assms(2) by (simp add: plans_for_def)
  have "vp_version_id p \<in> set (map vp_version_id plans)" using p by simp
  then show "version_name (vp_version_id p)" using assms(2) valid_ids [OF assms(3)] unfolding plans_for_def by metis
qed (use assms(1) in \<open>auto simp: pair_ok_def\<close>)

lemma triple_replicate_known:
  assumes "pair_ok x s d n" and raw: "f (index_file s n) = Some raw" and ix: "parse_index x raw = Some ix"
    and valid: "validate_version_index ix = Inr ()"
  shows "triple (copying x s d n f) (bnd (create_dir_all (src_dir d n)) (\<lambda>_.
       bnd (regular_file_state (index_file d n)) (\<lambda>t.
       bnd (if t = Regular then bnd (read_index x (index_file d n)) (\<lambda>_. ret ()) else ret ()) (\<lambda>_.
       bnd (create_dir_all (manifests_dir d n)) (\<lambda>_.
       bnd (build_replication_plans x cd timeout ix (manifests_dir s n) (manifests_dir d n) sb (blobs_root (store_root d))) (\<lambda>plans.
       bnd (fold_act (replicate_version x cfg cd) plans pair) (\<lambda>pair.
       bnd (replicate_report x cfg (report_file s n) (report_file d n) pair) (\<lambda>pair.
       publish_source x cfg cd (src_dir s n) (src_dir d n) sb (blobs_root (store_root d)) ix plans pair))))))))
    (\<lambda>_ u. replica_published x cd s d n f (file_at (fs u)) \<and> unpublished_or_complete x cd s d n f u) (unpublished_or_complete x cd s d n f)"
proof -
  let ?C = "copying x s d n f" and ?E = "unpublished_or_complete x cd s d n f"
  have o: "temp_ok x" "good_path d" "good_name n" using assms(1) by (auto simp: pair_ok_def)
  note d1 = triple_copying_mkdir [where f = f and cd = cd, OF assms(1) prefix_store(1) good_src_dir [OF o(2,3)]]
  have d2: "triple ?C (create_dir_all (manifests_dir d n)) (\<lambda>_. ?C) ?E"
    by (rule triple_copying_mkdir [OF assms(1)])
      (use prefix_store(1) [of d n] good_src_dir [OF o(2,3)] in \<open>auto simp: manifests_dir_def good_name_def\<close>)
  have old: "moves still (if t = Regular then bnd (read_index x (index_file d n)) (\<lambda>_. ret ()) else ret ())" for t
    by (intro still_intros moves_still_read_index)
  have rr: "triple ?C (replicate_report x cfg (report_file s n) (report_file d n) pair) (\<lambda>_. ?C) ?E" for pair
    by (rule triple_copying_moves [OF assms(1)], rule replica_report [OF o])
  have pub: "triple ?C (publish_source x cfg cd (src_dir s n) (src_dir d n) sb (blobs_root (store_root d)) ix plans pair)
      (\<lambda>_ u. replica_published x cd s d n f (file_at (fs u)) \<and> ?E u) ?E"
    if "plans_for x s d n ix plans" for plans pair
    by (rule triple_conseq [OF triple_publish [where f = f, OF assms(1) valid raw ix that]])
      (use replica_complete_published [of x cd s d n f raw ix] raw ix in auto)
  show ?thesis
    by (rule triple_bnd [OF d1], rule triple_bnd [OF triple_copying_still [OF assms(1) moves_still_regular_file_state]],
        rule triple_bnd [OF triple_copying_still [OF assms(1) old]], rule triple_bnd [OF d2], rule triple_bnd [OF triple_build_plans [OF assms(1)]],
        rule triple_pull, rule triple_bnd [OF triple_replicate_versions [OF assms(1) _ valid]], assumption,
        rule triple_bnd [OF rr], rule pub)
qed

text \<open>
  C4: Replicating a source never publishes an incomplete replica. From two stores without symbolic
  links, whatever calls fail and wherever the process dies, the index of the source on the replica is
  the one it had, or it is the source's index and then every version it lists is on the replica: its
  manifest is the source's, and each of its files has a blob there that decodes to the recorded hash.
  A replication that succeeds has published, or found nothing to replicate and changed nothing. Only
  the source's directory and blobs of the replica change.
\<close>

theorem replicate_source_publishes:
  assumes "pair_ok x s d n" and "tame s (fs w)" and "tame d (fs w)"
    and "replicate_source x cfg cd (sources_root (store_root s)) (sources_root (store_root d)) (blobs_root (store_root s))
      (blobs_root (store_root d)) n pair w = (r, v)"
  shows "unpublished_or_complete x cd s d n (file_at (fs w)) v
    \<and> (\<forall>p. r = Ok p \<longrightarrow> replica_published x cd s d n (file_at (fs w)) (file_at (fs v)) \<or> fs v = fs w)"
proof -
  let ?f = "file_at (fs w)"
  let ?E = "unpublished_or_complete x cd s d n ?f" and ?C = "copying x s d n ?f"
  let ?Q = "\<lambda>_ u. replica_published x cd s d n ?f (file_at (fs u)) \<and> ?E u"
  have o: "good_path s" "good_name n" using assms(1) by (auto simp: pair_ok_def)
  have dirs: "src_dir s n = sources_root (store_root s) @ [n]" "src_dir d n = sources_root (store_root d) @ [n]"
    by (simp_all add: src_dir_def)
  have C: "?C u" if "fs u = fs w" for u using assms(2,3) that by (simp add: copying_def)
  then have E0: "?E u" if "fs u = fs w" for u using copying_unpublished [OF assms(1)] that by blast
  have st0: "triple (\<lambda>u. fs u = fs w) m (\<lambda>_ u. fs u = fs w) ?E" if "moves still m" for m :: "'a io"
    by (rule triple_conseq [OF triple_still [OF stable_fs [of "\<lambda>F. F = fs w"] that]]) (auto intro: E0)
  have ri: "triple (\<lambda>u. fs u = fs w) (read_index x (index_file s n))
      (\<lambda>ix u. (\<exists>raw. ?f (index_file s n) = Some raw \<and> parse_index x raw = Some ix \<and> validate_version_index ix = Inr ()) \<and> fs u = fs w) ?E"
  proof (rule tripleI)
    fix u ix u' assume u: "fs u = fs w" and r: "read_index x (index_file s n) u = (Ok ix, u')"
    have "fs u' = fs w" using movesD [OF moves_still_read_index r] u by (simp add: still_def)
    then show "(\<exists>raw. ?f (index_file s n) = Some raw \<and> parse_index x raw = Some ix \<and> validate_version_index ix = Inr ()) \<and> fs u' = fs w"
      using read_index_at [OF r _ targetD(4) [OF target_index [OF o]]] u assms(2) by simp
  next
    fix u e u' assume u: "fs u = fs w" and r: "read_index x (index_file s n) u = (Err e, u')"
    show "?E u'" by (rule E0) (use movesD [OF moves_still_read_index r] u in \<open>simp add: still_def\<close>)
  next
    fix u u' assume u: "fs u = fs w" and r: "read_index x (index_file s n) u = (Halt, u')"
    show "?E u'" by (rule E0) (use movesD [OF moves_still_read_index r] u in \<open>simp add: still_def\<close>)
  qed
  have main: "triple (\<lambda>u. fs u = fs w) (replicate_source x cfg cd (sources_root (store_root s)) (sources_root (store_root d))
      (blobs_root (store_root s)) (blobs_root (store_root d)) n pair) (\<lambda>a u. ?Q a u \<or> fs u = fs w) ?E"
    unfolding replicate_source_def Let_def dirs [symmetric] index_file_def [symmetric] manifests_dir_def [symmetric] report_file_def [symmetric]
  proof (rule triple_bnd [OF st0 [OF moves_still_regular_file_state]], rule triple_if)
    fix k
    show "triple (\<lambda>u. fs u = fs w) (ret pair) (\<lambda>a u. ?Q a u \<or> fs u = fs w) ?E" by (rule triple_ret) simp
  next
    fix k
    show "triple (\<lambda>u. fs u = fs w) (bnd (read_index x (index_file s n)) (\<lambda>ix. bnd (create_dir_all (src_dir d n)) (\<lambda>_.
       bnd (regular_file_state (index_file d n)) (\<lambda>t.
       bnd (if t = Regular then bnd (read_index x (index_file d n)) (\<lambda>_. ret ()) else ret ()) (\<lambda>_.
       bnd (create_dir_all (manifests_dir d n)) (\<lambda>_.
       bnd (build_replication_plans x cd (ht_timeout_seconds (cf_hashing cfg)) ix (manifests_dir s n) (manifests_dir d n)
         (blobs_root (store_root s)) (blobs_root (store_root d))) (\<lambda>plans.
       bnd (fold_act (replicate_version x cfg cd) plans pair) (\<lambda>pair.
       bnd (replicate_report x cfg (report_file s n) (report_file d n) pair) (\<lambda>pair.
       publish_source x cfg cd (src_dir s n) (src_dir d n) (blobs_root (store_root s)) (blobs_root (store_root d)) ix plans pair)))))))))
       (\<lambda>a u. ?Q a u \<or> fs u = fs w) ?E"
    proof (rule triple_bnd [OF ri], rule triple_pull, elim exE conjE)
      fix ix raw assume "?f (index_file s n) = Some raw" "parse_index x raw = Some ix" "validate_version_index ix = Inr ()"
      note r = triple_replicate_known [where f = ?f, OF assms(1) this]
      show "triple (\<lambda>u. fs u = fs w) (bnd (create_dir_all (src_dir d n)) (\<lambda>_.
       bnd (regular_file_state (index_file d n)) (\<lambda>t.
       bnd (if t = Regular then bnd (read_index x (index_file d n)) (\<lambda>_. ret ()) else ret ()) (\<lambda>_.
       bnd (create_dir_all (manifests_dir d n)) (\<lambda>_.
       bnd (build_replication_plans x cd (ht_timeout_seconds (cf_hashing cfg)) ix (manifests_dir s n) (manifests_dir d n)
         (blobs_root (store_root s)) (blobs_root (store_root d))) (\<lambda>plans.
       bnd (fold_act (replicate_version x cfg cd) plans pair) (\<lambda>pair.
       bnd (replicate_report x cfg (report_file s n) (report_file d n) pair) (\<lambda>pair.
       publish_source x cfg cd (src_dir s n) (src_dir d n) (blobs_root (store_root s)) (blobs_root (store_root d)) ix plans pair))))))))
       (\<lambda>a u. ?Q a u \<or> fs u = fs w) ?E" by (rule triple_conseq [OF r], erule C, erule disjI1, assumption)
    qed
  qed
  have "?E (snd (replicate_source x cfg cd (sources_root (store_root s)) (sources_root (store_root d))
      (blobs_root (store_root s)) (blobs_root (store_root d)) n pair w))"
    by (rule triple_snd [OF main refl]) (use E0 in blast)
  then have "?E v" unfolding assms(4) by simp
  moreover have "?Q p v \<or> fs v = fs w" if "r = Ok p" for p using triple_Ok [OF main refl] assms(4) that by blast
  ultimately show ?thesis by blast
qed

theorem replicate_source_publishes_witness:
  "unpublished_or_complete sample_ext plain_codec [''dst''] [''rep''] sample_sid stored_files
    (snd (replicate_source sample_ext sample_config plain_codec (sources_root (store_root [''dst''])) (sources_root (store_root [''rep'']))
      (blobs_root (store_root [''dst''])) (blobs_root (store_root [''rep''])) sample_sid no_pairs stored_world))"
proof -
  have "good_path [''rep'']" by (simp add: good_name_def)
  moreover have "walk_flat_ok sample_ext"
    by (auto simp: walk_flat_ok_def sample_ext_def sample_walk_flat_def split: option.splits) (metis append_butlast_last_id)
  ultimately have "pair_ok sample_ext [''dst''] [''rep''] sample_sid"
    using sample_laws sample_sid_ok by (simp add: pair_ok_def)
  moreover have "tame [''rep''] stored_fs"
    using stored_tame no_links_clear [OF \<open>good_path [''rep'']\<close>, of stored_fs] by (simp add: tame_def stored_fs_def)
  ultimately show ?thesis
    using replicate_source_publishes [of sample_ext "[''dst'']" "[''rep'']" sample_sid stored_world, OF _ _ _ prod.collapse [symmetric]] stored_tame
    by (simp add: stored_files_def stored_world_fs)
qed

end
