(* ===== verification/Cycle.thy ===== *)
theory Cycle
  imports Browse
begin

text \<open>
  The operations of the store that take its leases (\<open>store.rs\<close>): a backup cycle over all watched paths,
  removing a kept safety version, removing the history of a source, and the simulation of a cycle. The
  iteration order of hash maps is a parameter, and so are the home directory that log texts abbreviate
  and the action that commits a change of the configuration.
\<close>

record backup_cycle_result =
  cr_folders_scanned :: nat
  cr_versions_created :: nat
  cr_blobs_written :: nat
  cr_bytes_written :: nat
  cr_safety_warnings :: "safety_warning list"

record simulation_summary =
  ss_watched :: nat
  ss_versions_would_create :: nat
  ss_adds :: nat
  ss_modifies :: nat
  ss_deletes :: nat
  ss_items :: nat
  ss_blobs_to_write :: nat
  ss_bytes_to_write :: nat
  ss_sample :: "string list"
  ss_read_failures :: nat
  ss_snapshot_errors :: nat

section \<open>A backup cycle\<close>

definition ensure_destination_free_space :: "ext \<Rightarrow> path \<Rightarrow> nat \<Rightarrow> unit io" where
  "ensure_destination_free_space x d minimum =
    bnd (free_space x d) (\<lambda>free.
    if free < minimum then throw (Bail ''versioned::run_backup_cycle destination store below configured minimum'') else ret ())"

definition check_unique_destination :: "ext \<Rightarrow> nat \<Rightarrow> destination \<Rightarrow> path list \<Rightarrow> path list io" where
  "check_unique_destination x minimum d seen =
    bnd (attempt (canonicalize (dest_path d))) (\<lambda>r.
    let u = (case r of Inr p \<Rightarrow> p | Inl _ \<Rightarrow> dest_path d) in
    if u \<in> set seen then ret seen
    else bnd (ensure_destination_free_space x (dest_path d) minimum) (\<lambda>_. ret (u # seen)))"

definition cycle_destinations :: "config \<Rightarrow> destination list res" where
  "cycle_destinations cfg = rfold (\<lambda>w acc. case destination_by_id cfg (wp_destination_id w) of
      None \<Rightarrow> Inl (Bail ''versioned::run_backup_cycle missing destination id'')
    | Some d \<Rightarrow> Inr (acc @ [d])) (filter wp_enabled (cf_watched cfg)) []"

definition cycle_descriptor :: "config \<Rightarrow> watched_path \<Rightarrow> destination \<Rightarrow> folder_descriptor" where
  "cycle_descriptor cfg w d = \<lparr>fd_source_path = wp_path w, fd_destination_root = dest_path d,
    fd_keep_versions = (case wp_max_backups_per_file w of Some n \<Rightarrow> n | None \<Rightarrow>
      (case dest_max_backups_per_file d of Some n \<Rightarrow> n | None \<Rightarrow> cf_max_backups_per_file cfg))\<rparr>"

definition add_result :: "folder_backup_result \<Rightarrow> backup_cycle_result \<Rightarrow> backup_cycle_result" where
  "add_result r c = c\<lparr>cr_folders_scanned := cr_folders_scanned c + 1,
    cr_versions_created := cr_versions_created c + (if fr_changed r then 1 else 0),
    cr_safety_warnings := cr_safety_warnings c @ (case fr_safety_warning r of Some s \<Rightarrow> [s] | None \<Rightarrow> []),
    cr_blobs_written := cr_blobs_written c + fr_blobs_written r,
    cr_bytes_written := cr_bytes_written c + fr_bytes_written r\<rparr>"

definition backup_watched :: "ext \<Rightarrow> ((string \<times> path) list \<Rightarrow> (string \<times> path) list) \<Rightarrow> config \<Rightarrow> blob_codec \<Rightarrow> watched_path \<Rightarrow> backup_cycle_result
    \<Rightarrow> backup_cycle_result io" where
  "backup_watched x hash_order cfg cd w c = (case destination_by_id cfg (wp_destination_id w) of
      None \<Rightarrow> throw (Bail ''versioned::run_backup_cycle missing destination id'')
    | Some d \<Rightarrow>
        bnd (backup_one_folder x cfg w (cycle_descriptor cfg w d) cd) (\<lambda>r.
        bnd (sync_source_readable_view x hash_order cfg w (dest_path d)) (\<lambda>_.
        ret (add_result r c))))"

definition no_cycle :: backup_cycle_result where
  "no_cycle = \<lparr>cr_folders_scanned = 0, cr_versions_created = 0, cr_blobs_written = 0, cr_bytes_written = 0, cr_safety_warnings = []\<rparr>"

definition run_backup_cycle :: "ext \<Rightarrow> ((string \<times> path) list \<Rightarrow> (string \<times> path) list) \<Rightarrow> config \<Rightarrow> backup_cycle_result io" where
  "run_backup_cycle x hash_order cfg =
    bnd (lift (cycle_destinations cfg)) (\<lambda>ds.
    bnd (case cf_min_free_space_bytes cfg of
        None \<Rightarrow> ret ()
      | Some m \<Rightarrow> bnd (fold_act (check_unique_destination x m) ds []) (\<lambda>_. ret ())) (\<lambda>_.
    bnd (lease_policy x cfg) (\<lambda>pol.
    bnd (acquire_store_leases x (map dest_path ds) pol) (\<lambda>_.
    bnd (codec_from_config x cfg) (\<lambda>cd.
    fold_act (backup_watched x hash_order cfg cd) (filter wp_enabled (cf_watched cfg)) no_cycle)))))"

section \<open>Removing versions\<close>

definition remove_kept_safety_version :: "ext \<Rightarrow> path \<Rightarrow> path \<Rightarrow> string option io" where
  "remove_kept_safety_version x d src =
    bnd (acquire_store_lease x d bootstrap_defaults) (\<lambda>_. remove_kept_safety_version_locked x d src)"

definition remove_history_at :: "ext \<Rightarrow> ((string \<times> path) list \<Rightarrow> (string \<times> path) list) \<Rightarrow> path \<Rightarrow> path \<Rightarrow> unit io" where
  "remove_history_at x hash_order src d =
    bnd (remove_generated_plaintext_view x hash_order d src) (\<lambda>_.
    let st = store_root d; sr = source_root x d src in
    bnd (path_exists sr) (\<lambda>ex.
    bnd (if \<not> ex then ret ()
         else bnd (symlink_metadata sr) (\<lambda>node.
           if node \<noteq> Dir then throw (Bail ''versioned::remove_source_history_with_commit refused an unsafe source history path'')
           else bnd (remove_dir_all sr) (\<lambda>_.
             bnd (attempt (sync_dir (sources_root st))) (\<lambda>_. ret ())))) (\<lambda>_.
    gc_unreferenced_blobs x st (blobs_root st))))"

definition remove_history_once :: "ext \<Rightarrow> ((string \<times> path) list \<Rightarrow> (string \<times> path) list) \<Rightarrow> path \<Rightarrow> path \<Rightarrow> path list \<Rightarrow> path list io" where
  "remove_history_once x hash_order src d visited =
    bnd (canonicalize d) (\<lambda>r.
    if r \<in> set visited then ret visited
    else bnd (remove_history_at x hash_order src r) (\<lambda>_. ret (r # visited)))"

definition remove_source_history_with_commit :: "ext \<Rightarrow> ((string \<times> path) list \<Rightarrow> (string \<times> path) list) \<Rightarrow> config \<Rightarrow> path \<Rightarrow> 'a io \<Rightarrow> 'a io" where
  "remove_source_history_with_commit x hash_order cfg src commit =
    (let ds = map dest_path (cf_destinations cfg) in
     bnd (lease_policy x cfg) (\<lambda>pol.
     bnd (acquire_store_leases x ds pol) (\<lambda>_.
     bnd (fold_act (remove_history_once x hash_order src) ds []) (\<lambda>_.
     commit))))"

section \<open>Simulation\<close>

definition redact_path :: "string option \<Rightarrow> string \<Rightarrow> string" where
  "redact_path home raw = (case home of
      Some h \<Rightarrow> if prefix h raw then ''~'' @ drop (length h) raw else raw
    | None \<Rightarrow> raw)"

text \<open>\<open>PathBuf::join\<close> on the text of a path.\<close>

definition join_text :: "string \<Rightarrow> string \<Rightarrow> string" where
  "join_text base rel = (if prefix ''/'' rel then rel else if suffix ''/'' base then base @ rel else base @ ''/'' @ rel)"

definition format_change_sample :: "string option \<Rightarrow> char \<Rightarrow> watched_path \<Rightarrow> string \<Rightarrow> string" where
  "format_change_sample home c w rel = c # '' '' @ redact_path home (case wp_kind w of
      WatchedFile \<Rightarrow> path_text (wp_path w)
    | WatchedDirectory \<Rightarrow> join_text (path_text (wp_path w)) rel)"

record simulation_diff =
  df_adds :: nat
  df_modifies :: nat
  df_deletes :: nat
  df_blobs_to_write :: nat
  df_bytes_to_write :: nat
  df_sample :: "string list"

definition add_sample :: "nat \<Rightarrow> string \<Rightarrow> simulation_diff \<Rightarrow> simulation_diff" where
  "add_sample limit s st = (if length (df_sample st) < limit then st\<lparr>df_sample := df_sample st @ [s]\<rparr> else st)"

definition change_of :: "manifest option \<Rightarrow> string \<Rightarrow> manifest_entry \<Rightarrow> char option" where
  "change_of prev k e = (case (case prev of None \<Rightarrow> None | Some p \<Rightarrow> bt_get (mf_entries p) k) of
      None \<Rightarrow> Some CHR ''+''
    | Some pe \<Rightarrow>
        if me_kind pe \<noteq> me_kind e \<or> me_kind e = FileEntry \<and> me_sha256 pe \<noteq> me_sha256 e then Some CHR ''~'' else None)"

definition diff_next :: "ext \<Rightarrow> string option \<Rightarrow> watched_path \<Rightarrow> manifest option \<Rightarrow> path \<Rightarrow> nat \<Rightarrow> string \<times> manifest_entry \<Rightarrow> simulation_diff
    \<Rightarrow> simulation_diff io" where
  "diff_next x home w prev blobs limit = (\<lambda>(k, e) st. case change_of prev k e of
      None \<Rightarrow> ret st
    | Some c \<Rightarrow>
        let st = (if c = CHR ''+'' then st\<lparr>df_adds := df_adds st + 1\<rparr> else st\<lparr>df_modifies := df_modifies st + 1\<rparr>) in
        bnd (if me_kind e \<noteq> FileEntry then ret st
             else case me_sha256 e of
                None \<Rightarrow> ret st
              | Some h \<Rightarrow> bnd (path_exists (blob_path x blobs h)) (\<lambda>ex.
                  ret (if ex then st
                    else st\<lparr>df_blobs_to_write := df_blobs_to_write st + 1, df_bytes_to_write := sat_add (df_bytes_to_write st) (me_len e)\<rparr>))) (\<lambda>st.
        ret (add_sample limit (format_change_sample home c w (me_rel_path e)) st)))"

definition diff_prev :: "string option \<Rightarrow> watched_path \<Rightarrow> manifest \<Rightarrow> nat \<Rightarrow> string \<times> manifest_entry \<Rightarrow> simulation_diff \<Rightarrow> simulation_diff" where
  "diff_prev home w n limit = (\<lambda>(k, e) st. if bt_get (mf_entries n) k \<noteq> None then st
    else add_sample limit (format_change_sample home CHR ''-'' w (me_rel_path e)) (st\<lparr>df_deletes := df_deletes st + 1\<rparr>))"

definition no_diff :: simulation_diff where
  "no_diff = \<lparr>df_adds = 0, df_modifies = 0, df_deletes = 0, df_blobs_to_write = 0, df_bytes_to_write = 0, df_sample = []\<rparr>"

definition diff_for_simulation :: "ext \<Rightarrow> string option \<Rightarrow> watched_path \<Rightarrow> manifest option \<Rightarrow> manifest \<Rightarrow> path \<Rightarrow> nat \<Rightarrow> simulation_diff io" where
  "diff_for_simulation x home w prev n blobs limit =
    bnd (fold_act (diff_next x home w prev blobs limit) (mf_entries n) no_diff) (\<lambda>st.
    ret (case prev of None \<Rightarrow> st | Some p \<Rightarrow> fold (diff_prev home w n limit) (mf_entries p) st))"

definition simulate_watched :: "ext \<Rightarrow> string option \<Rightarrow> config \<Rightarrow> nat list \<Rightarrow> watched_path \<Rightarrow> simulation_summary \<times> nat \<Rightarrow> (simulation_summary \<times> nat) io" where
  "simulate_watched x home cfg delays w = (\<lambda>(s, remaining). case destination_by_id cfg (wp_destination_id w) of
      None \<Rightarrow> throw (Bail ''versioned::simulate_backup_cycle missing destination id'')
    | Some d \<Rightarrow>
        let sr = source_root x (dest_path d) (wp_path w) in
        bnd (load_index x sr (wp_path w)) (\<lambda>ix.
        bnd (latest_manifest x (sr @ [''manifests'']) ix) (\<lambda>prev.
        bnd (prepare_source_view (wp_path w) (rt_source_snapshots_enabled (cf_runtime cfg))) (\<lambda>view.
        bnd (scan_snapshot x cfg w (sv_scan_path view) prev delays) (\<lambda>scanned.
        let n = scanned\<lparr>mf_source_snapshot := sv_snapshot view, mf_source_snapshot_error := sv_snapshot_error view\<rparr> in
        bnd (diff_for_simulation x home w prev n (blobs_root (store_root (dest_path d))) remaining) (\<lambda>df.
        let taken = take (min remaining (length (df_sample df))) (df_sample df) in
        ret (s\<lparr>ss_watched := ss_watched s + 1,
            ss_read_failures := ss_read_failures s + length (mf_read_failures n),
            ss_snapshot_errors := ss_snapshot_errors s + (if sv_snapshot_error view = None then 0 else 1),
            ss_versions_would_create := ss_versions_would_create s + (if is_changed prev n then 1 else 0),
            ss_adds := ss_adds s + df_adds df, ss_modifies := ss_modifies s + df_modifies df, ss_deletes := ss_deletes s + df_deletes df,
            ss_items := ss_items s + (df_adds df + df_modifies df + df_deletes df),
            ss_blobs_to_write := ss_blobs_to_write s + df_blobs_to_write df,
            ss_bytes_to_write := ss_bytes_to_write s + df_bytes_to_write df,
            ss_sample := ss_sample s @ taken\<rparr>, remaining - length taken)))))))"

definition no_simulation :: simulation_summary where
  "no_simulation = \<lparr>ss_watched = 0, ss_versions_would_create = 0, ss_adds = 0, ss_modifies = 0, ss_deletes = 0, ss_items = 0,
    ss_blobs_to_write = 0, ss_bytes_to_write = 0, ss_sample = [], ss_read_failures = 0, ss_snapshot_errors = 0\<rparr>"

definition simulate_backup_cycle_with_sample_limit :: "ext \<Rightarrow> string option \<Rightarrow> config \<Rightarrow> nat \<Rightarrow> simulation_summary io" where
  "simulate_backup_cycle_with_sample_limit x home cfg limit =
    bnd get_now (\<lambda>t.
    bnd (fold_act (simulate_watched x home cfg (retry_delays x (cf_execution cfg) t)) (filter wp_enabled (cf_watched cfg)) (no_simulation, limit)) (\<lambda>(s, _).
    ret s))"

definition simulate_backup_cycle :: "ext \<Rightarrow> string option \<Rightarrow> config \<Rightarrow> simulation_summary io" where
  "simulate_backup_cycle x home cfg = simulate_backup_cycle_with_sample_limit x home cfg (rt_simulation_sample_limit (cf_runtime cfg))"

end
