(* ===== verification/Cycle_Theorems.thy ===== *)
theory Cycle_Theorems
  imports Cycle Backup_Theorems
begin

text \<open>
  Laws of the cycle: the simulation reads only and agrees with what a backup decides.
\<close>

section \<open>Entries of a scan\<close>

lemma scan_into_sorted:
  "scan_into x tun delays pe prev p rel st s = (Ok st', t) \<Longrightarrow> bt_ok (fst st) \<Longrightarrow> bt_ok (fst st')"
  unfolding scan_into_def by (auto simp: ret_Ok_iff bt.ok_put elim!: bnd_OkE split: sum.splits option.splits)

lemma scan_item_sorted:
  "scan_item x cfg ig delays pe prev sp item st s = (Ok st', t) \<Longrightarrow> bt_ok (fst st) \<Longrightarrow> bt_ok (fst st')"
  unfolding scan_item_def
  by (auto simp: ret_Ok_iff bt.ok_put bt_ok_carry_forward Let_def intro: scan_into_sorted split: walk_item.splits if_splits node.splits)

lemma scan_sorted:
  assumes "scan_snapshot x cfg wp sp prev delays w = (Ok m, v)"
  shows "bt_ok (mf_entries m)"
proof -
  from assms obtain ig st u where st: "(case wp_kind wp of
        WatchedFile \<Rightarrow> scan_into x (cf_hashing cfg) delays (by_rel_path prev) prev sp (file_name_or_file (wp_path wp)) ([], [])
      | WatchedDirectory \<Rightarrow> bnd (walk_dir x sp) (\<lambda>items.
          fold_act (scan_item x cfg ig delays (by_rel_path prev) prev sp) items ([], []))) w = (Ok st, u)"
    and m: "mf_entries m = fst st"
    unfolding scan_snapshot_def by (auto simp: lift_Ok_iff ret_Ok_iff elim!: bnd_OkE)
  show ?thesis
  proof (cases "wp_kind wp")
    case WatchedFile
    with st scan_into_sorted show ?thesis unfolding m by (fastforce simp: bt_ok_Nil)
  next
    case WatchedDirectory
    with st have "fold_act (scan_item x cfg ig delays (by_rel_path prev) prev sp) (x_walk x w sp) ([], []) w = (Ok st, u)"
      by (auto simp: walk_dir_def elim!: bnd_OkE)
    then show ?thesis
      unfolding m
      by (rule fold_still_value [where I = "\<lambda>st. bt_ok (fst st)", OF moves_still_scan_item scan_item_sorted, rotated -1])
        (simp_all add: bt_ok_Nil)
  qed
qed

section \<open>Counting changes\<close>

definition df_total :: "simulation_diff \<Rightarrow> nat" where
  "df_total st = df_adds st + df_modifies st + df_deletes st"

definition sampled :: "nat \<Rightarrow> simulation_diff \<Rightarrow> bool" where
  "sampled limit st \<longleftrightarrow> length (df_sample st) = min limit (df_total st)"

lemma sampled_add:
  assumes "sampled limit st" and "df_total st' = df_total st + 1" and "df_sample st' = df_sample st"
  shows "sampled limit (add_sample limit s st') \<and> df_total (add_sample limit s st') = df_total st + 1"
  using assms by (auto simp: sampled_def add_sample_def df_total_def)

lemma diff_next_Ok:
  assumes "diff_next x home w prev blobs limit (k, e) st s = (Ok st', t)" and "sampled limit st"
  shows "sampled limit st' \<and> df_total st' = df_total st + (if change_of prev k e = None then 0 else 1)"
proof (cases "change_of prev k e")
  case None
  with assms show ?thesis by (simp add: diff_next_def ret_Ok_iff)
next
  case (Some c)
  let ?m = "add_sample limit (format_change_sample home c w (me_rel_path e))"
  have "\<exists>st2. st' = ?m st2 \<and> df_total st2 = df_total st + 1 \<and> df_sample st2 = df_sample st"
    using assms(1) Some unfolding diff_next_def
    by (fastforce simp: ret_Ok_iff Let_def df_total_def elim!: bnd_OkE split: if_splits option.splits)
  then show ?thesis using sampled_add [OF assms(2)] Some by auto
qed

lemma diff_next_fold:
  "fold_act (diff_next x home w prev blobs limit) es st s = (Ok st', t) \<Longrightarrow> sampled limit st \<Longrightarrow>
    sampled limit st' \<and> df_total st' = df_total st + length (filter (\<lambda>(k, e). change_of prev k e \<noteq> None) es)"
proof (induction es arbitrary: st s)
  case Nil
  then show ?case by (simp add: ret_Ok_iff)
next
  case (Cons ke es)
  obtain k e where ke: "ke = (k, e)" by (cases ke)
  from Cons.prems(1) obtain st1 s1 where "diff_next x home w prev blobs limit (k, e) st s = (Ok st1, s1)"
    and r: "fold_act (diff_next x home w prev blobs limit) es st1 s1 = (Ok st', t)"
    by (auto simp: ke elim!: bnd_OkE)
  from diff_next_Ok [OF this(1) Cons.prems(2)] Cons.IH [OF r] show ?case by (simp add: ke)
qed

lemma diff_prev_fold:
  "sampled limit st \<Longrightarrow> sampled limit (fold (diff_prev home w n limit) es st)
    \<and> df_total (fold (diff_prev home w n limit) es st) = df_total st + length (filter (\<lambda>(k, e). bt_get (mf_entries n) k = None) es)"
proof (induction es arbitrary: st)
  case (Cons ke es)
  obtain k e where ke: "ke = (k, e)" by (cases ke)
  have "sampled limit (diff_prev home w n limit (k, e) st)
    \<and> df_total (diff_prev home w n limit (k, e) st) = df_total st + (if bt_get (mf_entries n) k = None then 1 else 0)"
    using Cons.prems sampled_add [of limit st "st\<lparr>df_deletes := df_deletes st + 1\<rparr>"]
    by (simp add: diff_prev_def df_total_def)
  with Cons.IH [of "diff_prev home w n limit (k, e) st"] show ?case by (auto simp: ke)
qed simp

definition changes :: "manifest option \<Rightarrow> manifest \<Rightarrow> nat" where
  "changes prev n = length (filter (\<lambda>(k, e). change_of prev k e \<noteq> None) (mf_entries n))
    + (case prev of None \<Rightarrow> 0 | Some p \<Rightarrow> length (filter (\<lambda>(k, e). bt_get (mf_entries n) k = None) (mf_entries p)))"

lemma diff_for_simulation_Ok:
  assumes "diff_for_simulation x home w prev n blobs limit s = (Ok df, t)"
  shows "df_total df = changes prev n \<and> length (df_sample df) = min limit (changes prev n)"
proof -
  have "sampled limit no_diff \<and> df_total no_diff = 0" by (simp add: sampled_def no_diff_def df_total_def)
  then have "sampled limit df \<and> df_total df = changes prev n"
    using assms diff_prev_fold [of limit]
    by (fastforce simp: diff_for_simulation_def changes_def ret_Ok_iff elim!: bnd_OkE dest!: diff_next_fold split: option.splits)
  then show ?thesis by (simp add: sampled_def)
qed

lemma no_change_iff:
  "change_of (Some p) k e = None \<longleftrightarrow> (case bt_get (mf_entries p) k of
      None \<Rightarrow> False
    | Some pe \<Rightarrow> me_kind pe = me_kind e \<and> (me_kind e = FileEntry \<longrightarrow> me_sha256 pe = me_sha256 e))"
  by (auto simp: change_of_def split: option.splits)

text \<open>The preview finds a change exactly when a backup would create a version.\<close>

lemma changes_iff:
  assumes "bt_ok (mf_entries p)" and "bt_ok (mf_entries n)"
  shows "changes (Some p) n = 0 \<longleftrightarrow> manifests_equivalent p n"
proof -
  let ?P = "fst ` set (mf_entries p)" and ?N = "fst ` set (mf_entries n)"
  have len: "length (mf_entries p) = card ?P" "length (mf_entries n) = card ?N"
    using bt_ok_distinct [OF assms(1)] bt_ok_distinct [OF assms(2)] distinct_card [of "map fst (mf_entries p)"]
      distinct_card [of "map fst (mf_entries n)"] by simp_all
  have g: "bt_get m k = None \<longleftrightarrow> k \<notin> fst ` set m" for m :: "(string, manifest_entry) btree" and k
    by (simp add: bt_get_def map_of_eq_None_iff)
  have c: "changes (Some p) n = 0 \<longleftrightarrow> list_all (\<lambda>(k, e). change_of (Some p) k e = None) (mf_entries n) \<and> ?P \<subseteq> ?N"
    by (simp add: changes_def filter_empty_conv list_all_iff g image_subset_iff case_prod_unfold)
  have s: "?N \<subseteq> ?P" if "list_all (\<lambda>(k, e). change_of (Some p) k e = None) (mf_entries n)"
  proof
    fix k assume "k \<in> ?N"
    then obtain e where "(k, e) \<in> set (mf_entries n)" by force
    with that have "change_of (Some p) k e = None" by (auto simp: list_all_iff)
    then show "k \<in> ?P" using g [of "mf_entries p" k] by (cases "bt_get (mf_entries p) k") (auto simp: no_change_iff)
  qed
  have k: "card ?P = card ?N \<longleftrightarrow> ?P \<subseteq> ?N" if "?N \<subseteq> ?P"
    using that card_subset_eq [of ?P ?N] by (metis List.finite_set finite_imageI subset_antisym order_refl)
  have "manifests_equivalent p n \<longleftrightarrow> card ?P = card ?N \<and> list_all (\<lambda>(k, e). change_of (Some p) k e = None) (mf_entries n)"
    by (simp add: manifests_equivalent_def no_change_iff len)
  with c s k show ?thesis by blast
qed

section \<open>The simulation\<close>

definition simulated :: "nat \<Rightarrow> simulation_summary \<Rightarrow> nat \<Rightarrow> bool" where
  "simulated limit s remaining \<longleftrightarrow> ss_items s = ss_adds s + ss_modifies s + ss_deletes s
    \<and> length (ss_sample s) = min limit (ss_items s) \<and> remaining = limit - length (ss_sample s)
    \<and> ss_versions_would_create s \<le> ss_watched s \<and> (ss_versions_would_create s = 0 \<longrightarrow> ss_items s = 0)"

lemma latest_manifest_sorted:
  "latest_manifest x mr ix s = (Ok (Some m), t) \<Longrightarrow> bt_ok (mf_entries m)"
  unfolding latest_manifest_def
  by (auto simp: Let_def ret_Ok_iff throw_def elim!: bnd_OkE split: if_splits option.splits) (erule parse_manifest_ok)

lemma simulate_watched_Ok:
  assumes "simulate_watched x home cfg delays w (s, r) u = (Ok (s', r'), v)" and "simulated limit s r"
  shows "simulated limit s' r' \<and> ss_watched s' = ss_watched s + 1"
proof -
  from assms(1) obtain d :: destination and ix u1 prev u2 and view :: source_path_view and u3 and sc :: manifest and u4 and df :: simulation_diff where
    p: "latest_manifest x (source_root x (dest_path d) (wp_path w) @ [''manifests'']) ix u1 = (Ok prev, u2)"
    and sc: "scan_snapshot x cfg w (sv_scan_path view) prev delays u3 = (Ok sc, u4)"
    and df: "diff_for_simulation x home w prev (sc\<lparr>mf_source_snapshot := sv_snapshot view, mf_source_snapshot_error := sv_snapshot_error view\<rparr>)
      (blobs_root (store_root (dest_path d))) r u4 = (Ok df, v)"
    and s': "ss_watched s' = ss_watched s + 1" "ss_items s' = ss_items s + df_total df" "ss_adds s' = ss_adds s + df_adds df"
      "ss_modifies s' = ss_modifies s + df_modifies df" "ss_deletes s' = ss_deletes s + df_deletes df"
      "ss_versions_would_create s' = ss_versions_would_create s
        + (if is_changed prev (sc\<lparr>mf_source_snapshot := sv_snapshot view, mf_source_snapshot_error := sv_snapshot_error view\<rparr>) then 1 else 0)"
      "ss_sample s' = ss_sample s @ take (min r (length (df_sample df))) (df_sample df)"
      "r' = r - length (take (min r (length (df_sample df))) (df_sample df))"
    unfolding simulate_watched_def
    by (auto simp: Let_def ret_Ok_iff throw_def df_total_def elim!: bnd_OkE split: option.splits)
  let ?n = "sc\<lparr>mf_source_snapshot := sv_snapshot view, mf_source_snapshot_error := sv_snapshot_error view\<rparr>"
  have n: "bt_ok (mf_entries ?n)" using scan_sorted [OF sc] by simp
  have z: "df_total df = 0" if "\<not> is_changed prev ?n"
    using that latest_manifest_sorted p changes_iff n diff_for_simulation_Ok [OF df]
    by (cases prev) (auto simp: is_changed_def)
  from diff_for_simulation_Ok [OF df] have "length (df_sample df) = min r (df_total df)" by simp
  with s' z assms(2) show ?thesis unfolding simulated_def by (auto simp: df_total_def min_def split: if_splits)
qed

lemma simulate_fold_Ok:
  "fold_act (simulate_watched x home cfg delays) ws (s, r) u = (Ok (s', r'), v) \<Longrightarrow> simulated limit s r \<Longrightarrow>
    simulated limit s' r' \<and> ss_watched s' = ss_watched s + length ws"
proof (induction ws arbitrary: s r u)
  case Nil
  then show ?case by (simp add: ret_Ok_iff)
next
  case (Cons w ws)
  from Cons.prems(1) obtain s1 r1 u1 where a: "simulate_watched x home cfg delays w (s, r) u = (Ok (s1, r1), u1)"
    and b: "fold_act (simulate_watched x home cfg delays) ws (s1, r1) u1 = (Ok (s', r'), v)"
    by (auto elim!: bnd_OkE)
  from simulate_watched_Ok [OF a Cons.prems(2)] Cons.IH [OF b] show ?case by simp
qed

lemma moves_still_diff: "moves still (diff_for_simulation x home w prev n blobs limit)"
  unfolding diff_for_simulation_def diff_next_def
  by (intro still_intros) (auto intro!: still_intros simp: Let_def split: option.splits prod.splits)

lemma moves_still_simulate_watched: "moves still (simulate_watched x home cfg delays w st)"
  unfolding simulate_watched_def
  by (auto simp: Let_def intro!: still_intros moves_still_load_index moves_still_latest_manifest moves_still_prepare_source_view
      moves_still_scan_snapshot moves_still_diff split: option.splits prod.splits)

text \<open>
  C29: A simulation only reads, and its numbers agree with what a backup decides. Whatever fails, the file
  system is as before. A result counts every enabled watched path; its items are its additions,
  modifications and deletions; its sample has as many of them as the limit allows; and when it predicts
  no new version then it lists no change.
\<close>

theorem simulation_sound:
  assumes "simulate_backup_cycle x home cfg w = (r, v)"
  shows "fs v = fs w \<and> (\<forall>s. r = Ok s \<longrightarrow> ss_watched s = length (filter wp_enabled (cf_watched cfg))
    \<and> ss_items s = ss_adds s + ss_modifies s + ss_deletes s
    \<and> length (ss_sample s) = min (rt_simulation_sample_limit (cf_runtime cfg)) (ss_items s)
    \<and> ss_versions_would_create s \<le> ss_watched s \<and> (ss_versions_would_create s = 0 \<longrightarrow> ss_items s = 0))"
proof -
  let ?l = "rt_simulation_sample_limit (cf_runtime cfg)"
  have "moves still (simulate_backup_cycle x home cfg)"
    unfolding simulate_backup_cycle_def simulate_backup_cycle_with_sample_limit_def
    by (auto intro!: still_intros moves_still_simulate_watched)
  moreover have "simulated ?l no_simulation ?l" by (simp add: simulated_def no_simulation_def)
  ultimately show ?thesis
    using movesD [of still "simulate_backup_cycle x home cfg" w r v] assms
    by (fastforce simp: simulate_backup_cycle_def simulate_backup_cycle_with_sample_limit_def still_def ret_Ok_iff simulated_def no_simulation_def
        elim!: bnd_OkE dest!: simulate_fold_Ok [where limit = ?l])
qed

theorem simulation_sound_witness:
  "fs (snd (simulate_backup_cycle sample_ext None sample_config stored_world)) = stored_fs"
  using simulation_sound [of sample_ext None sample_config stored_world, OF prod.collapse [symmetric]]
  by (simp add: stored_world_fs)

end
