(* ===== verification/Unrestorable.thy ===== *)
theory Unrestorable
  imports Restore Sample_Store
begin

text \<open>
  Names that a scan records and a restore refuses. The validation of manifests rejects names that look
  like a drive of another platform, but nothing keeps such a name out of a manifest.
\<close>

lemma fold_or_insert_keys:
  "bt_get es k = Some v \<Longrightarrow>
    bt_get (fold (\<lambda>e acc. if P e then bt_or_insert (me_rel_path e) e acc else acc) xs es) k = Some v"
proof (induction xs arbitrary: es)
  case (Cons a xs)
  have "bt_get (bt_or_insert (me_rel_path a) a es) k = Some v" using Cons.prems by (auto simp: bt_get_or_insert)
  with Cons show ?case by simp
qed simp

lemma carry_forward_keys:
  assumes "bt_get es k \<noteq> None"
  shows "bt_get (carry_forward_prev_prefix es prev rel) k \<noteq> None"
proof -
  from assms obtain v where "bt_get es k = Some v" by auto
  then have "bt_get (carry_forward_prev_prefix es prev rel) k = Some v"
    by (simp add: carry_forward_prev_prefix_def Let_def fold_or_insert_keys split: option.splits)
  then show ?thesis by simp
qed

lemma scan_into_keys:
  "scan_into x tun delays pe prev p rel st s = (Ok st', t) \<Longrightarrow> bt_get (fst st) k \<noteq> None \<Longrightarrow> bt_get (fst st') k \<noteq> None"
  unfolding scan_into_def by (auto simp: ret_Ok_iff bt.get_put elim!: bnd_OkE split: sum.splits option.splits)

lemma scan_item_keys:
  assumes "scan_item x cfg ig delays pe prev sp item st s = (Ok st', t)" and "bt_get (fst st) k \<noteq> None"
  shows "bt_get (fst st') k \<noteq> None"
proof (cases item)
  case (WalkErr p msg)
  then show ?thesis using assms carry_forward_keys by (auto simp: scan_item_def Let_def ret_Ok_iff)
next
  case (WalkEntry p node)
  then show ?thesis
    using assms scan_into_keys
    by (cases node) (auto simp: scan_item_def Let_def ret_Ok_iff bt.get_put split: if_splits)
qed

lemma normalize_rel_single:
  assumes "CHR 0x5C \<notin> set n" and "\<not> prefix ''.'' n"
  shows "normalize_rel [n] = n"
proof -
  have "map (\<lambda>c. if c = CHR 0x5C then CHR ''/'' else c) n = n" using assms(1) by (intro map_idI) auto
  moreover have "\<not> prefix ''./'' n" using assms(2) by (auto simp: prefix_def)
  ultimately show ?thesis by (simp add: normalize_rel_def rel_text_def)
qed

lemma drive_not_hidden: "has_windows_drive_prefix n \<Longrightarrow> \<not> prefix ''.'' n"
  by (auto simp: has_windows_drive_prefix_def is_ascii_alphabetic_def prefix_def)

lemma fold_scan_records:
  assumes "has_windows_drive_prefix n" and "CHR 0x5C \<notin> set n" and "\<not> ig [n]"
  shows "fold_act (scan_item x cfg ig delays pe prev sp) items st s = (Ok st', t) \<Longrightarrow>
    WalkEntry (sp @ [n]) Dir \<in> set items \<or> bt_get (fst st) n \<noteq> None \<Longrightarrow> bt_get (fst st') n \<noteq> None"
proof (induction items arbitrary: st s)
  case Nil
  then show ?case by (auto simp: ret_Ok_iff)
next
  case (Cons i items)
  from Cons.prems(1) obtain st1 s1 where i: "scan_item x cfg ig delays pe prev sp i st s = (Ok st1, s1)"
    and r: "fold_act (scan_item x cfg ig delays pe prev sp) items st1 s1 = (Ok st', t)"
    by (auto elim!: bnd_OkE)
  have "bt_get (fst st1) n \<noteq> None" if "i = WalkEntry (sp @ [n]) Dir"
    using i that assms drive_not_hidden [OF assms(1)] normalize_rel_single [OF assms(2)]
    by (auto simp: scan_item_def strip_prefix_def is_hidden_def Let_def ret_Ok_iff bt.get_put)
  with Cons.prems(2) scan_item_keys [OF i] Cons.IH [OF r] show ?case by auto
qed

text \<open>
  C31: A directory whose name starts with a letter and a colon, an ordinary name on Unix, makes a version
  unrestorable. A scan that meets it in the watched directory records it, and validation refuses the whole
  manifest, so that no file of the version can be restored.
\<close>

theorem drive_name_unrestorable:
  assumes "has_windows_drive_prefix n" and "CHR 0x5C \<notin> set n"
    and "build_ignore_set x (cf_ignore_patterns cfg) = Inr ig" and "\<not> ig [n]"
    and "wp_kind wp = WatchedDirectory" and "WalkEntry (sp @ [n]) Dir \<in> set (x_walk x w sp)"
    and "scan_snapshot x cfg wp sp prev delays w = (Ok m, v)"
  shows "bt_get (mf_entries m) n \<noteq> None \<and> validate_manifest m \<noteq> Inr ()"
proof -
  from assms(3,5,7) obtain u where
    "fold_act (scan_item x cfg ig delays (by_rel_path prev) prev sp) (x_walk x w sp) ([], []) w = (Ok (mf_entries m, mf_read_failures m), u)"
    unfolding scan_snapshot_def by (auto simp: lift_Ok_iff ret_Ok_iff walk_dir_def elim!: bnd_OkE)
  from fold_scan_records [OF assms(1,2,4) this] assms(6) have g: "bt_get (mf_entries m) n \<noteq> None" by simp
  then obtain e where "(n, e) \<in> set (mf_entries m)" by (auto simp: bt_get_def dest: map_of_SomeD)
  then have "validate_manifest m \<noteq> Inr ()"
    using assms(1) by (fastforce simp: validate_manifest_iff validate_relative_path_iff)
  with g show ?thesis by blast
qed

definition drive_world :: world where
  "drive_world = \<lparr>fs = [([''src'', ''c:x''], Dir), ([''src''], Dir)], events = [], now = 0\<rparr>"

lemma drive_walk: "x_walk sample_ext drive_world [''src''] = [WalkEntry [''src''] Dir, WalkEntry [''src'', ''c:x''] Dir]"
  by (simp add: sample_ext_def sample_walk_def drive_world_def node_at_def strict_prefix_def)

lemma drive_scan:
  "\<exists>m. scan_snapshot sample_ext sample_config sample_watched [''src''] None [] drive_world = (Ok m, drive_world)"
  unfolding scan_snapshot_def sample_ignore lift_Inr ret_bnd
  by (simp add: sample_watched_def walk_dir_def bnd_def drive_walk scan_item_def strip_prefix_def is_hidden_def
      sample_config_def ret_def unix_now_def get_now_def Let_def)

theorem drive_name_unrestorable_witness:
  "\<exists>m. scan_snapshot sample_ext sample_config sample_watched [''src''] None [] drive_world = (Ok m, drive_world)
    \<and> validate_manifest m \<noteq> Inr ()"
proof -
  obtain m where m: "scan_snapshot sample_ext sample_config sample_watched [''src''] None [] drive_world = (Ok m, drive_world)"
    using drive_scan by blast
  have "validate_manifest m \<noteq> Inr ()"
    using drive_name_unrestorable [OF _ _ sample_ignore _ _ _ m, of "''c:x''"]
    by (simp add: has_windows_drive_prefix_def is_ascii_alphabetic_def sample_watched_def drive_walk)
  with m show ?thesis by blast
qed

end
